(* ===== verification/Prelude.thy ===== *)
theory Prelude
  imports "HOL-Library.Finite_Map" "HOL-Library.Word"
begin

text \<open>
  What the components share: machine integers, the outcome of running Go code (a value, or
  the way the process dies or stops making progress), Go maps, channels and the loop over a
  slice with a state.

  Go values are modelled as follows.
  \<^item> \<open>uint64\<close>, \<open>uint32\<close>: words of that width; \<open>+\<close> wraps.
  \<^item> \<open>string\<close>, \<open>[]byte\<close>, \<open>json.RawMessage\<close>: lists of 8-bit characters.
  \<^item> A map: a finite map of \<open>HOL-Library.Finite_Map\<close>. A missing inner map is the nil map, so
    assigning into it is a panic that the model writes out. The order in which \<open>range\<close> visits a map is
    chosen by the runtime, so every loop over a map takes that order as an argument, and
    \<open>range_order\<close> says which orders are possible: each key once.
  \<^item> A function value (a callback): its identity, a number. \<open>None\<close> is \<open>nil\<close>.
  \<^item> A panic, a \<open>Fatal\<close> log line and an operation that never returns: the \<open>crash\<close> side of an outcome.
\<close>

section \<open>Machine integers and outcomes\<close>

type_synonym u8 = "8 word"
type_synonym u32 = "32 word"
type_synonym u64 = "64 word"
type_synonym bytes = "char list"
type_synonym uuid = "128 word"
type_synonym func = nat

datatype crash =
    Panic string  \<comment> \<open>a panic that nothing recovers: the process dies\<close>
  | Blocked  \<comment> \<open>a channel operation that no other goroutine will ever complete\<close>
  | Exited  \<comment> \<open>\<open>os.Exit\<close>, as \<open>zerolog\<close>'s \<open>Fatal\<close> level calls it\<close>

definition nil_dereference :: crash where
  "nil_dereference = Panic ''invalid memory address or nil pointer dereference''"

definition nil_map :: crash where
  "nil_map = Panic ''assignment to entry in nil map''"

type_synonym 'a outcome = "crash + 'a"

definition andThen :: "'a outcome \<Rightarrow> ('a \<Rightarrow> 'b outcome) \<Rightarrow> 'b outcome" where
  "andThen m f = (case m of Inl c \<Rightarrow> Inl c | Inr x \<Rightarrow> f x)"

text \<open>
  The values the program puts into \<open>interface{}\<close> maps: \<open>nil\<close>, strings, \<open>int\<close>, \<open>int64\<close>, identifiers, and
  any other value, of which only matters whether \<open>json.Marshal\<close> accepts it.
\<close>

datatype goval =
    VNil
  | VString string
  | VInt int
  | VInt64 int
  | VUUID uuid
  | VOther bool

text \<open>A \<open>for _, x := range xs\<close> over a slice whose body updates a state and may crash.\<close>

fun mfold :: "('a \<Rightarrow> 's \<Rightarrow> 's outcome) \<Rightarrow> 'a list \<Rightarrow> 's \<Rightarrow> 's outcome" where
  "mfold f [] s = Inr s"
| "mfold f (x # xs) s = andThen (f x s) (mfold f xs)"

section \<open>Go maps\<close>

definition mlen :: "('k, 'v) fmap \<Rightarrow> nat" where
  "mlen m = fcard (fmdom m)"

definition range_order :: "('k, 'v) fmap \<Rightarrow> 'k list \<Rightarrow> bool" where
  "range_order m ks \<longleftrightarrow> distinct ks \<and> fset_of_list ks = fmdom m"

text \<open>The inner map stored under a key, the nil map where there is none.\<close>

definition nested :: "('a, ('k, 'v) fmap) fmap \<Rightarrow> 'a \<Rightarrow> ('k, 'v) fmap" where
  "nested m a = (case fmlookup m a of None \<Rightarrow> fmempty | Some n \<Rightarrow> n)"

section \<open>Channels\<close>

text \<open>
  An unbuffered channel as its sender sees it. The list records the values that were handed
  over so far, oldest first. The flag says whether a goroutine is receiving from the channel:
  with none, a send never completes. \<open>NilChan\<close> is the zero value of a channel variable.
\<close>

datatype 'm gochan = NilChan | OpenChan bool "'m list" | ClosedChan "'m list"

fun chan_send :: "'m \<Rightarrow> 'm gochan \<Rightarrow> 'm gochan outcome" where
  "chan_send x NilChan = Inl Blocked"
| "chan_send x (OpenChan recv xs) = (if recv then Inr (OpenChan recv (xs @ [x])) else Inl Blocked)"
| "chan_send x (ClosedChan xs) = Inl (Panic ''send on closed channel'')"

fun chan_close :: "'m gochan \<Rightarrow> 'm gochan outcome" where
  "chan_close NilChan = Inl (Panic ''close of nil channel'')"
| "chan_close (OpenChan recv xs) = Inr (ClosedChan xs)"
| "chan_close (ClosedChan xs) = Inl (Panic ''close of closed channel'')"

fun chan_log :: "'m gochan \<Rightarrow> 'm list" where
  "chan_log NilChan = []"
| "chan_log (OpenChan recv xs) = xs"
| "chan_log (ClosedChan xs) = xs"

fun chan_live :: "'m gochan \<Rightarrow> bool" where
  "chan_live (OpenChan recv xs) = recv"
| "chan_live _ = False"

section \<open>Lemmas on outcomes and loops\<close>

named_theorems outcome_elims

lemma andThen_simps [simp]:
  "andThen (Inl c) f = Inl c"
  "andThen (Inr x) f = f x"
  by (simp_all add: andThen_def)

lemma andThen_Inr_iff: "andThen m f = Inr y \<longleftrightarrow> (\<exists>x. m = Inr x \<and> f x = Inr y)"
  by (cases m) auto

lemma andThen_InrE [outcome_elims]:
  assumes "andThen m f = Inr y"
  obtains x where "m = Inr x" and "f x = Inr y"
  using assms by (auto simp: andThen_Inr_iff)

lemma andThen_assoc: "andThen (andThen m f) g = andThen m (\<lambda>x. andThen (f x) g)"
  by (cases m) auto

lemma mfold_append: "mfold f (xs @ ys) s = andThen (mfold f xs s) (mfold f ys)"
  by (induction xs arbitrary: s) (auto simp: andThen_assoc intro: arg_cong [where f = "andThen _"])

text \<open>The loop rule: an invariant that every iteration keeps holds after the loop.\<close>

lemma mfold_invariant:
  assumes "mfold f xs s = Inr s'" and "P s"
    and "\<And>x s s'. x \<in> set xs \<Longrightarrow> P s \<Longrightarrow> f x s = Inr s' \<Longrightarrow> P s'"
  shows "P s'"
  using assms
proof (induction xs arbitrary: s)
  case Nil
  then show ?case by simp
next
  case (Cons x xs)
  from Cons.prems(1) obtain t where t: "f x s = Inr t" "mfold f xs t = Inr s'"
    by (auto elim: outcome_elims)
  have "P t" using Cons.prems(2,3) t(1) by auto
  with t(2) Cons.prems(3) show ?case by (auto intro: Cons.IH)
qed

text \<open>The loop returns when every iteration does, under an invariant.\<close>

lemma mfold_returns:
  assumes "P s" and "\<And>x s. x \<in> set xs \<Longrightarrow> P s \<Longrightarrow> \<exists>s'. f x s = Inr s' \<and> P s'"
  shows "\<exists>s'. mfold f xs s = Inr s' \<and> P s'"
  using assms
proof (induction xs arbitrary: s)
  case Nil
  then show ?case by simp
next
  case (Cons x xs)
  then obtain t where t: "f x s = Inr t" "P t" by (meson list.set_intros(1))
  have "\<exists>s'. mfold f xs t = Inr s' \<and> P s'"
    by (rule Cons.IH) (use t(2) Cons.prems(2) in auto)
  with t(1) show ?case by simp
qed

lemma mfold_id: "(\<And>x. x \<in> set xs \<Longrightarrow> f x s = Inr s) \<Longrightarrow> mfold f xs s = Inr s"
  by (induction xs) auto

section \<open>Lemmas on maps\<close>

lemma mlen_empty [simp]: "mlen fmempty = 0"
  by (simp add: mlen_def fcard_fempty)

lemma mlen_upd [simp]:
  "mlen (fmupd k v m) = (if k |\<in>| fmdom m then mlen m else Suc (mlen m))"
  by (simp add: mlen_def fcard_finsert_if)

lemma mlen_drop [simp]:
  "mlen (fmdrop k m) = (if k |\<in>| fmdom m then mlen m - 1 else mlen m)"
  by (auto simp: mlen_def fcard_fminus_fsingleton_if)

lemma fmdom_empty_iff: "fmdom m = {||} \<longleftrightarrow> m = fmempty"
  by (metis fmap_ext fmdom_empty fmdom_notD fempty_iff fmempty_lookup)

lemma mlen_0_iff: "mlen m = 0 \<longleftrightarrow> m = fmempty"
  by (simp add: mlen_def fmdom_empty_iff)

lemma mlen_1_lookup:
  assumes "mlen m = Suc 0" and "fmlookup m k = Some v" and "fmlookup m k' = Some v'"
  shows "k' = k"
proof (rule ccontr)
  assume "k' \<noteq> k"
  with assms have "k' |\<in>| fmdom (fmdrop k m)" by (auto intro: fmdomI)
  moreover have "mlen (fmdrop k m) = 0" using assms by (simp add: fmdomI)
  then have "fmdrop k m = fmempty" by (simp only: mlen_0_iff)
  ultimately show False by (metis fempty_iff fmdom_empty)
qed

lemma mlen_pos_iff: "0 < mlen m \<longleftrightarrow> m \<noteq> fmempty"
  using mlen_0_iff [of m] by auto

lemma fmap_nonempty_iff: "m \<noteq> fmempty \<longleftrightarrow> (\<exists>k v. fmlookup m k = Some v)"
  by (metis fmap_ext fmempty_lookup not_None_eq)

lemma fmdom_lookup_iff: "k |\<in>| fmdom m \<longleftrightarrow> fmlookup m k \<noteq> None"
  by (auto simp: fmlookup_dom_iff)

lemma fmdrop_upd_same [simp]: "k |\<notin>| fmdom m \<Longrightarrow> fmdrop k (fmupd k v m) = m"
  by (simp add: fmdrop_fmupd_same fmdrop_idle)

lemma fmupd_idle: "fmlookup m k = Some v \<Longrightarrow> fmupd k v m = m"
  by (rule fmap_ext) auto

lemma range_order_set: "range_order m ks \<Longrightarrow> set ks = fmdom' m"
  by (metis fmdom'_alt_def fset_of_list.rep_eq range_order_def)

lemma range_order_distinct: "range_order m ks \<Longrightarrow> distinct ks"
  by (simp add: range_order_def)

lemma range_order_lookup: "range_order m ks \<Longrightarrow> k \<in> set ks \<longleftrightarrow> fmlookup m k \<noteq> None"
  by (auto simp: range_order_set fmlookup_dom'_iff)

lemma range_order_length: "range_order m ks \<Longrightarrow> length ks = mlen m"
  by (metis distinct_card fcard.rep_eq fset_of_list.rep_eq mlen_def range_order_def)

text \<open>One such order: by increasing keys.\<close>

lemma sorted_range_order: "range_order m (sorted_list_of_fset (fmdom m))"
proof -
  have "distinct (sorted_list_of_fset (fmdom m))" by (simp add: sorted_list_of_fset.rep_eq)
  then show ?thesis by (simp add: range_order_def)
qed

lemma range_order_single:
  assumes "range_order (fmupd k v fmempty) ks"
  shows "ks = [k]"
proof -
  from range_order_set [OF assms] have "set ks = {k}" by auto
  moreover from range_order_length [OF assms] have "length ks = 1" by simp
  ultimately show ?thesis by (cases ks) auto
qed

lemma nested_simps [simp]:
  "fmlookup m a = Some n \<Longrightarrow> nested m a = n"
  "fmlookup m a = None \<Longrightarrow> nested m a = fmempty"
  by (simp_all add: nested_def)

lemma nested_upd: "nested (fmupd a n m) b = (if a = b then n else nested m b)"
  by (simp add: nested_def)

lemma nested_drop: "nested (fmdrop a m) b = (if a = b then fmempty else nested m b)"
  by (simp add: nested_def)

section \<open>Lemmas on channels\<close>

lemma chan_send_log: "chan_send x c = Inr c' \<Longrightarrow> chan_log c' = chan_log c @ [x]"
  by (cases c) (auto split: if_splits)

lemma chan_send_live: "chan_send x c = Inr c' \<Longrightarrow> chan_live c \<and> chan_live c'"
  by (cases c) (auto split: if_splits)

lemma chan_send_returns: "chan_live c \<Longrightarrow> \<exists>c'. chan_send x c = Inr c'"
  by (cases c) auto

end
