(* ===== verification/Errors.thy ===== *)
theory Errors
  imports Go_Strings
begin

text \<open>
  The error values of the program: \<open>utils/errors.go\<close>, \<open>telephonist/error.go\<close>,
  \<open>taskscheduler/errors.go\<close> and the error structs of \<open>taskscheduler\<close>. An \<open>error\<close> interface value is a
  value of \<open>goerror\<close>, one constructor for each dynamic type the code builds or tests for;
  \<open>ErrText\<close> stands for every error of which the code only uses the text. \<open>error_string\<close> is the
  dispatch of the \<open>Error()\<close> method.
\<close>

section \<open>Definitions\<close>

datatype goerror =
    ErrText string
  | ErrErrno nat string
  | ErrChained goerror string nat  \<comment> \<open>\<open>InnerError\<close>, \<open>Message\<close>, \<open>level\<close>\<close>
  | ErrCombined "goerror list"
  | ErrStatus int string string  \<comment> \<open>\<open>Status\<close>, \<open>StatusText\<close>, \<open>ResponseBody\<close>\<close>
  | ErrComposite goerror "goerror list"  \<comment> \<open>\<open>MainError\<close>, \<open>RollbackErrors\<close>\<close>
  | ErrTaskScheduling "goerror list"

definition ChainError :: "string \<Rightarrow> goerror \<Rightarrow> goerror" where
  "ChainError message inner =
     ErrChained inner message (case inner of ErrChained _ _ level \<Rightarrow> level + 1 | _ \<Rightarrow> 0)"

text \<open>The \<open>Error\<close> methods that do not recurse by themselves; \<open>texts\<close> are the texts of the inner errors.\<close>

definition CombinedError_Error :: "string list \<Rightarrow> string" where
  "CombinedError_Error texts =
     (case texts of
        [t] \<Rightarrow> t
      | _ \<Rightarrow> ''Multiple errors occured:'' @ concat (map (\<lambda>t. [nl, tab] @ t) texts))"

definition UnexpectedStatusCode_Error :: "string \<Rightarrow> string \<Rightarrow> string" where
  "UnexpectedStatusCode_Error StatusText ResponseBody =
     ''Unexpected status code: '' @ StatusText @ '', response body: '' @ ResponseBody"

definition CompositeSchedulerError_Error :: "string \<Rightarrow> string" where
  "CompositeSchedulerError_Error mainText = mainText"

definition TaskSchedulingError_Error :: string where
  "TaskSchedulingError_Error = ''TODO''"

text \<open>
  \<open>chain_text\<close> is the loop of \<open>ChainedError.Error\<close> from the point where the prefix is the given
  one: it walks along the \<open>InnerError\<close> links and stops at the first error of another type.
\<close>

fun error_string :: "goerror \<Rightarrow> string" and chain_text :: "string \<Rightarrow> goerror \<Rightarrow> string" where
  "error_string (ErrText s) = s"
| "error_string (ErrErrno n s) = s"
| "error_string (ErrChained inner message level) =
     [nl] @ replace_byte nl ([nl] @ [nl]) message @ chain_text ([nl] @ [tab]) inner"
| "error_string (ErrCombined errs) = CombinedError_Error (map error_string errs)"
| "error_string (ErrStatus status text body) = UnexpectedStatusCode_Error text body"
| "error_string (ErrComposite main rollback) = CompositeSchedulerError_Error (error_string main)"
| "error_string (ErrTaskScheduling errs) = TaskSchedulingError_Error"
| "chain_text prefix (ErrChained inner message level) =
     prefix @ replace_byte nl ([nl] @ prefix) message @ chain_text (prefix @ [tab]) inner"
| "chain_text prefix e = prefix @ replace_byte nl ([nl] @ prefix) (error_string e)"

definition ExtractCombined :: "goerror \<Rightarrow> goerror list \<times> bool" where
  "ExtractCombined err = (case err of ErrCombined es \<Rightarrow> (es, True) | _ \<Rightarrow> ([], False))"

definition IsCombinedError :: "goerror \<Rightarrow> bool" where
  "IsCombinedError err = snd (ExtractCombined err)"

definition MustExtractCombined :: "goerror \<Rightarrow> goerror list outcome" where
  "MustExtractCombined err =
     (case err of ErrCombined es \<Rightarrow> Inr es | _ \<Rightarrow> Inl (Panic ''interface conversion''))"

text \<open>\<open>AddTaskError\<close> renders its text once and keeps it: the method also returns the new struct.\<close>

record add_task_error =
  TriggerErrors :: "goerror option list"
  rendered :: string

definition trigger_error_line :: "nat \<times> goerror option \<Rightarrow> string" where
  "trigger_error_line ie =
     (case ie of (index, None) \<Rightarrow> []
      | (index, Some err) \<Rightarrow>
          [nl, tab] @ ''['' @ itoa (int index) @ '']: '' @ error_string err)"

definition AddTaskError_Error :: "add_task_error \<Rightarrow> string \<times> add_task_error" where
  "AddTaskError_Error e =
     (let e' =
        (if rendered e = [] then
           e\<lparr>rendered :=
             ''Following triggers' registration errored ('' @
             itoa (int (length (filter (\<lambda>x. x \<noteq> None) (TriggerErrors e)))) @ '' in total)'' @
             concat (map trigger_error_line (enumerate 0 (TriggerErrors e)))\<rparr>
         else e)
      in (rendered e', e'))"

text \<open>The errors of a chain from the outermost, and how many of them wrap another one.\<close>

fun chain_messages :: "goerror \<Rightarrow> string list" where
  "chain_messages (ErrChained inner message level) = message # chain_messages inner"
| "chain_messages e = [error_string e]"

fun chain_depth :: "goerror \<Rightarrow> nat" where
  "chain_depth (ErrChained inner message level) = Suc (chain_depth inner)"
| "chain_depth _ = 0"

text \<open>What \<open>ChainError\<close> keeps true of the field \<open>level\<close>: it is the number of links below.\<close>

fun well_levelled :: "goerror \<Rightarrow> bool" where
  "well_levelled (ErrChained inner message level) \<longleftrightarrow>
     well_levelled inner \<and> level = chain_depth inner"
| "well_levelled _ = True"

text \<open>
  The text of a chain of messages without line breaks: the message at depth \<open>k\<close> stands on a
  line of its own, after \<open>k\<close> tabs.
\<close>

definition chain_line :: "nat \<times> string \<Rightarrow> string" where
  "chain_line km = [nl] @ replicate (fst km) tab @ snd km"

section \<open>Lemmas\<close>

lemma ChainError_well_levelled:
  "well_levelled inner \<Longrightarrow> well_levelled (ChainError message inner)"
  by (cases inner) (auto simp: ChainError_def)

lemma replicate_snoc: "replicate k x @ [x] = replicate (Suc k) x"
  by (simp add: replicate_append_same)

lemma chain_text_lines:
  assumes "\<forall>m \<in> set (chain_messages e). nl \<notin> set m"
  shows "chain_text ([nl] @ replicate k tab) e =
    concat (map chain_line (enumerate k (chain_messages e)))"
  using assms
proof (induction e arbitrary: k)
  case (ErrChained inner message level)
  then show ?case
    using ErrChained.IH [of "Suc k"]
    by (simp add: chain_line_def replace_byte_no_sep replicate_append_same [symmetric])
qed (simp_all add: chain_line_def replace_byte_no_sep)

end
