(* ===== verification/Json_Text.thy ===== *)
theory Json_Text
  imports Go_Strings
begin

text \<open>
  What the program uses of \<open>encoding/json\<close>: \<open>json.Unmarshal\<close> of a raw message into a \<open>*string\<close>
  (the bodies of triggers and tasks). The result is \<open>None\<close> where \<open>Unmarshal\<close> returns an error:
  bytes that are not JSON, and JSON that is neither a string nor \<open>null\<close>. \<open>null\<close> leaves the string as
  it is, and the program always passes a fresh, empty one. As the package does, escapes are
  decoded, a lone surrogate and every byte that is not part of well-formed UTF-8 become
  U+FFFD, and control characters are rejected.
\<close>

section \<open>Definitions\<close>

definition dquote :: char where "dquote = CHR 0x22"

definition backslash :: char where "backslash = CHR 0x5C"

definition json_space :: "char \<Rightarrow> bool" where
  "json_space c \<longleftrightarrow> c = CHR 0x20 \<or> c = tab \<or> c = nl \<or> c = cr"

abbreviation byte :: "char \<Rightarrow> nat" where "byte c \<equiv> of_char c"

definition between :: "nat \<Rightarrow> nat \<Rightarrow> char \<Rightarrow> bool" where
  "between lo hi c \<longleftrightarrow> lo \<le> byte c \<and> byte c \<le> hi"

definition hex_digit :: "char \<Rightarrow> nat option" where
  "hex_digit c =
     (if between 48 57 c then Some (byte c - 48)
      else if between 97 102 c then Some (byte c - 87)
      else if between 65 70 c then Some (byte c - 55)
      else None)"

text \<open>The value of the four hexadecimal digits at the head of the input.\<close>

definition hex4 :: "bytes \<Rightarrow> nat option" where
  "hex4 cs =
     (case map hex_digit (take 4 cs) of
        [Some a, Some b, Some c, Some d] \<Rightarrow> Some (((a * 16 + b) * 16 + c) * 16 + d)
      | _ \<Rightarrow> None)"

text \<open>\<open>utf8.EncodeRune\<close>: surrogates and values out of range become U+FFFD.\<close>

definition encode_rune :: "nat \<Rightarrow> bytes" where
  "encode_rune r =
     (if r < 0x80 then [char_of r]
      else if r < 0x800 then [char_of (0xC0 + r div 64), char_of (0x80 + r mod 64)]
      else if 0xD800 \<le> r \<and> r < 0xE000 \<or> 0x110000 \<le> r then [CHR 0xEF, CHR 0xBF, CHR 0xBD]
      else if r < 0x10000 then
        [char_of (0xE0 + r div 4096), char_of (0x80 + r div 64 mod 64), char_of (0x80 + r mod 64)]
      else
        [char_of (0xF0 + r div 262144), char_of (0x80 + r div 4096 mod 64),
         char_of (0x80 + r div 64 mod 64), char_of (0x80 + r mod 64)])"

text \<open>\<open>utf8.DecodeRune\<close>: the length of the well-formed sequence at the head, 0 if there is none.\<close>

fun utf8_len :: "bytes \<Rightarrow> nat" where
  "utf8_len (a # b # c # d # _) =
     (if byte a < 0x80 then 1
      else if between 0xC2 0xDF a \<and> between 0x80 0xBF b then 2
      else if (byte a = 0xE0 \<and> between 0xA0 0xBF b
        \<or> (between 0xE1 0xEC a \<or> between 0xEE 0xEF a) \<and> between 0x80 0xBF b
        \<or> byte a = 0xED \<and> between 0x80 0x9F b) \<and> between 0x80 0xBF c then 3
      else if (byte a = 0xF0 \<and> between 0x90 0xBF b
        \<or> between 0xF1 0xF3 a \<and> between 0x80 0xBF b
        \<or> byte a = 0xF4 \<and> between 0x80 0x8F b) \<and> between 0x80 0xBF c \<and> between 0x80 0xBF d then 4
      else 0)"
| "utf8_len [a, b, c] =
     (if byte a < 0x80 then 1
      else if between 0xC2 0xDF a \<and> between 0x80 0xBF b then 2
      else if (byte a = 0xE0 \<and> between 0xA0 0xBF b
        \<or> (between 0xE1 0xEC a \<or> between 0xEE 0xEF a) \<and> between 0x80 0xBF b
        \<or> byte a = 0xED \<and> between 0x80 0x9F b) \<and> between 0x80 0xBF c then 3
      else 0)"
| "utf8_len [a, b] =
     (if byte a < 0x80 then 1 else if between 0xC2 0xDF a \<and> between 0x80 0xBF b then 2 else 0)"
| "utf8_len [a] = (if byte a < 0x80 then 1 else 0)"
| "utf8_len [] = 0"

definition simple_escape :: "char \<Rightarrow> char option" where
  "simple_escape c =
     (if c = dquote \<or> c = backslash \<or> c = CHR ''/'' then Some c
      else if c = CHR ''b'' then Some (CHR 0x08)
      else if c = CHR ''f'' then Some (CHR 0x0C)
      else if c = CHR ''n'' then Some nl
      else if c = CHR ''r'' then Some cr
      else if c = CHR ''t'' then Some tab
      else None)"

text \<open>
  What a \<open>\u\<close> escape with the value \<open>r\<close> stands for, the input after its digits being \<open>cs\<close>: the
  bytes, and how much of \<open>cs\<close> belongs to it (6 for the second half of a surrogate pair).
\<close>

definition unicode_escape :: "nat \<Rightarrow> bytes \<Rightarrow> bytes \<times> nat" where
  "unicode_escape r cs =
     (if 0xD800 \<le> r \<and> r < 0xDC00 \<and> take 2 cs = [backslash, CHR ''u''] then
        (case hex4 (drop 2 cs) of
           Some r2 \<Rightarrow>
             (if 0xDC00 \<le> r2 \<and> r2 < 0xE000
              then (encode_rune (0x10000 + (r - 0xD800) * 1024 + (r2 - 0xDC00)), 6)
              else (encode_rune r, 0))
         | None \<Rightarrow> (encode_rune r, 0))
      else (encode_rune r, 0))"

definition prepend :: "bytes \<Rightarrow> (bytes \<times> bytes) option \<Rightarrow> (bytes \<times> bytes) option" where
  "prepend xs = map_option (\<lambda>(ys, rest). (xs @ ys, rest))"

text \<open>The rest of a string literal after its opening quote: its value, and the input after it.\<close>

function json_literal :: "bytes \<Rightarrow> (bytes \<times> bytes) option" where
  "json_literal [] = None"
| "json_literal (c # cs) =
     (if c = dquote then Some ([], cs)
      else if byte c < 0x20 then None
      else if c = backslash then
        (case cs of
           [] \<Rightarrow> None
         | e # es \<Rightarrow>
             (if e = CHR ''u'' then
                (case hex4 es of
                   None \<Rightarrow> None
                 | Some r \<Rightarrow>
                     prepend (fst (unicode_escape r (drop 4 es)))
                       (json_literal (drop (4 + snd (unicode_escape r (drop 4 es))) es)))
              else
                (case simple_escape e of
                   None \<Rightarrow> None
                 | Some x \<Rightarrow> prepend [x] (json_literal es))))
      else if byte c < 0x80 then prepend [c] (json_literal cs)
      else if utf8_len (c # cs) = 0 then prepend (encode_rune 0xFFFD) (json_literal cs)
      else prepend (take (utf8_len (c # cs)) (c # cs))
             (json_literal (drop (utf8_len (c # cs) - 1) cs)))"
  by pat_completeness auto
termination
  by (relation "measure length") auto

definition json_string :: "bytes \<Rightarrow> string option" where
  "json_string body =
     (case dropWhile json_space body of
        [] \<Rightarrow> None
      | c # cs \<Rightarrow>
          (if c = dquote then
             (case json_literal cs of
                Some (s, rest) \<Rightarrow> if list_all json_space rest then Some s else None
              | None \<Rightarrow> None)
           else if has_prefix (c # cs) ''null'' \<and> list_all json_space (drop 4 (c # cs)) then Some []
           else None))"

text \<open>
  Strings whose JSON form is the string between two quotes: printable ASCII without a quote or
  a backslash.
\<close>

definition plain :: "string \<Rightarrow> bool" where
  "plain s \<longleftrightarrow> list_all (\<lambda>c. between 0x20 0x7E c \<and> c \<noteq> dquote \<and> c \<noteq> backslash) s"

definition quoted :: "string \<Rightarrow> bytes" where
  "quoted s = [dquote] @ s @ [dquote]"

section \<open>Lemmas\<close>

lemma json_literal_plain: "plain s \<Longrightarrow> json_literal (s @ dquote # rest) = Some (s, rest)"
  by (induction s) (auto simp: plain_def between_def prepend_def)

lemma json_string_quoted: "plain s \<Longrightarrow> json_string (quoted s) = Some s"
  using json_literal_plain [of s "[]"]
  by (simp add: json_string_def quoted_def json_space_def dquote_def tab_def nl_def cr_def)

lemma json_string_empty [simp]: "json_string [] = None"
  by (simp add: json_string_def)

end
