(* ===== verification/Telephonist_Types.thy ===== *)
theory Telephonist_Types
  imports Errors Json_Text
begin

text \<open>
  \<open>telephonist/types.go\<close>: triggers, tasks and log records, the hash that identifies a trigger, and
  the decoding of the JSON bodies. Structs are records whose fields carry the struct's name. A pointer to a
  trigger or a task is the value it points to: the program never writes through such a pointer
  after the JSON decoder made the value. Nil pointers inside decoded task lists are not modelled.
\<close>

section \<open>Definitions\<close>

unbundle bit_operations_syntax

definition TRIGGER_CRON :: string where "TRIGGER_CRON = ''cron''"

definition TRIGGER_EVENT :: string where "TRIGGER_EVENT = ''event''"

definition TRIGGER_FSNOTIFY :: string where "TRIGGER_FSNOTIFY = ''fsnotify''"

record task_trigger =
  trigger_Name :: string
  trigger_Body :: bytes
  trigger_Disabled :: bool

subsection \<open>Trigger identifiers\<close>

text \<open>
  \<open>hash/fnv\<close>'s 64-bit FNV-1a: the state starts at the offset basis, and each byte is combined with
  it by an exclusive or and a multiplication.
\<close>

definition fnv_offset64 :: u64 where "fnv_offset64 = 14695981039346656037"

definition fnv_prime64 :: u64 where "fnv_prime64 = 1099511628211"

definition fnv_byte :: "char \<Rightarrow> u64 \<Rightarrow> u64" where
  "fnv_byte c h = (h XOR of_nat (byte c)) * fnv_prime64"

definition fnv_write :: "u64 \<Rightarrow> bytes \<Rightarrow> u64" where
  "fnv_write h bs = fold fnv_byte bs h"

text \<open>
  \<open>GetID\<close> works on the package variable \<open>_fnvHash\<close>, which all triggers share: the state of that
  hash goes in and comes out. \<open>trigger_id\<close> is the identifier in a program that only touches
  the hash through \<open>GetID\<close>.
\<close>

definition GetID :: "task_trigger \<Rightarrow> u64 \<Rightarrow> u64 \<times> u64" where
  "GetID trigger fnvHash =
     (let h1 = fnv_write fnvHash (trigger_Name trigger);
          h2 = fnv_write h1 [CHR 0x00];
          h3 = fnv_write h2 (trigger_Body trigger)
      in (h3, fnv_offset64))"

definition trigger_id :: "task_trigger \<Rightarrow> u64" where
  "trigger_id trigger = fst (GetID trigger fnv_offset64)"

text \<open>A run of \<open>GetID\<close> calls, one after another, on the shared hash.\<close>

fun GetID_all :: "task_trigger list \<Rightarrow> u64 \<Rightarrow> u64 list" where
  "GetID_all [] h = []"
| "GetID_all (t # ts) h = fst (GetID t h) # GetID_all ts (snd (GetID t h))"

definition hashed_bytes :: "task_trigger \<Rightarrow> bytes" where
  "hashed_bytes t = trigger_Name t @ [CHR 0x00] @ trigger_Body t"

text \<open>The prime is odd, hence invertible modulo \<open>2 ^ 64\<close>.\<close>

definition fnv_prime64_inverse :: u64 where "fnv_prime64_inverse = 14886173955864302971"

subsection \<open>Bodies\<close>

text \<open>
  The pointer a caller of \<open>Unmarshal\<close> passes: a \<open>*string\<close>, or the nil interface, which
  \<open>json.Unmarshal\<close> always refuses.
\<close>

datatype unmarshal_target = NilTarget | StringTarget

definition Unmarshal :: "bytes \<Rightarrow> unmarshal_target \<Rightarrow> goerror + string" where
  "Unmarshal body ptr =
     (case ptr of
        NilTarget \<Rightarrow> Inl (ErrText ''json: Unmarshal(nil)'')
      | StringTarget \<Rightarrow>
          (case json_string body of
             None \<Rightarrow> Inl (ErrText ''json: cannot unmarshal'')
           | Some s \<Rightarrow> Inr s))"

definition Trigger_MustString :: "task_trigger \<Rightarrow> string outcome" where
  "Trigger_MustString t =
     (case Unmarshal (trigger_Body t) StringTarget of
        Inl err \<Rightarrow> Inl (Panic (error_string err))
      | Inr s \<Rightarrow> Inr s)"

text \<open>
  Go's \<open>switch\<close> does not fall through: only the \<open>fsnotify\<close> case gives \<open>ptr\<close> a value.
\<close>

definition Trigger_Validate :: "task_trigger \<Rightarrow> goerror option" where
  "Trigger_Validate t =
     (let check = (\<lambda>ptr. case Unmarshal (trigger_Body t) ptr of
            Inl err \<Rightarrow> Some (ErrText ''invalid trigger body'')
          | Inr s \<Rightarrow> None)
      in if trigger_Name t = TRIGGER_CRON then check NilTarget
         else if trigger_Name t = TRIGGER_EVENT then check NilTarget
         else if trigger_Name t = TRIGGER_FSNOTIFY then check StringTarget
         else Some (ErrText ''invalid trigger type''))"

subsection \<open>Tasks and log records\<close>

definition TASK_TYPE_EXEC :: string where "TASK_TYPE_EXEC = ''exec''"

definition TASK_TYPE_SCRIPT :: string where "TASK_TYPE_SCRIPT = ''script''"

definition TASK_TYPE_ARBITRARY :: string where "TASK_TYPE_ARBITRARY = ''arbitrary''"

record task_body =
  body_Value :: bytes
  body_Type :: string

record defined_task =
  task_Name :: string
  task_Description :: string
  task_Body :: task_body
  task_Env :: "(string, string) fmap"
  task_Tags :: "string list"
  task_Triggers :: "task_trigger list"
  task_ID :: uuid
  task_LastUpdated :: int
  task_Disabled :: bool

definition Task_MustString :: "defined_task \<Rightarrow> string outcome" where
  "Task_MustString t =
     (case Unmarshal (body_Value (task_Body t)) StringTarget of
        Inl err \<Rightarrow> Inl (Panic ''DefinedTask.MustString'')
      | Inr s \<Rightarrow> Inr s)"

datatype log_severity =
    SEVERITY_UNKNOWN
  | SEVERITY_DEBUG
  | SEVERITY_INFO
  | SEVERITY_WARNING
  | SEVERITY_ERROR
  | SEVERITY_FATAL

fun severity_code :: "log_severity \<Rightarrow> int" where
  "severity_code SEVERITY_UNKNOWN = 0"
| "severity_code SEVERITY_DEBUG = 10"
| "severity_code SEVERITY_INFO = 20"
| "severity_code SEVERITY_WARNING = 30"
| "severity_code SEVERITY_ERROR = 40"
| "severity_code SEVERITY_FATAL = 50"

text \<open>\<open>LogSeverity\<close> is an integer type: severities compare by their codes.\<close>

instantiation log_severity :: linorder
begin

definition less_eq_log_severity :: "log_severity \<Rightarrow> log_severity \<Rightarrow> bool" where
  "less_eq_log_severity a b \<longleftrightarrow> severity_code a \<le> severity_code b"

definition less_log_severity :: "log_severity \<Rightarrow> log_severity \<Rightarrow> bool" where
  "less_log_severity a b \<longleftrightarrow> severity_code a < severity_code b"

instance
proof
  fix a b c :: log_severity
  show "a < b \<longleftrightarrow> a \<le> b \<and> \<not> b \<le> a" and "a \<le> a" and "a \<le> b \<or> b \<le> a"
    and "a \<le> b \<Longrightarrow> b \<le> c \<Longrightarrow> a \<le> c"
    by (auto simp: less_eq_log_severity_def less_log_severity_def)
  show "a \<le> b \<Longrightarrow> b \<le> a \<Longrightarrow> a = b"
    by (cases a; cases b; simp add: less_eq_log_severity_def)
qed

end

record log_record =
  rec_Time :: int
  rec_Severity :: log_severity
  rec_Body :: string

section \<open>Lemmas\<close>

lemmas trigger_types = TRIGGER_CRON_def TRIGGER_EVENT_def TRIGGER_FSNOTIFY_def

lemma fnv_prime64_invertible: "fnv_prime64 * fnv_prime64_inverse = 1"
  by (simp add: fnv_prime64_def fnv_prime64_inverse_def)

lemma fnv_prime64_cancel: "x * fnv_prime64 = y * fnv_prime64 \<longleftrightarrow> x = y"
proof
  assume "x * fnv_prime64 = y * fnv_prime64"
  then have "x * (fnv_prime64 * fnv_prime64_inverse) = y * (fnv_prime64 * fnv_prime64_inverse)"
    by (metis mult.assoc)
  then show "x = y" by (simp add: fnv_prime64_invertible)
qed simp

lemma xor_right_cancel: "(x :: 'a::len word) XOR a = y XOR a \<longleftrightarrow> x = y"
  by (metis xor.assoc xor.right_neutral xor_self_eq)

lemma fnv_byte_inject: "fnv_byte c h = fnv_byte c h' \<longleftrightarrow> h = h'"
  by (simp add: fnv_byte_def fnv_prime64_cancel xor_right_cancel)

lemma byte_word_inject: "(of_nat (byte c) :: u64) = of_nat (byte d) \<longleftrightarrow> c = d"
proof
  assume "(of_nat (byte c) :: u64) = of_nat (byte d)"
  then have "unat (of_nat (byte c) :: u64) = unat (of_nat (byte d) :: u64)" by simp
  moreover have "unat (of_nat (byte x) :: u64) = byte x" for x
  proof -
    have "byte x < 18446744073709551616"
      by (rule less_trans [OF nat_of_char_less_256]) simp
    then show ?thesis by (simp add: unat_of_nat take_bit_eq_mod)
  qed
  ultimately show "c = d" by simp
qed simp

lemma fnv_byte_inject_byte: "fnv_byte c h = fnv_byte d h \<longleftrightarrow> c = d"
  by (simp add: fnv_byte_def fnv_prime64_cancel byte_word_inject
      xor_right_cancel [where a = h] xor.commute [of h])

lemma fnv_write_simps [simp]:
  "fnv_write h [] = h"
  "fnv_write h (c # cs) = fnv_write (fnv_byte c h) cs"
  "fnv_write h (xs @ ys) = fnv_write (fnv_write h xs) ys"
  by (simp_all add: fnv_write_def)

lemma fnv_write_inject: "fnv_write h bs = fnv_write h' bs \<longleftrightarrow> h = h'"
  by (induction bs arbitrary: h h') (simp_all add: fnv_byte_inject)

lemma trigger_id_hashed: "trigger_id t = fnv_write fnv_offset64 (hashed_bytes t)"
  by (simp add: trigger_id_def GetID_def hashed_bytes_def Let_def)

lemma GetID_reset: "snd (GetID t h) = fnv_offset64"
  by (simp add: GetID_def Let_def)

lemma Trigger_MustString_eq:
  "Trigger_MustString t = (case json_string (trigger_Body t) of
     None \<Rightarrow> Inl (Panic ''json: cannot unmarshal'') | Some s \<Rightarrow> Inr s)"
  by (simp add: Trigger_MustString_def Unmarshal_def split: option.splits)

lemma Unmarshal_string_iff:
  "(\<exists>s. Unmarshal body StringTarget = Inr s) \<longleftrightarrow> json_string body \<noteq> None"
  by (auto simp: Unmarshal_def split: option.splits)

section \<open>Properties\<close>

text \<open>The identifier of a trigger does not depend on the calls before: any sequence of
  \<open>GetID\<close> calls that starts from a fresh hash gives each trigger its own identifier.\<close>

theorem GetID_calls_independent: "GetID_all ts fnv_offset64 = map trigger_id ts"
  by (induction ts) (simp_all add: trigger_id_def GetID_reset)

text \<open>C38. Two triggers of one kind whose bodies differ in exactly one byte have different
  identifiers: every step of the hash is a bijection of its 64-bit state.\<close>

theorem trigger_id_one_byte:
  assumes "trigger_Name t = trigger_Name u"
    and "trigger_Body t = xs @ a # ys" and "trigger_Body u = xs @ b # ys" and "a \<noteq> b"
  shows "trigger_id t \<noteq> trigger_id u"
  using assms by (simp add: trigger_id_hashed hashed_bytes_def fnv_write_inject fnv_byte_inject_byte)

theorem trigger_id_one_byte_witness:
  "trigger_id \<lparr>trigger_Name = ''cron'', trigger_Body = ''* 1'', trigger_Disabled = False\<rparr> \<noteq>
   trigger_id \<lparr>trigger_Name = ''cron'', trigger_Body = ''* 2'', trigger_Disabled = False\<rparr>"
  by (rule trigger_id_one_byte [where xs = "''* ''" and a = "CHR ''1''" and b = "CHR ''2''" and ys = "[]"])
    simp_all

text \<open>The bytes that \<open>GetID\<close> hashes determine the kind and the body of a trigger, since no
  kind contains a zero byte: two different triggers can only share an identifier by a
  collision of the hash.\<close>

theorem hashed_bytes_inject:
  assumes "CHR 0x00 \<notin> set (trigger_Name t)" and "CHR 0x00 \<notin> set (trigger_Name u)"
    and "hashed_bytes t = hashed_bytes u"
  shows "trigger_Name t = trigger_Name u \<and> trigger_Body t = trigger_Body u"
proof -
  have "split_byte (CHR 0x00) (hashed_bytes v) =
      trigger_Name v # split_byte (CHR 0x00) (trigger_Body v)"
    if "CHR 0x00 \<notin> set (trigger_Name v)" for v
    using that by (simp add: hashed_bytes_def split_byte_sep)
  with assms have "trigger_Name t = trigger_Name u" by (metis list.inject)
  with assms(3) show ?thesis by (simp add: hashed_bytes_def)
qed

theorem hashed_bytes_inject_witness:
  "hashed_bytes \<lparr>trigger_Name = TRIGGER_CRON, trigger_Body = ''1'', trigger_Disabled = False\<rparr> =
   hashed_bytes \<lparr>trigger_Name = TRIGGER_CRON, trigger_Body = ''1'', trigger_Disabled = True\<rparr> \<and>
   TRIGGER_CRON = ''cron''"
proof -
  let ?t = "\<lparr>trigger_Name = TRIGGER_CRON, trigger_Body = ''1'', trigger_Disabled = False\<rparr>"
  let ?u = "\<lparr>trigger_Name = TRIGGER_CRON, trigger_Body = ''1'', trigger_Disabled = True\<rparr>"
  have eq: "hashed_bytes ?t = hashed_bytes ?u" by (simp add: hashed_bytes_def)
  have "trigger_Name ?t = trigger_Name ?u \<and> trigger_Body ?t = trigger_Body ?u"
    by (rule hashed_bytes_inject) (simp_all add: hashed_bytes_def trigger_types)
  with eq show ?thesis by (simp add: trigger_types)
qed

text \<open>\<open>Validate\<close> rejects every \<open>cron\<close> and every \<open>event\<close> trigger, whatever its body, with
  the error for a malformed body; it accepts a trigger exactly when it is an
  \<open>fsnotify\<close> trigger with a JSON string (or \<open>null\<close>) as its body.\<close>

theorem Trigger_Validate_characterised:
  "Trigger_Validate t =
     (if trigger_Name t = TRIGGER_FSNOTIFY \<and> json_string (trigger_Body t) \<noteq> None then None
      else if trigger_Name t \<in> {TRIGGER_CRON, TRIGGER_EVENT, TRIGGER_FSNOTIFY}
      then Some (ErrText ''invalid trigger body'')
      else Some (ErrText ''invalid trigger type''))"
  by (auto simp: Trigger_Validate_def Unmarshal_def trigger_types split: option.splits)

text \<open>\<open>MustString\<close> of a trigger whose body is a quoted plain string is that string.\<close>

theorem Trigger_MustString_quoted:
  assumes "plain s" and "trigger_Body t = quoted s"
  shows "Trigger_MustString t = Inr s"
  using assms by (simp add: Trigger_MustString_eq json_string_quoted)

theorem Trigger_MustString_quoted_witness:
  "Trigger_MustString \<lparr>trigger_Name = ''event'', trigger_Body = quoted ''user@login'',
     trigger_Disabled = False\<rparr> = Inr ''user@login''"
  by (rule Trigger_MustString_quoted) (simp_all add: plain_def between_def dquote_def backslash_def)

end
