(* ===== verification/Triggers_Scheduler.thy ===== *)
theory Triggers_Scheduler
  imports Telephonist_Types
begin

text \<open>
  The interface \<open>TriggersScheduler\<close> of \<open>taskscheduler/trigger_scheduler.go\<close>, and the path helpers of
  \<open>taskscheduler/utils.go\<close>. An interface value is a state together with a table of its methods. A method
  works on the state of the scheduler and on a world that the schedulers share (the WebSocket
  client); pairs \<open>(id, err)\<close> are sums, since every method returns either an error or a usable identifier.
  The locale states what every implementation in the program keeps; the clients of the
  interface are proved on it.
\<close>

section \<open>Definitions\<close>

record triggered_event =
  te_TriggerID :: u64
  te_Trigger :: task_trigger
  te_Params :: "(string, goval) fmap"

text \<open>The calls a scheduler makes of its callback, in order.\<close>

type_synonym calls = "(func \<times> triggered_event) list"

text \<open>\<open>TriggersSchedulerInfo\<close>: name, allowed trigger types, details.\<close>

datatype sched_info = SchedInfo string "string list" sched_details
  and sched_details = NoDetails | Uses string | Children "sched_info list"

fun AllowedTriggerTypes :: "sched_info \<Rightarrow> string list" where
  "AllowedTriggerTypes (SchedInfo name allowed details) = allowed"

record ('c, 'w) triggers_ops =
  op_CanSchedule :: "'c \<Rightarrow> string \<Rightarrow> bool"
  op_Schedule :: "task_trigger \<Rightarrow> 'c \<times> 'w \<Rightarrow> ((goerror + u64) \<times> 'c \<times> 'w) outcome"
  op_ScheduleByID :: "u64 \<Rightarrow> task_trigger \<Rightarrow> 'c \<times> 'w \<Rightarrow> ((goerror + u64) \<times> 'c \<times> 'w) outcome"
  op_Unschedule :: "u64 \<Rightarrow> 'c \<times> 'w \<Rightarrow> ((goerror option \<times> bool) \<times> 'c \<times> 'w) outcome"
  op_Start :: "'c \<times> 'w \<Rightarrow> (goerror option \<times> 'c \<times> 'w) outcome"
  op_Stop :: "'c \<times> 'w \<Rightarrow> ('c \<times> 'w) outcome"
  op_IsRunning :: "'c \<Rightarrow> bool"
  op_SetCallback :: "func option \<Rightarrow> 'c \<Rightarrow> 'c"
  op_Explain :: "'c \<Rightarrow> sched_info"

subsection \<open>Paths\<close>

definition matchesPath :: "string \<Rightarrow> string \<Rightarrow> bool" where
  "matchesPath root path = has_prefix path root"

definition normalizePath :: "string \<Rightarrow> string" where
  "normalizePath path =
     (let path1 = (if \<not> has_prefix path ''/'' then ''/'' @ path else path)
      in trim_suffix path1 ''/'')"

section \<open>The contract\<close>

text \<open>A client's calls, their results ignored.\<close>

datatype sched_call = CallSchedule u64 task_trigger | CallUnschedule u64

fun sched_step :: "('c, 'w) triggers_ops \<Rightarrow> sched_call \<Rightarrow> 'c \<times> 'w \<Rightarrow> ('c \<times> 'w) outcome" where
  "sched_step ops (CallSchedule i t) cw = andThen (op_ScheduleByID ops i t cw) (\<lambda>r. Inr (snd r))"
| "sched_step ops (CallUnschedule i) cw = andThen (op_Unschedule ops i cw) (\<lambda>r. Inr (snd r))"

definition sched_run :: "('c, 'w) triggers_ops \<Rightarrow> sched_call list \<Rightarrow> 'c \<times> 'w \<Rightarrow> ('c \<times> 'w) outcome" where
  "sched_run ops calls cw = mfold (sched_step ops) calls cw"

fun scheduled_ids :: "sched_call list \<Rightarrow> u64 set" where
  "scheduled_ids [] = {}"
| "scheduled_ids (CallSchedule i t # calls) = insert i (scheduled_ids calls)"
| "scheduled_ids (CallUnschedule i # calls) = scheduled_ids calls"

fun scheduled_triggers :: "sched_call list \<Rightarrow> task_trigger list" where
  "scheduled_triggers [] = []"
| "scheduled_triggers (CallSchedule i t # calls) = t # scheduled_triggers calls"
| "scheduled_triggers (CallUnschedule i # calls) = scheduled_triggers calls"

text \<open>
  \<open>ids\<close> are the identifiers a scheduler has on its books, \<open>rdy\<close> its own well-formedness, \<open>live\<close>
  that of the world. A trigger can be scheduled when the scheduler accepts its kind and its
  body decodes to a string.
\<close>

definition decodable :: "task_trigger \<Rightarrow> bool" where
  "decodable t \<longleftrightarrow> json_string (trigger_Body t) \<noteq> None"

locale triggers_scheduler =
  fixes ops :: "('c, 'w) triggers_ops"
    and ids :: "'c \<Rightarrow> u64 set"
    and rdy :: "'c \<Rightarrow> bool"
    and live :: "'w \<Rightarrow> bool"
  assumes sched_ok: "op_ScheduleByID ops i t (c, w) = Inr (Inr j, c', w') \<Longrightarrow>
      j = i \<and> ids c' = insert i (ids c)"
    and sched_err: "op_ScheduleByID ops i t (c, w) = Inr (Inl err, c', w') \<Longrightarrow> ids c' = ids c"
    and sched_can: "op_ScheduleByID ops i t (c, w) = Inr (r, c', w') \<Longrightarrow>
      op_CanSchedule ops c' = op_CanSchedule ops c"
    and sched_returns: "rdy c \<Longrightarrow> live w \<Longrightarrow> op_CanSchedule ops c (trigger_Name t) \<Longrightarrow> decodable t \<Longrightarrow>
      \<exists>r c' w'. op_ScheduleByID ops i t (c, w) = Inr (r, c', w') \<and> rdy c' \<and> live w'"
    and unsched_unknown: "i \<notin> ids c \<Longrightarrow> \<exists>err. op_Unschedule ops i (c, w) = Inr ((err, False), c, w)"
    and unsched_ids: "op_Unschedule ops i (c, w) = Inr (u, c', w') \<Longrightarrow>
      ids c - {i} \<subseteq> ids c' \<and> ids c' \<subseteq> ids c"
    and unsched_can: "op_Unschedule ops i (c, w) = Inr (u, c', w') \<Longrightarrow>
      op_CanSchedule ops c' = op_CanSchedule ops c"
    and unsched_returns: "rdy c \<Longrightarrow> live w \<Longrightarrow>
      \<exists>u c' w'. op_Unschedule ops i (c, w) = Inr (u, c', w') \<and> rdy c' \<and> live w'"
    and setcb_ids: "ids (op_SetCallback ops cb c) = ids c"
    and setcb_can: "op_CanSchedule ops (op_SetCallback ops cb c) = op_CanSchedule ops c"
    and setcb_rdy: "rdy (op_SetCallback ops cb c) = rdy c"
begin

lemma sched_ids_grow:
  "op_ScheduleByID ops i t (c, w) = Inr (r, c', w') \<Longrightarrow> ids c \<subseteq> ids c' \<and> ids c' \<subseteq> insert i (ids c)"
  by (cases r) (auto dest: sched_ok sched_err)

text \<open>A sequence of calls, results ignored, never forgets an identifier by scheduling.\<close>

lemma sched_other:
  assumes "op_ScheduleByID ops i t (c, w) = Inr (r, c', w')" and "j \<noteq> i"
  shows "j \<in> ids c' \<longleftrightarrow> j \<in> ids c"
  using sched_ids_grow [OF assms(1)] assms(2) by blast

lemma unsched_other:
  assumes "op_Unschedule ops i (c, w) = Inr (r, c', w')" and "j \<noteq> i"
  shows "j \<in> ids c' \<longleftrightarrow> j \<in> ids c"
  using unsched_ids [OF assms(1)] assms(2) by blast

text \<open>After any calls, the books hold only identifiers that were there before or were scheduled.\<close>

lemma run_ids:
  "sched_run ops calls (c, w) = Inr (c', w') \<Longrightarrow> ids c' \<subseteq> ids c \<union> scheduled_ids calls"
proof (induction calls arbitrary: c w)
  case (Cons call calls)
  from Cons.prems obtain d v where step: "sched_step ops call (c, w) = Inr (d, v)"
    and rest: "sched_run ops calls (d, v) = Inr (c', w')"
    by (auto simp: sched_run_def andThen_Inr_iff)
  from Cons.IH [OF rest] step show ?case
    by (cases call) (auto simp: andThen_Inr_iff dest!: sched_ids_grow unsched_ids)
qed (simp add: sched_run_def)

text \<open>Calls with triggers that the scheduler accepts and can decode all return.\<close>

lemma run_returns:
  assumes "rdy c" and "live w"
    and "\<forall>t \<in> set (scheduled_triggers calls). op_CanSchedule ops c (trigger_Name t) \<and> decodable t"
  shows "\<exists>c' w'. sched_run ops calls (c, w) = Inr (c', w') \<and> rdy c' \<and> live w'"
  using assms
proof (induction calls arbitrary: c w)
  case (Cons call calls)
  have "\<exists>d v. sched_step ops call (c, w) = Inr (d, v) \<and> rdy d \<and> live v \<and>
      op_CanSchedule ops d = op_CanSchedule ops c"
  proof (cases call)
    case (CallSchedule i t)
    with Cons.prems sched_returns [of c w t i] sched_can [of i t c w] show ?thesis by fastforce
  next
    case (CallUnschedule i)
    with Cons.prems unsched_returns [of c w i] unsched_can [of i c w] show ?thesis by fastforce
  qed
  then obtain d v where d: "sched_step ops call (c, w) = Inr (d, v)" "rdy d" "live v"
      "op_CanSchedule ops d = op_CanSchedule ops c" by blast
  have "set (scheduled_triggers calls) \<subseteq> set (scheduled_triggers (call # calls))"
    by (cases call) auto
  with Cons.prems(3) d Cons.IH [of d v] show ?case by (fastforce simp: sched_run_def)
qed (simp add: sched_run_def)

end

section \<open>Lemmas\<close>

lemma decodable_MustString: "decodable t \<Longrightarrow> \<exists>s. Trigger_MustString t = Inr s"
  by (auto simp: decodable_def Trigger_MustString_eq)

lemma MustString_decodable: "Trigger_MustString t = Inr s \<Longrightarrow> decodable t"
  by (auto simp: decodable_def Trigger_MustString_eq split: option.splits)

lemma normalizePath_slash: "normalizePath p = [] \<or> has_prefix (normalizePath p) ''/''"
proof -
  have "\<exists>r. (if \<not> has_prefix p ''/'' then ''/'' @ p else p) = ''/'' @ r"
    by (auto simp: has_prefix_iff)
  then obtain r where r: "(if \<not> has_prefix p ''/'' then ''/'' @ p else p) = CHR ''/'' # r" by auto
  show ?thesis unfolding normalizePath_def Let_def r
    by (cases r rule: rev_cases) (auto simp: trim_suffix_def has_suffix_def has_prefix_def)
qed

section \<open>Properties\<close>

text \<open>\<open>normalizePath\<close> gives one name to the three spellings of a path: with and without the
  leading slash, with and without one trailing slash. (It removes one slash only: \<open>a//\<close> keeps one.)\<close>

theorem normalizePath_spellings:
  assumes "\<not> has_prefix q ''/''" and "\<not> has_suffix (''/'' @ q) ''/''"
  shows "normalizePath q = ''/'' @ q \<and> normalizePath (''/'' @ q) = ''/'' @ q \<and>
    normalizePath (q @ ''/'') = ''/'' @ q \<and> normalizePath (''/'' @ q @ ''/'') = ''/'' @ q"
proof -
  from assms have "q \<noteq> []" by (auto simp: has_suffix_def)
  with assms(1) have q: "\<not> has_prefix (q @ ''/'') ''/''" by (cases q) (auto simp: has_prefix_def)
  have p: "has_prefix (''/'' @ x) ''/''" for x by (simp add: has_prefix_def)
  have t: "trim_suffix (''/'' @ q @ ''/'') ''/'' = ''/'' @ q"
    using trim_suffix_snoc [of "''/'' @ q" "''/''"] by simp
  show ?thesis
    using assms q p t by (simp add: normalizePath_def trim_suffix_other)
qed

theorem normalizePath_spellings_witness: "normalizePath ''tmp/x/'' = ''/tmp/x''"
proof -
  have a: "\<not> has_prefix ''tmp/x'' ''/''" by (simp add: has_prefix_def)
  have b: "\<not> has_suffix (''/'' @ ''tmp/x'') ''/''" by (simp add: has_suffix_def)
  show ?thesis using normalizePath_spellings [OF a b] by simp
qed

end
