(* ===== verification/Cron_Triggers.thy ===== *)
theory Cron_Triggers
  imports Triggers_Scheduler
begin

text \<open>
  \<open>CronTriggersScheduler\<close> of \<open>taskscheduler/trigger_scheduler.go\<close>. The library \<open>gocron\<close> is a parameter: a
  table of the calls the scheduler makes of it, on a state of type \<open>'g\<close>, with jobs of type \<open>'j\<close>. The job
  function that is handed to it is \<open>trigger\<close> with the identifier and the trigger as arguments.
\<close>

section \<open>Definitions\<close>

record ('g, 'j) gocron =
  gc_Do :: "string \<Rightarrow> u64 \<Rightarrow> task_trigger \<Rightarrow> 'g \<Rightarrow> (goerror + 'j) \<times> 'g"
  gc_RemoveByReference :: "'j \<Rightarrow> 'g \<Rightarrow> 'g"
  gc_StartAsync :: "'g \<Rightarrow> 'g"
  gc_Stop :: "'g \<Rightarrow> 'g"
  gc_IsRunning :: "'g \<Rightarrow> bool"

record ('g, 'j) cron_scheduler =
  cron_seq :: u64
  cron_cronScheduler :: 'g
  cron_callback :: "func option"
  cron_jobs :: "(u64, 'j) fmap"

definition NewCronTriggersScheduler :: "'g \<Rightarrow> ('g, 'j) cron_scheduler" where
  "NewCronTriggersScheduler g =
     \<lparr>cron_seq = 0, cron_cronScheduler = g, cron_callback = None, cron_jobs = fmempty\<rparr>"

definition Cron_Explain :: "('g, 'j) cron_scheduler \<Rightarrow> sched_info" where
  "Cron_Explain e =
     SchedInfo ''CronTriggersScheduler'' [TRIGGER_CRON] (Uses ''github.com/go-co-op/gocron'')"

definition Cron_CanSchedule :: "('g, 'j) cron_scheduler \<Rightarrow> string \<Rightarrow> bool" where
  "Cron_CanSchedule e triggerType \<longleftrightarrow> triggerType = TRIGGER_CRON"

definition Cron_ScheduleByID ::
  "('g, 'j) gocron \<Rightarrow> u64 \<Rightarrow> task_trigger \<Rightarrow> ('g, 'j) cron_scheduler \<times> 'w
   \<Rightarrow> ((goerror + u64) \<times> ('g, 'j) cron_scheduler \<times> 'w) outcome" where
  "Cron_ScheduleByID gc i trigger ew =
     (case ew of (e, w) \<Rightarrow>
        if trigger_Name trigger \<noteq> TRIGGER_CRON
        then Inl (Panic ''invalid trigger type for a CronTriggersScheduler'')
        else
          andThen (Trigger_MustString trigger) (\<lambda>expr.
            case gc_Do gc expr i trigger (cron_cronScheduler e) of
              (Inl err, g) \<Rightarrow> Inr (Inl err, e\<lparr>cron_cronScheduler := g\<rparr>, w)
            | (Inr job, g) \<Rightarrow>
                Inr (Inr i, e\<lparr>cron_cronScheduler := g, cron_jobs := fmupd i job (cron_jobs e)\<rparr>, w)))"

definition Cron_Schedule ::
  "('g, 'j) gocron \<Rightarrow> task_trigger \<Rightarrow> ('g, 'j) cron_scheduler \<times> 'w
   \<Rightarrow> ((goerror + u64) \<times> ('g, 'j) cron_scheduler \<times> 'w) outcome" where
  "Cron_Schedule gc trigger ew = Cron_ScheduleByID gc (trigger_id trigger) trigger ew"

text \<open>What a job does when \<open>gocron\<close> runs it.\<close>

definition Cron_trigger :: "u64 \<Rightarrow> task_trigger \<Rightarrow> ('g, 'j) cron_scheduler \<Rightarrow> calls" where
  "Cron_trigger i t e =
     (case cron_callback e of
        None \<Rightarrow> []
      | Some cb \<Rightarrow> [(cb, \<lparr>te_TriggerID = i, te_Trigger = t, te_Params = fmempty\<rparr>)])"

definition Cron_Unschedule ::
  "('g, 'j) gocron \<Rightarrow> u64 \<Rightarrow> ('g, 'j) cron_scheduler \<times> 'w
   \<Rightarrow> ((goerror option \<times> bool) \<times> ('g, 'j) cron_scheduler \<times> 'w) outcome" where
  "Cron_Unschedule gc i ew =
     (case ew of (e, w) \<Rightarrow>
        (case fmlookup (cron_jobs e) i of
           Some job \<Rightarrow>
             Inr ((None, True),
               e\<lparr>cron_cronScheduler := gc_RemoveByReference gc job (cron_cronScheduler e)\<rparr>, w)
         | None \<Rightarrow> Inr ((None, False), e, w)))"

definition Cron_Start ::
  "('g, 'j) gocron \<Rightarrow> ('g, 'j) cron_scheduler \<times> 'w
   \<Rightarrow> (goerror option \<times> ('g, 'j) cron_scheduler \<times> 'w) outcome" where
  "Cron_Start gc ew =
     (case ew of (e, w) \<Rightarrow>
        Inr (None, e\<lparr>cron_cronScheduler := gc_StartAsync gc (cron_cronScheduler e)\<rparr>, w))"

definition Cron_Stop ::
  "('g, 'j) gocron \<Rightarrow> ('g, 'j) cron_scheduler \<times> 'w \<Rightarrow> (('g, 'j) cron_scheduler \<times> 'w) outcome" where
  "Cron_Stop gc ew =
     (case ew of (e, w) \<Rightarrow>
        Inr (e\<lparr>cron_cronScheduler := gc_Stop gc (cron_cronScheduler e)\<rparr>, w))"

definition Cron_IsRunning :: "('g, 'j) gocron \<Rightarrow> ('g, 'j) cron_scheduler \<Rightarrow> bool" where
  "Cron_IsRunning gc e = gc_IsRunning gc (cron_cronScheduler e)"

definition Cron_SetCallback :: "func option \<Rightarrow> ('g, 'j) cron_scheduler \<Rightarrow> ('g, 'j) cron_scheduler" where
  "Cron_SetCallback callback e = e\<lparr>cron_callback := callback\<rparr>"

definition Cron_ops :: "('g, 'j) gocron \<Rightarrow> (('g, 'j) cron_scheduler, 'w) triggers_ops" where
  "Cron_ops gc =
     \<lparr>op_CanSchedule = Cron_CanSchedule, op_Schedule = Cron_Schedule gc,
      op_ScheduleByID = Cron_ScheduleByID gc, op_Unschedule = Cron_Unschedule gc,
      op_Start = Cron_Start gc, op_Stop = Cron_Stop gc, op_IsRunning = Cron_IsRunning gc,
      op_SetCallback = Cron_SetCallback, op_Explain = Cron_Explain\<rparr>"

definition cron_ids :: "('g, 'j) cron_scheduler \<Rightarrow> u64 set" where
  "cron_ids e = fmdom' (cron_jobs e)"

text \<open>
  What \<open>gocron\<close> documents of its jobs, where \<open>live\<close> are the jobs it will run: \<open>Do\<close> without an error adds a job that
  was not there, \<open>Do\<close> with an error adds none, and \<open>RemoveByReference\<close> removes the job it is given.
\<close>

definition gocron_docs :: "('g, 'j) gocron \<Rightarrow> ('g \<Rightarrow> 'j set) \<Rightarrow> bool" where
  "gocron_docs gc live \<longleftrightarrow>
     (\<forall>expr i t g. case gc_Do gc expr i t g of
        (Inl err, g') \<Rightarrow> live g' = live g
      | (Inr job, g') \<Rightarrow> job \<notin> live g \<and> live g' = insert job (live g)) \<and>
     (\<forall>job g. live (gc_RemoveByReference gc job g) = live g - {job})"

section \<open>Lemmas\<close>

lemma Cron_ops_simps [simp]:
  "op_CanSchedule (Cron_ops gc) = Cron_CanSchedule"
  "op_Schedule (Cron_ops gc) = Cron_Schedule gc"
  "op_ScheduleByID (Cron_ops gc) = Cron_ScheduleByID gc"
  "op_Unschedule (Cron_ops gc) = Cron_Unschedule gc"
  "op_Start (Cron_ops gc) = Cron_Start gc"
  "op_Stop (Cron_ops gc) = Cron_Stop gc"
  "op_IsRunning (Cron_ops gc) = Cron_IsRunning gc"
  "op_SetCallback (Cron_ops gc) = Cron_SetCallback"
  "op_Explain (Cron_ops gc) = Cron_Explain"
  by (simp_all add: Cron_ops_def)

lemma Cron_can: "Cron_CanSchedule e = Cron_CanSchedule e'"
  by (simp add: Cron_CanSchedule_def fun_eq_iff)

lemma Cron_ScheduleByID_cases:
  assumes "Cron_ScheduleByID gc i t (e, w) = Inr (r, e', w')"
  shows "w' = w \<and> trigger_Name t = TRIGGER_CRON \<and>
    (case r of Inl err \<Rightarrow> cron_jobs e' = cron_jobs e
     | Inr j \<Rightarrow> j = i \<and> (\<exists>job. cron_jobs e' = fmupd i job (cron_jobs e)))"
proof -
  from assms obtain expr where name: "trigger_Name t = TRIGGER_CRON"
    and "Trigger_MustString t = Inr expr"
    by (auto simp: Cron_ScheduleByID_def andThen_Inr_iff split: if_splits)
  moreover obtain r0 g where "gc_Do gc expr i t (cron_cronScheduler e) = (r0, g)" by fastforce
  ultimately show ?thesis
    using assms by (cases r0) (auto simp: Cron_ScheduleByID_def)
qed

lemma Cron_ScheduleByID_ok:
  assumes "Cron_ScheduleByID gc i t (e, w) = Inr (Inr j, e', w')"
  shows "j = i \<and> fmdom' (cron_jobs e') = insert i (fmdom' (cron_jobs e))"
  using Cron_ScheduleByID_cases [OF assms] by auto

lemma Cron_ScheduleByID_err:
  assumes "Cron_ScheduleByID gc i t (e, w) = Inr (Inl err, e', w')"
  shows "cron_jobs e' = cron_jobs e"
  using Cron_ScheduleByID_cases [OF assms] by auto

lemma Cron_ScheduleByID_returns:
  assumes "Cron_CanSchedule e (trigger_Name t)" and "decodable t"
  shows "\<exists>r e' w'. Cron_ScheduleByID gc i t (e, w) = Inr (r, e', w')"
  using assms decodable_MustString [of t]
  by (auto simp: Cron_ScheduleByID_def Cron_CanSchedule_def split: prod.split sum.split)

interpretation cron: triggers_scheduler "Cron_ops gc" cron_ids "\<lambda>_. True" "\<lambda>_. True"
proof
  fix i j t err
  fix c c' :: "('a, 'b) cron_scheduler"
  fix w w' :: 'c
  show "op_ScheduleByID (Cron_ops gc) i t (c, w) = Inr (Inr j, c', w') \<Longrightarrow>
      j = i \<and> cron_ids c' = insert i (cron_ids c)"
    by (simp add: cron_ids_def Cron_ScheduleByID_ok)
  show "op_ScheduleByID (Cron_ops gc) i t (c, w) = Inr (Inl err, c', w') \<Longrightarrow> cron_ids c' = cron_ids c"
    by (simp add: cron_ids_def Cron_ScheduleByID_err)
qed (auto simp: Cron_can Cron_Unschedule_def Cron_SetCallback_def cron_ids_def fmdom'_notD
    split: option.splits intro: Cron_ScheduleByID_returns)

lemma gocron_docs_do:
  assumes "gocron_docs gc live" and "gc_Do gc expr i t g = (Inr job, g')"
  shows "job \<notin> live g \<and> live g' = insert job (live g)"
proof -
  have "case gc_Do gc expr i t g of (Inl err, g') \<Rightarrow> live g' = live g
      | (Inr job, g') \<Rightarrow> job \<notin> live g \<and> live g' = insert job (live g)"
    using assms(1) by (simp add: gocron_docs_def)
  with assms(2) show ?thesis by simp
qed

lemma gocron_docs_remove:
  "gocron_docs gc live \<Longrightarrow> live (gc_RemoveByReference gc job g) = live g - {job}"
  by (simp add: gocron_docs_def)

text \<open>A \<open>gocron\<close> that numbers its jobs.\<close>

definition counting_gocron :: "(nat list, nat) gocron" where
  "counting_gocron =
     \<lparr>gc_Do = \<lambda>expr i t g. (Inr (Suc (sum_list g)), Suc (sum_list g) # g),
      gc_RemoveByReference = \<lambda>job g. removeAll job g,
      gc_StartAsync = \<lambda>g. g, gc_Stop = \<lambda>g. g, gc_IsRunning = \<lambda>g. True\<rparr>"

lemma counting_gocron_docs: "gocron_docs counting_gocron set"
proof -
  have "x \<in> set g \<Longrightarrow> x \<le> sum_list g" for x :: nat and g by (rule member_le_sum_list) auto
  from this [of "Suc (sum_list g)" g for g] have "Suc (sum_list g) \<notin> set g" for g :: "nat list" by auto
  then show ?thesis by (auto simp: gocron_docs_def counting_gocron_def)
qed

section \<open>Properties\<close>

text \<open>Scheduling a trigger and unscheduling its identifier takes back exactly the job that was
  added. The identifier stays on the books, so a second \<open>Unschedule\<close> also claims success. And when
  the identifier was already on the books, the job it had before keeps running: the table
  no longer refers to it, so that no later call can remove it.\<close>

theorem Cron_schedule_unschedule:
  assumes "gocron_docs gc live" and "Cron_ScheduleByID gc i t (e, w) = Inr (Inr i, e1, w)"
  shows "\<exists>e2. Cron_Unschedule gc i (e1, w) = Inr ((None, True), e2, w) \<and>
    live (cron_cronScheduler e2) = live (cron_cronScheduler e) \<and>
    cron_ids e2 = insert i (cron_ids e) \<and>
    (\<forall>job. fmlookup (cron_jobs e) i = Some job \<and> job \<in> live (cron_cronScheduler e) \<longrightarrow>
       job \<in> live (cron_cronScheduler e2) \<and> fmlookup (cron_jobs e2) i \<noteq> Some job)"
proof -
  from assms(2) obtain expr where name: "trigger_Name t = TRIGGER_CRON"
    and expr: "Trigger_MustString t = Inr expr"
    by (auto simp: Cron_ScheduleByID_def andThen_Inr_iff split: if_splits)
  obtain r g where do: "gc_Do gc expr i t (cron_cronScheduler e) = (r, g)" by fastforce
  with assms(2) name expr obtain job where r: "r = Inr job"
    and e1: "e1 = e\<lparr>cron_cronScheduler := g, cron_jobs := fmupd i job (cron_jobs e)\<rparr>"
    by (cases r) (auto simp: Cron_ScheduleByID_def)
  from gocron_docs_do [OF assms(1) do [unfolded r]] have
    new: "job \<notin> live (cron_cronScheduler e)" and g: "live g = insert job (live (cron_cronScheduler e))"
    by auto
  show ?thesis
    using new g by (auto simp: Cron_Unschedule_def e1 cron_ids_def gocron_docs_remove [OF assms(1)])
qed

theorem Cron_schedule_unschedule_witness:
  "\<exists>e1 e2. Cron_ScheduleByID counting_gocron 3
      \<lparr>trigger_Name = TRIGGER_CRON, trigger_Body = quoted ''@daily'', trigger_Disabled = False\<rparr>
      (NewCronTriggersScheduler [], ()) = Inr (Inr 3, e1, ()) \<and>
    Cron_Unschedule counting_gocron 3 (e1, ()) = Inr ((None, True), e2, ()) \<and>
    cron_cronScheduler e2 = [] \<and> cron_ids e2 = {3}"
proof -
  let ?t = "\<lparr>trigger_Name = TRIGGER_CRON, trigger_Body = quoted ''@daily'', trigger_Disabled = False\<rparr>"
  have "plain ''@daily''" by (simp add: plain_def between_def dquote_def backslash_def)
  then have "Trigger_MustString ?t = Inr ''@daily''" by (simp add: Trigger_MustString_eq json_string_quoted)
  then obtain e1 where run: "Cron_ScheduleByID counting_gocron 3 ?t
      (NewCronTriggersScheduler [], ()) = Inr (Inr 3, e1, ())"
    by (simp add: Cron_ScheduleByID_def counting_gocron_def)
  from Cron_schedule_unschedule [OF counting_gocron_docs run] run show ?thesis
    by (auto simp: NewCronTriggersScheduler_def cron_ids_def)
qed

end
