(* ===== verification/FS_Triggers.thy ===== *)
theory FS_Triggers
  imports Triggers_Scheduler
begin

text \<open>
  \<open>FSTriggersScheduler\<close> of \<open>taskscheduler/trigger_scheduler.go\<close>. The watcher of the library \<open>fsnotify\<close> is a
  parameter: a table of the calls made of it, on a state of type \<open>'n\<close>. \<open>filepath.Abs\<close> is modelled: the path,
  or the working directory and the path, cleaned. What \<open>fsnotify\<close> does with watches is stated as
  a predicate on the table, \<open>watcher_docs\<close>, which the theorems about watches assume.
\<close>

section \<open>Definitions\<close>

record 'n fsnotify =
  fsn_Add :: "string \<Rightarrow> 'n \<Rightarrow> goerror option \<times> 'n"
  fsn_Remove :: "string \<Rightarrow> 'n \<Rightarrow> goerror option \<times> 'n"
  fsn_Close :: "'n \<Rightarrow> 'n"

record 'n fs_scheduler =
  fs_watcher :: 'n
  fs_pathTriggers :: "(string, (u64, task_trigger) fmap) fmap"
  fs_triggers :: "(u64, task_trigger) fmap"
  fs_callback :: "func option"
  fs_isRunning :: bool

text \<open>The argument is the result of \<open>fsnotify.NewWatcher\<close>.\<close>

definition NewFSTriggersScheduler :: "goerror + 'n \<Rightarrow> goerror + 'n fs_scheduler" where
  "NewFSTriggersScheduler watcher =
     (case watcher of
        Inl err \<Rightarrow> Inl err
      | Inr n \<Rightarrow>
          Inr \<lparr>fs_watcher = n, fs_pathTriggers = fmempty, fs_triggers = fmempty,
               fs_callback = None, fs_isRunning = False\<rparr>)"

definition FS_Explain :: "'n fs_scheduler \<Rightarrow> sched_info" where
  "FS_Explain e =
     SchedInfo ''FSTriggersScheduler'' [TRIGGER_FSNOTIFY] (Uses ''github.com/fsnotify/fsnotify'')"

definition FS_CanSchedule :: "'n fs_scheduler \<Rightarrow> string \<Rightarrow> bool" where
  "FS_CanSchedule e triggerType \<longleftrightarrow> triggerType = TRIGGER_FSNOTIFY"

definition FS_ScheduleByID ::
  "'n fsnotify \<Rightarrow> u64 \<Rightarrow> task_trigger \<Rightarrow> 'n fs_scheduler \<times> 'w
   \<Rightarrow> ((goerror + u64) \<times> 'n fs_scheduler \<times> 'w) outcome" where
  "FS_ScheduleByID fsn i trigger ew =
     (case ew of (e, w) \<Rightarrow>
        if trigger_Name trigger \<noteq> TRIGGER_FSNOTIFY
        then Inl (Panic ''invalid trigger type for a FSTriggersScheduler'')
        else
          andThen (Trigger_MustString trigger) (\<lambda>s.
            let path = normalizePath s
            in case fmlookup (fs_pathTriggers e) path of
                 Some pt \<Rightarrow>
                   Inr (Inr i,
                     e\<lparr>fs_pathTriggers := fmupd path (fmupd i trigger pt) (fs_pathTriggers e),
                       fs_triggers := fmupd i trigger (fs_triggers e)\<rparr>, w)
               | None \<Rightarrow>
                   (case fsn_Add fsn path (fs_watcher e) of
                      (Some err, n) \<Rightarrow> Inr (Inl err, e\<lparr>fs_watcher := n\<rparr>, w)
                    | (None, n) \<Rightarrow>
                        Inr (Inr i,
                          e\<lparr>fs_watcher := n,
                            fs_pathTriggers :=
                              fmupd path (fmupd i trigger fmempty) (fs_pathTriggers e),
                            fs_triggers := fmupd i trigger (fs_triggers e)\<rparr>, w))))"

definition FS_Schedule ::
  "'n fsnotify \<Rightarrow> task_trigger \<Rightarrow> 'n fs_scheduler \<times> 'w
   \<Rightarrow> ((goerror + u64) \<times> 'n fs_scheduler \<times> 'w) outcome" where
  "FS_Schedule fsn trigger ew = FS_ScheduleByID fsn (trigger_id trigger) trigger ew"

text \<open>\<open>EINVAL\<close> is 22. The path is the decoded body, not its normal form.\<close>

definition is_EINVAL :: "goerror \<Rightarrow> bool" where
  "is_EINVAL err \<longleftrightarrow> (case err of ErrErrno n s \<Rightarrow> n = 22 | _ \<Rightarrow> False)"

definition FS_Unschedule ::
  "'n fsnotify \<Rightarrow> u64 \<Rightarrow> 'n fs_scheduler \<times> 'w
   \<Rightarrow> ((goerror option \<times> bool) \<times> 'n fs_scheduler \<times> 'w) outcome" where
  "FS_Unschedule fsn i ew =
     (case ew of (e, w) \<Rightarrow>
        (case fmlookup (fs_triggers e) i of
           None \<Rightarrow> Inr ((None, False), e, w)
         | Some trigger \<Rightarrow>
             andThen (Trigger_MustString trigger) (\<lambda>path.
               case fmlookup (fs_pathTriggers e) path of
                 None \<Rightarrow> Inr ((None, False), e, w)
               | Some pt \<Rightarrow>
                   (if mlen pt = 1 then
                      (case fsn_Remove fsn path (fs_watcher e) of
                         (err, n) \<Rightarrow>
                           let e1 = e\<lparr>fs_watcher := n,
                                      fs_pathTriggers := fmdrop path (fs_pathTriggers e)\<rparr>
                           in (case err of
                                 None \<Rightarrow> Inr ((None, True), e1, w)
                               | Some er \<Rightarrow>
                                   (if is_EINVAL er then Inr ((None, True), e1, w)
                                    else Inr ((Some er, True), e1, w))))
                    else
                      Inr ((None, True),
                        e\<lparr>fs_pathTriggers := fmupd path (fmdrop i pt) (fs_pathTriggers e)\<rparr>, w)))))"

definition FS_Start ::
  "'n fs_scheduler \<times> 'w \<Rightarrow> (goerror option \<times> 'n fs_scheduler \<times> 'w) outcome" where
  "FS_Start ew =
     (case ew of (e, w) \<Rightarrow>
        if fs_isRunning e then Inr (None, e, w) else Inr (None, e\<lparr>fs_isRunning := True\<rparr>, w))"

definition FS_Stop :: "'n fsnotify \<Rightarrow> 'n fs_scheduler \<times> 'w \<Rightarrow> ('n fs_scheduler \<times> 'w) outcome" where
  "FS_Stop fsn ew =
     (case ew of (e, w) \<Rightarrow>
        Inr (e\<lparr>fs_isRunning := False, fs_watcher := fsn_Close fsn (fs_watcher e)\<rparr>, w))"

definition FS_IsRunning :: "'n fs_scheduler \<Rightarrow> bool" where
  "FS_IsRunning e = fs_isRunning e"

definition FS_SetCallback :: "func option \<Rightarrow> 'n fs_scheduler \<Rightarrow> 'n fs_scheduler" where
  "FS_SetCallback callback e = e\<lparr>fs_callback := callback\<rparr>"

definition FS_ops :: "'n fsnotify \<Rightarrow> ('n fs_scheduler, 'w) triggers_ops" where
  "FS_ops fsn =
     \<lparr>op_CanSchedule = FS_CanSchedule, op_Schedule = FS_Schedule fsn,
      op_ScheduleByID = FS_ScheduleByID fsn, op_Unschedule = FS_Unschedule fsn,
      op_Start = FS_Start, op_Stop = FS_Stop fsn, op_IsRunning = FS_IsRunning,
      op_SetCallback = FS_SetCallback, op_Explain = FS_Explain\<rparr>"

subsection \<open>Events\<close>

text \<open>
  \<open>filepath.Clean\<close> of a rooted path: the elements other than the empty one and \<open>.\<close>, where \<open>..\<close>
  removes the element before it (and nothing at the root).
\<close>

fun clean_elements :: "string list \<Rightarrow> string list \<Rightarrow> string list" where
  "clean_elements acc [] = rev acc"
| "clean_elements acc (p # ps) =
     (if p = [] \<or> p = ''.'' then clean_elements acc ps
      else if p = ''..'' then clean_elements (tl acc) ps
      else clean_elements (p # acc) ps)"

definition clean_rooted :: "string \<Rightarrow> string" where
  "clean_rooted path =
     ''/'' @ join_byte (CHR ''/'') (clean_elements [] (split_byte (CHR ''/'') path))"

text \<open>\<open>wd\<close> is the result of \<open>os.Getwd\<close>, a rooted path where there is no error.\<close>

definition filepath_Abs :: "goerror + string \<Rightarrow> string \<Rightarrow> goerror + string" where
  "filepath_Abs wd path =
     (if has_prefix path ''/'' then Inr (clean_rooted path)
      else (case wd of Inl err \<Rightarrow> Inl err | Inr d \<Rightarrow> Inr (clean_rooted (d @ ''/'' @ path))))"

text \<open>
  \<open>paths\<close> and \<open>idsOf\<close> are the orders in which \<open>range\<close> visits the watched paths and the triggers of a path;
  \<open>op\<close> is the text of the event's operation.
\<close>

definition dispatchEvent ::
  "goerror + string \<Rightarrow> string list \<Rightarrow> (string \<Rightarrow> u64 list) \<Rightarrow> string \<Rightarrow> string
   \<Rightarrow> 'n fs_scheduler \<Rightarrow> calls" where
  "dispatchEvent wd paths idsOf name op e =
     (case fs_callback e of
        None \<Rightarrow> []
      | Some cb \<Rightarrow>
          (case filepath_Abs wd name of
             Inl err \<Rightarrow> []
           | Inr path \<Rightarrow>
               (let metaData = fmupd ''FILEPATH'' (VString path)
                      (fmupd ''FSNOTIFY_OP'' (VString op) fmempty)
                in concat (map (\<lambda>rootPath.
                     if matchesPath rootPath path then
                       map (\<lambda>i. (cb, \<lparr>te_TriggerID = i,
                              te_Trigger = the (fmlookup (nested (fs_pathTriggers e) rootPath) i),
                              te_Params = metaData\<rparr>)) (idsOf rootPath)
                     else []) paths))))"

datatype fs_input = FSEvent string string | FSError goerror | FSClose

text \<open>One round of the loop of \<open>start\<close>: the calls it makes, and whether it goes on.\<close>

definition FS_start_step ::
  "goerror + string \<Rightarrow> string list \<Rightarrow> (string \<Rightarrow> u64 list) \<Rightarrow> fs_input \<Rightarrow> 'n fs_scheduler
   \<Rightarrow> calls \<times> bool" where
  "FS_start_step wd paths idsOf input e =
     (case input of
        FSEvent name op \<Rightarrow> (dispatchEvent wd paths idsOf name op e, True)
      | FSError err \<Rightarrow> ([], True)
      | FSClose \<Rightarrow> ([], False))"

subsection \<open>Contract and invariant\<close>

definition fs_ids :: "'n fs_scheduler \<Rightarrow> u64 set" where
  "fs_ids e = fmdom' (fs_triggers e)"

definition fs_rdy :: "'n fs_scheduler \<Rightarrow> bool" where
  "fs_rdy e \<longleftrightarrow> (\<forall>i t. fmlookup (fs_triggers e) i = Some t \<longrightarrow> decodable t)"

text \<open>
  What \<open>fsnotify\<close> does: a watch belongs to a file, which paths name (two spellings of a path, and links, name the same file); after \<open>Add\<close>
  without an error the file is watched, and \<open>Add\<close> and \<open>Remove\<close> concern no other file. \<open>node\<close> gives the file that a path names, as long as
  no file is moved, deleted or put in the place of another.
\<close>

definition watcher_docs :: "(string \<Rightarrow> 'f) \<Rightarrow> 'n fsnotify \<Rightarrow> ('n \<Rightarrow> 'f set) \<Rightarrow> bool" where
  "watcher_docs node fsn watched \<longleftrightarrow>
     (\<forall>p n. (case fsn_Add fsn p n of
        (None, n') \<Rightarrow> watched n' = insert (node p) (watched n)
      | (Some err, n') \<Rightarrow> watched n' - {node p} = watched n - {node p})) \<and>
     (\<forall>p n. watched (snd (fsn_Remove fsn p n)) - {node p} = watched n - {node p})"

text \<open>The paths under which calls file triggers.\<close>

definition call_paths :: "sched_call list \<Rightarrow> string set" where
  "call_paths calls = {normalizePath s |s. \<exists>i t. CallSchedule i t \<in> set calls \<and> Trigger_MustString t = Inr s}"

text \<open>No path without a trigger, and the file of every path with triggers is being watched.\<close>

definition fs_ok :: "(string \<Rightarrow> 'f) \<Rightarrow> ('n \<Rightarrow> 'f set) \<Rightarrow> string set \<Rightarrow> 'n fs_scheduler \<Rightarrow> bool" where
  "fs_ok node watched ps e \<longleftrightarrow>
     (\<forall>p. fmlookup (fs_pathTriggers e) p \<noteq> Some fmempty) \<and> fmdom' (fs_pathTriggers e) \<subseteq> ps \<and>
     node ` fmdom' (fs_pathTriggers e) \<subseteq> watched (fs_watcher e)"

section \<open>Lemmas\<close>

lemma FS_ops_simps [simp]:
  "op_CanSchedule (FS_ops fsn) = FS_CanSchedule"
  "op_Schedule (FS_ops fsn) = FS_Schedule fsn"
  "op_ScheduleByID (FS_ops fsn) = FS_ScheduleByID fsn"
  "op_Unschedule (FS_ops fsn) = FS_Unschedule fsn"
  "op_Start (FS_ops fsn) = FS_Start"
  "op_Stop (FS_ops fsn) = FS_Stop fsn"
  "op_IsRunning (FS_ops fsn) = FS_IsRunning"
  "op_SetCallback (FS_ops fsn) = FS_SetCallback"
  "op_Explain (FS_ops fsn) = FS_Explain"
  by (simp_all add: FS_ops_def)

lemma FS_can: "FS_CanSchedule e = FS_CanSchedule e'"
  by (simp add: FS_CanSchedule_def fun_eq_iff)

text \<open>What a call of \<open>ScheduleByID\<close> that returns has done.\<close>

lemma FS_ScheduleByID_cases:
  assumes "FS_ScheduleByID fsn i t (e, w) = Inr (r, e', w')"
  obtains s where "Trigger_MustString t = Inr s" and "w' = w"
    and "case r of
        Inl err \<Rightarrow> fs_pathTriggers e' = fs_pathTriggers e \<and> fs_triggers e' = fs_triggers e \<and>
          fmlookup (fs_pathTriggers e) (normalizePath s) = None \<and>
          fsn_Add fsn (normalizePath s) (fs_watcher e) = (Some err, fs_watcher e')
      | Inr j \<Rightarrow> j = i \<and> fs_triggers e' = fmupd i t (fs_triggers e) \<and>
          fs_pathTriggers e' = fmupd (normalizePath s)
            (fmupd i t (nested (fs_pathTriggers e) (normalizePath s))) (fs_pathTriggers e) \<and>
          (if fmlookup (fs_pathTriggers e) (normalizePath s) = None
           then fsn_Add fsn (normalizePath s) (fs_watcher e) = (None, fs_watcher e')
           else fs_watcher e' = fs_watcher e)"
proof -
  from assms obtain s where name: "trigger_Name t = TRIGGER_FSNOTIFY"
    and s: "Trigger_MustString t = Inr s"
    by (auto simp: FS_ScheduleByID_def andThen_Inr_iff split: if_splits)
  obtain err n where add: "fsn_Add fsn (normalizePath s) (fs_watcher e) = (err, n)" by fastforce
  from assms name s add show thesis
    by (intro that [OF s])
      (cases "fmlookup (fs_pathTriggers e) (normalizePath s)"; cases err;
        auto simp: FS_ScheduleByID_def Let_def)+
qed

lemma FS_ScheduleByID_ok:
  assumes "FS_ScheduleByID fsn i t (e, w) = Inr (Inr j, e', w')"
  shows "j = i \<and> fmdom' (fs_triggers e') = insert i (fmdom' (fs_triggers e))"
  using assms by (elim FS_ScheduleByID_cases) simp

lemma FS_ScheduleByID_err:
  assumes "FS_ScheduleByID fsn i t (e, w) = Inr (Inl err, e', w')"
  shows "fs_triggers e' = fs_triggers e"
  using assms by (elim FS_ScheduleByID_cases) simp

lemma FS_ScheduleByID_rdy:
  assumes "FS_ScheduleByID fsn i t (e, w) = Inr (r, e', w')" and "fs_rdy e"
  shows "fs_rdy e'"
  using assms
  by (elim FS_ScheduleByID_cases; cases r) (auto simp: fs_rdy_def MustString_decodable)

lemma FS_ScheduleByID_returns:
  assumes "fs_rdy e" and "FS_CanSchedule e (trigger_Name t)" and "decodable t"
  shows "\<exists>r e' w'. FS_ScheduleByID fsn i t (e, w) = Inr (r, e', w') \<and> fs_rdy e'"
proof -
  have "\<exists>r e' w'. FS_ScheduleByID fsn i t (e, w) = Inr (r, e', w')"
    using assms(2,3) decodable_MustString [of t]
    by (auto simp: FS_ScheduleByID_def FS_CanSchedule_def Let_def split: prod.split option.split)
  then obtain r e' w' where "FS_ScheduleByID fsn i t (e, w) = Inr (r, e', w')" by auto
  with FS_ScheduleByID_rdy [OF this assms(1)] show ?thesis by auto
qed

text \<open>What \<open>Unschedule\<close> does with the watcher and the paths; the triggers stay on the books.\<close>

lemma FS_Unschedule_triggers:
  assumes "FS_Unschedule fsn i (e, w) = Inr (u, e', w')"
  shows "fs_triggers e' = fs_triggers e"
  using assms
  by (auto simp: FS_Unschedule_def andThen_Inr_iff Let_def split: option.splits prod.splits if_splits)

lemma FS_Unschedule_returns:
  assumes "fs_rdy e"
  shows "\<exists>u e' w'. FS_Unschedule fsn i (e, w) = Inr (u, e', w') \<and> fs_rdy e'"
proof -
  have "\<exists>u e' w'. FS_Unschedule fsn i (e, w) = Inr (u, e', w')"
  proof (cases "fmlookup (fs_triggers e) i")
    case (Some t)
    with assms have "decodable t" by (auto simp: fs_rdy_def)
    then obtain s where "Trigger_MustString t = Inr s" using decodable_MustString by blast
    with Some show ?thesis
      by (auto simp: FS_Unschedule_def Let_def split: option.split prod.split)
  qed (auto simp: FS_Unschedule_def)
  then obtain u e' w' where "FS_Unschedule fsn i (e, w) = Inr (u, e', w')" by auto
  with FS_Unschedule_triggers [OF this] assms show ?thesis by (auto simp: fs_rdy_def)
qed

lemma FS_Unschedule_unknown:
  "i \<notin> fs_ids e \<Longrightarrow> FS_Unschedule fsn i (e, w) = Inr ((None, False), e, w)"
  by (simp add: FS_Unschedule_def fs_ids_def fmdom'_notD)

interpretation fs: triggers_scheduler "FS_ops fsn" fs_ids fs_rdy "\<lambda>_. True"
proof
  fix i j t err u
  fix c c' :: "'a fs_scheduler"
  fix w w' :: 'b
  show "op_ScheduleByID (FS_ops fsn) i t (c, w) = Inr (Inr j, c', w') \<Longrightarrow>
      j = i \<and> fs_ids c' = insert i (fs_ids c)"
    by (simp add: fs_ids_def FS_ScheduleByID_ok)
  show "op_ScheduleByID (FS_ops fsn) i t (c, w) = Inr (Inl err, c', w') \<Longrightarrow> fs_ids c' = fs_ids c"
    by (simp add: fs_ids_def FS_ScheduleByID_err)
  show "op_Unschedule (FS_ops fsn) i (c, w) = Inr (u, c', w') \<Longrightarrow>
      fs_ids c - {i} \<subseteq> fs_ids c' \<and> fs_ids c' \<subseteq> fs_ids c"
    by (auto simp: fs_ids_def FS_Unschedule_triggers)
  show "fs_rdy c \<Longrightarrow> op_CanSchedule (FS_ops fsn) c (trigger_Name t) \<Longrightarrow> decodable t \<Longrightarrow>
      \<exists>r c' w'. op_ScheduleByID (FS_ops fsn) i t (c, w) = Inr (r, c', w') \<and> fs_rdy c' \<and> True"
    using FS_ScheduleByID_returns [of c t fsn i w] by auto
  show "fs_rdy c \<Longrightarrow>
      \<exists>u c' w'. op_Unschedule (FS_ops fsn) i (c, w) = Inr (u, c', w') \<and> fs_rdy c' \<and> True"
    using FS_Unschedule_returns [of c fsn i w] by auto
  show "i \<notin> fs_ids c \<Longrightarrow> \<exists>err. op_Unschedule (FS_ops fsn) i (c, w) = Inr ((err, False), c, w)"
    by (simp add: FS_Unschedule_unknown)
qed (auto simp: FS_can FS_SetCallback_def fs_ids_def fs_rdy_def)

section \<open>Watches\<close>

lemma watcher_docs_add:
  assumes "watcher_docs node fsn watched"
  shows "case fsn_Add fsn p n of
      (None, n') \<Rightarrow> watched n' = insert (node p) (watched n)
    | (Some err, n') \<Rightarrow> watched n' - {node p} = watched n - {node p}"
  using assms by (simp add: watcher_docs_def)

lemma watcher_docs_remove:
  assumes "watcher_docs node fsn watched"
  shows "watched (snd (fsn_Remove fsn p n)) - {node p} = watched n - {node p}"
  using assms by (simp add: watcher_docs_def)

lemma other_files:
  assumes "inj_on node ps" and "qs \<subseteq> ps" and "p \<in> ps" and "p \<notin> qs" and "W - {node p} = V - {node p}" and "node ` qs \<subseteq> V"
  shows "node ` qs \<subseteq> W"
proof
  fix x assume "x \<in> node ` qs"
  then obtain q where q: "q \<in> qs" "x = node q" by blast
  have "q \<in> ps" using q(1) assms(2) by (rule set_rev_mp)
  have "node q \<noteq> node p"
  proof
    assume "node q = node p"
    from inj_onD [OF assms(1) this \<open>q \<in> ps\<close> assms(3)] have "q = p" .
    with q(1) assms(4) show False by simp
  qed
  moreover have "x \<in> V" using q assms(6) by auto
  ultimately have "x \<in> V - {node p}" using q(2) by simp
  then show "x \<in> W" by (simp add: assms(5) [symmetric])
qed

lemma fs_ok_schedule:
  assumes "watcher_docs node fsn watched" and "inj_on node ps" and "fs_ok node watched ps e"
    and "FS_ScheduleByID fsn i t (e, w) = Inr (r, e', w')" and "\<And>s. Trigger_MustString t = Inr s \<Longrightarrow> normalizePath s \<in> ps"
  shows "fs_ok node watched ps e'"
proof -
  obtain s where must: "Trigger_MustString t = Inr s" and s: "case r of
        Inl err \<Rightarrow> fs_pathTriggers e' = fs_pathTriggers e \<and> fs_triggers e' = fs_triggers e \<and>
          fmlookup (fs_pathTriggers e) (normalizePath s) = None \<and>
          fsn_Add fsn (normalizePath s) (fs_watcher e) = (Some err, fs_watcher e')
      | Inr j \<Rightarrow> j = i \<and> fs_triggers e' = fmupd i t (fs_triggers e) \<and>
          fs_pathTriggers e' = fmupd (normalizePath s)
            (fmupd i t (nested (fs_pathTriggers e) (normalizePath s))) (fs_pathTriggers e) \<and>
          (if fmlookup (fs_pathTriggers e) (normalizePath s) = None
           then fsn_Add fsn (normalizePath s) (fs_watcher e) = (None, fs_watcher e')
           else fs_watcher e' = fs_watcher e)"
    by (rule FS_ScheduleByID_cases [OF assms(4)]) (rule that)
  have path: "normalizePath s \<in> ps" by (rule assms(5) [OF must])
  note docs = watcher_docs_add [OF assms(1), of "normalizePath s" "fs_watcher e"]
  show ?thesis
  proof (cases r)
    case (Inl err)
    with s docs have same: "fs_pathTriggers e' = fs_pathTriggers e"
      and new: "normalizePath s \<notin> fmdom' (fs_pathTriggers e)"
      and W: "watched (fs_watcher e') - {node (normalizePath s)} = watched (fs_watcher e) - {node (normalizePath s)}"
      by (auto simp: fmdom'_notI)
    from other_files [OF assms(2) _ path new W] assms(3) same show ?thesis by (simp add: fs_ok_def)
  next
    case (Inr j)
    with s have "fs_pathTriggers e' = fmupd (normalizePath s)
        (fmupd i t (nested (fs_pathTriggers e) (normalizePath s))) (fs_pathTriggers e)" by simp
    moreover have "node ` insert (normalizePath s) (fmdom' (fs_pathTriggers e)) \<subseteq> watched (fs_watcher e')"
      using s docs Inr assms(3) by (auto simp: fs_ok_def fmdom'I split: if_splits)
    ultimately show ?thesis using assms(3) path by (simp add: fs_ok_def)
  qed
qed

lemma mlen_drop_nonempty: "m \<noteq> fmempty \<Longrightarrow> mlen m \<noteq> 1 \<Longrightarrow> fmdrop k m \<noteq> fmempty"
proof
  assume m: "m \<noteq> fmempty" "mlen m \<noteq> 1" and "fmdrop k m = fmempty"
  then have "mlen (fmdrop k m) = 0" by simp
  then have "mlen m \<le> 1" by (auto split: if_splits)
  with m show False using mlen_0_iff [of m] by linarith
qed

lemma FS_Unschedule_cases:
  assumes "FS_Unschedule fsn i (e, w) = Inr (u, e', w')"
  shows "(fs_watcher e' = fs_watcher e \<and> fs_pathTriggers e' = fs_pathTriggers e) \<or>
    (\<exists>p pt. fmlookup (fs_pathTriggers e) p = Some pt \<and>
      (if mlen pt = 1
       then fs_watcher e' = snd (fsn_Remove fsn p (fs_watcher e)) \<and>
         fs_pathTriggers e' = fmdrop p (fs_pathTriggers e)
       else fs_watcher e' = fs_watcher e \<and>
         fs_pathTriggers e' = fmupd p (fmdrop i pt) (fs_pathTriggers e)))"
proof (cases "fmlookup (fs_triggers e) i")
  case None
  with assms show ?thesis by (simp add: FS_Unschedule_def)
next
  case (Some t)
  with assms obtain p where p: "Trigger_MustString t = Inr p"
    by (auto simp: FS_Unschedule_def andThen_Inr_iff)
  show ?thesis
  proof (cases "fmlookup (fs_pathTriggers e) p")
    case None
    with assms Some p show ?thesis by (simp add: FS_Unschedule_def)
  next
    case (Some pt)
    obtain err n where rem: "fsn_Remove fsn p (fs_watcher e) = (err, n)" by fastforce
    with assms Some \<open>fmlookup (fs_triggers e) i = Some t\<close> p show ?thesis
      by (intro disjI2 exI [of _ p] exI [of _ pt])
        (cases err; auto simp: FS_Unschedule_def Let_def split: if_splits)
  qed
qed

lemma fs_ok_unschedule:
  assumes "watcher_docs node fsn watched" and "inj_on node ps" and "fs_ok node watched ps e"
    and "FS_Unschedule fsn i (e, w) = Inr (u, e', w')"
  shows "fs_ok node watched ps e'"
proof -
  note docs = watcher_docs_remove [OF assms(1)]
  consider "fs_watcher e' = fs_watcher e" "fs_pathTriggers e' = fs_pathTriggers e"
    | p where "fmlookup (fs_pathTriggers e) p \<noteq> None" "fs_watcher e' = snd (fsn_Remove fsn p (fs_watcher e))"
        "fs_pathTriggers e' = fmdrop p (fs_pathTriggers e)"
    | p pt where "fmlookup (fs_pathTriggers e) p = Some pt" "mlen pt \<noteq> 1"
        "fs_watcher e' = fs_watcher e" "fs_pathTriggers e' = fmupd p (fmdrop i pt) (fs_pathTriggers e)"
    using FS_Unschedule_cases [OF assms(4)] by (metis (no_types, lifting) option.distinct(1))
  then show ?thesis
  proof cases
    case 1
    with assms(3) show ?thesis by (simp add: fs_ok_def)
  next
    case (2 p)
    let ?qs = "fmdom' (fs_pathTriggers e) - {p}"
    from 2(1) assms(3) have "p \<in> ps" "?qs \<subseteq> ps" "node ` ?qs \<subseteq> watched (fs_watcher e)" by (auto simp: fs_ok_def fmdom'I)
    from other_files [OF assms(2) this(2,1) _ docs this(3)] 2 assms(3) show ?thesis by (auto simp: fs_ok_def)
  next
    case (3 p pt)
    then have "pt \<noteq> fmempty" using assms(3) by (auto simp: fs_ok_def)
    with 3 assms(3) show ?thesis
      by (auto simp: fs_ok_def fmdom'I mlen_drop_nonempty dest: mlen_drop_nonempty [of _ i])
  qed
qed

lemma fs_ok_run:
  assumes "watcher_docs node fsn watched" and "inj_on node ps" and "sched_run (FS_ops fsn) calls (e, w) = Inr (e', w')"
    and "fs_ok node watched ps e" and "call_paths calls \<subseteq> ps"
  shows "fs_ok node watched ps e'"
  using assms(3-5)
proof (induction calls arbitrary: e w)
  case Nil
  then show ?case by (simp add: sched_run_def)
next
  case (Cons x xs)
  from Cons.prems(1) obtain e1 w1 where step: "sched_step (FS_ops fsn) x (e, w) = Inr (e1, w1)"
    and run: "sched_run (FS_ops fsn) xs (e1, w1) = Inr (e', w')"
    by (auto simp: sched_run_def andThen_Inr_iff)
  have paths: "call_paths xs \<subseteq> ps" "\<And>i t s. x = CallSchedule i t \<Longrightarrow> Trigger_MustString t = Inr s \<Longrightarrow> normalizePath s \<in> ps"
    using Cons.prems(3) by (auto simp: call_paths_def)
  have "fs_ok node watched ps e1"
  proof (cases x)
    case (CallSchedule i t)
    with step obtain r where "FS_ScheduleByID fsn i t (e, w) = Inr (r, e1, w1)" by (auto simp: andThen_Inr_iff)
    from fs_ok_schedule [OF assms(1,2) Cons.prems(2) this paths(2) [OF CallSchedule]] show ?thesis .
  next
    case (CallUnschedule i)
    with step obtain u where "FS_Unschedule fsn i (e, w) = Inr (u, e1, w1)" by (auto simp: andThen_Inr_iff)
    from fs_ok_unschedule [OF assms(1,2) Cons.prems(2) this] show ?thesis .
  qed
  from Cons.IH [OF run this paths(1)] show ?case .
qed

section \<open>Stopping, and the root\<close>

text \<open>
  \<open>Stop\<close> closes the watcher and neither closes \<open>closeChan\<close> nor sends on it, and no other code does, so the goroutine of \<open>start\<close>
  never ends. \<open>fsnotify\<close> documents that \<open>Close\<close> closes the channel of events, from which every receive then yields the zero
  event at once: its name is the working directory, and the triggers on the directories above it are called in every round.
\<close>

lemma FS_loop_after_Stop:
  assumes "FS_Stop fsn (e, w) = Inr (e', w')" and "fs_callback e = Some cb"
    and "rootPath \<in> set paths" and "i \<in> set (idsOf rootPath)" and "matchesPath rootPath (clean_rooted (d @ ''/''))"
  shows "\<exists>calls. FS_start_step (Inr d) paths idsOf (FSEvent [] []) e' = (calls, True) \<and>
    (\<exists>x \<in> set calls. fst x = cb \<and> te_TriggerID (snd x) = i)"
proof -
  have "fs_callback e' = Some cb" using assms(1,2) by (auto simp: FS_Stop_def)
  with assms(3-5) show ?thesis
    by (auto simp: FS_start_step_def dispatchEvent_def filepath_Abs_def has_prefix_def Let_def intro!: bexI [of _ rootPath])
qed

text \<open>The normal form of the root is the empty path, under which a trigger on it is filed and watched.\<close>

lemma normalizePath_root: "normalizePath ''/'' = []"
  by (simp add: normalizePath_def has_prefix_def trim_suffix_def has_suffix_def)

section \<open>Examples\<close>

text \<open>A watcher that records the watched paths, and a trigger on a path.\<close>

definition list_watcher :: "string list fsnotify" where
  "list_watcher =
     \<lparr>fsn_Add = \<lambda>p n. (None, p # n), fsn_Remove = \<lambda>p n. (None, removeAll p n), fsn_Close = \<lambda>n. []\<rparr>"

definition fs_trigger :: "string \<Rightarrow> task_trigger" where
  "fs_trigger s = \<lparr>trigger_Name = TRIGGER_FSNOTIFY, trigger_Body = quoted s, trigger_Disabled = False\<rparr>"

lemma list_watcher_simps [simp]:
  "fsn_Add list_watcher p n = (None, p # n)"
  "fsn_Remove list_watcher p n = (None, removeAll p n)"
  by (simp_all add: list_watcher_def)

lemma list_watcher_docs: "watcher_docs id list_watcher set"
  by (auto simp: watcher_docs_def)

text \<open>A watcher that removes the element \<open>.\<close> from the end of a path, as \<open>fsnotify\<close> does.\<close>

definition cleaning_watcher :: "string list fsnotify" where
  "cleaning_watcher =
     \<lparr>fsn_Add = \<lambda>p n. (None, trim_suffix p ''/.'' # n), fsn_Remove = \<lambda>p n. (None, removeAll (trim_suffix p ''/.'') n),
      fsn_Close = \<lambda>n. []\<rparr>"

lemma cleaning_watcher_docs: "watcher_docs (\<lambda>p. trim_suffix p ''/.'') cleaning_watcher set"
  by (auto simp: watcher_docs_def cleaning_watcher_def)

lemma fs_trigger_simps [simp]:
  "trigger_Name (fs_trigger s) = TRIGGER_FSNOTIFY"
  "plain s \<Longrightarrow> Trigger_MustString (fs_trigger s) = Inr s"
  by (simp_all add: fs_trigger_def Trigger_MustString_eq json_string_quoted)

lemma plain_paths [simp]: "plain ''/a''" "plain ''/a/''" "plain ''a''"
  by (simp_all add: plain_def between_def dquote_def backslash_def)

lemma normalizePath_examples [simp]:
  "normalizePath ''/a'' = ''/a''" "normalizePath ''/a/'' = ''/a''" "normalizePath ''a'' = ''/a''"
  by (simp_all add: normalizePath_def has_prefix_def trim_suffix_def has_suffix_def)

text \<open>The state after one trigger on \<open>/a\<close> was scheduled.\<close>

definition fs_example :: "u64 list \<Rightarrow> string list fs_scheduler" where
  "fs_example is =
     \<lparr>fs_watcher = [''/a''],
      fs_pathTriggers = fmupd ''/a'' (fmap_of_list (map (\<lambda>i. (i, fs_trigger ''/a'')) is)) fmempty,
      fs_triggers = fmap_of_list (map (\<lambda>i. (i, fs_trigger ''/a'')) is),
      fs_callback = Some 7, fs_isRunning = True\<rparr>"

text \<open>What \<open>Unschedule\<close> does once the trigger and its path are found.\<close>

lemma FS_Unschedule_found:
  assumes "fmlookup (fs_triggers e) i = Some t" and "Trigger_MustString t = Inr s"
    and "fmlookup (fs_pathTriggers e) s = Some pt"
  shows "\<exists>err e'. FS_Unschedule fsn i (e, w) = Inr ((err, True), e', w) \<and>
    fs_triggers e' = fs_triggers e \<and>
    fs_pathTriggers e' = (if mlen pt = 1 then fmdrop s (fs_pathTriggers e)
      else fmupd s (fmdrop i pt) (fs_pathTriggers e)) \<and>
    fs_watcher e' = (if mlen pt = 1 then snd (fsn_Remove fsn s (fs_watcher e)) else fs_watcher e)"
  using assms by (auto simp: FS_Unschedule_def Let_def split: prod.split option.split)

section \<open>Properties\<close>

text \<open>C15. After any sequence of \<open>ScheduleByID\<close> and \<open>Unschedule\<close> calls on a new scheduler, whatever errors the watcher returned, every path in
  \<open>pathTriggers\<close> has a trigger and the file it names is being watched, when the different paths of the calls (after \<open>normalizePath\<close>) name
  different files and no file is moved, deleted or put in the place of another meanwhile. This rests on what \<open>fsnotify\<close> does: \<open>Add\<close> and
  \<open>Remove\<close> concern only the file that their path names.\<close>

theorem FS_watches_follow_triggers:
  assumes "watcher_docs node fsn watched" and "NewFSTriggersScheduler (Inr n) = Inr e"
    and "sched_run (FS_ops fsn) calls (e, w) = Inr (e', w')" and "inj_on node (call_paths calls)"
    and "fmlookup (fs_pathTriggers e') p = Some pt"
  shows "pt \<noteq> fmempty \<and> node p \<in> watched (fs_watcher e')"
proof -
  have "fs_ok node watched (call_paths calls) e" using assms(2) by (auto simp: NewFSTriggersScheduler_def fs_ok_def)
  from fs_ok_run [OF assms(1,4,3) this] assms(5) show ?thesis
    by (auto simp: fs_ok_def fmdom'I)
qed

theorem FS_watches_follow_triggers_witness:
  "''/a'' \<in> set (fs_watcher (fst (projr (sched_run (FS_ops list_watcher)
     [CallSchedule 5 (fs_trigger ''a'')] (projr (NewFSTriggersScheduler (Inr [])), ())))))"
proof -
  let ?e = "\<lparr>fs_watcher = [] :: string list, fs_pathTriggers = fmempty, fs_triggers = fmempty,
    fs_callback = None, fs_isRunning = False\<rparr>"
  let ?e' = "\<lparr>fs_watcher = [''/a''],
    fs_pathTriggers = fmupd ''/a'' (fmupd 5 (fs_trigger ''a'') fmempty) fmempty,
    fs_triggers = fmupd 5 (fs_trigger ''a'') fmempty, fs_callback = None, fs_isRunning = False\<rparr>"
  have new: "NewFSTriggersScheduler (Inr []) = Inr ?e" by (simp add: NewFSTriggersScheduler_def)
  have run: "sched_run (FS_ops list_watcher) [CallSchedule 5 (fs_trigger ''a'')] (?e, ()) = Inr (?e', ())"
    by (simp add: sched_run_def FS_ScheduleByID_def Let_def)
  have "fmlookup (fs_pathTriggers ?e') ''/a'' = Some (fmupd 5 (fs_trigger ''a'') fmempty)" by simp
  from FS_watches_follow_triggers [OF list_watcher_docs new run inj_on_id this] new run show ?thesis by simp
qed

text \<open>Two spellings of one file share a watch: with a trigger on each, when the second is unscheduled, the first has its trigger and is not watched
  any more.\<close>

theorem FS_spellings_share_watch:
  assumes "watcher_docs node fsn watched" and "\<forall>p n. node p \<notin> watched (snd (fsn_Remove fsn p n))"
    and "\<forall>p n. fst (fsn_Add fsn p n) = None" and "NewFSTriggersScheduler (Inr n) = Inr e" and "i \<noteq> j"
    and "trigger_Name t = TRIGGER_FSNOTIFY" and "trigger_Name u = TRIGGER_FSNOTIFY"
    and "Trigger_MustString t = Inr p" and "Trigger_MustString u = Inr q" and "normalizePath p = p" and "normalizePath q = q"
    and "p \<noteq> q" and "node p = node q"
  shows "\<exists>e'. sched_run (FS_ops fsn) [CallSchedule i t, CallSchedule j u, CallUnschedule j] (e, w) = Inr (e', w) \<and>
    fmlookup (fs_pathTriggers e') p = Some (fmupd i t fmempty) \<and> node p \<notin> watched (fs_watcher e')"
proof -
  obtain n1 where n1: "fsn_Add fsn p n = (None, n1)" using assms(3) by (metis prod.collapse)
  obtain n2 where n2: "fsn_Add fsn q n1 = (None, n2)" using assms(3) by (metis prod.collapse)
  obtain err n3 where n3: "fsn_Remove fsn q n2 = (err, n3)" by fastforce
  have gone: "node q \<notin> watched n3" using assms(2) n3 by (metis snd_conv)
  have e: "e = \<lparr>fs_watcher = n, fs_pathTriggers = fmempty, fs_triggers = fmempty, fs_callback = None, fs_isRunning = False\<rparr>"
    using assms(4) by (simp add: NewFSTriggersScheduler_def)
  show ?thesis
    using assms(5-13) n1 n2 n3 gone
    by (cases err) (auto simp: sched_run_def FS_ScheduleByID_def FS_Unschedule_def Let_def e)
qed

theorem FS_spellings_share_watch_witness:
  "\<exists>e'. sched_run (FS_ops cleaning_watcher) [CallSchedule 5 (fs_trigger ''/a''), CallSchedule 6 (fs_trigger ''/a/.''), CallUnschedule 6]
      (projr (NewFSTriggersScheduler (Inr [])), ()) = Inr (e', ()) \<and>
    fmlookup (fs_pathTriggers e') ''/a'' = Some (fmupd 5 (fs_trigger ''/a'') fmempty) \<and> ''/a'' \<notin> set (fs_watcher e')"
proof -
  obtain e where new: "NewFSTriggersScheduler (Inr ([] :: string list)) = Inr e" by (simp add: NewFSTriggersScheduler_def)
  have plain: "plain ''/a/.''" by (simp add: plain_def between_def dquote_def backslash_def)
  have "\<forall>p n. trim_suffix p ''/.'' \<notin> set (snd (fsn_Remove cleaning_watcher p n))" "\<forall>p n. fst (fsn_Add cleaning_watcher p n) = None"
    by (simp_all add: cleaning_watcher_def)
  from FS_spellings_share_watch [OF cleaning_watcher_docs this new, of 5 6 "fs_trigger ''/a''" "fs_trigger ''/a/.''" "''/a''" "''/a/.''" "()"]
  show ?thesis using new plain
    by (simp add: normalizePath_def has_prefix_def trim_suffix_def has_suffix_def)
qed

text \<open>A file event is handed to the callback for exactly the triggers registered under a path that is
  a prefix of the event's path (as text: \<open>/a\<close> also matches \<open>/ab\<close>), each with the event's path and
  operation, once each.\<close>

theorem FS_dispatch_exact:
  assumes "fs_callback e = Some cb" and "filepath_Abs wd name = Inr path"
    and "range_order (fs_pathTriggers e) paths"
    and "\<And>p. p \<in> set paths \<Longrightarrow> range_order (nested (fs_pathTriggers e) p) (idsOf p)"
  shows "set (dispatchEvent wd paths idsOf name op e) =
      {(cb, \<lparr>te_TriggerID = i, te_Trigger = t,
         te_Params = fmupd ''FILEPATH'' (VString path) (fmupd ''FSNOTIFY_OP'' (VString op) fmempty)\<rparr>)
       | root i t. has_prefix path root \<and> fmlookup (nested (fs_pathTriggers e) root) i = Some t} \<and>
    length (dispatchEvent wd paths idsOf name op e) =
      sum_list (map (\<lambda>p. if has_prefix path p then mlen (nested (fs_pathTriggers e) p) else 0) paths)"
    (is "set ?calls = ?expected \<and> _")
proof
  have order: "i \<in> set (idsOf p) \<longleftrightarrow> fmlookup (nested (fs_pathTriggers e) p) i \<noteq> None"
    if "p \<in> set paths" for p i
    using range_order_lookup [OF assms(4) [OF that]] .
  have known: "p \<in> set paths" if "fmlookup (nested (fs_pathTriggers e) p) i = Some t" for p i t
    using that range_order_lookup [OF assms(3)] by (auto simp: nested_def split: option.splits)
  show "set ?calls = ?expected"
  proof (intro equalityI subsetI)
    fix c assume "c \<in> set ?calls"
    with assms(1,2) order show "c \<in> ?expected"
      by (fastforce simp: dispatchEvent_def matchesPath_def split: if_splits)
  next
    fix c assume "c \<in> ?expected"
    then obtain root i t where c: "c = (cb, \<lparr>te_TriggerID = i, te_Trigger = t,
        te_Params = fmupd ''FILEPATH'' (VString path) (fmupd ''FSNOTIFY_OP'' (VString op) fmempty)\<rparr>)"
      and root: "has_prefix path root" and t: "fmlookup (nested (fs_pathTriggers e) root) i = Some t"
      by blast
    from known [OF t] order [of root i] root t assms(1,2) c show "c \<in> set ?calls"
      by (auto simp: dispatchEvent_def matchesPath_def intro!: bexI [of _ root] image_eqI [of _ _ i])
  qed
  show "length ?calls =
      sum_list (map (\<lambda>p. if has_prefix path p then mlen (nested (fs_pathTriggers e) p) else 0) paths)"
    using assms(1,2) range_order_length [OF assms(4)]
    by (auto simp: dispatchEvent_def matchesPath_def length_concat comp_def intro!: arg_cong [where f = sum_list])
qed

theorem FS_dispatch_exact_witness:
  "length (dispatchEvent (Inr ''/'') [''/a''] (\<lambda>p. [3]) ''/ab'' ''WRITE'' (fs_example [3])) = 1"
proof -
  have a: "fs_callback (fs_example [3]) = Some 7" by (simp add: fs_example_def)
  have b: "filepath_Abs (Inr ''/'') ''/ab'' = Inr ''/ab''"
    by (simp add: filepath_Abs_def has_prefix_def clean_rooted_def)
  have c: "range_order (fs_pathTriggers (fs_example [3])) [''/a'']"
    by (simp add: range_order_def fs_example_def)
  have d: "p \<in> set [''/a''] \<Longrightarrow> range_order (nested (fs_pathTriggers (fs_example [3])) p) [3]" for p
    by (simp add: range_order_def fs_example_def nested_upd)
  show ?thesis using FS_dispatch_exact [OF a b c d, of "''WRITE''"]
    by (simp add: fs_example_def has_prefix_def nested_upd)
qed

text \<open>A trigger whose path is written in its normal form can be taken back: scheduling it under a new
  identifier and unscheduling it restores the table of paths, and the watch that was added for it is removed.\<close>

theorem FS_schedule_unschedule:
  assumes "Trigger_MustString t = Inr s" and "normalizePath s = s"
    and "fmlookup (fs_pathTriggers e) s \<noteq> Some fmempty"
    and "fmlookup (nested (fs_pathTriggers e) s) i = None"
    and "FS_ScheduleByID fsn i t (e, w) = Inr (Inr i, e', w)"
  shows "\<exists>err e2. FS_Unschedule fsn i (e', w) = Inr ((err, True), e2, w) \<and>
    fs_pathTriggers e2 = fs_pathTriggers e \<and>
    fs_watcher e2 = (if fmlookup (fs_pathTriggers e) s = None
      then snd (fsn_Remove fsn s (snd (fsn_Add fsn s (fs_watcher e)))) else fs_watcher e)"
proof (rule FS_ScheduleByID_cases [OF assms(5)])
  fix s' assume s': "Trigger_MustString t = Inr s'"
  let ?pt = "nested (fs_pathTriggers e) s"
  assume "case Inr i of Inl err \<Rightarrow> fs_pathTriggers e' = fs_pathTriggers e \<and>
      fs_triggers e' = fs_triggers e \<and> fmlookup (fs_pathTriggers e) (normalizePath s') = None \<and>
      fsn_Add fsn (normalizePath s') (fs_watcher e) = (Some err, fs_watcher e')
    | Inr j \<Rightarrow> j = i \<and> fs_triggers e' = fmupd i t (fs_triggers e) \<and>
      fs_pathTriggers e' = fmupd (normalizePath s')
        (fmupd i t (nested (fs_pathTriggers e) (normalizePath s'))) (fs_pathTriggers e) \<and>
      (if fmlookup (fs_pathTriggers e) (normalizePath s') = None
       then fsn_Add fsn (normalizePath s') (fs_watcher e) = (None, fs_watcher e')
       else fs_watcher e' = fs_watcher e)"
  with s' assms(1,2) have trig: "fmlookup (fs_triggers e') i = Some t"
    and paths: "fs_pathTriggers e' = fmupd s (fmupd i t ?pt) (fs_pathTriggers e)"
    and watch: "fs_watcher e' = (if fmlookup (fs_pathTriggers e) s = None
      then snd (fsn_Add fsn s (fs_watcher e)) else fs_watcher e)"
    by auto
  have new: "i |\<notin>| fmdom ?pt" using assms(4) by (rule fmdom_notI)
  from paths have "fmlookup (fs_pathTriggers e') s = Some (fmupd i t ?pt)" by simp
  from FS_Unschedule_found [OF trig assms(1) this, of fsn w] obtain err e2
    where run: "FS_Unschedule fsn i (e', w) = Inr ((err, True), e2, w)"
      and e2: "fs_pathTriggers e2 = (if mlen ?pt = 0 then fmdrop s (fs_pathTriggers e')
        else fmupd s ?pt (fs_pathTriggers e'))"
      "fs_watcher e2 = (if mlen ?pt = 0 then snd (fsn_Remove fsn s (fs_watcher e')) else fs_watcher e')"
    using new by auto
  show ?thesis
  proof (cases "fmlookup (fs_pathTriggers e) s")
    case None
    then have "s |\<notin>| fmdom (fs_pathTriggers e)" by (rule fmdom_notI)
    with None run e2 paths watch show ?thesis by auto
  next
    case (Some pt)
    with assms(3) have "mlen pt \<noteq> 0" by (simp add: mlen_0_iff)
    moreover have "fmupd s pt (fmupd s (fmupd i t pt) (fs_pathTriggers e)) = fs_pathTriggers e"
      using Some by (simp add: fmupd_idle)
    ultimately show ?thesis using Some run e2 paths watch by simp
  qed
qed

theorem FS_schedule_unschedule_witness:
  "\<exists>err e2. FS_Unschedule list_watcher 3 (fs_example [3], ()) = Inr ((err, True), e2, ()) \<and>
    fs_pathTriggers e2 = fmempty"
proof -
  let ?e = "\<lparr>fs_watcher = [] :: string list, fs_pathTriggers = fmempty, fs_triggers = fmempty,
    fs_callback = Some 7, fs_isRunning = True\<rparr>"
  have s: "Trigger_MustString (fs_trigger ''/a'') = Inr ''/a''" by simp
  have run: "FS_ScheduleByID list_watcher 3 (fs_trigger ''/a'') (?e, ()) = Inr (Inr 3, fs_example [3], ())"
    by (simp add: FS_ScheduleByID_def fs_example_def Let_def)
  show ?thesis
    using FS_schedule_unschedule [OF s normalizePath_examples(1) _ _ run] by auto
qed

text \<open>A trigger whose path is written in another way cannot: \<open>Unschedule\<close> looks for the path as it
  is written, while \<open>ScheduleByID\<close> filed the trigger under the normal form. The call reports
  that the trigger does not exist and changes nothing; the trigger stays registered.\<close>

theorem FS_unschedule_other_spelling:
  assumes "Trigger_MustString t = Inr s" and "normalizePath s \<noteq> s"
    and "fmlookup (fs_pathTriggers e) s = None"
    and "FS_ScheduleByID fsn i t (e, w) = Inr (Inr i, e', w)"
  shows "FS_Unschedule fsn i (e', w) = Inr ((None, False), e', w) \<and>
    fmlookup (nested (fs_pathTriggers e') (normalizePath s)) i = Some t"
proof (rule FS_ScheduleByID_cases [OF assms(4)])
  fix s' assume "Trigger_MustString t = Inr s'"
    and "case Inr i of Inl err \<Rightarrow> fs_pathTriggers e' = fs_pathTriggers e \<and>
      fs_triggers e' = fs_triggers e \<and> fmlookup (fs_pathTriggers e) (normalizePath s') = None \<and>
      fsn_Add fsn (normalizePath s') (fs_watcher e) = (Some err, fs_watcher e')
    | Inr j \<Rightarrow> j = i \<and> fs_triggers e' = fmupd i t (fs_triggers e) \<and>
      fs_pathTriggers e' = fmupd (normalizePath s')
        (fmupd i t (nested (fs_pathTriggers e) (normalizePath s'))) (fs_pathTriggers e) \<and>
      (if fmlookup (fs_pathTriggers e) (normalizePath s') = None
       then fsn_Add fsn (normalizePath s') (fs_watcher e) = (None, fs_watcher e')
       else fs_watcher e' = fs_watcher e)"
  with assms(1-3) show ?thesis by (simp add: FS_Unschedule_def nested_upd)
qed

theorem FS_unschedule_other_spelling_witness:
  "\<exists>e'. FS_ScheduleByID list_watcher 3 (fs_trigger ''/a/'') (fs_example [], ()) = Inr (Inr 3, e', ()) \<and>
    FS_Unschedule list_watcher 3 (e', ()) = Inr ((None, False), e', ())"
proof -
  have s: "Trigger_MustString (fs_trigger ''/a/'') = Inr ''/a/''" by simp
  obtain e' where run:
    "FS_ScheduleByID list_watcher 3 (fs_trigger ''/a/'') (fs_example [], ()) = Inr (Inr 3, e', ())"
    by (simp add: FS_ScheduleByID_def fs_example_def Let_def)
  have "fmlookup (fs_pathTriggers (fs_example [])) ''/a/'' = None" by (simp add: fs_example_def)
  from FS_unschedule_other_spelling [OF s _ this run] run show ?thesis by simp
qed

text \<open>\<open>Unschedule\<close> keeps the trigger on its books and does not look whether it is still registered:
  unscheduling one of two triggers of a path a second time succeeds again and removes
  the path with the watch, so that the other trigger, never unscheduled, no longer fires.\<close>

theorem FS_unschedule_twice:
  assumes "fmlookup (fs_triggers e) i = Some t" and "Trigger_MustString t = Inr s"
    and "fmlookup (fs_pathTriggers e) s = Some pt"
    and "i |\<in>| fmdom pt" and "mlen pt = 2"
  shows "\<exists>e1 err e2. FS_Unschedule fsn i (e, w) = Inr ((None, True), e1, w) \<and>
    fs_pathTriggers e1 = fmupd s (fmdrop i pt) (fs_pathTriggers e) \<and>
    FS_Unschedule fsn i (e1, w) = Inr ((err, True), e2, w) \<and>
    fs_ids e2 = fs_ids e \<and> fmlookup (fs_pathTriggers e2) s = None \<and>
    fs_watcher e2 = snd (fsn_Remove fsn s (fs_watcher e))"
proof -
  let ?e1 = "e\<lparr>fs_pathTriggers := fmupd s (fmdrop i pt) (fs_pathTriggers e)\<rparr>"
  have first: "FS_Unschedule fsn i (e, w) = Inr ((None, True), ?e1, w)"
    using assms by (simp add: FS_Unschedule_def)
  have "fmlookup (fs_triggers ?e1) i = Some t"
    and "fmlookup (fs_pathTriggers ?e1) s = Some (fmdrop i pt)" using assms(1) by simp_all
  moreover have "mlen (fmdrop i pt) = 1" using assms(4,5) by simp
  ultimately obtain err e2 where "FS_Unschedule fsn i (?e1, w) = Inr ((err, True), e2, w)"
      "fs_triggers e2 = fs_triggers e" "fs_pathTriggers e2 = fmdrop s (fs_pathTriggers ?e1)"
      "fs_watcher e2 = snd (fsn_Remove fsn s (fs_watcher e))"
    using FS_Unschedule_found [of ?e1 i t s "fmdrop i pt" fsn w] assms(2) by auto
  with first show ?thesis by (auto simp: fs_ids_def)
qed

theorem FS_unschedule_twice_witness:
  "\<exists>e1 err e2. FS_Unschedule list_watcher 3 (fs_example [3, 4], ()) = Inr ((None, True), e1, ()) \<and>
    FS_Unschedule list_watcher 3 (e1, ()) = Inr ((err, True), e2, ()) \<and> fs_watcher e2 = [] \<and> 4 \<in> fs_ids e2"
proof -
  have e: "fmlookup (fs_triggers (fs_example [3, 4])) 3 = Some (fs_trigger ''/a'')"
    and s: "Trigger_MustString (fs_trigger ''/a'') = Inr ''/a''"
    and p: "fmlookup (fs_pathTriggers (fs_example [3, 4])) ''/a'' =
      Some (fmap_of_list (map (\<lambda>i. (i, fs_trigger ''/a'')) [3, 4]))"
    by (simp_all add: fs_example_def fmap_of_list.rep_eq)
  have m: "3 |\<in>| fmdom (fmap_of_list (map (\<lambda>i. (i, fs_trigger ''/a'')) [3 :: u64, 4]))"
    and l: "mlen (fmap_of_list (map (\<lambda>i. (i, fs_trigger ''/a'')) [3 :: u64, 4])) = 2"
    by simp_all
  have "4 \<in> fs_ids (fs_example [3, 4])" "fs_watcher (fs_example [3, 4]) = [''/a'']"
    by (simp_all add: fs_ids_def fs_example_def)
  with FS_unschedule_twice [OF e s p m l, of list_watcher "()"] show ?thesis by auto
qed

end
