(* ===== verification/Channel_Registry.thy ===== *)
theory Channel_Registry
  imports Prelude
begin

text \<open>
  The interface between an event queue (\<open>telephonist/events.go\<close>) and the object that keeps the
  event channels (\<open>WSClient.addEventChannel\<close>, \<open>removeEventChannel\<close>): what the two operations promise about the
  channels registered under an event, and what a client that keeps the identifiers it was
  given can rely on. The extension \<open>mirrored_registry\<close> adds the promise that a remote peer is told of every event
  that becomes wanted or unwanted.
\<close>

locale channel_registry =
  fixes add :: "string \<Rightarrow> nat \<Rightarrow> 'c \<Rightarrow> ('i \<times> 'c) outcome"
    and remove :: "string \<Rightarrow> 'i \<Rightarrow> 'c \<Rightarrow> 'c outcome"
    and registered :: "'c \<Rightarrow> string \<Rightarrow> 'i \<Rightarrow> nat option"
    and ok :: "'c \<Rightarrow> bool"
    and room :: "'c \<Rightarrow> bool"
  assumes add_registered: "add e ch c = Inr (i, c') \<Longrightarrow>
      registered c' k j = (if k = e \<and> j = i then Some ch else registered c k j)"
    and add_fresh: "ok c \<Longrightarrow> room c \<Longrightarrow> add e ch c = Inr (i, c') \<Longrightarrow> registered c k i = None"
    and add_ok: "ok c \<Longrightarrow> room c \<Longrightarrow> add e ch c = Inr (i, c') \<Longrightarrow> ok c'"
    and remove_registered: "remove e i c = Inr c' \<Longrightarrow>
      registered c' k j = (if k = e \<and> j = i then None else registered c k j)"
    and remove_ok: "ok c \<Longrightarrow> remove e i c = Inr c' \<Longrightarrow> ok c'"
begin

text \<open>
  A client that owns the channel \<open>ch\<close> and remembers, for each event, the identifier of its
  registration: its memory and the registry agree.
\<close>

definition linked :: "(string, 'i) fmap \<Rightarrow> nat \<Rightarrow> 'c \<Rightarrow> bool" where
  "linked sub ch c \<longleftrightarrow> (\<forall>k i. registered c k i = Some ch \<longleftrightarrow> fmlookup sub k = Some i)"

lemma linked_add:
  assumes "linked sub ch c" and "fmlookup sub e = None" and "add e ch c = Inr (i, c')"
  shows "linked (fmupd e i sub) ch c'"
  using assms by (auto simp: linked_def add_registered)

lemma linked_remove:
  assumes "linked sub ch c" and "fmlookup sub e = Some i" and "remove e i c = Inr c'"
  shows "linked (fmdrop e sub) ch c'"
  using assms by (auto simp: linked_def remove_registered)

lemma add_keeps_others:
  assumes "ok c" and "room c" and "add e ch c = Inr (i, c')" and "registered c k j = Some ch'"
  shows "registered c' k j = Some ch'"
  using assms add_fresh [OF assms(1-3), of k] by (auto simp: add_registered)

lemma linked_remove_all:
  assumes "linked sub ch c" and "range_order sub ks"
    and "mfold (\<lambda>k. remove k (the (fmlookup sub k))) ks c = Inr c'"
  shows "registered c' k i \<noteq> Some ch"
proof -
  have "registered c' k i \<noteq> Some ch"
    if "mfold (\<lambda>k. remove k (the (fmlookup sub k))) xs c = Inr c'"
      and "\<forall>k i. registered c k i = Some ch \<longrightarrow> k \<in> set xs \<and> i = the (fmlookup sub k)" for xs c
    using that
  proof (induction xs arbitrary: c)
    case (Cons x xs)
    from Cons.prems(1) obtain d where d: "remove x (the (fmlookup sub x)) c = Inr d"
      "mfold (\<lambda>k. remove k (the (fmlookup sub k))) xs d = Inr c'"
      by (auto elim: outcome_elims)
    have "\<forall>k i. registered d k i = Some ch \<longrightarrow> k \<in> set xs \<and> i = the (fmlookup sub k)"
      using Cons.prems(2) by (auto simp: remove_registered [OF d(1)] split: if_splits)
    with d(2) show ?case by (rule Cons.IH)
  qed auto
  moreover have "\<forall>k i. registered c k i = Some ch \<longrightarrow> k \<in> set ks \<and> i = the (fmlookup sub k)"
    using assms(1,2) by (auto simp: linked_def range_order_lookup)
  ultimately show ?thesis using assms(3) by blast
qed

end

text \<open>A registry whose peer knows exactly the events somebody is registered for.\<close>

locale mirrored_registry = channel_registry add remove registered ok room
  for add :: "string \<Rightarrow> nat \<Rightarrow> 'c \<Rightarrow> ('i \<times> 'c) outcome" and remove and registered
    and ok :: "'c \<Rightarrow> bool" and room :: "'c \<Rightarrow> bool" +
  fixes peer :: "'c \<Rightarrow> string set"
  assumes peer_add: "ok c \<Longrightarrow> peer c = {e. \<exists>i ch. registered c e i = Some ch} \<Longrightarrow>
      add e ch c = Inr (i, c') \<Longrightarrow> peer c' = {e. \<exists>i ch. registered c' e i = Some ch}"
    and peer_remove: "ok c \<Longrightarrow> peer c = {e. \<exists>i ch. registered c e i = Some ch} \<Longrightarrow>
      remove e i c = Inr c' \<Longrightarrow> peer c' = {e. \<exists>i ch. registered c' e i = Some ch}"
begin

definition synced :: "'c \<Rightarrow> bool" where
  "synced c \<longleftrightarrow> peer c = {e. \<exists>i ch. registered c e i = Some ch}"

lemma synced_add: "ok c \<Longrightarrow> synced c \<Longrightarrow> add e ch c = Inr (i, c') \<Longrightarrow> synced c'"
  unfolding synced_def by (rule peer_add)

lemma synced_remove: "ok c \<Longrightarrow> synced c \<Longrightarrow> remove e i c = Inr c' \<Longrightarrow> synced c'"
  unfolding synced_def by (rule peer_remove)

lemma synced_remove_all:
  assumes "mfold (\<lambda>k. remove k (f k)) ks c = Inr c'" and "ok c" and "synced c"
  shows "ok c' \<and> synced c'"
  using assms(1)
  by (rule mfold_invariant [where P = "\<lambda>c. ok c \<and> synced c"])
    (auto simp: assms remove_ok synced_remove)

text \<open>The peer hears every event of a client that is linked to the registry.\<close>

lemma synced_linked: "synced c \<Longrightarrow> linked sub ch c \<Longrightarrow> fmlookup sub e = Some i \<Longrightarrow> e \<in> peer c"
  unfolding synced_def linked_def by blast

end

end
