(* ===== verification/WS_Client.thy ===== *)
theory WS_Client
  imports Telephonist_Types Channel_Registry
begin

text \<open>
  \<open>telephonist/wsclient.go\<close>: the state of the WebSocket client, its state transitions, the dispatch
  of incoming messages and the registry of event channels. What the network does is an argument:
  the result of asking for a ticket (\<open>Client.issueWSTicket\<close>), the result of dialling (a connection,
  named by a number, or an error), and the decoders of the JSON payloads. Callbacks and deliveries to event
  channels are returned as a list of effects, in order. Sends on \<open>sendMessages\<close> follow the
  channel model of the prelude: with no \<open>writePump\<close> receiving, they never return.
\<close>

section \<open>Definitions\<close>

subsection \<open>Messages\<close>

type_synonym chan_id = nat

record event =
  event_ID :: string
  event_AppID :: string
  event_EventKey :: string
  event_EventType :: string
  event_RelatedTask :: string
  event_PublisherIP :: string
  event_SequenceID :: string

record hello_message =
  hello_Subscriptions :: "string list"
  hello_SupportedFeatures :: "string list"
  hello_ClientName :: string
  hello_ClientVersion :: string
  hello_CompatibilityKey :: string
  hello_OS :: string
  hello_ConnectionUUID :: uuid
  hello_PID :: int
  hello_InstanceID :: uuid
  hello_MachineID :: string

record log_message =
  lm_SequenceID :: string
  lm_Logs :: "log_record list"

datatype o_data =
    DNil
  | DString string
  | DStrings "string list"
  | DHello hello_message
  | DLogs log_message

record o_raw_message =
  o_MessageType :: string
  o_Data :: o_data

record i_raw_message =
  i_MessageType :: string
  i_Data :: bytes

record error_data =
  ed_ErrorType :: string
  ed_Error :: string
  ed_Exception :: string

record introduction_data =
  intro_ServerVersion :: string
  intro_Authentication :: string
  intro_AppId :: string

subsection \<open>The client\<close>

datatype client_state =
    StateStopped
  | StateDisconnected
  | StateConnecting
  | StatePreparing
  | StateConnected

fun ClientState_String :: "client_state \<Rightarrow> string" where
  "ClientState_String StateStopped = ''Stopped''"
| "ClientState_String StateDisconnected = ''Disconnected''"
| "ClientState_String StateConnecting = ''Connecting''"
| "ClientState_String StatePreparing = ''Preparing''"
| "ClientState_String StateConnected = ''Connected''"

record ws_options =
  opt_CompatibilityKey :: string
  opt_InstanceID :: uuid
  opt_MachineID :: string
  opt_ConnectionID :: uuid
  opt_OnTask :: "func option"
  opt_OnTasks :: "func option"
  opt_OnTaskRemoved :: "func option"
  opt_OnConnected :: "func option"

text \<open>
  \<open>ws_closedConns\<close> records the connections on which \<open>conn.Close\<close> was called.
\<close>

record ws_client =
  ws_opts :: ws_options
  ws_conn :: "nat option"
  ws_closedConns :: "nat list"
  ws_sendMessages :: "o_raw_message gochan"
  ws_state :: client_state
  ws_ConnectionID :: uuid
  ws_eventChannels :: "(string, (u32, chan_id) fmap) fmap"
  ws_eventChannelsSeq :: u32
  ws_lastError :: "goerror option"

text \<open>\<open>freshID\<close> is the value \<open>uuid.New\<close> returns.\<close>

definition NewWSClient :: "uuid \<Rightarrow> ws_options \<Rightarrow> ws_client" where
  "NewWSClient freshID options =
     \<lparr>ws_opts = options, ws_conn = None, ws_closedConns = [], ws_sendMessages = NilChan,
      ws_state = StateStopped,
      ws_ConnectionID = (if opt_ConnectionID options = 0 then freshID else opt_ConnectionID options),
      ws_eventChannels = fmempty, ws_eventChannelsSeq = 0, ws_lastError = None\<rparr>"

definition IsStarted :: "ws_client \<Rightarrow> bool" where
  "IsStarted c \<longleftrightarrow> ws_state c \<noteq> StateStopped"

definition IsConnected :: "ws_client \<Rightarrow> bool" where
  "IsConnected c \<longleftrightarrow> ws_state c = StateConnected"

definition GetLastError :: "ws_client \<Rightarrow> goerror option" where
  "GetLastError c = ws_lastError c"

subsection \<open>States\<close>

definition requireState :: "client_state list \<Rightarrow> ws_client \<Rightarrow> unit outcome" where
  "requireState expectedState c =
     (if ws_state c \<in> set expectedState then Inr () else Inl Exited)"

definition setState :: "client_state \<Rightarrow> ws_client \<Rightarrow> ws_client" where
  "setState state c = c\<lparr>ws_state := state\<rparr>"

definition transitionState :: "client_state \<Rightarrow> client_state \<Rightarrow> ws_client \<Rightarrow> ws_client outcome" where
  "transitionState expectedState newState c =
     andThen (requireState [expectedState] c) (\<lambda>_. Inr (setState newState c))"

text \<open>The error \<open>connect\<close> makes of the errors of \<open>issueWSTicket\<close>.\<close>

definition ticket_error :: "goerror list \<Rightarrow> goerror" where
  "ticket_error errs =
     (case errs of
        [ErrStatus status text body] \<Rightarrow> ErrStatus status text body
      | [err] \<Rightarrow> ErrText (''failed to issue WS ticket: '' @ error_string err)
      | _ \<Rightarrow> ErrText (''failed to issue WS ticket: '' @
               concat (map (\<lambda>(index, err). [nl, tab] @ itoa (int index + 1) @ '') '' @ error_string err)
                 (enumerate 0 errs))))"

text \<open>
  A new channel has no receiver until \<open>writePump\<close> runs. A failed dial leaves \<open>conn\<close> nil.
\<close>

definition connectWithTicket ::
  "(goerror + nat) \<Rightarrow> ws_client \<Rightarrow> (goerror option \<times> ws_client) outcome" where
  "connectWithTicket dial c =
     andThen (requireState [StateConnecting] c) (\<lambda>_.
       let c1 = c\<lparr>ws_sendMessages := OpenChan False []\<rparr>
       in case dial of
            Inl err \<Rightarrow>
              andThen (transitionState StateConnecting StateDisconnected (c1\<lparr>ws_conn := None\<rparr>))
                (\<lambda>c2. Inr (Some err, c2))
          | Inr conn \<Rightarrow>
              andThen (transitionState StateConnecting StatePreparing (c1\<lparr>ws_conn := Some conn\<rparr>))
                (\<lambda>c2. Inr (None, c2)))"

definition connect_begin :: "ws_client \<Rightarrow> ws_client outcome" where
  "connect_begin c = transitionState StateDisconnected StateConnecting c"

text \<open>\<open>connect\<close> after the answer to the request for a ticket.\<close>

definition connect_ticket ::
  "(goerror list + string) \<Rightarrow> (string \<Rightarrow> goerror + nat) \<Rightarrow> ws_client
   \<Rightarrow> (goerror option \<times> ws_client) outcome" where
  "connect_ticket ticket dial c =
     (case ticket of
        Inl errs \<Rightarrow>
          andThen (transitionState StateConnecting StateDisconnected c)
            (\<lambda>c1. Inr (Some (ticket_error errs), c1))
      | Inr t \<Rightarrow> connectWithTicket (dial t) c)"

definition connect ::
  "(goerror list + string) \<Rightarrow> (string \<Rightarrow> goerror + nat) \<Rightarrow> ws_client
   \<Rightarrow> (goerror option \<times> ws_client) outcome" where
  "connect ticket dial c = andThen (connect_begin c) (connect_ticket ticket dial)"

definition Stop :: "ws_client \<Rightarrow> ws_client outcome" where
  "Stop c =
     (if ws_state c = StateStopped then Inr c
      else
        andThen (chan_close (ws_sendMessages c))
          (\<lambda>ch. Inr (c\<lparr>ws_state := StateStopped, ws_sendMessages := ch\<rparr>)))"

definition onDisconnect :: "ws_client \<Rightarrow> ws_client" where
  "onDisconnect c =
     (if ws_state c = StateConnected \<or> ws_state c = StatePreparing
      then setState StateDisconnected
             (c\<lparr>ws_closedConns := ws_closedConns c @ (case ws_conn c of None \<Rightarrow> [] | Some k \<Rightarrow> [k])\<rparr>)
      else c)"

subsection \<open>Sending\<close>

definition ws_send :: "o_raw_message \<Rightarrow> ws_client \<Rightarrow> ws_client outcome" where
  "ws_send m c =
     andThen (chan_send m (ws_sendMessages c)) (\<lambda>ch. Inr (c\<lparr>ws_sendMessages := ch\<rparr>))"

definition ErrClientIsNotConnected :: goerror where
  "ErrClientIsNotConnected = ErrText ''client is not connected''"

definition SendWebsocketMessage ::
  "string \<Rightarrow> o_data \<Rightarrow> ws_client \<Rightarrow> (goerror option \<times> ws_client) outcome" where
  "SendWebsocketMessage messageType data c =
     (if ws_state c \<noteq> StateConnected then Inr (Some ErrClientIsNotConnected, c)
      else andThen (ws_send \<lparr>o_MessageType = messageType, o_Data = data\<rparr> c) (\<lambda>c1. Inr (None, c1)))"

definition SendTasksSync :: "ws_client \<Rightarrow> (goerror option \<times> ws_client) outcome" where
  "SendTasksSync c = SendWebsocketMessage ''synchronize'' DNil c"

definition SendLogs :: "log_message \<Rightarrow> ws_client \<Rightarrow> (goerror option \<times> ws_client) outcome" where
  "SendLogs logs c = SendWebsocketMessage ''send_log'' (DLogs logs) c"

subsection \<open>Event channels\<close>

definition msg_subscribe :: "string \<Rightarrow> o_raw_message" where
  "msg_subscribe eventName = \<lparr>o_MessageType = ''subscribe'', o_Data = DString eventName\<rparr>"

definition msg_unsubscribe :: "string \<Rightarrow> o_raw_message" where
  "msg_unsubscribe eventName = \<lparr>o_MessageType = ''unsubscribe'', o_Data = DString eventName\<rparr>"

definition msg_set_subscriptions :: "string list \<Rightarrow> o_raw_message" where
  "msg_set_subscriptions events = \<lparr>o_MessageType = ''set_subscriptions'', o_Data = DStrings events\<rparr>"

definition addEventChannel ::
  "string \<Rightarrow> chan_id \<Rightarrow> ws_client \<Rightarrow> (u32 \<times> ws_client) outcome" where
  "addEventChannel eventName channel c =
     (let chid = ws_eventChannelsSeq c + 1;
          c1 = c\<lparr>ws_eventChannelsSeq := chid\<rparr>
      in case fmlookup (ws_eventChannels c1) eventName of
           Some channels \<Rightarrow>
             Inr (chid, c1\<lparr>ws_eventChannels :=
               fmupd eventName (fmupd chid channel channels) (ws_eventChannels c1)\<rparr>)
         | None \<Rightarrow>
             andThen
               (ws_send (msg_subscribe eventName)
                 (c1\<lparr>ws_eventChannels :=
                   fmupd eventName (fmupd chid channel fmempty) (ws_eventChannels c1)\<rparr>))
               (\<lambda>c2. Inr (chid, c2)))"

definition removeEventChannel :: "string \<Rightarrow> u32 \<Rightarrow> ws_client \<Rightarrow> ws_client outcome" where
  "removeEventChannel eventName chid c =
     (case fmlookup (ws_eventChannels c) eventName of
        None \<Rightarrow> Inr c
      | Some channels \<Rightarrow>
          (let channels1 = fmdrop chid channels
           in if mlen channels1 = 0 then
                ws_send (msg_unsubscribe eventName)
                  (c\<lparr>ws_eventChannels := fmdrop eventName (ws_eventChannels c)\<rparr>)
              else Inr (c\<lparr>ws_eventChannels := fmupd eventName channels1 (ws_eventChannels c)\<rparr>)))"

subsection \<open>Incoming messages\<close>

datatype ws_effect =
    CallOnConnected func
  | CallOnTasks func "defined_task list"
  | CallOnTask func defined_task
  | CallOnTaskRemoved func uuid
  | Deliver chan_id event

definition call_back :: "(func \<Rightarrow> ws_effect) \<Rightarrow> func option \<Rightarrow> ws_effect list" where
  "call_back eff cb = (case cb of None \<Rightarrow> [] | Some f \<Rightarrow> [eff f])"

text \<open>\<open>order\<close> is the order in which \<open>range\<close> visits \<open>eventChannels\<close>.\<close>

definition onGreetings :: "string list \<Rightarrow> ws_client \<Rightarrow> (ws_effect list \<times> ws_client) outcome" where
  "onGreetings order c =
     andThen (ws_send (msg_set_subscriptions order) c)
       (\<lambda>c1. Inr (call_back CallOnConnected (opt_OnConnected (ws_opts c)), c1))"

text \<open>
  \<open>osInfo\<close> is the text \<open>getOsInfo\<close> returns (empty when it fails), \<open>pid\<close> the process number.
\<close>

definition onIntroduction :: "string \<Rightarrow> int \<Rightarrow> introduction_data \<Rightarrow> ws_client \<Rightarrow> ws_client outcome" where
  "onIntroduction osInfo pid d c =
     (if ws_state c \<noteq> StatePreparing then Inr c
      else
        (let c1 = setState StateConnected c;
             message =
               \<lparr>hello_Subscriptions = [],
                hello_SupportedFeatures = [''settings:sync'', ''settings'', ''purpose:application_host''],
                hello_ClientName = ''Telephonist Agent'', hello_ClientVersion = ''0.3.3'',
                hello_CompatibilityKey = opt_CompatibilityKey (ws_opts c1), hello_OS = osInfo,
                hello_ConnectionUUID = ws_ConnectionID c1, hello_PID = pid,
                hello_InstanceID = opt_InstanceID (ws_opts c1),
                hello_MachineID = opt_MachineID (ws_opts c1)\<rparr>
         in ws_send \<lparr>o_MessageType = ''hello'', o_Data = DHello message\<rparr> c1))"

text \<open>
  \<open>order\<close> is the order in which the channels of the event are visited, \<open>accepts\<close> says which of them take
  the event before the 1500 ms are over; for the others it is dropped.
\<close>

definition onNewEvent :: "u32 list \<Rightarrow> (u32 \<Rightarrow> bool) \<Rightarrow> event \<Rightarrow> ws_client \<Rightarrow> ws_effect list" where
  "onNewEvent order accepts d c =
     (case fmlookup (ws_eventChannels c) (event_EventKey d) of
        None \<Rightarrow> []
      | Some channels \<Rightarrow>
          concat (map (\<lambda>id. case fmlookup channels id of
             Some ch \<Rightarrow> if accepts id then [Deliver ch d] else []
           | None \<Rightarrow> []) order))"

text \<open>What one call of \<open>handleMessage\<close> takes from its surroundings.\<close>

record ws_env =
  env_error :: "bytes \<Rightarrow> goerror + error_data"
  env_event :: "bytes \<Rightarrow> goerror + event"
  env_tasks :: "bytes \<Rightarrow> goerror + defined_task list"
  env_task :: "bytes \<Rightarrow> goerror + defined_task"
  env_uuid :: "bytes \<Rightarrow> goerror + uuid"
  env_introduction :: "bytes \<Rightarrow> goerror + introduction_data"
  env_osInfo :: string
  env_pid :: int
  env_event_order :: "string list"
  env_channel_order :: "string \<Rightarrow> u32 list"
  env_accepts :: "u32 \<Rightarrow> bool"

type_synonym handled = "(ws_effect list \<times> goerror option \<times> ws_client) outcome"

definition decoded :: "goerror + 'a \<Rightarrow> ws_client \<Rightarrow> ('a \<Rightarrow> handled) \<Rightarrow> handled" where
  "decoded r c k = (case r of Inl err \<Rightarrow> Inr ([], Some err, c) | Inr d \<Rightarrow> k d)"

text \<open>
  For \<open>bound_to_sequences\<close> the code passes the slice itself, not a pointer to it, and
  \<open>json.Unmarshal\<close> refuses every target that is not a pointer.
\<close>

definition handleMessage :: "ws_env \<Rightarrow> i_raw_message \<Rightarrow> ws_client \<Rightarrow> handled" where
  "handleMessage env m c =
     (if i_MessageType m = ''error'' then
        decoded (env_error env (i_Data m)) c (\<lambda>d. Inr ([], None, c))
      else if i_MessageType m = ''new_event'' then
        decoded (env_event env (i_Data m)) c (\<lambda>d.
          Inr (onNewEvent (env_channel_order env (event_EventKey d)) (env_accepts env) d c, None, c))
      else if i_MessageType m = ''tasks'' then
        decoded (env_tasks env (i_Data m)) c (\<lambda>d.
          Inr (call_back (\<lambda>f. CallOnTasks f d) (opt_OnTasks (ws_opts c)), None, c))
      else if i_MessageType m = ''task_updated'' then
        decoded (env_task env (i_Data m)) c (\<lambda>d.
          Inr (call_back (\<lambda>f. CallOnTask f d) (opt_OnTask (ws_opts c)), None, c))
      else if i_MessageType m = ''task_removed'' then
        decoded (env_uuid env (i_Data m)) c (\<lambda>d.
          Inr (call_back (\<lambda>f. CallOnTaskRemoved f d) (opt_OnTaskRemoved (ws_opts c)), None, c))
      else if i_MessageType m = ''introduction'' then
        decoded (env_introduction env (i_Data m)) c (\<lambda>d.
          andThen (onIntroduction (env_osInfo env) (env_pid env) d c) (\<lambda>c1. Inr ([], None, c1)))
      else if i_MessageType m = ''bound_to_sequences'' then
        Inr ([], Some (ErrText ''json: Unmarshal(non-pointer []string)''), c)
      else if i_MessageType m = ''greetings'' then
        andThen (onGreetings (env_event_order env) c) (\<lambda>(effs, c1). Inr (effs, None, c1))
      else if i_MessageType m = ''logs_sent'' then Inr ([], None, c)
      else Inr ([], Some (ErrText (''received unknown message: '' @ i_MessageType m)), c))"

subsection \<open>What the server knows\<close>

text \<open>
  The subscriptions of this connection as the server computes them from the messages it
  receives, in order.
\<close>

definition server_step :: "o_raw_message \<Rightarrow> string set \<Rightarrow> string set" where
  "server_step m subs =
     (case o_Data m of
        DString e \<Rightarrow>
          (if o_MessageType m = ''subscribe'' then insert e subs
           else if o_MessageType m = ''unsubscribe'' then subs - {e} else subs)
      | DStrings es \<Rightarrow> (if o_MessageType m = ''set_subscriptions'' then set es else subs)
      | _ \<Rightarrow> subs)"

definition server_subscriptions :: "ws_client \<Rightarrow> string set" where
  "server_subscriptions c = fold server_step (chan_log (ws_sendMessages c)) {}"

text \<open>
  The registry's own invariant: no event without a channel, and every identifier in use was drawn from
  the counter. \<open>ws_room\<close>: the counter has not reached its last value, so the next identifier does not wrap around.
\<close>

definition ws_registered :: "ws_client \<Rightarrow> string \<Rightarrow> u32 \<Rightarrow> chan_id option" where
  "ws_registered c e chid = fmlookup (nested (ws_eventChannels c) e) chid"

definition ws_channels_ok :: "ws_client \<Rightarrow> bool" where
  "ws_channels_ok c \<longleftrightarrow>
     (\<forall>e. fmlookup (ws_eventChannels c) e \<noteq> Some fmempty) \<and>
     (\<forall>e chid ch. ws_registered c e chid = Some ch \<longrightarrow> chid \<le> ws_eventChannelsSeq c)"

definition ws_room :: "ws_client \<Rightarrow> bool" where
  "ws_room c \<longleftrightarrow> ws_eventChannelsSeq c \<noteq> - 1"

section \<open>Lemmas\<close>

named_theorems ws_defs

lemmas [ws_defs] = requireState_def setState_def transitionState_def ws_send_def

lemma ws_send_elim [outcome_elims]:
  assumes "ws_send m c = Inr c'"
  obtains ch where "chan_send m (ws_sendMessages c) = Inr ch" and "c' = c\<lparr>ws_sendMessages := ch\<rparr>"
  using assms by (auto simp: ws_send_def elim: outcome_elims)

lemma ws_send_server:
  "ws_send m c = Inr c' \<Longrightarrow> server_subscriptions c' = server_step m (server_subscriptions c)"
  by (auto simp: server_subscriptions_def chan_send_log elim!: outcome_elims)

lemma ws_send_channels [simp]:
  assumes "ws_send m c = Inr c'"
  shows "ws_eventChannels c' = ws_eventChannels c" "ws_eventChannelsSeq c' = ws_eventChannelsSeq c"
  using assms by (auto elim!: outcome_elims)

lemma ws_send_live: "ws_send m c = Inr c' \<Longrightarrow> chan_live (ws_sendMessages c')"
  by (auto dest: chan_send_live elim!: outcome_elims)

lemma ws_send_returns: "chan_live (ws_sendMessages c) \<Longrightarrow> \<exists>c'. ws_send m c = Inr c'"
  using chan_send_returns [of "ws_sendMessages c" m] by (auto simp: ws_send_def)

lemma server_step_simps [simp]:
  "server_step (msg_subscribe e) subs = insert e subs"
  "server_step (msg_unsubscribe e) subs = subs - {e}"
  "server_step (msg_set_subscriptions es) subs = set es"
  by (simp_all add: server_step_def msg_subscribe_def msg_unsubscribe_def msg_set_subscriptions_def)

text \<open>Adding and removing, seen on the channels alone.\<close>

lemma addEventChannel_channels:
  assumes "addEventChannel e ch c = Inr (chid, c')"
  shows "chid = ws_eventChannelsSeq c + 1" and "ws_eventChannelsSeq c' = chid"
    and "ws_eventChannels c' =
      fmupd e (fmupd chid ch (nested (ws_eventChannels c) e)) (ws_eventChannels c)"
  using assms
  by (auto simp: addEventChannel_def Let_def split: option.splits elim!: outcome_elims)

lemma addEventChannel_registered:
  assumes "addEventChannel e ch c = Inr (chid, c')"
  shows "ws_registered c' k i = (if k = e \<and> i = chid then Some ch else ws_registered c k i)"
  by (auto simp: ws_registered_def addEventChannel_channels [OF assms] nested_upd)

lemma removeEventChannel_seq [simp]:
  "removeEventChannel e chid c = Inr c' \<Longrightarrow> ws_eventChannelsSeq c' = ws_eventChannelsSeq c"
  by (auto simp: removeEventChannel_def Let_def split: option.splits if_splits)

lemma removeEventChannel_channels:
  assumes "removeEventChannel e chid c = Inr c'"
  shows "ws_eventChannels c' =
    (if fmdrop chid (nested (ws_eventChannels c) e) = fmempty then fmdrop e (ws_eventChannels c)
     else fmupd e (fmdrop chid (nested (ws_eventChannels c) e)) (ws_eventChannels c))"
  using assms
  by (auto simp: removeEventChannel_def Let_def mlen_0_iff fmdrop_idle fmdom_lookup_iff
      split: option.splits if_splits)

lemma removeEventChannel_registered:
  assumes "removeEventChannel e chid c = Inr c'"
  shows "ws_registered c' k i = (if k = e \<and> i = chid then None else ws_registered c k i)"
proof (cases "fmdrop chid (nested (ws_eventChannels c) e) = fmempty")
  case True
  then have "i \<noteq> chid \<Longrightarrow> fmlookup (nested (ws_eventChannels c) e) i = None"
    by (metis fmempty_lookup fmlookup_drop)
  with True show ?thesis
    by (auto simp: ws_registered_def removeEventChannel_channels [OF assms] nested_drop split: if_splits)
next
  case False
  then show ?thesis
    by (auto simp: ws_registered_def removeEventChannel_channels [OF assms] nested_upd)
qed

lemma word_less_Suc: "x \<noteq> - 1 \<Longrightarrow> x < x + (1 :: 'a::len word)"
  by (metis add.commute eq_neg_iff_add_eq_0 lessI unatSuc word_less_nat_alt)

lemma ws_registered_le: "ws_channels_ok c \<Longrightarrow> ws_registered c e i = Some ch \<Longrightarrow> i \<le> ws_eventChannelsSeq c"
  unfolding ws_channels_ok_def by blast

lemma addEventChannel_fresh:
  assumes "ws_channels_ok c" and "ws_room c" and "addEventChannel e ch c = Inr (chid, c')"
  shows "ws_registered c k chid = None"
proof (rule ccontr)
  assume "ws_registered c k chid \<noteq> None"
  then have "chid \<le> ws_eventChannelsSeq c" using assms(1) by (auto intro: ws_registered_le)
  moreover have "ws_eventChannelsSeq c < chid"
    using assms(2) by (simp add: addEventChannel_channels(1) [OF assms(3)] ws_room_def word_less_Suc)
  ultimately show False by simp
qed

lemma addEventChannel_ok:
  assumes "ws_channels_ok c" and "ws_room c" and "addEventChannel e ch c = Inr (chid, c')"
  shows "ws_channels_ok c'"
proof -
  have less: "ws_eventChannelsSeq c < chid"
    using assms(2) by (simp add: addEventChannel_channels(1) [OF assms(3)] ws_room_def word_less_Suc)
  have "fmlookup (ws_eventChannels c') k \<noteq> Some fmempty" for k
    using assms(1) by (simp add: addEventChannel_channels [OF assms(3)] ws_channels_ok_def)
  moreover have "i \<le> ws_eventChannelsSeq c'" if "ws_registered c' k i = Some ch'" for k i ch'
    using that less ws_registered_le [OF assms(1)]
    by (force simp: addEventChannel_registered [OF assms(3)] addEventChannel_channels(2) [OF assms(3)]
        split: if_splits)
  ultimately show ?thesis by (auto simp: ws_channels_ok_def)
qed

lemma removeEventChannel_ok:
  assumes "ws_channels_ok c" and "removeEventChannel e chid c = Inr c'"
  shows "ws_channels_ok c'"
  using assms(1)
  by (auto simp: ws_channels_ok_def removeEventChannel_registered [OF assms(2)]
      removeEventChannel_seq [OF assms(2)] removeEventChannel_channels [OF assms(2)])

lemma ws_wanted:
  assumes "\<And>e. fmlookup (ws_eventChannels c) e \<noteq> Some fmempty"
  shows "{e. \<exists>i ch. ws_registered c e i = Some ch} = fmdom' (ws_eventChannels c)"
proof (rule set_eqI, rule iffI)
  fix e assume "e \<in> {e. \<exists>i ch. ws_registered c e i = Some ch}"
  then show "e \<in> fmdom' (ws_eventChannels c)"
    by (cases "fmlookup (ws_eventChannels c) e") (auto simp: ws_registered_def fmdom'I)
next
  fix e assume "e \<in> fmdom' (ws_eventChannels c)"
  then obtain n where n: "fmlookup (ws_eventChannels c) e = Some n" by (auto simp: fmlookup_dom'_iff)
  with assms have "n \<noteq> fmempty" by auto
  then obtain i ch where "fmlookup n i = Some ch" by (auto simp: fmap_nonempty_iff)
  with n show "e \<in> {e. \<exists>i ch. ws_registered c e i = Some ch}" by (auto simp: ws_registered_def)
qed

lemma ws_channels_ok_nonempty: "ws_channels_ok c \<Longrightarrow> fmlookup (ws_eventChannels c) e \<noteq> Some fmempty"
  unfolding ws_channels_ok_def by blast

lemma server_subscriptions_upd [simp]:
  "server_subscriptions (c\<lparr>ws_eventChannels := x\<rparr>) = server_subscriptions c"
  "server_subscriptions (c\<lparr>ws_eventChannelsSeq := n\<rparr>) = server_subscriptions c"
  by (simp_all add: server_subscriptions_def)

lemma addEventChannel_server:
  assumes "addEventChannel e ch c = Inr (chid, c')"
  shows "server_subscriptions c' =
    (if e \<in> fmdom' (ws_eventChannels c) then server_subscriptions c
     else insert e (server_subscriptions c))"
  using assms
  by (auto simp: addEventChannel_def Let_def fmlookup_dom'_iff dest: ws_send_server
      split: option.splits elim!: andThen_InrE)

lemma removeEventChannel_server:
  assumes "removeEventChannel e chid c = Inr c'"
  shows "server_subscriptions c' =
    (if e \<in> fmdom' (ws_eventChannels c) \<and> fmdrop chid (nested (ws_eventChannels c) e) = fmempty
     then server_subscriptions c - {e} else server_subscriptions c)"
  using assms
  by (auto simp: removeEventChannel_def Let_def fmlookup_dom'_iff mlen_0_iff dest: ws_send_server
      split: option.splits if_splits)

lemma addEventChannel_synced:
  assumes "addEventChannel e ch c = Inr (chid, c')" and "ws_channels_ok c"
    and "server_subscriptions c = {e. \<exists>i ch. ws_registered c e i = Some ch}"
  shows "server_subscriptions c' = {e. \<exists>i ch. ws_registered c' e i = Some ch}"
proof -
  have "server_subscriptions c = fmdom' (ws_eventChannels c)"
    using assms(3) ws_wanted [OF ws_channels_ok_nonempty [OF assms(2)]] by simp
  then have "server_subscriptions c' = fmdom' (ws_eventChannels c')"
    by (auto simp: addEventChannel_server [OF assms(1)] addEventChannel_channels [OF assms(1)])
  moreover have "fmlookup (ws_eventChannels c') k \<noteq> Some fmempty" for k
    using assms(2) by (auto simp: addEventChannel_channels [OF assms(1)] ws_channels_ok_nonempty)
  ultimately show ?thesis by (simp add: ws_wanted)
qed

lemma removeEventChannel_synced:
  assumes "removeEventChannel e chid c = Inr c'" and "ws_channels_ok c"
    and "server_subscriptions c = {e. \<exists>i ch. ws_registered c e i = Some ch}"
  shows "server_subscriptions c' = {e. \<exists>i ch. ws_registered c' e i = Some ch}"
proof -
  have "server_subscriptions c = fmdom' (ws_eventChannels c)"
    using assms(3) ws_wanted [OF ws_channels_ok_nonempty [OF assms(2)]] by simp
  moreover have "fmdrop chid (nested (ws_eventChannels c) e) = fmempty"
    if "e \<notin> fmdom' (ws_eventChannels c)"
    using that by (simp add: fmdom'_notD)
  ultimately have "server_subscriptions c' = fmdom' (ws_eventChannels c')"
    by (auto simp: removeEventChannel_server [OF assms(1)] removeEventChannel_channels [OF assms(1)])
  moreover have "fmlookup (ws_eventChannels c') k \<noteq> Some fmempty" for k
    using ws_channels_ok_nonempty [OF removeEventChannel_ok [OF assms(2,1)]] .
  ultimately show ?thesis by (simp add: ws_wanted)
qed

interpretation ws_reg: mirrored_registry addEventChannel removeEventChannel ws_registered
  ws_channels_ok ws_room server_subscriptions
proof
  fix c c' e ch i k j
  assume "addEventChannel e ch c = Inr (i, c')"
  then show "ws_registered c' k j = (if k = e \<and> j = i then Some ch else ws_registered c k j)"
    by (rule addEventChannel_registered)
next
  fix c c' e ch i k
  assume "ws_channels_ok c" "ws_room c" "addEventChannel e ch c = Inr (i, c')"
  then show "ws_registered c k i = None" and "ws_channels_ok c'"
    by (rule addEventChannel_fresh, rule addEventChannel_ok)
next
  fix c c' e i k j
  assume "removeEventChannel e i c = Inr c'"
  then show "ws_registered c' k j = (if k = e \<and> j = i then None else ws_registered c k j)"
    by (rule removeEventChannel_registered)
next
  fix c c' e i
  assume "ws_channels_ok c" "removeEventChannel e i c = Inr c'"
  then show "ws_channels_ok c'" by (rule removeEventChannel_ok)
next
  fix c c' e ch i
  assume "ws_channels_ok c" "server_subscriptions c = {e. \<exists>i ch. ws_registered c e i = Some ch}"
    "addEventChannel e ch c = Inr (i, c')"
  from this(3,1,2) show "server_subscriptions c' = {e. \<exists>i ch. ws_registered c' e i = Some ch}"
    by (rule addEventChannel_synced)
next
  fix c c' e i
  assume "ws_channels_ok c" "server_subscriptions c = {e. \<exists>i ch. ws_registered c e i = Some ch}"
    "removeEventChannel e i c = Inr c'"
  from this(3,1,2) show "server_subscriptions c' = {e. \<exists>i ch. ws_registered c' e i = Some ch}"
    by (rule removeEventChannel_synced)
qed

end
