(* ===== verification/Event_Queue.thy ===== *)
theory Event_Queue
  imports WS_Client
begin

text \<open>
  \<open>telephonist/events.go\<close>: an event queue keeps one channel and, for every event key it subscribed to,
  the identifier under which the client registered that channel. Every operation also returns the
  client, which the queue holds by a pointer. The queue's own invariant is proved on the
  interface of \<open>Channel_Registry\<close>, which the client implements.
\<close>

section \<open>Definitions\<close>

record event_queue =
  q_Channel :: chan_id
  q_subscribed :: "(string, u32) fmap"

text \<open>\<open>fresh\<close> is the channel that \<open>make\<close> returns.\<close>

definition NewQueue :: "chan_id \<Rightarrow> event_queue" where
  "NewQueue fresh = \<lparr>q_Channel = fresh, q_subscribed = fmempty\<rparr>"

definition IsSubscribed :: "string \<Rightarrow> event_queue \<Rightarrow> bool" where
  "IsSubscribed eventKey q \<longleftrightarrow> fmlookup (q_subscribed q) eventKey \<noteq> None"

text \<open>The operation is called \<open>Subcribe\<close> in the source.\<close>

definition Subcribe ::
  "string \<Rightarrow> event_queue \<Rightarrow> ws_client \<Rightarrow> (bool \<times> event_queue \<times> ws_client) outcome" where
  "Subcribe eventKey q wsc =
     (let isSubscribed = IsSubscribed eventKey q
      in if \<not> isSubscribed then
           andThen (addEventChannel eventKey (q_Channel q) wsc) (\<lambda>(chid, wsc1).
             Inr (isSubscribed, q\<lparr>q_subscribed := fmupd eventKey chid (q_subscribed q)\<rparr>, wsc1))
         else Inr (isSubscribed, q, wsc))"

definition Unsubscribe ::
  "string \<Rightarrow> event_queue \<Rightarrow> ws_client \<Rightarrow> (bool \<times> event_queue \<times> ws_client) outcome" where
  "Unsubscribe eventKey q wsc =
     (case fmlookup (q_subscribed q) eventKey of
        Some chid \<Rightarrow>
          andThen (removeEventChannel eventKey chid wsc) (\<lambda>wsc1.
            Inr (True, q\<lparr>q_subscribed := fmdrop eventKey (q_subscribed q)\<rparr>, wsc1))
      | None \<Rightarrow> Inr (False, q, wsc))"

text \<open>The queue itself does not change: \<open>subscribed\<close> keeps its entries.\<close>

definition UnsubscribeAll :: "string list \<Rightarrow> event_queue \<Rightarrow> ws_client \<Rightarrow> ws_client outcome" where
  "UnsubscribeAll order q wsc =
     mfold (\<lambda>eventKey. removeEventChannel eventKey (the (fmlookup (q_subscribed q) eventKey))) order wsc"

text \<open>
  The queue is in order: its channel is registered for exactly the events it remembers, and the
  server of this connection knows the events of all queues.
\<close>

definition queue_ok :: "event_queue \<Rightarrow> ws_client \<Rightarrow> bool" where
  "queue_ok q wsc \<longleftrightarrow>
     ws_channels_ok wsc \<and> ws_reg.linked (q_subscribed q) (q_Channel q) wsc \<and> ws_reg.synced wsc"

section \<open>Lemmas\<close>

lemma ws_room_seq: "ws_room c \<longleftrightarrow> ws_eventChannelsSeq c \<noteq> - 1"
  by (simp add: ws_room_def)

lemma Subcribe_returns:
  assumes "chan_live (ws_sendMessages wsc)"
  shows "\<exists>q' wsc'. Subcribe e q wsc = Inr (IsSubscribed e q, q', wsc')"
proof -
  have "\<exists>w. ws_send (msg_subscribe e)
      (wsc\<lparr>ws_eventChannelsSeq := n, ws_eventChannels := m\<rparr>) = Inr w" for n m
    by (rule ws_send_returns) (simp add: assms)
  then have "\<exists>r. addEventChannel e (q_Channel q) wsc = Inr r"
    by (simp add: addEventChannel_def Let_def andThen_Inr_iff split: option.split)
  then show ?thesis by (force simp: Subcribe_def Let_def)
qed

text \<open>The operations return on a live connection, and it stays live.\<close>

lemma addEventChannel_live:
  assumes "addEventChannel e ch c = Inr (i, c')" and "chan_live (ws_sendMessages c)"
  shows "chan_live (ws_sendMessages c')"
  using assms
  by (auto simp: addEventChannel_def Let_def andThen_Inr_iff dest: ws_send_live split: option.splits)

lemma removeEventChannel_live:
  assumes "removeEventChannel e i c = Inr c'" and "chan_live (ws_sendMessages c)"
  shows "chan_live (ws_sendMessages c')"
  using assms
  by (auto simp: removeEventChannel_def Let_def dest: ws_send_live split: option.splits if_splits)

lemma removeEventChannel_returns:
  assumes "chan_live (ws_sendMessages c)"
  shows "\<exists>c'. removeEventChannel e i c = Inr c' \<and> chan_live (ws_sendMessages c')"
proof -
  have "\<exists>c'. removeEventChannel e i c = Inr c'"
    using assms ws_send_returns
    by (auto simp: removeEventChannel_def Let_def split: option.split)
  with removeEventChannel_live assms show ?thesis by blast
qed

lemma Subcribe_live:
  assumes "Subcribe e q wsc = Inr (b, q', wsc')" and "chan_live (ws_sendMessages wsc)"
  shows "chan_live (ws_sendMessages wsc')"
  using assms
  by (auto simp: Subcribe_def Let_def andThen_Inr_iff dest: addEventChannel_live split: if_splits)

lemma Unsubscribe_returns:
  assumes "chan_live (ws_sendMessages wsc)"
  shows "\<exists>b q' wsc'. Unsubscribe e q wsc = Inr (b, q', wsc') \<and> chan_live (ws_sendMessages wsc')"
proof (cases "fmlookup (q_subscribed q) e")
  case (Some chid)
  with removeEventChannel_returns [OF assms, of e chid] show ?thesis
    by (auto simp: Unsubscribe_def)
qed (auto simp: Unsubscribe_def assms)

lemma UnsubscribeAll_returns:
  assumes "chan_live (ws_sendMessages wsc)"
  shows "\<exists>wsc'. UnsubscribeAll order q wsc = Inr wsc' \<and> chan_live (ws_sendMessages wsc')"
  unfolding UnsubscribeAll_def
  by (rule mfold_returns [where P = "\<lambda>c. chan_live (ws_sendMessages c)"])
    (simp_all add: assms removeEventChannel_returns)

lemma Subcribe_ok:
  assumes "queue_ok q wsc" and "ws_room wsc" and "Subcribe e q wsc = Inr (b, q', wsc')"
  shows "queue_ok q' wsc' \<and> q_Channel q' = q_Channel q \<and>
    fmdom' (q_subscribed q') = insert e (fmdom' (q_subscribed q))"
proof (cases "IsSubscribed e q")
  case True
  with assms show ?thesis by (auto simp: Subcribe_def IsSubscribed_def fmdom'I)
next
  case False
  with assms(3) obtain chid where add: "addEventChannel e (q_Channel q) wsc = Inr (chid, wsc')"
    and q': "q' = q\<lparr>q_subscribed := fmupd e chid (q_subscribed q)\<rparr>"
    by (auto simp: Subcribe_def andThen_Inr_iff)
  have "ws_channels_ok wsc'" using assms(1,2) add by (auto simp: queue_ok_def intro: ws_reg.add_ok)
  moreover have "ws_reg.linked (q_subscribed q') (q_Channel q) wsc'"
    using assms(1) False ws_reg.linked_add [OF _ _ add] by (simp add: q' queue_ok_def IsSubscribed_def)
  moreover have "ws_reg.synced wsc'"
    using assms(1) add by (auto simp: queue_ok_def intro: ws_reg.synced_add)
  ultimately show ?thesis by (simp add: queue_ok_def q')
qed

lemma Unsubscribe_ok:
  assumes "queue_ok q wsc" and "Unsubscribe e q wsc = Inr (b, q', wsc')"
  shows "queue_ok q' wsc' \<and> q_Channel q' = q_Channel q \<and>
    fmdom' (q_subscribed q') = fmdom' (q_subscribed q) - {e}"
proof (cases "fmlookup (q_subscribed q) e")
  case None
  then have "e \<notin> fmdom' (q_subscribed q)" by (rule fmdom'_notI)
  with None assms show ?thesis by (simp add: Unsubscribe_def)
next
  case (Some chid)
  with assms(2) have rem: "removeEventChannel e chid wsc = Inr wsc'"
    and q': "q' = q\<lparr>q_subscribed := fmdrop e (q_subscribed q)\<rparr>"
    by (auto simp: Unsubscribe_def andThen_Inr_iff)
  have "ws_channels_ok wsc'" using assms(1) rem by (auto simp: queue_ok_def intro: ws_reg.remove_ok)
  moreover have "ws_reg.linked (q_subscribed q') (q_Channel q) wsc'"
    using assms(1) ws_reg.linked_remove [OF _ Some rem] by (simp add: q' queue_ok_def)
  moreover have "ws_reg.synced wsc'"
    using assms(1) rem by (auto simp: queue_ok_def intro: ws_reg.synced_remove)
  ultimately show ?thesis by (simp add: queue_ok_def q')
qed

lemma UnsubscribeAll_ok:
  assumes "queue_ok q wsc" and "range_order (q_subscribed q) order"
    and "UnsubscribeAll order q wsc = Inr wsc'"
  shows "ws_channels_ok wsc' \<and> ws_reg.synced wsc' \<and> (\<forall>e i. ws_registered wsc' e i \<noteq> Some (q_Channel q))"
  using assms ws_reg.linked_remove_all [of "q_subscribed q" "q_Channel q" wsc order wsc']
    ws_reg.synced_remove_all
  by (auto simp: queue_ok_def UnsubscribeAll_def)

text \<open>A queue on a channel that is not in use starts in order.\<close>

lemma NewQueue_ok:
  assumes "ws_channels_ok wsc" and "ws_reg.synced wsc" and "\<And>e i. ws_registered wsc e i \<noteq> Some ch"
  shows "queue_ok (NewQueue ch) wsc"
  using assms by (simp add: queue_ok_def NewQueue_def ws_reg.linked_def)

text \<open>A connected client that nobody has subscribed with yet.\<close>

definition example_client :: ws_client where
  "example_client =
     (NewWSClient 1
       \<lparr>opt_CompatibilityKey = ''key'', opt_InstanceID = 2, opt_MachineID = ''m'', opt_ConnectionID = 3,
        opt_OnTask = None, opt_OnTasks = None, opt_OnTaskRemoved = None, opt_OnConnected = None\<rparr>)
     \<lparr>ws_state := StateConnected, ws_sendMessages := OpenChan True []\<rparr>"

lemma example_client_fields [simp]:
  "ws_sendMessages example_client = OpenChan True []"
  "ws_eventChannels example_client = fmempty"
  "ws_eventChannelsSeq example_client = 0"
  by (simp_all add: example_client_def NewWSClient_def)

lemma example_client_ok:
  "ws_channels_ok example_client" "ws_reg.synced example_client" "ws_room example_client"
  "ws_registered example_client e i = None"
  by (simp_all add: ws_channels_ok_def ws_registered_def ws_reg.synced_def server_subscriptions_def
      ws_room_def)

lemma example_queue_ok: "queue_ok (NewQueue 9) example_client"
  by (rule NewQueue_ok) (simp_all add: example_client_ok)

section \<open>Properties\<close>

text \<open>Subscriptions follow the queue: on a live connection \<open>Subcribe\<close> returns whether the queue was
  subscribed before, afterwards its channel is registered for the events it had and the new one, and the server,
  replaying the messages it was sent, knows every event of the queue.\<close>

theorem Subcribe_registers:
  assumes "queue_ok q wsc" and "ws_room wsc" and "chan_live (ws_sendMessages wsc)"
  shows "\<exists>q' wsc'. Subcribe e q wsc = Inr (IsSubscribed e q, q', wsc') \<and> queue_ok q' wsc' \<and>
    IsSubscribed e q' \<and> fmdom' (q_subscribed q') = insert e (fmdom' (q_subscribed q)) \<and>
    insert e (fmdom' (q_subscribed q)) \<subseteq> server_subscriptions wsc'"
proof -
  obtain q' wsc' where s: "Subcribe e q wsc = Inr (IsSubscribed e q, q', wsc')"
    using Subcribe_returns [OF assms(3)] by blast
  from Subcribe_ok [OF assms(1,2) s] have ok: "queue_ok q' wsc'"
    and dom: "fmdom' (q_subscribed q') = insert e (fmdom' (q_subscribed q))" by auto
  have "fmdom' (q_subscribed q') \<subseteq> server_subscriptions wsc'"
    using ok ws_reg.synced_linked [of wsc' "q_subscribed q'" "q_Channel q'"]
    by (auto simp: queue_ok_def fmlookup_dom'_iff)
  with s ok dom show ?thesis by (metis IsSubscribed_def fmdom'_notI insertI1)
qed

theorem Subcribe_registers_witness:
  "\<exists>q' wsc'. Subcribe ''login'' (NewQueue 9) example_client = Inr (False, q', wsc') \<and>
    ''login'' \<in> server_subscriptions wsc'"
proof -
  have "IsSubscribed ''login'' (NewQueue 9) = False" by (simp add: IsSubscribed_def NewQueue_def)
  with Subcribe_registers [OF example_queue_ok example_client_ok(3), of "''login''"]
  show ?thesis by auto
qed

text \<open>\<open>Unsubscribe\<close> takes the queue's channel out of the registry for that event and for no
  other, and the peer is told when the event has lost its last channel.\<close>

theorem Unsubscribe_unregisters:
  assumes "queue_ok q wsc" and "Unsubscribe e q wsc = Inr (b, q', wsc')"
  shows "b = IsSubscribed e q \<and> queue_ok q' wsc' \<and>
    fmdom' (q_subscribed q') = fmdom' (q_subscribed q) - {e} \<and>
    (\<forall>i. ws_registered wsc' e i \<noteq> Some (q_Channel q)) \<and>
    server_subscriptions wsc' = fmdom' (ws_eventChannels wsc')"
proof -
  from Unsubscribe_ok [OF assms] have ok: "queue_ok q' wsc'" and ch: "q_Channel q' = q_Channel q"
    and dom: "fmdom' (q_subscribed q') = fmdom' (q_subscribed q) - {e}" by auto
  have "fmlookup (q_subscribed q') e = None" using dom by (metis DiffE fmdom'_notD singletonI)
  then have "ws_registered wsc' e i \<noteq> Some (q_Channel q)" for i
    using ok ch by (auto simp: queue_ok_def ws_reg.linked_def)
  moreover have "b = IsSubscribed e q"
    using assms(2) by (auto simp: Unsubscribe_def IsSubscribed_def andThen_Inr_iff split: option.splits)
  moreover have "server_subscriptions wsc' = fmdom' (ws_eventChannels wsc')"
    using ok ws_wanted [OF ws_channels_ok_nonempty, of wsc'] by (simp add: queue_ok_def ws_reg.synced_def)
  ultimately show ?thesis using ok dom by blast
qed

theorem Unsubscribe_unregisters_witness:
  "\<exists>q1 c1 q2 c2. Subcribe ''login'' (NewQueue 9) example_client = Inr (False, q1, c1) \<and>
    Unsubscribe ''login'' q1 c1 = Inr (True, q2, c2) \<and> fmdom' (q_subscribed q2) = {}"
proof -
  let ?q1 = "(NewQueue 9)\<lparr>q_subscribed := fmupd ''login'' 1 fmempty\<rparr>"
  let ?c1 = "example_client\<lparr>ws_eventChannelsSeq := 1,
    ws_eventChannels := fmupd ''login'' (fmupd 1 9 fmempty) fmempty,
    ws_sendMessages := OpenChan True [msg_subscribe ''login'']\<rparr>"
  have sub: "Subcribe ''login'' (NewQueue 9) example_client = Inr (False, ?q1, ?c1)"
    by (simp add: Subcribe_def Let_def IsSubscribed_def NewQueue_def addEventChannel_def ws_send_def)
  have ok: "queue_ok ?q1 ?c1" using Subcribe_ok [OF example_queue_ok example_client_ok(3) sub] by simp
  obtain q2 c2 where un: "Unsubscribe ''login'' ?q1 ?c1 = Inr (True, q2, c2)"
    by (simp add: Unsubscribe_def removeEventChannel_def Let_def ws_send_def)
  have "fmdom' (q_subscribed ?q1) - {''login''} = {}" by auto
  with Unsubscribe_unregisters [OF ok un] have "fmdom' (q_subscribed q2) = {}" by simp
  with sub un show ?thesis by blast
qed

end
