(* ===== verification/Event_Triggers.thy ===== *)
theory Event_Triggers
  imports Triggers_Scheduler Event_Queue
begin

text \<open>
  \<open>TelephonistScheduler\<close> of \<open>taskscheduler/trigger_scheduler.go\<close>: event triggers. It subscribes an event queue to
  the events of its triggers and counts the triggers of each event. The world it shares is the
  WebSocket client. Two choices of the runtime are arguments: \<open>mkchan\<close>, the channel that \<open>make\<close> returns in a
  state of the client, and \<open>pick\<close>, the order in which \<open>range\<close> visits a queue's subscriptions. A method call on the nil
  queue is a panic. The counters are integers; they never exceed the number of calls, far below
  the bounds of Go's \<open>int\<close>.
\<close>

section \<open>Definitions\<close>

record event_scheduler =
  ev_seq :: u64
  ev_queue :: "event_queue option"
  ev_subscriptionsCounters :: "(string, int) fmap"
  ev_triggers :: "(u64, task_trigger) fmap"
  ev_eventTriggers :: "(string, (u64, task_trigger) fmap) fmap"
  ev_callback :: "func option"

text \<open>The constructor panics on a nil client; here the client is a value.\<close>

definition NewTelephonistScheduler :: event_scheduler where
  "NewTelephonistScheduler =
     \<lparr>ev_seq = 0, ev_queue = None, ev_subscriptionsCounters = fmempty, ev_triggers = fmempty,
      ev_eventTriggers = fmempty, ev_callback = None\<rparr>"

definition Event_Explain :: "event_scheduler \<Rightarrow> sched_info" where
  "Event_Explain e = SchedInfo ''TelephonistScheduler'' [TRIGGER_EVENT] NoDetails"

definition Event_CanSchedule :: "event_scheduler \<Rightarrow> string \<Rightarrow> bool" where
  "Event_CanSchedule e triggerType \<longleftrightarrow> triggerType = TRIGGER_EVENT"

definition nil_queue :: crash where
  "nil_queue = Panic ''invalid memory address or nil pointer dereference''"

definition Event_ScheduleByID ::
  "u64 \<Rightarrow> task_trigger \<Rightarrow> event_scheduler \<times> ws_client
   \<Rightarrow> ((goerror + u64) \<times> event_scheduler \<times> ws_client) outcome" where
  "Event_ScheduleByID i trigger ew =
     (case ew of (e, w) \<Rightarrow>
        if trigger_Name trigger \<noteq> TRIGGER_EVENT
        then Inl (Panic ''invalid trigger type for a TelephonistScheduler'')
        else
          andThen (Trigger_MustString trigger) (\<lambda>event.
            let e1 = e\<lparr>ev_triggers := fmupd i trigger (ev_triggers e)\<rparr>;
                e2 = (case fmlookup (ev_eventTriggers e1) event of
                        Some triggers \<Rightarrow>
                          e1\<lparr>ev_eventTriggers :=
                            fmupd event (fmupd i trigger triggers) (ev_eventTriggers e1)\<rparr>
                      | None \<Rightarrow>
                          e1\<lparr>ev_eventTriggers :=
                            fmupd event (fmupd i trigger fmempty) (ev_eventTriggers e1)\<rparr>)
            in case fmlookup (ev_subscriptionsCounters e2) event of
                 Some count \<Rightarrow>
                   Inr (Inr i, e2\<lparr>ev_subscriptionsCounters :=
                     fmupd event (count + 1) (ev_subscriptionsCounters e2)\<rparr>, w)
               | None \<Rightarrow>
                   (let e3 = e2\<lparr>ev_subscriptionsCounters :=
                          fmupd event 1 (ev_subscriptionsCounters e2)\<rparr>
                    in case ev_queue e3 of
                         None \<Rightarrow> Inl nil_queue
                       | Some q \<Rightarrow>
                           andThen (Subcribe event q w) (\<lambda>(was, q1, w1).
                             Inr (Inr i, e3\<lparr>ev_queue := Some q1\<rparr>, w1)))))"

definition Event_Schedule ::
  "task_trigger \<Rightarrow> event_scheduler \<times> ws_client
   \<Rightarrow> ((goerror + u64) \<times> event_scheduler \<times> ws_client) outcome" where
  "Event_Schedule trigger ew = Event_ScheduleByID (trigger_id trigger) trigger ew"

text \<open>A missing counter reads as 0.\<close>

definition Event_Unschedule ::
  "u64 \<Rightarrow> event_scheduler \<times> ws_client
   \<Rightarrow> ((goerror option \<times> bool) \<times> event_scheduler \<times> ws_client) outcome" where
  "Event_Unschedule i ew =
     (case ew of (e, w) \<Rightarrow>
        (case fmlookup (ev_triggers e) i of
           None \<Rightarrow> Inr ((None, False), e, w)
         | Some trigger \<Rightarrow>
             (let e1 = e\<lparr>ev_triggers := fmdrop i (ev_triggers e)\<rparr>
              in andThen (Trigger_MustString trigger) (\<lambda>event.
                let e2 = (case fmlookup (ev_eventTriggers e1) event of
                            Some triggers \<Rightarrow>
                              (let triggers1 = fmdrop i triggers
                               in if mlen triggers1 = 0
                                  then e1\<lparr>ev_eventTriggers := fmdrop event (ev_eventTriggers e1)\<rparr>
                                  else e1\<lparr>ev_eventTriggers :=
                                         fmupd event triggers1 (ev_eventTriggers e1)\<rparr>)
                          | None \<Rightarrow> e1);
                    count = (case fmlookup (ev_subscriptionsCounters e2) event of
                               None \<Rightarrow> 0 | Some n \<Rightarrow> n)
                in if count = 1 then
                     (let e3 = e2\<lparr>ev_subscriptionsCounters :=
                            fmdrop event (ev_subscriptionsCounters e2)\<rparr>
                      in case ev_queue e3 of
                           None \<Rightarrow> Inl nil_queue
                         | Some q \<Rightarrow>
                             andThen (Unsubscribe event q w) (\<lambda>(was, q1, w1).
                               Inr ((None, True), e3\<lparr>ev_queue := Some q1\<rparr>, w1)))
                   else
                     Inr ((None, True), e2\<lparr>ev_subscriptionsCounters :=
                       fmupd event (count - 1) (ev_subscriptionsCounters e2)\<rparr>, w)))))"

definition Event_Start ::
  "(ws_client \<Rightarrow> chan_id) \<Rightarrow> event_scheduler \<times> ws_client
   \<Rightarrow> (goerror option \<times> event_scheduler \<times> ws_client) outcome" where
  "Event_Start mkchan ew =
     (case ew of (e, w) \<Rightarrow>
        if ev_queue e = None then Inr (None, e\<lparr>ev_queue := Some (NewQueue (mkchan w))\<rparr>, w)
        else Inr (None, e, w))"

text \<open>
  One round of \<open>drain\<close>: what was received from the queue's channel (\<open>None\<close> when it is closed), the
  calls, and whether the loop goes on. \<open>idsOf\<close> is the order of the triggers of an event.
\<close>

definition Event_drain_step ::
  "(string \<Rightarrow> u64 list) \<Rightarrow> event option \<Rightarrow> event_scheduler \<Rightarrow> calls \<times> bool" where
  "Event_drain_step idsOf received e =
     (case received of
        None \<Rightarrow> ([], False)
      | Some event \<Rightarrow>
          (case ev_callback e of
             None \<Rightarrow> []
           | Some cb \<Rightarrow>
               (case fmlookup (ev_eventTriggers e) (event_EventKey event) of
                  None \<Rightarrow> []
                | Some triggers \<Rightarrow>
                    map (\<lambda>i. (cb, \<lparr>te_TriggerID = i, te_Trigger = the (fmlookup triggers i),
                      te_Params = fmupd ''EVENT_ID'' (VString (event_ID event)) fmempty\<rparr>))
                      (idsOf (event_EventKey event))),
           ev_queue e \<noteq> None))"

definition Event_Stop ::
  "(event_queue \<Rightarrow> string list) \<Rightarrow> event_scheduler \<times> ws_client
   \<Rightarrow> (event_scheduler \<times> ws_client) outcome" where
  "Event_Stop pick ew =
     (case ew of (e, w) \<Rightarrow>
        (case ev_queue e of
           None \<Rightarrow> Inr (e, w)
         | Some q \<Rightarrow> andThen (UnsubscribeAll (pick q) q w) (\<lambda>w1. Inr (e\<lparr>ev_queue := None\<rparr>, w1))))"

definition Event_IsRunning :: "event_scheduler \<Rightarrow> bool" where
  "Event_IsRunning e \<longleftrightarrow> ev_queue e \<noteq> None"

definition Event_SetCallback :: "func option \<Rightarrow> event_scheduler \<Rightarrow> event_scheduler" where
  "Event_SetCallback callback e = e\<lparr>ev_callback := callback\<rparr>"

definition Event_ops ::
  "(ws_client \<Rightarrow> chan_id) \<Rightarrow> (event_queue \<Rightarrow> string list) \<Rightarrow> (event_scheduler, ws_client) triggers_ops" where
  "Event_ops mkchan pick =
     \<lparr>op_CanSchedule = Event_CanSchedule, op_Schedule = Event_Schedule,
      op_ScheduleByID = Event_ScheduleByID, op_Unschedule = Event_Unschedule,
      op_Start = Event_Start mkchan, op_Stop = Event_Stop pick, op_IsRunning = Event_IsRunning,
      op_SetCallback = Event_SetCallback, op_Explain = Event_Explain\<rparr>"

subsection \<open>Contract and invariant\<close>

definition event_ids :: "event_scheduler \<Rightarrow> u64 set" where
  "event_ids e = fmdom' (ev_triggers e)"

definition event_rdy :: "event_scheduler \<Rightarrow> bool" where
  "event_rdy e \<longleftrightarrow> ev_queue e \<noteq> None \<and> (\<forall>i t. fmlookup (ev_triggers e) i = Some t \<longrightarrow> decodable t)"

definition ws_live :: "ws_client \<Rightarrow> bool" where
  "ws_live w \<longleftrightarrow> chan_live (ws_sendMessages w)"

text \<open>
  The triggers are filed under their events, no event is without a trigger, the counter of an event is the
  number of its triggers, and the queue is subscribed to exactly the events with triggers.
\<close>

definition event_books :: "event_scheduler \<Rightarrow> bool" where
  "event_books e \<longleftrightarrow>
     (\<forall>ev. fmlookup (ev_eventTriggers e) ev \<noteq> Some fmempty) \<and>
     (\<forall>ev. fmlookup (ev_subscriptionsCounters e) ev =
        map_option (\<lambda>ts. int (mlen ts)) (fmlookup (ev_eventTriggers e) ev)) \<and>
     (\<forall>ev i t. fmlookup (nested (ev_eventTriggers e) ev) i = Some t \<longleftrightarrow>
        fmlookup (ev_triggers e) i = Some t \<and> Trigger_MustString t = Inr ev)"

definition event_ok :: "event_scheduler \<Rightarrow> ws_client \<Rightarrow> bool" where
  "event_ok e w \<longleftrightarrow> event_books e \<and>
     (\<exists>q. ev_queue e = Some q \<and> queue_ok q w \<and>
        fmdom' (q_subscribed q) = fmdom' (ev_eventTriggers e))"

section \<open>Lemmas\<close>

lemma Event_ops_simps [simp]:
  "op_CanSchedule (Event_ops mk pick) = Event_CanSchedule"
  "op_Schedule (Event_ops mk pick) = Event_Schedule"
  "op_ScheduleByID (Event_ops mk pick) = Event_ScheduleByID"
  "op_Unschedule (Event_ops mk pick) = Event_Unschedule"
  "op_Start (Event_ops mk pick) = Event_Start mk"
  "op_Stop (Event_ops mk pick) = Event_Stop pick"
  "op_IsRunning (Event_ops mk pick) = Event_IsRunning"
  "op_SetCallback (Event_ops mk pick) = Event_SetCallback"
  "op_Explain (Event_ops mk pick) = Event_Explain"
  by (simp_all add: Event_ops_def)

lemma Event_can: "Event_CanSchedule e = Event_CanSchedule e'"
  by (simp add: Event_CanSchedule_def fun_eq_iff)

text \<open>The two operations with the tables read as nested maps: what they do once the body is decoded.\<close>

lemma Event_ScheduleByID_eq:
  assumes "trigger_Name t = TRIGGER_EVENT" and "Trigger_MustString t = Inr ev"
  shows "Event_ScheduleByID i t (e, w) =
    (let e1 = e\<lparr>ev_triggers := fmupd i t (ev_triggers e),
           ev_eventTriggers := fmupd ev (fmupd i t (nested (ev_eventTriggers e) ev)) (ev_eventTriggers e)\<rparr>
     in case fmlookup (ev_subscriptionsCounters e) ev of
          Some count \<Rightarrow> Inr (Inr i, e1\<lparr>ev_subscriptionsCounters :=
            fmupd ev (count + 1) (ev_subscriptionsCounters e)\<rparr>, w)
        | None \<Rightarrow>
            (let e2 = e1\<lparr>ev_subscriptionsCounters := fmupd ev 1 (ev_subscriptionsCounters e)\<rparr>
             in case ev_queue e of
                  None \<Rightarrow> Inl nil_queue
                | Some q \<Rightarrow> andThen (Subcribe ev q w)
                    (\<lambda>(was, q1, w1). Inr (Inr i, e2\<lparr>ev_queue := Some q1\<rparr>, w1))))"
  using assms
  by (cases "fmlookup (ev_eventTriggers e) ev")
    (simp_all add: Event_ScheduleByID_def Let_def cong: option.case_cong)

lemma Event_ScheduleByID_guard:
  assumes "Event_ScheduleByID i t (e, w) = Inr (r, e', w')"
  obtains ev where "trigger_Name t = TRIGGER_EVENT" and "Trigger_MustString t = Inr ev"
  using assms by (auto simp: Event_ScheduleByID_def andThen_Inr_iff split: if_splits)

lemma Event_ScheduleByID_cases:
  assumes "Event_ScheduleByID i t (e, w) = Inr (r, e', w')"
  shows "r = Inr i \<and> ev_triggers e' = fmupd i t (ev_triggers e) \<and> decodable t \<and>
    (ev_queue e' = None \<longleftrightarrow> ev_queue e = None)"
proof (rule Event_ScheduleByID_guard [OF assms])
  fix ev assume ev: "trigger_Name t = TRIGGER_EVENT" "Trigger_MustString t = Inr ev"
  show ?thesis
    using assms ev(2) unfolding Event_ScheduleByID_eq [OF ev]
    by (auto simp: Let_def andThen_Inr_iff MustString_decodable split: option.splits)
qed

lemma Event_Unschedule_cases:
  assumes "Event_Unschedule i (e, w) = Inr (u, e', w')"
  shows "ev_triggers e' = fmdrop i (ev_triggers e) \<and> (ev_queue e' = None \<longleftrightarrow> ev_queue e = None) \<and>
    u = (None, fmlookup (ev_triggers e) i \<noteq> None)"
  using assms
  by (auto simp: Event_Unschedule_def Let_def andThen_Inr_iff fmdrop_idle fmdom_lookup_iff
      split: option.splits if_splits)

lemma Event_ScheduleByID_rdy:
  assumes "event_rdy e" and "Event_ScheduleByID i t (e, w) = Inr (r, e', w')"
  shows "event_rdy e'"
  using assms(1) Event_ScheduleByID_cases [OF assms(2)] by (auto simp: event_rdy_def)

lemma Event_ScheduleByID_returns:
  assumes "event_rdy e" and "ws_live w" and "Event_CanSchedule e (trigger_Name t)" and "decodable t"
  shows "\<exists>r e' w'. Event_ScheduleByID i t (e, w) = Inr (r, e', w') \<and> event_rdy e' \<and> ws_live w'"
proof -
  from assms(3,4) obtain ev where ev: "trigger_Name t = TRIGGER_EVENT" "Trigger_MustString t = Inr ev"
    using decodable_MustString by (auto simp: Event_CanSchedule_def)
  from assms(1) obtain q where q: "ev_queue e = Some q" by (auto simp: event_rdy_def)
  obtain q1 w1 where sub: "Subcribe ev q w = Inr (IsSubscribed ev q, q1, w1)"
    using Subcribe_returns assms(2) by (metis ws_live_def)
  have "\<exists>r e' w'. Event_ScheduleByID i t (e, w) = Inr (r, e', w') \<and> ws_live w'"
    using assms(2) Subcribe_live [OF sub]
    by (auto simp: Event_ScheduleByID_eq [OF ev] Let_def q sub ws_live_def split: option.split)
  then show ?thesis using Event_ScheduleByID_rdy [OF assms(1)] by blast
qed

lemma Event_Unschedule_returns:
  assumes "event_rdy e" and "ws_live w"
  shows "\<exists>u e' w'. Event_Unschedule i (e, w) = Inr (u, e', w') \<and> event_rdy e' \<and> ws_live w'"
proof (cases "fmlookup (ev_triggers e) i")
  case None
  with assms show ?thesis by (auto simp: Event_Unschedule_def)
next
  case (Some t)
  with assms(1) have "decodable t" by (auto simp: event_rdy_def)
  then obtain ev where ev: "Trigger_MustString t = Inr ev" using decodable_MustString by blast
  from assms(1) obtain q where q: "ev_queue e = Some q" by (auto simp: event_rdy_def)
  obtain b q1 w1 where un: "Unsubscribe ev q w = Inr (b, q1, w1)" "chan_live (ws_sendMessages w1)"
    using Unsubscribe_returns assms(2) by (metis ws_live_def)
  have "\<exists>u e' w'. Event_Unschedule i (e, w) = Inr (u, e', w') \<and> ws_live w'"
    using assms(2) Some ev q un
    by (auto simp: Event_Unschedule_def Let_def ws_live_def split: option.split)
  then obtain u e' w' where run: "Event_Unschedule i (e, w) = Inr (u, e', w')" and "ws_live w'" by auto
  with Event_Unschedule_cases [OF run] assms(1) show ?thesis
    by (auto simp: event_rdy_def)
qed

interpretation event: triggers_scheduler "Event_ops mkchan pick" event_ids event_rdy ws_live
proof
  fix i j t err u and c c' :: event_scheduler and w w' :: ws_client
  show "op_ScheduleByID (Event_ops mkchan pick) i t (c, w) = Inr (Inr j, c', w') \<Longrightarrow>
      j = i \<and> event_ids c' = insert i (event_ids c)"
    by (auto simp: event_ids_def dest!: Event_ScheduleByID_cases)
  show "op_ScheduleByID (Event_ops mkchan pick) i t (c, w) = Inr (Inl err, c', w') \<Longrightarrow>
      event_ids c' = event_ids c"
    by (auto dest: Event_ScheduleByID_cases)
  show "op_Unschedule (Event_ops mkchan pick) i (c, w) = Inr (u, c', w') \<Longrightarrow>
      event_ids c - {i} \<subseteq> event_ids c' \<and> event_ids c' \<subseteq> event_ids c"
    by (auto simp: event_ids_def dest!: Event_Unschedule_cases)
  show "event_rdy c \<Longrightarrow> ws_live w \<Longrightarrow> op_CanSchedule (Event_ops mkchan pick) c (trigger_Name t) \<Longrightarrow>
      decodable t \<Longrightarrow> \<exists>r c' w'. op_ScheduleByID (Event_ops mkchan pick) i t (c, w) = Inr (r, c', w') \<and>
      event_rdy c' \<and> ws_live w'"
    by (simp add: Event_ScheduleByID_returns)
  show "event_rdy c \<Longrightarrow> ws_live w \<Longrightarrow> \<exists>u c' w'. op_Unschedule (Event_ops mkchan pick) i (c, w) =
      Inr (u, c', w') \<and> event_rdy c' \<and> ws_live w'"
    using Event_Unschedule_returns [of c w i] by auto
  show "i \<notin> event_ids c \<Longrightarrow>
      \<exists>err. op_Unschedule (Event_ops mkchan pick) i (c, w) = Inr ((err, False), c, w)"
    by (simp add: Event_Unschedule_def event_ids_def fmdom'_notD)
qed (auto simp: Event_can Event_SetCallback_def event_ids_def event_rdy_def)

section \<open>The books\<close>

lemma event_books_simps:
  assumes "event_books e"
  shows "fmlookup (ev_eventTriggers e) ev \<noteq> Some fmempty"
    and "fmlookup (ev_subscriptionsCounters e) ev =
      map_option (\<lambda>ts. int (mlen ts)) (fmlookup (ev_eventTriggers e) ev)"
    and "fmlookup (nested (ev_eventTriggers e) ev) i = Some t \<longleftrightarrow>
      fmlookup (ev_triggers e) i = Some t \<and> Trigger_MustString t = Inr ev"
  using assms by (simp_all add: event_books_def)

text \<open>Filing a trigger under a new identifier, and taking one out, with the counter kept in step.\<close>

lemma event_books_file:
  assumes "event_books e" and "i \<notin> event_ids e" and "Trigger_MustString t = Inr ev"
    and "ev_triggers e' = fmupd i t (ev_triggers e)"
    and "ev_eventTriggers e' =
      fmupd ev (fmupd i t (nested (ev_eventTriggers e) ev)) (ev_eventTriggers e)"
    and "ev_subscriptionsCounters e' =
      fmupd ev (int (Suc (mlen (nested (ev_eventTriggers e) ev)))) (ev_subscriptionsCounters e)"
  shows "event_books e'"
proof -
  have trig: "fmlookup (ev_triggers e) i = None" using assms(2) by (simp add: event_ids_def fmdom'_notD)
  then have new: "fmlookup (nested (ev_eventTriggers e) k) i = None" for k
    using event_books_simps(3) [OF assms(1)] by (metis not_None_eq option.distinct(1))
  then have "i |\<notin>| fmdom (nested (ev_eventTriggers e) ev)" by (simp add: fmdom_notI)
  with assms new trig show ?thesis by (auto simp: event_books_def nested_upd)
qed

lemma event_books_take:
  assumes "event_books e" and "fmlookup (ev_triggers e) i = Some t"
    and "Trigger_MustString t = Inr ev"
    and "ev_triggers e' = fmdrop i (ev_triggers e)"
    and "fmlookup (ev_eventTriggers e) ev = Some ts"
    and "ev_eventTriggers e' = (if mlen ts = 1 then fmdrop ev (ev_eventTriggers e)
      else fmupd ev (fmdrop i ts) (ev_eventTriggers e))"
    and "ev_subscriptionsCounters e' = (if mlen ts = 1 then fmdrop ev (ev_subscriptionsCounters e)
      else fmupd ev (int (mlen ts) - 1) (ev_subscriptionsCounters e))"
  shows "event_books e'"
proof -
  have "fmlookup ts i = Some t" using event_books_simps(3) [OF assms(1), of ev i t] assms(2,3,5) by simp
  then have i: "i |\<in>| fmdom ts" by (rule fmdomI)
  then have pos: "0 < mlen ts" by (auto simp: mlen_pos_iff)
  have one: "k = i" if "mlen ts = 1" "fmlookup ts k = Some u" for k u
    using that \<open>fmlookup ts i = Some t\<close> mlen_1_lookup [of ts i t k u] by simp
  have ne: "mlen ts \<noteq> 1 \<Longrightarrow> fmdrop i ts \<noteq> fmempty"
    using pos i by (metis One_nat_def Suc_pred mlen_drop mlen_empty)
  have ets: "fmlookup (nested (ev_eventTriggers e) k) j = Some u \<longleftrightarrow>
      fmlookup (ev_triggers e) j = Some u \<and> Trigger_MustString u = Inr k" for k j u
    by (rule event_books_simps(3) [OF assms(1)])
  have ts: "fmlookup ts j = Some u \<longleftrightarrow>
      fmlookup (ev_triggers e) j = Some u \<and> Trigger_MustString u = Inr ev" for j u
    using ets [of ev j u] assms(5) by simp
  have "fmlookup (nested (ev_eventTriggers e') k) j = Some u \<longleftrightarrow>
      fmlookup (ev_triggers e') j = Some u \<and> Trigger_MustString u = Inr k" for k j u
  proof (cases "k = ev")
    case True
    show ?thesis
    proof (cases "mlen ts = 1")
      case m: True
      with one ts [of j u] True show ?thesis by (auto simp: assms(4,6) nested_drop)
    next
      case False
      with ts [of j u] True show ?thesis by (auto simp: assms(4,6) nested_upd)
    qed
  next
    case False
    with ets [of k j u] assms(2,3) show ?thesis by (auto simp: assms(4,6) nested_upd nested_drop)
  qed
  moreover have "fmlookup (ev_eventTriggers e') k \<noteq> Some fmempty" for k
    using ne event_books_simps(1) [OF assms(1), of k] by (auto simp: assms(6))
  moreover have "fmlookup (ev_subscriptionsCounters e') k =
      map_option (\<lambda>ts. int (mlen ts)) (fmlookup (ev_eventTriggers e') k)" for k
    using event_books_simps(2) [OF assms(1), of k] i pos by (auto simp: assms(6,7))
  ultimately show ?thesis by (simp add: event_books_def)
qed

lemma event_ok_schedule:
  assumes "event_ok e w" and "ws_room w" and "i \<notin> event_ids e"
    and "Event_ScheduleByID i t (e, w) = Inr (r, e', w')"
  shows "event_ok e' w'"
proof (rule Event_ScheduleByID_guard [OF assms(4)])
  fix ev assume ev: "trigger_Name t = TRIGGER_EVENT" "Trigger_MustString t = Inr ev"
  from assms(1) obtain q where books: "event_books e" and q: "ev_queue e = Some q" "queue_ok q w"
    "fmdom' (q_subscribed q) = fmdom' (ev_eventTriggers e)" by (auto simp: event_ok_def)
  note run = assms(4) [unfolded Event_ScheduleByID_eq [OF ev] Let_def]
  show ?thesis
  proof (cases "fmlookup (ev_eventTriggers e) ev")
    case None
    with event_books_simps(2) [OF books, of ev]
    have c: "fmlookup (ev_subscriptionsCounters e) ev = None" by simp
    with run q(1) obtain b q1 where sub: "Subcribe ev q w = Inr (b, q1, w')"
      and e': "e' = e\<lparr>ev_triggers := fmupd i t (ev_triggers e),
        ev_eventTriggers := fmupd ev (fmupd i t (nested (ev_eventTriggers e) ev)) (ev_eventTriggers e),
        ev_subscriptionsCounters := fmupd ev 1 (ev_subscriptionsCounters e), ev_queue := Some q1\<rparr>"
      by (auto simp: andThen_Inr_iff)
    have "event_books e'"
      by (rule event_books_file [OF books assms(3) ev(2)]) (simp_all add: e' None)
    with Subcribe_ok [OF q(2) assms(2) sub] q(3) show ?thesis by (simp add: event_ok_def e')
  next
    case (Some ts)
    with event_books_simps(2) [OF books, of ev]
    have c: "fmlookup (ev_subscriptionsCounters e) ev = Some (int (mlen ts))" by simp
    with run have e': "e' = e\<lparr>ev_triggers := fmupd i t (ev_triggers e),
        ev_eventTriggers := fmupd ev (fmupd i t (nested (ev_eventTriggers e) ev)) (ev_eventTriggers e),
        ev_subscriptionsCounters := fmupd ev (int (mlen ts) + 1) (ev_subscriptionsCounters e)\<rparr>"
      and w': "w' = w" by simp_all
    have "event_books e'"
      by (rule event_books_file [OF books assms(3) ev(2)]) (simp_all add: e' Some add.commute)
    moreover have "ev \<in> fmdom' (ev_eventTriggers e)" using Some by (rule fmdom'I)
    ultimately show ?thesis using q by (auto simp: event_ok_def e' w')
  qed
qed

lemma event_ok_unschedule:
  assumes "event_ok e w" and "Event_Unschedule i (e, w) = Inr (u, e', w')"
  shows "event_ok e' w'"
proof (cases "fmlookup (ev_triggers e) i")
  case None
  with assms show ?thesis by (simp add: Event_Unschedule_def)
next
  case (Some t)
  from assms(2) Some obtain ev where ev: "Trigger_MustString t = Inr ev"
    by (auto simp: Event_Unschedule_def Let_def andThen_Inr_iff)
  from assms(1) obtain q where books: "event_books e" and q: "ev_queue e = Some q" "queue_ok q w"
    "fmdom' (q_subscribed q) = fmdom' (ev_eventTriggers e)" by (auto simp: event_ok_def)
  from event_books_simps(3) [OF books, of ev i t] Some ev
  obtain ts where ts: "fmlookup (ev_eventTriggers e) ev = Some ts" and it: "fmlookup ts i = Some t"
    by (cases "fmlookup (ev_eventTriggers e) ev") auto
  from it have i: "i |\<in>| fmdom ts" by (rule fmdomI)
  then have pos: "0 < mlen ts" by (auto simp: mlen_pos_iff)
  have c: "fmlookup (ev_subscriptionsCounters e) ev = Some (int (mlen ts))"
    using event_books_simps(2) [OF books, of ev] ts by simp
  show ?thesis
  proof (cases "mlen ts = 1")
    case True
    with assms(2) Some ev ts c q(1) i obtain b q1 where un: "Unsubscribe ev q w = Inr (b, q1, w')"
      and e': "e' = e\<lparr>ev_triggers := fmdrop i (ev_triggers e),
        ev_eventTriggers := fmdrop ev (ev_eventTriggers e),
        ev_subscriptionsCounters := fmdrop ev (ev_subscriptionsCounters e), ev_queue := Some q1\<rparr>"
      by (auto simp: Event_Unschedule_def Let_def andThen_Inr_iff)
    have "event_books e'"
      by (rule event_books_take [OF books Some ev _ ts]) (simp_all add: e' True)
    with Unsubscribe_ok [OF q(2) un] q(3) show ?thesis by (simp add: event_ok_def e')
  next
    case False
    with pos i have "mlen (fmdrop i ts) \<noteq> 0" by simp
    with False assms(2) Some ev ts c
    have e': "e' = e\<lparr>ev_triggers := fmdrop i (ev_triggers e),
        ev_eventTriggers := fmupd ev (fmdrop i ts) (ev_eventTriggers e),
        ev_subscriptionsCounters := fmupd ev (int (mlen ts) - 1) (ev_subscriptionsCounters e)\<rparr>"
      and w': "w' = w"
      by (simp_all add: Event_Unschedule_def Let_def)
    have "event_books e'"
      by (rule event_books_take [OF books Some ev _ ts]) (use False in \<open>simp_all add: e'\<close>)
    moreover have "ev \<in> fmdom' (ev_eventTriggers e)" using ts by (rule fmdom'I)
    ultimately show ?thesis using q by (auto simp: event_ok_def e' w')
  qed
qed

section \<open>Runs\<close>

text \<open>Calls in which no identifier is scheduled while it is on the books (\<open>used\<close>).\<close>

fun fresh_calls :: "u64 set \<Rightarrow> sched_call list \<Rightarrow> bool" where
  "fresh_calls used [] \<longleftrightarrow> True"
| "fresh_calls used (CallSchedule i t # calls) \<longleftrightarrow> i \<notin> used \<and> fresh_calls (insert i used) calls"
| "fresh_calls used (CallUnschedule i # calls) \<longleftrightarrow> fresh_calls (used - {i}) calls"

lemma Subcribe_seq:
  assumes "Subcribe ev q w = Inr (b, q', w')"
  shows "ws_eventChannelsSeq w' \<in> {ws_eventChannelsSeq w, ws_eventChannelsSeq w + 1}"
  using assms addEventChannel_channels(1,2) [of ev "q_Channel q" w _ w']
  by (auto simp: Subcribe_def Let_def andThen_Inr_iff split: if_splits)

lemma sched_step_seq:
  assumes "sched_step (Event_ops mk pick) call (e, w) = Inr (e', w')"
  shows "ws_eventChannelsSeq w' \<in> {ws_eventChannelsSeq w, ws_eventChannelsSeq w + 1}"
proof (cases call)
  case (CallSchedule i t)
  with assms obtain r where run: "Event_ScheduleByID i t (e, w) = Inr (r, e', w')"
    by (auto simp: andThen_Inr_iff)
  show ?thesis
  proof (rule Event_ScheduleByID_guard [OF run])
    fix ev assume ev: "trigger_Name t = TRIGGER_EVENT" "Trigger_MustString t = Inr ev"
    show ?thesis
      using run unfolding Event_ScheduleByID_eq [OF ev]
      by (auto simp: Let_def andThen_Inr_iff dest: Subcribe_seq split: option.splits)
  qed
next
  case (CallUnschedule i)
  with assms show ?thesis
    by (auto simp: Event_Unschedule_def Unsubscribe_def Let_def andThen_Inr_iff split: option.splits if_splits)
qed

lemma unat_add_1_le: "unat (x + 1 :: u32) \<le> unat x + 1"
  by (metis add.commute le_refl le_SucI plus_1_eq_Suc unatSuc unat_0 word_zero_le zero_le)

lemma event_run_ok:
  assumes "event_ok e w" and "fresh_calls (event_ids e) calls"
    and "unat (ws_eventChannelsSeq w) + length calls < 2 ^ 32"
    and "sched_run (Event_ops mk pick) calls (e, w) = Inr (e', w')"
  shows "event_ok e' w'"
  using assms
proof (induction calls arbitrary: e w)
  case Nil
  then show ?case by (simp add: sched_run_def)
next
  case (Cons call calls)
  from Cons.prems(4) obtain d v where step: "sched_step (Event_ops mk pick) call (e, w) = Inr (d, v)"
    and rest: "sched_run (Event_ops mk pick) calls (d, v) = Inr (e', w')"
    by (auto simp: sched_run_def andThen_Inr_iff)
  have "unat (- 1 :: u32) = 2 ^ 32 - 1" by (simp add: unsigned_minus_1_eq_mask mask_eq_exp_minus_1)
  with Cons.prems(3) have room: "ws_room w" by (auto simp: ws_room_def)
  have "unat (ws_eventChannelsSeq v) \<le> unat (ws_eventChannelsSeq w) + 1"
    using sched_step_seq [OF step] unat_add_1_le [of "ws_eventChannelsSeq w"] by auto
  with Cons.prems(3) have seq: "unat (ws_eventChannelsSeq v) + length calls < 2 ^ 32" by simp
  have "event_ok d v \<and> fresh_calls (event_ids d) calls"
  proof (cases call)
    case (CallSchedule i t)
    with step obtain r where run: "Event_ScheduleByID i t (e, w) = Inr (r, d, v)"
      by (auto simp: andThen_Inr_iff)
    from Event_ScheduleByID_cases [OF run] have "event_ids d = insert i (event_ids e)"
      by (simp add: event_ids_def)
    with Cons.prems(1,2) CallSchedule event_ok_schedule [OF _ room _ run] show ?thesis by simp
  next
    case (CallUnschedule i)
    with step obtain r where run: "Event_Unschedule i (e, w) = Inr (r, d, v)"
      by (auto simp: andThen_Inr_iff)
    from Event_Unschedule_cases [OF run] have "event_ids d = event_ids e - {i}"
      by (simp add: event_ids_def)
    with Cons.prems(1,2) CallUnschedule event_ok_unschedule [OF _ run] show ?thesis by simp
  qed
  with Cons.IH seq rest show ?case by blast
qed

lemma event_ok_start:
  assumes "ws_channels_ok w" and "ws_reg.synced w" and "\<And>e i. ws_registered w e i \<noteq> Some (mk w)"
    and "Event_Start mk (NewTelephonistScheduler, w) = Inr (None, e, w')"
  shows "event_ok e w' \<and> event_ids e = {} \<and> w' = w"
  using assms NewQueue_ok [OF assms(1-3)]
  by (auto simp: Event_Start_def NewTelephonistScheduler_def event_ok_def event_books_def event_ids_def
      NewQueue_def)

section \<open>Examples\<close>

definition event_trigger :: "string \<Rightarrow> task_trigger" where
  "event_trigger s = \<lparr>trigger_Name = TRIGGER_EVENT, trigger_Body = quoted s, trigger_Disabled = False\<rparr>"

lemma event_trigger_simps [simp]:
  "trigger_Name (event_trigger s) = TRIGGER_EVENT"
  "plain s \<Longrightarrow> Trigger_MustString (event_trigger s) = Inr s"
  by (simp_all add: event_trigger_def Trigger_MustString_eq json_string_quoted)

lemma plain_login [simp]: "plain ''login''"
  by (simp add: plain_def between_def dquote_def backslash_def)

text \<open>A started scheduler on the example client, and the one after a first trigger under identifier 3.\<close>

definition event_started :: event_scheduler where
  "event_started = NewTelephonistScheduler\<lparr>ev_queue := Some (NewQueue 9)\<rparr>"

definition event_example :: event_scheduler where
  "event_example = NewTelephonistScheduler
     \<lparr>ev_queue := Some ((NewQueue 9)\<lparr>q_subscribed := fmupd ''login'' 1 fmempty\<rparr>),
      ev_triggers := fmupd 3 (event_trigger ''login'') fmempty,
      ev_eventTriggers := fmupd ''login'' (fmupd 3 (event_trigger ''login'') fmempty) fmempty,
      ev_subscriptionsCounters := fmupd ''login'' 1 fmempty, ev_callback := Some 7\<rparr>"

definition subscribed_client :: ws_client where
  "subscribed_client = example_client\<lparr>ws_eventChannelsSeq := 1,
     ws_eventChannels := fmupd ''login'' (fmupd 1 9 fmempty) fmempty,
     ws_sendMessages := OpenChan True [msg_subscribe ''login'']\<rparr>"

lemma event_started_start:
  "Event_Start (\<lambda>_. 9) (NewTelephonistScheduler, example_client) = Inr (None, event_started, example_client)"
  by (simp add: Event_Start_def event_started_def NewTelephonistScheduler_def)

lemma event_example_schedule:
  "Event_ScheduleByID 3 (event_trigger ''login'') (event_started\<lparr>ev_callback := Some 7\<rparr>, example_client) =
    Inr (Inr 3, event_example, subscribed_client)"
  by (simp add: Event_ScheduleByID_eq Let_def event_started_def event_example_def subscribed_client_def
      NewTelephonistScheduler_def Subcribe_def IsSubscribed_def NewQueue_def addEventChannel_def ws_send_def)

lemma event_example_ok: "event_ok event_example subscribed_client"
proof -
  have "event_ok event_started example_client \<and> event_ids event_started = {}"
    using event_ok_start [OF example_client_ok(1,2) _ event_started_start] by (simp add: example_client_ok)
  then have "event_ok (event_started\<lparr>ev_callback := Some 7\<rparr>) example_client"
    and "3 \<notin> event_ids (event_started\<lparr>ev_callback := Some 7\<rparr>)"
    by (simp_all add: event_ok_def event_books_def event_ids_def)
  from event_ok_schedule [OF this(1) example_client_ok(3) this(2) event_example_schedule] show ?thesis .
qed

section \<open>Properties\<close>

text \<open>C13. Subscriptions follow triggers: on a new scheduler that is started on a client in order, after any
  calls of \<open>ScheduleByID\<close> and \<open>Unschedule\<close> in which no identifier is scheduled while it is on the books
  (fewer than \<open>2 ^ 32\<close> of them), the counter of an event is the number of its triggers, the queue is subscribed to
  exactly the events that have a trigger, and the server knows them all.\<close>

theorem Event_subscriptions_follow_triggers:
  assumes "ws_channels_ok w" and "ws_reg.synced w" and "\<And>k i. ws_registered w k i \<noteq> Some (mk w)"
    and "Event_Start mk (NewTelephonistScheduler, w) = Inr (None, e, w)"
    and "sched_run (Event_ops mk pick) calls (e, w) = Inr (e', w')"
    and "fresh_calls {} calls" and "unat (ws_eventChannelsSeq w) + length calls < 2 ^ 32"
  shows "\<exists>q. ev_queue e' = Some q \<and>
    (\<forall>ev. (IsSubscribed ev q \<longleftrightarrow>
         (\<exists>i t. fmlookup (ev_triggers e') i = Some t \<and> Trigger_MustString t = Inr ev)) \<and>
      (IsSubscribed ev q \<longrightarrow> ev \<in> server_subscriptions w' \<and>
         fmlookup (ev_subscriptionsCounters e') ev = Some (int (mlen (nested (ev_eventTriggers e') ev)))))"
proof -
  from event_ok_start [OF assms(1-4)] have "event_ok e w" "event_ids e = {}" by auto
  with event_run_ok [OF _ _ assms(7,5)] assms(6) have "event_ok e' w'" by simp
  then obtain q where books: "event_books e'" and q: "ev_queue e' = Some q" "queue_ok q w'"
    "fmdom' (q_subscribed q) = fmdom' (ev_eventTriggers e')" by (auto simp: event_ok_def)
  have "IsSubscribed ev q \<longleftrightarrow> (\<exists>ts. fmlookup (ev_eventTriggers e') ev = Some ts)" for ev
    using q(3) by (metis IsSubscribed_def fmlookup_dom'_iff not_None_eq)
  moreover have "(\<exists>ts. fmlookup (ev_eventTriggers e') ev = Some ts) \<longleftrightarrow>
      (\<exists>i t. fmlookup (ev_triggers e') i = Some t \<and> Trigger_MustString t = Inr ev)" for ev
    using event_books_simps(1,3) [OF books, of ev]
    by (cases "fmlookup (ev_eventTriggers e') ev") (auto simp: fmap_nonempty_iff nested_def)
  moreover have "fmlookup (ev_subscriptionsCounters e') ev =
      Some (int (mlen (nested (ev_eventTriggers e') ev)))" if "fmlookup (ev_eventTriggers e') ev = Some ts" for ev ts
    using that event_books_simps(2) [OF books, of ev] by simp
  moreover have "ev \<in> server_subscriptions w'" if "IsSubscribed ev q" for ev
    using that q(2) ws_reg.synced_linked [of w' "q_subscribed q" "q_Channel q" ev]
    by (auto simp: queue_ok_def IsSubscribed_def)
  ultimately show ?thesis using q(1) by metis
qed

theorem Event_subscriptions_follow_triggers_witness:
  "\<exists>e' w' q. sched_run (Event_ops (\<lambda>_. 9) (\<lambda>_. [])) [CallSchedule 3 (event_trigger ''login'')]
      (event_started, example_client) = Inr (e', w') \<and>
    ev_queue e' = Some q \<and> IsSubscribed ''login'' q \<and> ''login'' \<in> server_subscriptions w'"
proof -
  have free: "ws_registered example_client k i \<noteq> Some 9" for k i by (simp add: example_client_ok)
  let ?calls = "[CallSchedule 3 (event_trigger ''login'')]"
  let ?e = "event_example\<lparr>ev_callback := None\<rparr>"
  have run: "sched_run (Event_ops (\<lambda>_. 9) (\<lambda>_. [])) ?calls (event_started, example_client) =
      Inr (?e, subscribed_client)"
    by (simp add: sched_run_def Event_ScheduleByID_eq Let_def event_started_def event_example_def
        subscribed_client_def NewTelephonistScheduler_def Subcribe_def IsSubscribed_def NewQueue_def
        addEventChannel_def ws_send_def)
  have "fresh_calls {} ?calls" and "unat (ws_eventChannelsSeq example_client) + length ?calls < 2 ^ 32"
    by simp_all
  from Event_subscriptions_follow_triggers
    [OF example_client_ok(1,2) free event_started_start run this]
  obtain q where q: "ev_queue ?e = Some q" and subs: "\<And>ev. (IsSubscribed ev q \<longleftrightarrow>
         (\<exists>i t. fmlookup (ev_triggers ?e) i = Some t \<and> Trigger_MustString t = Inr ev)) \<and>
      (IsSubscribed ev q \<longrightarrow> ev \<in> server_subscriptions subscribed_client)" by blast
  have "fmlookup (ev_triggers ?e) 3 = Some (event_trigger ''login'')" by (simp add: event_example_def)
  moreover have "Trigger_MustString (event_trigger ''login'') = Inr ''login''" by simp
  ultimately have "IsSubscribed ''login'' q" using subs [of "''login''"] by blast
  with q run subs show ?thesis by blast
qed

text \<open>An event is handed to the callback for exactly the triggers registered for its key, once each,
  with the event's identifier.\<close>

theorem Event_drain_exact:
  assumes "ev_callback e = Some cb" and "range_order (nested (ev_eventTriggers e) (event_EventKey x))
    (idsOf (event_EventKey x))"
  shows "set (fst (Event_drain_step idsOf (Some x) e)) =
      {(cb, \<lparr>te_TriggerID = i, te_Trigger = t,
         te_Params = fmupd ''EVENT_ID'' (VString (event_ID x)) fmempty\<rparr>)
       | i t. fmlookup (nested (ev_eventTriggers e) (event_EventKey x)) i = Some t} \<and>
    length (fst (Event_drain_step idsOf (Some x) e)) =
      mlen (nested (ev_eventTriggers e) (event_EventKey x))"
proof (cases "fmlookup (ev_eventTriggers e) (event_EventKey x)")
  case None
  with assms(1) show ?thesis by (simp add: Event_drain_step_def)
next
  case (Some ts)
  then have order: "range_order ts (idsOf (event_EventKey x))" using assms(2) by simp
  from Some assms(1) show ?thesis
    using range_order_lookup [OF order] range_order_length [OF order]
    by (force simp: Event_drain_step_def)
qed

theorem Event_drain_exact_witness:
  "length (fst (Event_drain_step (\<lambda>_. [3]) (Some \<lparr>event_ID = ''1'', event_AppID = [],
     event_EventKey = ''login'', event_EventType = [], event_RelatedTask = [], event_PublisherIP = [],
     event_SequenceID = []\<rparr>) event_example)) = 1"
proof -
  let ?x = "\<lparr>event_ID = ''1'', event_AppID = [],
     event_EventKey = ''login'', event_EventType = [], event_RelatedTask = [], event_PublisherIP = [],
     event_SequenceID = []\<rparr>"
  have "ev_callback event_example = Some 7"
    and "range_order (nested (ev_eventTriggers event_example) (event_EventKey ?x)) [3]"
    by (simp_all add: event_example_def range_order_def nested_upd)
  from Event_drain_exact [OF this] show ?thesis by (simp add: event_example_def nested_upd)
qed

text \<open>Scheduling an identifier again counts its event twice: unscheduling the identifier then leaves
  the subscription, and the server goes on sending events for which no trigger exists.\<close>

theorem Event_reschedule_leaks:
  assumes "event_ok e w" and "fmlookup (ev_triggers e) i = Some t" and "trigger_Name t = TRIGGER_EVENT"
    and "Trigger_MustString t = Inr ev" and "mlen (nested (ev_eventTriggers e) ev) = 1"
  shows "\<exists>e1 e2 q. Event_ScheduleByID i t (e, w) = Inr (Inr i, e1, w) \<and>
    Event_Unschedule i (e1, w) = Inr ((None, True), e2, w) \<and>
    fmlookup (ev_eventTriggers e2) ev = None \<and> fmlookup (ev_subscriptionsCounters e2) ev = Some 1 \<and>
    ev_queue e2 = Some q \<and> IsSubscribed ev q \<and> ev \<in> server_subscriptions w"
proof -
  from assms(1) obtain q where books: "event_books e" and q: "ev_queue e = Some q" "queue_ok q w"
    "fmdom' (q_subscribed q) = fmdom' (ev_eventTriggers e)" by (auto simp: event_ok_def)
  from assms(5) obtain ts where ts: "fmlookup (ev_eventTriggers e) ev = Some ts" "mlen ts = 1"
    by (cases "fmlookup (ev_eventTriggers e) ev") auto
  have it: "fmlookup ts i = Some t" using event_books_simps(3) [OF books, of ev i t] assms(2,4) ts by simp
  have c: "fmlookup (ev_subscriptionsCounters e) ev = Some 1"
    using event_books_simps(2) [OF books, of ev] ts by simp
  have sub: "IsSubscribed ev q" using q(3) ts(1) by (metis IsSubscribed_def fmdom'I fmdom'_notI)
  then have "ev \<in> server_subscriptions w"
    using q(2) ws_reg.synced_linked [of w "q_subscribed q" "q_Channel q" ev]
    by (auto simp: queue_ok_def IsSubscribed_def)
  moreover have "i |\<in>| fmdom ts" using it by (rule fmdomI)
  ultimately show ?thesis
    using ts it c q(1) sub assms(2,4)
    by (simp add: Event_ScheduleByID_eq [OF assms(3,4)] Let_def fmupd_idle Event_Unschedule_def)
qed

theorem Event_reschedule_leaks_witness:
  "\<exists>e1 e2 q. Event_ScheduleByID 3 (event_trigger ''login'') (event_example, subscribed_client) =
      Inr (Inr 3, e1, subscribed_client) \<and>
    Event_Unschedule 3 (e1, subscribed_client) = Inr ((None, True), e2, subscribed_client) \<and>
    ev_queue e2 = Some q \<and> IsSubscribed ''login'' q"
proof -
  have "fmlookup (ev_triggers event_example) 3 = Some (event_trigger ''login'')"
    and "mlen (nested (ev_eventTriggers event_example) ''login'') = 1"
    by (simp_all add: event_example_def nested_upd)
  from Event_reschedule_leaks [OF event_example_ok this(1) _ _ this(2)] show ?thesis by auto
qed

text \<open>Before \<open>Start\<close>, scheduling a trigger for an event that has no counter panics on the nil queue.\<close>

theorem Event_before_start_panics:
  assumes "ev_queue e = None" and "trigger_Name t = TRIGGER_EVENT" and "Trigger_MustString t = Inr ev"
    and "fmlookup (ev_subscriptionsCounters e) ev = None"
  shows "Event_ScheduleByID i t (e, w) = Inl nil_queue"
  using assms by (simp add: Event_ScheduleByID_eq Let_def)

theorem Event_before_start_panics_witness:
  "Event_ScheduleByID 3 (event_trigger ''login'') (NewTelephonistScheduler, example_client) = Inl nil_queue"
  by (rule Event_before_start_panics [where ev = "''login''"])
    (simp_all add: NewTelephonistScheduler_def)

text \<open>A restart loses the subscriptions: after \<open>Stop\<close> and \<open>Start\<close> the triggers and counters are as
  before, but the new queue is subscribed to nothing, and scheduling another trigger for an event that
  had one does not subscribe to it.\<close>

theorem Event_restart_forgets:
  assumes "event_ok e w" and "ws_live w" and "Trigger_MustString t = Inr ev"
    and "trigger_Name t = TRIGGER_EVENT" and "fmlookup (ev_eventTriggers e) ev \<noteq> None"
  shows "\<exists>e1 w1 e2 e3. Event_Stop pick (e, w) = Inr (e1, w1) \<and>
    Event_Start mk (e1, w1) = Inr (None, e2, w1) \<and> event_ids e2 = event_ids e \<and>
    ev_queue e2 = Some (NewQueue (mk w1)) \<and>
    Event_ScheduleByID i t (e2, w1) = Inr (Inr i, e3, w1) \<and> ev_queue e3 = Some (NewQueue (mk w1)) \<and>
    \<not> IsSubscribed ev (NewQueue (mk w1))"
proof -
  from assms(1) obtain q where books: "event_books e" and q: "ev_queue e = Some q"
    by (auto simp: event_ok_def)
  obtain w1 where w1: "UnsubscribeAll (pick q) q w = Inr w1"
    using UnsubscribeAll_returns assms(2) by (metis ws_live_def)
  obtain n where "fmlookup (ev_subscriptionsCounters e) ev = Some n"
    using assms(5) event_books_simps(2) [OF books, of ev] by auto
  then show ?thesis
    using q w1
    by (simp add: Event_Stop_def Event_Start_def Event_ScheduleByID_eq [OF assms(4,3)] Let_def
        event_ids_def IsSubscribed_def NewQueue_def)
qed

theorem Event_restart_forgets_witness:
  "\<exists>e1 w1 e2. Event_Stop (\<lambda>_. [''login'']) (event_example, subscribed_client) = Inr (e1, w1) \<and>
    Event_Start (\<lambda>_. 10) (e1, w1) = Inr (None, e2, w1) \<and> event_ids e2 = {3} \<and>
    ev_queue e2 = Some (NewQueue 10)"
proof -
  have "ws_live subscribed_client" by (simp add: ws_live_def subscribed_client_def)
  moreover have "fmlookup (ev_eventTriggers event_example) ''login'' \<noteq> None"
    and "event_ids event_example = {3}" by (simp_all add: event_example_def event_ids_def)
  moreover have "Trigger_MustString (event_trigger ''login'') = Inr ''login''"
    and "trigger_Name (event_trigger ''login'') = TRIGGER_EVENT" by simp_all
  ultimately show ?thesis
    using Event_restart_forgets [OF event_example_ok, of "event_trigger ''login''" "''login''"
        "\<lambda>_. [''login'']" "\<lambda>_. 10" 3] by metis
qed

end
