(* ===== verification/Composite_Triggers.thy ===== *)
theory Composite_Triggers
  imports Triggers_Scheduler
begin

text \<open>
  \<open>CompositeTriggersScheduler\<close> of \<open>taskscheduler/trigger_scheduler.go\<close>: it hands a trigger to the first of its
  children that accepts the trigger's type. The model is generic in the children's method table. Every
  lemma about it needs only the contract of the children; the last lemma of the locale says that the
  composite has the contract itself.
\<close>

section \<open>Definitions\<close>

record 'c composite_scheduler =
  co_childSchedulers :: "'c list"
  co_executorIndexBits :: nat
  co_isRunning :: bool
  co_ids :: "(u64, nat) fmap"

text \<open>\<open>math.Ceil(math.Log2(n))\<close> for a positive \<open>n\<close>.\<close>

fun ceil_log2 :: "nat \<Rightarrow> nat" where
  "ceil_log2 n = (if n \<le> 1 then 0 else Suc (ceil_log2 ((n + 1) div 2)))"

declare ceil_log2.simps [simp del]

definition NewCompositeTriggersScheduler :: "'c list \<Rightarrow> 'c composite_scheduler" where
  "NewCompositeTriggersScheduler executors =
     \<lparr>co_childSchedulers = executors, co_executorIndexBits = ceil_log2 (length executors),
      co_isRunning = False, co_ids = fmempty\<rparr>"

fun contains :: "string list \<Rightarrow> string \<Rightarrow> bool" where
  "contains [] e \<longleftrightarrow> False"
| "contains (a # s) e \<longleftrightarrow> (if a = e then True else contains s e)"

text \<open>The inner loop of \<open>Explain\<close>: the types not yet listed are appended.\<close>

definition add_types :: "string list \<Rightarrow> string list \<Rightarrow> string list" where
  "add_types new allowed =
     fold (\<lambda>triggerType acc. if \<not> contains acc triggerType then acc @ [triggerType] else acc) new allowed"

definition Composite_Explain :: "('c, 'w) triggers_ops \<Rightarrow> 'c composite_scheduler \<Rightarrow> sched_info" where
  "Composite_Explain ops e =
     (let infos = map (op_Explain ops) (co_childSchedulers e)
      in SchedInfo ''CompositeTriggersScheduler''
           (fold (\<lambda>info. add_types (AllowedTriggerTypes info)) infos []) (Children infos))"

fun Composite_CanSchedule_loop :: "('c, 'w) triggers_ops \<Rightarrow> string \<Rightarrow> 'c list \<Rightarrow> bool" where
  "Composite_CanSchedule_loop ops triggerType [] \<longleftrightarrow> False"
| "Composite_CanSchedule_loop ops triggerType (c # cs) \<longleftrightarrow>
     (if op_CanSchedule ops c triggerType then True else Composite_CanSchedule_loop ops triggerType cs)"

definition Composite_CanSchedule ::
  "('c, 'w) triggers_ops \<Rightarrow> 'c composite_scheduler \<Rightarrow> string \<Rightarrow> bool" where
  "Composite_CanSchedule ops e triggerType =
     Composite_CanSchedule_loop ops triggerType (co_childSchedulers e)"

text \<open>The index of the first child that accepts the type: where the loops of the two schedule methods stop.\<close>

fun first_child :: "('c, 'w) triggers_ops \<Rightarrow> string \<Rightarrow> 'c list \<Rightarrow> nat option" where
  "first_child ops triggerType [] = None"
| "first_child ops triggerType (c # cs) =
     (if op_CanSchedule ops c triggerType then Some 0
      else map_option Suc (first_child ops triggerType cs))"

definition no_executor :: "string \<Rightarrow> goerror" where
  "no_executor name = ErrText (''there'' @ [CHR 0x27] @ ''s no executors that match given trigger type '' @ name)"

definition Composite_ScheduleByID ::
  "('c, 'w) triggers_ops \<Rightarrow> u64 \<Rightarrow> task_trigger \<Rightarrow> 'c composite_scheduler \<times> 'w
   \<Rightarrow> ((goerror + u64) \<times> 'c composite_scheduler \<times> 'w) outcome" where
  "Composite_ScheduleByID ops i trigger ew =
     (case ew of (e, w) \<Rightarrow>
        (case first_child ops (trigger_Name trigger) (co_childSchedulers e) of
           Some index \<Rightarrow>
             andThen (op_ScheduleByID ops i trigger (co_childSchedulers e ! index, w)) (\<lambda>(r, c, w1).
               let e1 = e\<lparr>co_childSchedulers := (co_childSchedulers e)[index := c]\<rparr>
               in case r of
                    Inl err \<Rightarrow> Inr (Inl err, e1, w1)
                  | Inr i1 \<Rightarrow> Inr (Inr i1, e1\<lparr>co_ids := fmupd i1 index (co_ids e1)\<rparr>, w1))
         | None \<Rightarrow> Inr (Inl (no_executor (trigger_Name trigger)), e, w)))"

definition Composite_Schedule ::
  "('c, 'w) triggers_ops \<Rightarrow> task_trigger \<Rightarrow> 'c composite_scheduler \<times> 'w
   \<Rightarrow> ((goerror + u64) \<times> 'c composite_scheduler \<times> 'w) outcome" where
  "Composite_Schedule ops trigger ew =
     (case ew of (e, w) \<Rightarrow>
        (case first_child ops (trigger_Name trigger) (co_childSchedulers e) of
           Some index \<Rightarrow>
             andThen (op_Schedule ops trigger (co_childSchedulers e ! index, w)) (\<lambda>(r, c, w1).
               let e1 = e\<lparr>co_childSchedulers := (co_childSchedulers e)[index := c]\<rparr>
               in case r of
                    Inl err \<Rightarrow> Inr (Inl err, e1, w1)
                  | Inr i \<Rightarrow>
                      Inr (Inr (push_bit (64 - co_executorIndexBits e) (of_nat index) OR i), e1, w1))
         | None \<Rightarrow> Inr (Inl (no_executor (trigger_Name trigger)), e, w)))"

definition index_out_of_range :: crash where
  "index_out_of_range = Panic ''index out of range''"

definition not_registered :: "u64 \<Rightarrow> goerror" where
  "not_registered i = ErrText (''trigger with id '' @ itoa (uint i) @
     '' is not registered in any of the underlying schedulers'')"

definition Composite_Unschedule ::
  "('c, 'w) triggers_ops \<Rightarrow> u64 \<Rightarrow> 'c composite_scheduler \<times> 'w
   \<Rightarrow> ((goerror option \<times> bool) \<times> 'c composite_scheduler \<times> 'w) outcome" where
  "Composite_Unschedule ops i ew =
     (case ew of (e, w) \<Rightarrow>
        (case fmlookup (co_ids e) i of
           Some execIndex \<Rightarrow>
             (if execIndex < length (co_childSchedulers e) then
                andThen (op_Unschedule ops i (co_childSchedulers e ! execIndex, w)) (\<lambda>(u, c, w1).
                  Inr (u, e\<lparr>co_childSchedulers := (co_childSchedulers e)[execIndex := c]\<rparr>, w1))
              else Inl index_out_of_range)
         | None \<Rightarrow> Inr ((Some (not_registered i), False), e, w)))"

text \<open>
  The first loop of \<open>Start\<close>: it ends after the first child that fails. The number is the value of \<open>i\<close> after the
  loop, one more than the index of the last child it called.
\<close>

fun start_children ::
  "('c, 'w) triggers_ops \<Rightarrow> 'c list \<Rightarrow> 'w \<Rightarrow> (goerror option \<times> nat \<times> 'c list \<times> 'w) outcome" where
  "start_children ops [] w = Inr (None, 0, [], w)"
| "start_children ops (c # cs) w =
     andThen (op_Start ops (c, w)) (\<lambda>(err, c1, w1).
       case err of
         Some er \<Rightarrow> Inr (Some er, 1, c1 # cs, w1)
       | None \<Rightarrow> andThen (start_children ops cs w1) (\<lambda>(err1, i, cs1, w2).
           Inr (err1, Suc i, c1 # cs1, w2)))"

text \<open>The second loop: \<open>j\<close> runs from 0 to \<open>i\<close>, and the body stops child \<open>i\<close>.\<close>

definition rollback ::
  "('c, 'w) triggers_ops \<Rightarrow> nat \<Rightarrow> 'c list \<times> 'w \<Rightarrow> ('c list \<times> 'w) outcome" where
  "rollback ops i =
     mfold (\<lambda>j (cs, w).
       if i < length cs
       then andThen (op_Stop ops (cs ! i, w)) (\<lambda>(c1, w1). Inr (cs[i := c1], w1))
       else Inl index_out_of_range) [0..<Suc i]"

definition Composite_Start ::
  "('c, 'w) triggers_ops \<Rightarrow> 'c composite_scheduler \<times> 'w
   \<Rightarrow> (goerror option \<times> 'c composite_scheduler \<times> 'w) outcome" where
  "Composite_Start ops ew =
     (case ew of (e, w) \<Rightarrow>
        if co_isRunning e then Inr (None, e, w)
        else
          andThen (start_children ops (co_childSchedulers e) w) (\<lambda>(err, i, cs, w1).
            case err of
              Some er \<Rightarrow>
                andThen (rollback ops i (cs, w1)) (\<lambda>(cs1, w2).
                  Inr (Some er, e\<lparr>co_childSchedulers := cs1\<rparr>, w2))
            | None \<Rightarrow> Inr (None, e\<lparr>co_childSchedulers := cs, co_isRunning := True\<rparr>, w1)))"

fun stop_children :: "('c, 'w) triggers_ops \<Rightarrow> 'c list \<Rightarrow> 'w \<Rightarrow> ('c list \<times> 'w) outcome" where
  "stop_children ops [] w = Inr ([], w)"
| "stop_children ops (c # cs) w =
     andThen (op_Stop ops (c, w)) (\<lambda>(c1, w1).
       andThen (stop_children ops cs w1) (\<lambda>(cs1, w2). Inr (c1 # cs1, w2)))"

definition Composite_Stop ::
  "('c, 'w) triggers_ops \<Rightarrow> 'c composite_scheduler \<times> 'w \<Rightarrow> ('c composite_scheduler \<times> 'w) outcome" where
  "Composite_Stop ops ew =
     (case ew of (e, w) \<Rightarrow>
        if \<not> co_isRunning e then Inr (e, w)
        else andThen (stop_children ops (co_childSchedulers e) w) (\<lambda>(cs, w1).
          Inr (e\<lparr>co_childSchedulers := cs, co_isRunning := False\<rparr>, w1)))"

definition Composite_IsRunning :: "'c composite_scheduler \<Rightarrow> bool" where
  "Composite_IsRunning e = co_isRunning e"

definition Composite_SetCallback ::
  "('c, 'w) triggers_ops \<Rightarrow> func option \<Rightarrow> 'c composite_scheduler \<Rightarrow> 'c composite_scheduler" where
  "Composite_SetCallback ops callback e =
     e\<lparr>co_childSchedulers := map (op_SetCallback ops callback) (co_childSchedulers e)\<rparr>"

definition Composite_ops :: "('c, 'w) triggers_ops \<Rightarrow> ('c composite_scheduler, 'w) triggers_ops" where
  "Composite_ops ops =
     \<lparr>op_CanSchedule = Composite_CanSchedule ops, op_Schedule = Composite_Schedule ops,
      op_ScheduleByID = Composite_ScheduleByID ops, op_Unschedule = Composite_Unschedule ops,
      op_Start = Composite_Start ops, op_Stop = Composite_Stop ops,
      op_IsRunning = Composite_IsRunning, op_SetCallback = Composite_SetCallback ops,
      op_Explain = Composite_Explain ops\<rparr>"

subsection \<open>Contract\<close>

definition composite_ids :: "'c composite_scheduler \<Rightarrow> u64 set" where
  "composite_ids e = fmdom' (co_ids e)"

text \<open>Every child is well-formed, and the books name children that exist.\<close>

definition composite_rdy :: "('c \<Rightarrow> bool) \<Rightarrow> 'c composite_scheduler \<Rightarrow> bool" where
  "composite_rdy rdy e \<longleftrightarrow> list_all rdy (co_childSchedulers e) \<and>
     (\<forall>i k. fmlookup (co_ids e) i = Some k \<longrightarrow> k < length (co_childSchedulers e))"

section \<open>Lemmas\<close>

lemma Composite_ops_simps [simp]:
  "op_CanSchedule (Composite_ops ops) = Composite_CanSchedule ops"
  "op_Schedule (Composite_ops ops) = Composite_Schedule ops"
  "op_ScheduleByID (Composite_ops ops) = Composite_ScheduleByID ops"
  "op_Unschedule (Composite_ops ops) = Composite_Unschedule ops"
  "op_Start (Composite_ops ops) = Composite_Start ops"
  "op_Stop (Composite_ops ops) = Composite_Stop ops"
  "op_IsRunning (Composite_ops ops) = Composite_IsRunning"
  "op_SetCallback (Composite_ops ops) = Composite_SetCallback ops"
  "op_Explain (Composite_ops ops) = Composite_Explain ops"
  by (simp_all add: Composite_ops_def)

lemma contains_iff: "contains s e \<longleftrightarrow> e \<in> set s"
  by (induction s) auto

lemma Composite_CanSchedule_iff:
  "Composite_CanSchedule ops e t \<longleftrightarrow> (\<exists>c \<in> set (co_childSchedulers e). op_CanSchedule ops c t)"
proof -
  have "Composite_CanSchedule_loop ops t cs \<longleftrightarrow> (\<exists>c \<in> set cs. op_CanSchedule ops c t)" for cs
    by (induction cs) auto
  then show ?thesis by (simp add: Composite_CanSchedule_def)
qed

lemma first_child_Some:
  "first_child ops t cs = Some k \<Longrightarrow>
    k < length cs \<and> op_CanSchedule ops (cs ! k) t \<and> (\<forall>j < k. \<not> op_CanSchedule ops (cs ! j) t)"
proof (induction cs arbitrary: k)
  case (Cons c cs)
  then show ?case by (cases k) (auto simp: nth_Cons less_Suc_eq_0_disj split: if_splits)
qed simp

lemma first_child_None: "first_child ops t cs = None \<longleftrightarrow> (\<forall>c \<in> set cs. \<not> op_CanSchedule ops c t)"
  by (induction cs) auto

lemma fmdom'_finite_upd: "composite_ids (e\<lparr>co_ids := fmupd i k (co_ids e)\<rparr>) = insert i (composite_ids e)"
  by (simp add: composite_ids_def)

lemma Composite_ScheduleByID_cases:
  assumes "Composite_ScheduleByID ops i t (e, w) = Inr (r, e', w')"
  shows "(first_child ops (trigger_Name t) (co_childSchedulers e) = None \<and> e' = e \<and> w' = w \<and>
      r = Inl (no_executor (trigger_Name t))) \<or>
    (\<exists>k c'. first_child ops (trigger_Name t) (co_childSchedulers e) = Some k \<and>
      op_ScheduleByID ops i t (co_childSchedulers e ! k, w) = Inr (r, c', w') \<and>
      co_childSchedulers e' = (co_childSchedulers e)[k := c'] \<and>
      co_ids e' = (case r of Inl err \<Rightarrow> co_ids e | Inr j \<Rightarrow> fmupd j k (co_ids e)) \<and>
      co_isRunning e' = co_isRunning e)"
proof (cases "first_child ops (trigger_Name t) (co_childSchedulers e)")
  case None
  with assms show ?thesis by (auto simp: Composite_ScheduleByID_def)
next
  case (Some k)
  with assms obtain r' c' v where "op_ScheduleByID ops i t (co_childSchedulers e ! k, w) = Inr (r', c', v)"
    by (auto simp: Composite_ScheduleByID_def andThen_Inr_iff)
  with assms Some show ?thesis by (cases r') (auto simp: Composite_ScheduleByID_def)
qed

lemma Composite_Unschedule_cases:
  assumes "Composite_Unschedule ops i (e, w) = Inr (u, e', w')"
  shows "(fmlookup (co_ids e) i = None \<and> e' = e \<and> w' = w \<and> u = (Some (not_registered i), False)) \<or>
    (\<exists>k c'. fmlookup (co_ids e) i = Some k \<and> k < length (co_childSchedulers e) \<and>
      op_Unschedule ops i (co_childSchedulers e ! k, w) = Inr (u, c', w') \<and>
      e' = e\<lparr>co_childSchedulers := (co_childSchedulers e)[k := c']\<rparr>)"
  using assms
  by (auto simp: Composite_Unschedule_def andThen_Inr_iff split: option.splits if_splits)

lemma list_update_can:
  assumes "f c = f (cs ! k)" and "k < length cs"
  shows "(\<exists>x \<in> set (cs[k := c]). f x t) \<longleftrightarrow> (\<exists>x \<in> set cs. f x t)"
proof -
  have "map f (cs[k := c]) = map f cs"
    using assms by (simp add: map_update list_update_same_conv)
  then have "f ` set (cs[k := c]) = f ` set cs" by (metis set_map)
  then show ?thesis by (metis (mono_tags, lifting) image_iff)
qed

lemma Composite_CanSchedule_update:
  assumes "op_CanSchedule ops c = op_CanSchedule ops (co_childSchedulers e ! k)"
    and "k < length (co_childSchedulers e)"
    and "co_childSchedulers e' = (co_childSchedulers e)[k := c]"
  shows "Composite_CanSchedule ops e' = Composite_CanSchedule ops e"
  using list_update_can [where f = "op_CanSchedule ops", OF assms(1,2)]
  by (simp add: fun_eq_iff Composite_CanSchedule_iff assms(3))

context triggers_scheduler
begin

lemma composite_can:
  assumes "Composite_ScheduleByID ops i t (e, w) = Inr (r, e', w')"
  shows "Composite_CanSchedule ops e' = Composite_CanSchedule ops e"
  using Composite_ScheduleByID_cases [OF assms]
  by (auto intro: Composite_CanSchedule_update dest: sched_can first_child_Some)

lemma composite_unsched_can:
  assumes "Composite_Unschedule ops i (e, w) = Inr (u, e', w')"
  shows "Composite_CanSchedule ops e' = Composite_CanSchedule ops e"
  using Composite_Unschedule_cases [OF assms]
  by (auto intro: Composite_CanSchedule_update dest: unsched_can)

lemma composite_sched_ok:
  assumes "Composite_ScheduleByID ops i t (e, w) = Inr (Inr j, e', w')"
  shows "j = i \<and> composite_ids e' = insert i (composite_ids e)"
  using Composite_ScheduleByID_cases [OF assms] by (auto simp: composite_ids_def dest: sched_ok)

lemma composite_sched_err:
  assumes "Composite_ScheduleByID ops i t (e, w) = Inr (Inl err, e', w')"
  shows "composite_ids e' = composite_ids e"
  using Composite_ScheduleByID_cases [OF assms] by (auto simp: composite_ids_def)

lemma composite_rdy_upd:
  assumes "composite_rdy rdy e" and "rdy c'" and "k < length (co_childSchedulers e)"
    and "co_childSchedulers e' = (co_childSchedulers e)[k := c']"
    and "co_ids e' \<in> {co_ids e, fmupd i k (co_ids e)}"
  shows "composite_rdy rdy e'"
  using assms set_update_subset_insert [of "co_childSchedulers e" k c']
  by (auto simp: composite_rdy_def list_all_iff split: if_splits)

lemma composite_sched_returns:
  assumes "composite_rdy rdy e" and "live w" and "Composite_CanSchedule ops e (trigger_Name t)"
    and "decodable t"
  shows "\<exists>r e' w'. Composite_ScheduleByID ops i t (e, w) = Inr (r, e', w') \<and> composite_rdy rdy e' \<and> live w'"
proof -
  from assms(3) obtain k where k: "first_child ops (trigger_Name t) (co_childSchedulers e) = Some k"
    by (metis Composite_CanSchedule_iff first_child_None not_None_eq)
  from first_child_Some [OF k] have len: "k < length (co_childSchedulers e)"
    and can: "op_CanSchedule ops (co_childSchedulers e ! k) (trigger_Name t)" by auto
  from assms(1) len have "rdy (co_childSchedulers e ! k)" by (simp add: composite_rdy_def list_all_length)
  from sched_returns [OF this assms(2) can assms(4)] obtain r c' w' where
    run: "op_ScheduleByID ops i t (co_childSchedulers e ! k, w) = Inr (r, c', w')" "rdy c'" "live w'"
    by blast
  then obtain e' where "Composite_ScheduleByID ops i t (e, w) = Inr (r, e', w')"
    by (cases r) (auto simp: Composite_ScheduleByID_def k)
  moreover from Composite_ScheduleByID_cases [OF this] k run(1)
  have "co_childSchedulers e' = (co_childSchedulers e)[k := c'] \<and>
      (\<exists>j. co_ids e' \<in> {co_ids e, fmupd j k (co_ids e)})"
    by (cases r) auto
  ultimately show ?thesis using composite_rdy_upd [OF assms(1) run(2) len] run(3) by blast
qed

lemma composite_unsched_returns:
  assumes "composite_rdy rdy e" and "live w"
  shows "\<exists>u e' w'. Composite_Unschedule ops i (e, w) = Inr (u, e', w') \<and> composite_rdy rdy e' \<and> live w'"
proof (cases "fmlookup (co_ids e) i")
  case None
  with assms show ?thesis by (auto simp: Composite_Unschedule_def)
next
  case (Some k)
  with assms(1) have len: "k < length (co_childSchedulers e)" by (auto simp: composite_rdy_def)
  with assms(1) have "rdy (co_childSchedulers e ! k)" by (simp add: composite_rdy_def list_all_length)
  from unsched_returns [OF this assms(2)] obtain u c' w' where
    run: "op_Unschedule ops i (co_childSchedulers e ! k, w) = Inr (u, c', w')" "rdy c'" "live w'"
    by (metis prod.exhaust)
  then have "Composite_Unschedule ops i (e, w) =
      Inr (u, e\<lparr>co_childSchedulers := (co_childSchedulers e)[k := c']\<rparr>, w')"
    by (simp add: Composite_Unschedule_def Some len)
  moreover have "composite_rdy rdy (e\<lparr>co_childSchedulers := (co_childSchedulers e)[k := c']\<rparr>)"
    by (rule composite_rdy_upd [OF assms(1) run(2) len]) simp_all
  ultimately show ?thesis using run(3) by blast
qed

text \<open>The composite keeps the contract of its children.\<close>

lemma composite_contract:
  "triggers_scheduler (Composite_ops ops) composite_ids (composite_rdy rdy) live"
proof
  fix i j t err u cb and e e' :: "'c composite_scheduler" and w w' :: 'w
  show "op_ScheduleByID (Composite_ops ops) i t (e, w) = Inr (Inr j, e', w') \<Longrightarrow>
      j = i \<and> composite_ids e' = insert i (composite_ids e)"
    by (simp add: composite_sched_ok)
  show "op_ScheduleByID (Composite_ops ops) i t (e, w) = Inr (Inl err, e', w') \<Longrightarrow>
      composite_ids e' = composite_ids e"
    by (simp add: composite_sched_err)
  show "op_Unschedule (Composite_ops ops) i (e, w) = Inr (u, e', w') \<Longrightarrow>
      composite_ids e - {i} \<subseteq> composite_ids e' \<and> composite_ids e' \<subseteq> composite_ids e"
    by (auto simp: composite_ids_def dest: Composite_Unschedule_cases)
  show "composite_rdy rdy (op_SetCallback (Composite_ops ops) cb e) = composite_rdy rdy e"
    by (simp add: composite_rdy_def Composite_SetCallback_def list.pred_map comp_def setcb_rdy)
  show "op_CanSchedule (Composite_ops ops) (op_SetCallback (Composite_ops ops) cb e) =
      op_CanSchedule (Composite_ops ops) e"
    by (simp add: fun_eq_iff Composite_CanSchedule_iff Composite_SetCallback_def setcb_can)
  show "i \<notin> composite_ids e \<Longrightarrow>
      \<exists>err. op_Unschedule (Composite_ops ops) i (e, w) = Inr ((err, False), e, w)"
    by (simp add: Composite_Unschedule_def composite_ids_def fmdom'_notD)
  show "composite_rdy rdy e \<Longrightarrow> live w \<Longrightarrow> \<exists>u e' w'. op_Unschedule (Composite_ops ops) i (e, w) =
      Inr (u, e', w') \<and> composite_rdy rdy e' \<and> live w'"
    using composite_unsched_returns [of e w i] by simp
qed (simp_all add: composite_can composite_unsched_can composite_sched_returns
    composite_ids_def Composite_SetCallback_def)

end

lemma ceil_log2_least: "n \<le> 2 ^ ceil_log2 n \<and> (\<forall>b. n \<le> 2 ^ b \<longrightarrow> ceil_log2 n \<le> b)"
proof (induction n rule: ceil_log2.induct)
  case (1 n)
  show ?case
  proof (cases "n \<le> 1")
    case True
    then show ?thesis by (simp add: ceil_log2.simps [of n])
  next
    case False
    then have eq: "ceil_log2 n = Suc (ceil_log2 ((n + 1) div 2))" by (simp add: ceil_log2.simps [of n])
    have "ceil_log2 n \<le> b" if "n \<le> 2 ^ b" for b
    proof (cases b)
      case 0
      with that False show ?thesis by simp
    next
      case (Suc b')
      with that have "(n + 1) div 2 \<le> 2 ^ b'" by simp
      with 1 [OF False] show ?thesis by (simp add: eq Suc)
    qed
    moreover have "n \<le> 2 * ((n + 1) div 2)" by simp
    then have "n \<le> 2 ^ ceil_log2 n" using 1 [OF False] unfolding eq power_Suc by linarith
    ultimately show ?thesis by simp
  qed
qed

text \<open>Where the loop of \<open>Start\<close> ends with an error, and what the rollback leaves alone.\<close>

lemma start_children_fail:
  "start_children ops cs w = Inr (Some er, i, cs', w') \<Longrightarrow>
    0 < i \<and> i \<le> length cs \<and> length cs' = length cs \<and> (\<forall>j. i \<le> j \<longrightarrow> j < length cs \<longrightarrow> cs' ! j = cs ! j) \<and>
    (\<exists>v. op_Start ops (cs ! (i - 1), v) = Inr (Some er, cs' ! (i - 1), w'))"
proof (induction cs arbitrary: w i cs')
  case (Cons c cs)
  from Cons.prems obtain e1 c1 w1 where start: "op_Start ops (c, w) = Inr (e1, c1, w1)"
    by (auto simp: andThen_Inr_iff)
  show ?case
  proof (cases e1)
    case (Some er')
    with Cons.prems start show ?thesis by (auto simp: nth_Cons split: nat.split)
  next
    case None
    with Cons.prems start obtain k cs1 where "start_children ops cs w1 = Inr (Some er, k, cs1, w')"
      and "i = Suc k" "cs' = c1 # cs1"
      by (auto simp: andThen_Inr_iff)
    with Cons.IH [of w1 k cs1] show ?thesis by (auto simp: nth_Cons split: nat.split)
  qed
qed simp

lemma rollback_others:
  assumes "rollback ops i (cs, w) = Inr (cs', w')"
  shows "length cs' = length cs \<and> (\<forall>j. j \<noteq> i \<longrightarrow> cs' ! j = cs ! j)"
proof -
  have "length (fst (cs', w')) = length cs \<and> (\<forall>j. j \<noteq> i \<longrightarrow> fst (cs', w') ! j = cs ! j)"
    using assms [unfolded rollback_def]
    by (rule mfold_invariant [where P = "\<lambda>s. length (fst s) = length cs \<and> (\<forall>j. j \<noteq> i \<longrightarrow> fst s ! j = cs ! j)"])
      (auto simp: andThen_Inr_iff split: if_splits)
  then show ?thesis by simp
qed

lemma rollback_out_of_range: "length cs \<le> i \<Longrightarrow> rollback ops i (cs, w) = Inl index_out_of_range"
  by (simp add: rollback_def upt_conv_Cons del: upt_Suc)

section \<open>Examples\<close>

text \<open>A child that records the identifiers it was given; the flag says whether it fails to start.\<close>

definition probe_ops :: "(bool \<times> u64 list, unit) triggers_ops" where
  "probe_ops =
     \<lparr>op_CanSchedule = \<lambda>c n. n = (if fst c then ''a'' else ''b''),
      op_Schedule = \<lambda>t (c, w). Inr (Inr (trigger_id t), (fst c, trigger_id t # snd c), w),
      op_ScheduleByID = \<lambda>i t (c, w). Inr (Inr i, (fst c, i # snd c), w),
      op_Unschedule = \<lambda>i (c, w). Inr ((None, i \<in> set (snd c)), (fst c, removeAll i (snd c)), w),
      op_Start = \<lambda>(c, w). Inr (if fst c then Some (ErrText ''no'') else None, c, w),
      op_Stop = \<lambda>cw. Inr cw, op_IsRunning = \<lambda>c. True, op_SetCallback = \<lambda>cb c. c,
      op_Explain = \<lambda>c. SchedInfo ''probe'' [] NoDetails\<rparr>"

definition probe_trigger :: task_trigger where
  "probe_trigger = \<lparr>trigger_Name = ''b'', trigger_Body = [], trigger_Disabled = False\<rparr>"

definition probe_children :: "(bool \<times> u64 list) composite_scheduler" where
  "probe_children = NewCompositeTriggersScheduler [(True, []), (False, [])]"

lemma probe_children_fields [simp]:
  "co_childSchedulers probe_children = [(True, []), (False, [])]"
  "co_ids probe_children = fmempty" "\<not> co_isRunning probe_children"
  by (simp_all add: probe_children_def NewCompositeTriggersScheduler_def)

section \<open>Properties\<close>

text \<open>Routing: a trigger goes to the first child that accepts its type and to no other, and
  \<open>Unschedule\<close> of its identifier goes to that same child.\<close>

theorem Composite_routes:
  assumes "Composite_ScheduleByID ops i t (e, w) = Inr (Inr j, e', w')"
  shows "\<exists>k c'. k < length (co_childSchedulers e) \<and>
    op_CanSchedule ops (co_childSchedulers e ! k) (trigger_Name t) \<and>
    (\<forall>m < k. \<not> op_CanSchedule ops (co_childSchedulers e ! m) (trigger_Name t)) \<and>
    op_ScheduleByID ops i t (co_childSchedulers e ! k, w) = Inr (Inr j, c', w') \<and>
    co_childSchedulers e' = (co_childSchedulers e)[k := c'] \<and>
    Composite_Unschedule ops j (e', v) = andThen (op_Unschedule ops j (c', v)) (\<lambda>(u, c2, v2).
      Inr (u, e'\<lparr>co_childSchedulers := (co_childSchedulers e)[k := c2]\<rparr>, v2))"
proof -
  from Composite_ScheduleByID_cases [OF assms] obtain k c' where
    k: "first_child ops (trigger_Name t) (co_childSchedulers e) = Some k"
    and run: "op_ScheduleByID ops i t (co_childSchedulers e ! k, w) = Inr (Inr j, c', w')"
    and e': "co_childSchedulers e' = (co_childSchedulers e)[k := c']" "co_ids e' = fmupd j k (co_ids e)"
    by auto
  with first_child_Some [OF k] show ?thesis
    by (intro exI [of _ k] exI [of _ c']) (simp add: Composite_Unschedule_def)
qed

theorem Composite_routes_witness:
  "\<exists>e' k. Composite_ScheduleByID probe_ops 5 probe_trigger (probe_children, ()) = Inr (Inr 5, e', ()) \<and>
    k < length (co_childSchedulers probe_children) \<and>
    op_CanSchedule probe_ops (co_childSchedulers probe_children ! k) (trigger_Name probe_trigger)"
proof -
  obtain e' where run: "Composite_ScheduleByID probe_ops 5 probe_trigger (probe_children, ()) = Inr (Inr 5, e', ())"
    by (simp add: Composite_ScheduleByID_def probe_ops_def probe_trigger_def)
  have "\<exists>k. k < length (co_childSchedulers probe_children) \<and>
      op_CanSchedule probe_ops (co_childSchedulers probe_children ! k) (trigger_Name probe_trigger)"
    using Composite_routes [OF run, of "()"] by blast
  with run show ?thesis by blast
qed

text \<open>\<open>Schedule\<close>, unlike \<open>ScheduleByID\<close>, does not remember where the trigger went: \<open>Unschedule\<close> of the identifier it
  returned reports that no child knows it and changes nothing (unless the identifier was on the books before).\<close>

theorem Composite_Schedule_not_recorded:
  assumes "Composite_Schedule ops t (e, w) = Inr (Inr i, e', w')" and "i \<notin> composite_ids e"
  shows "Composite_Unschedule ops i (e', v) = Inr ((Some (not_registered i), False), e', v)"
proof -
  from assms(1) obtain k where k: "first_child ops (trigger_Name t) (co_childSchedulers e) = Some k"
    by (auto simp: Composite_Schedule_def split: option.splits)
  with assms(1) obtain r c' v where
    "op_Schedule ops t (co_childSchedulers e ! k, w) = Inr (r, c', v)"
    by (auto simp: Composite_Schedule_def andThen_Inr_iff)
  with assms(1) k have "co_ids e' = co_ids e"
    by (cases r) (auto simp: Composite_Schedule_def)
  with assms(2) show ?thesis by (simp add: Composite_Unschedule_def composite_ids_def fmdom'_notD)
qed

theorem Composite_Schedule_not_recorded_witness:
  "\<exists>i e'. Composite_Schedule probe_ops probe_trigger (probe_children, ()) = Inr (Inr i, e', ()) \<and>
    Composite_Unschedule probe_ops i (e', ()) = Inr ((Some (not_registered i), False), e', ())"
proof -
  obtain i e' where run: "Composite_Schedule probe_ops probe_trigger (probe_children, ()) = Inr (Inr i, e', ())"
    by (simp add: Composite_Schedule_def probe_ops_def probe_trigger_def)
  have "i \<notin> composite_ids probe_children" by (simp add: composite_ids_def)
  from Composite_Schedule_not_recorded [OF run this] run show ?thesis by blast
qed

text \<open>When a child fails to start, the rollback does not stop the children that run: if the failing child
  is the last one, \<open>Start\<close> panics, because it stops the child with the number after the loop; otherwise it stops only the
  child after the failing one (which was never started) and returns the error.\<close>

theorem Composite_Start_rollback:
  assumes "\<not> co_isRunning e"
    and "start_children ops (co_childSchedulers e) w = Inr (Some er, i, cs, w1)"
  shows "(i = length cs \<longrightarrow> Composite_Start ops (e, w) = Inl index_out_of_range) \<and>
    (\<forall>r e' w'. Composite_Start ops (e, w) = Inr (r, e', w') \<longrightarrow>
       r = Some er \<and> \<not> co_isRunning e' \<and> length (co_childSchedulers e') = length cs \<and>
       (\<forall>j. j \<noteq> i \<longrightarrow> co_childSchedulers e' ! j = cs ! j))"
proof (intro conjI allI impI)
  assume "i = length cs"
  then show "Composite_Start ops (e, w) = Inl index_out_of_range"
    using assms by (simp add: Composite_Start_def rollback_out_of_range)
next
  fix r e' w' assume "Composite_Start ops (e, w) = Inr (r, e', w')"
  with assms obtain cs1 where rb: "rollback ops i (cs, w1) = Inr (cs1, w')"
    and e': "e' = e\<lparr>co_childSchedulers := cs1\<rparr>" and r: "r = Some er"
    by (auto simp: Composite_Start_def andThen_Inr_iff)
  show "r = Some er" by (rule r)
  from rollback_others [OF rb] e' assms(1) show "\<not> co_isRunning e'"
    and "length (co_childSchedulers e') = length cs"
    and "\<And>j. j \<noteq> i \<Longrightarrow> co_childSchedulers e' ! j = cs ! j" by simp_all
qed

theorem Composite_Start_rollback_witness:
  "Composite_Start probe_ops (NewCompositeTriggersScheduler [(False, []), (True, [])], ()) =
    Inl index_out_of_range"
proof -
  let ?e = "NewCompositeTriggersScheduler [(False, [] :: u64 list), (True, [])]"
  have "\<not> co_isRunning ?e" by (simp add: NewCompositeTriggersScheduler_def)
  moreover have "start_children probe_ops (co_childSchedulers ?e) () =
      Inr (Some (ErrText ''no''), 2, [(False, []), (True, [])], ())"
    by (simp add: NewCompositeTriggersScheduler_def probe_ops_def)
  ultimately show ?thesis using Composite_Start_rollback by fastforce
qed

end
