(* ===== verification/Task_Scheduler.thy ===== *)
theory Task_Scheduler
  imports Triggers_Scheduler
begin

text \<open>
  \<open>taskscheduler/task_scheduler.go\<close>: the scheduler of tasks, a client of the interface \<open>TriggersScheduler\<close>. The model
  is generic in the method table of the scheduler below it; the lemmas that need its behaviour are proved
  from the contract. The order in which \<open>range\<close> visits a task's \<open>ScheduledTriggers\<close> is the argument
  \<open>pick\<close>. A \<open>*ScheduledTask\<close> is only reachable through the map \<open>tasks\<close>, so the map holds the value.
\<close>

section \<open>Definitions\<close>

record task_triggered_event =
  tte_TriggerEvent :: triggered_event
  tte_Task :: defined_task
  tte_Params :: "(string, goval) fmap"

record scheduled_trigger =
  st_Trigger :: task_trigger
  st_SchedulingError :: "goerror option"

definition IsSuccessful :: "scheduled_trigger \<Rightarrow> bool" where
  "IsSuccessful st \<longleftrightarrow> st_SchedulingError st = None"

record scheduled_task =
  st_DefinedTask :: defined_task
  st_ScheduledTriggers :: "(u64, scheduled_trigger) fmap"

type_synonym pick_triggers = "(u64, scheduled_trigger) fmap \<Rightarrow> u64 list"

record 'c task_scheduler =
  ts_triggersScheduler :: 'c
  ts_tasks :: "(uuid, scheduled_task) fmap"
  ts_callback :: "func option"
  ts_triggerTasks :: "(u64, (uuid, defined_task) fmap) fmap"

text \<open>\<open>onTriggerFunc\<close> is the method value \<open>exec.onTrigger\<close>; \<open>None\<close> is a nil scheduler.\<close>

definition NewTaskScheduler ::
  "('c, 'w) triggers_ops \<Rightarrow> func \<Rightarrow> 'c option \<Rightarrow> 'c task_scheduler outcome" where
  "NewTaskScheduler ops onTriggerFunc scheduler =
     (case scheduler of
        None \<Rightarrow> Inl (Panic ''TriggersScheduler is not set in the options'')
      | Some c \<Rightarrow>
          Inr \<lparr>ts_triggersScheduler = op_SetCallback ops (Some onTriggerFunc) c, ts_tasks = fmempty,
               ts_callback = None, ts_triggerTasks = fmempty\<rparr>)"

datatype task_scheduler_info = TaskSchedulerInfo string sched_info

definition TS_Explain :: "('c, 'w) triggers_ops \<Rightarrow> 'c task_scheduler \<Rightarrow> task_scheduler_info" where
  "TS_Explain ops e = TaskSchedulerInfo ''taskScheduler'' (op_Explain ops (ts_triggersScheduler e))"

definition removeTrigger ::
  "('c, 'w) triggers_ops \<Rightarrow> uuid \<Rightarrow> u64 \<Rightarrow> 'c task_scheduler \<times> 'w \<Rightarrow> ('c task_scheduler \<times> 'w) outcome" where
  "removeTrigger ops taskID triggerID ew =
     (case ew of (e, w) \<Rightarrow>
        (case fmlookup (ts_triggerTasks e) triggerID of
           Some tasks \<Rightarrow>
             (let tasks1 = fmdrop taskID tasks
              in if mlen tasks1 = 0 then
                   (let e1 = e\<lparr>ts_triggerTasks := fmdrop triggerID (ts_triggerTasks e)\<rparr>
                    in andThen (op_Unschedule ops triggerID (ts_triggersScheduler e1, w))
                         (\<lambda>(u, c, w1). Inr (e1\<lparr>ts_triggersScheduler := c\<rparr>, w1)))
                 else Inr (e\<lparr>ts_triggerTasks := fmupd triggerID tasks1 (ts_triggerTasks e)\<rparr>, w))
         | None \<Rightarrow> Inr (e, w)))"

text \<open>
  Reading the fields of a task that is not in the map dereferences nil, and assigning into the missing inner map
  of \<open>triggerTasks\<close> is an assignment to a nil map.
\<close>

definition updateTrigger ::
  "('c, 'w) triggers_ops \<Rightarrow> uuid \<Rightarrow> task_trigger \<Rightarrow> 'c task_scheduler \<times> 'w
   \<Rightarrow> ((goerror + u64) \<times> 'c task_scheduler \<times> 'w) outcome" where
  "updateTrigger ops taskID trigger ew =
     (case ew of (e, w) \<Rightarrow>
        (case fmlookup (ts_tasks e) taskID of
           None \<Rightarrow> Inl nil_dereference
         | Some st \<Rightarrow>
             (let i = trigger_id trigger
              in if fmlookup (st_ScheduledTriggers st) i = None then
                   andThen (op_ScheduleByID ops i trigger (ts_triggersScheduler e, w)) (\<lambda>(r, c, w1).
                     let e1 = e\<lparr>ts_triggersScheduler := c\<rparr>
                     in case r of
                          Inl err \<Rightarrow> Inr (Inl (ChainError ''failed to schedule trigger'' err), e1, w1)
                        | Inr j \<Rightarrow>
                            (let scheduledTrigger = \<lparr>st_Trigger = trigger, st_SchedulingError = None\<rparr>;
                                 st1 = st\<lparr>st_ScheduledTriggers :=
                                   fmupd i scheduledTrigger (st_ScheduledTriggers st)\<rparr>
                             in Inr (Inr i,
                                  e1\<lparr>ts_tasks := fmupd taskID st1 (ts_tasks e1),
                                     ts_triggerTasks :=
                                       fmupd i (fmupd taskID (st_DefinedTask st1) fmempty)
                                         (ts_triggerTasks e1)\<rparr>, w1)))
                 else
                   (case fmlookup (ts_triggerTasks e) i of
                      None \<Rightarrow> Inl nil_map
                    | Some tasks \<Rightarrow>
                        Inr (Inr i,
                          e\<lparr>ts_triggerTasks :=
                            fmupd i (fmupd taskID (st_DefinedTask st) tasks) (ts_triggerTasks e)\<rparr>, w)))))"

text \<open>The first loop of \<open>Schedule\<close>; it also collects the identifiers of the triggers the task now has.\<close>

definition update_trigger_step ::
  "('c, 'w) triggers_ops \<Rightarrow> uuid \<Rightarrow> task_trigger \<Rightarrow> (u64, task_trigger) fmap \<times> 'c task_scheduler \<times> 'w
   \<Rightarrow> ((u64, task_trigger) fmap \<times> 'c task_scheduler \<times> 'w) outcome" where
  "update_trigger_step ops taskID newTrigger s =
     (case s of (newTriggers, ew1) \<Rightarrow>
        andThen (updateTrigger ops taskID newTrigger ew1) (\<lambda>(r, ew2).
          case r of
            Inl err \<Rightarrow> Inr (newTriggers, ew2)
          | Inr i \<Rightarrow> Inr (fmupd i newTrigger newTriggers, ew2)))"

definition update_triggers ::
  "('c, 'w) triggers_ops \<Rightarrow> uuid \<Rightarrow> task_trigger list \<Rightarrow> 'c task_scheduler \<times> 'w
   \<Rightarrow> ((u64, task_trigger) fmap \<times> 'c task_scheduler \<times> 'w) outcome" where
  "update_triggers ops taskID triggers ew =
     mfold (update_trigger_step ops taskID) triggers (fmempty, ew)"

definition TS_Schedule ::
  "('c, 'w) triggers_ops \<Rightarrow> pick_triggers \<Rightarrow> defined_task \<Rightarrow> 'c task_scheduler \<times> 'w
   \<Rightarrow> (goerror option \<times> 'c task_scheduler \<times> 'w) outcome" where
  "TS_Schedule ops pick task ew =
     (case ew of (e, w) \<Rightarrow>
        (case fmlookup (ts_tasks e) (task_ID task) of
           Some t \<Rightarrow>
             (let e1 = e\<lparr>ts_tasks := fmupd (task_ID task) (t\<lparr>st_DefinedTask := task\<rparr>) (ts_tasks e)\<rparr>
              in andThen (update_triggers ops (task_ID task) (task_Triggers task) (e1, w))
                   (\<lambda>(newTriggers, e2, w2).
                     let old = (case fmlookup (ts_tasks e2) (task_ID task) of
                                  None \<Rightarrow> fmempty | Some t2 \<Rightarrow> st_ScheduledTriggers t2)
                     in andThen
                          (mfold (\<lambda>i ew3. if fmlookup newTriggers i = None
                             then removeTrigger ops (task_ID task) i ew3 else Inr ew3)
                             (pick old) (e2, w2))
                          (\<lambda>ew4. Inr (None, ew4))))
         | None \<Rightarrow>
             (let e1 = e\<lparr>ts_tasks := fmupd (task_ID task)
                    \<lparr>st_DefinedTask = task, st_ScheduledTriggers = fmempty\<rparr> (ts_tasks e)\<rparr>
              in andThen (update_triggers ops (task_ID task) (task_Triggers task) (e1, w))
                   (\<lambda>(newTriggers, ew2). Inr (None, ew2)))))"

definition UnscheduleTask ::
  "('c, 'w) triggers_ops \<Rightarrow> pick_triggers \<Rightarrow> uuid \<Rightarrow> 'c task_scheduler \<times> 'w
   \<Rightarrow> ('c task_scheduler \<times> 'w) outcome" where
  "UnscheduleTask ops pick taskID ew =
     (case ew of (e, w) \<Rightarrow>
        (case fmlookup (ts_tasks e) taskID of
           None \<Rightarrow> Inr (e, w)
         | Some t \<Rightarrow>
             andThen (mfold (removeTrigger ops taskID) (pick (st_ScheduledTriggers t)) (e, w))
               (\<lambda>(e1, w1). Inr (e1\<lparr>ts_tasks := fmdrop taskID (ts_tasks e1)\<rparr>, w1))))"

definition TS_Unschedule ::
  "('c, 'w) triggers_ops \<Rightarrow> pick_triggers \<Rightarrow> uuid \<Rightarrow> 'c task_scheduler \<times> 'w
   \<Rightarrow> ((bool \<times> goerror option) \<times> 'c task_scheduler \<times> 'w) outcome" where
  "TS_Unschedule ops pick taskID ew =
     (case ew of (e, w) \<Rightarrow>
        (case fmlookup (ts_tasks e) taskID of
           Some st \<Rightarrow>
             andThen
               (mfold (\<lambda>i cw. andThen (op_Unschedule ops i cw) (\<lambda>(u, cw1). Inr cw1))
                  (pick (st_ScheduledTriggers st)) (ts_triggersScheduler e, w))
               (\<lambda>(c, w1). Inr ((True, None),
                  e\<lparr>ts_triggersScheduler := c, ts_tasks := fmdrop taskID (ts_tasks e)\<rparr>, w1))
         | None \<Rightarrow> Inr ((False, None), e, w)))"

definition TS_Start ::
  "('c, 'w) triggers_ops \<Rightarrow> 'c task_scheduler \<times> 'w \<Rightarrow> (goerror option \<times> 'c task_scheduler \<times> 'w) outcome" where
  "TS_Start ops ew =
     (case ew of (e, w) \<Rightarrow>
        andThen (op_Start ops (ts_triggersScheduler e, w)) (\<lambda>(err, c, w1).
          Inr (err, e\<lparr>ts_triggersScheduler := c\<rparr>, w1)))"

definition TS_Stop ::
  "('c, 'w) triggers_ops \<Rightarrow> 'c task_scheduler \<times> 'w \<Rightarrow> ('c task_scheduler \<times> 'w) outcome" where
  "TS_Stop ops ew =
     (case ew of (e, w) \<Rightarrow>
        andThen (op_Stop ops (ts_triggersScheduler e, w)) (\<lambda>(c, w1).
          Inr (e\<lparr>ts_triggersScheduler := c\<rparr>, w1)))"

text \<open>\<open>now\<close> is the Unix time, \<open>order\<close> the order of the tasks of the trigger.\<close>

definition TS_onTrigger ::
  "int \<Rightarrow> uuid list \<Rightarrow> triggered_event \<Rightarrow> 'c task_scheduler \<Rightarrow> (func \<times> task_triggered_event) list" where
  "TS_onTrigger now order event e =
     (case ts_callback e of
        None \<Rightarrow> []
      | Some cb \<Rightarrow>
          (case fmlookup (ts_triggerTasks e) (te_TriggerID event) of
             None \<Rightarrow> []
           | Some tasks \<Rightarrow>
               map (\<lambda>k. let task = the (fmlookup tasks k)
                  in (cb, \<lparr>tte_TriggerEvent = event, tte_Task = task,
                       tte_Params = fmupd ''TASK_ID'' (VUUID (task_ID task))
                         (fmupd ''TASK_NAME'' (VString (task_Name task))
                           (fmupd ''TRIGGERED_AT'' (VInt64 now) fmempty))\<rparr>)) order))"

definition TS_SetCallback :: "func option \<Rightarrow> 'c task_scheduler \<Rightarrow> 'c task_scheduler" where
  "TS_SetCallback callback e = e\<lparr>ts_callback := callback\<rparr>"

subsection \<open>Invariants\<close>

text \<open>The triggers the task of an identifier has scheduled, and the tasks registered for a trigger.\<close>

definition ts_scheduled :: "'c task_scheduler \<Rightarrow> uuid \<Rightarrow> (u64, scheduled_trigger) fmap" where
  "ts_scheduled e taskID =
     (case fmlookup (ts_tasks e) taskID of None \<Rightarrow> fmempty | Some st \<Rightarrow> st_ScheduledTriggers st)"

definition ts_registered :: "'c task_scheduler \<Rightarrow> u64 \<Rightarrow> (uuid, defined_task) fmap" where
  "ts_registered e i = nested (ts_triggerTasks e) i"

text \<open>Tasks are filed under their identifiers, triggers under their hashes, no trigger is without a task.\<close>

definition ts_ok :: "'c task_scheduler \<Rightarrow> bool" where
  "ts_ok e \<longleftrightarrow>
     (\<forall>k st. fmlookup (ts_tasks e) k = Some st \<longrightarrow> task_ID (st_DefinedTask st) = k) \<and>
     (\<forall>k i x. fmlookup (ts_scheduled e k) i = Some x \<longrightarrow>
        trigger_id (st_Trigger x) = i \<and> IsSuccessful x) \<and>
     (\<forall>i. fmlookup (ts_triggerTasks e) i \<noteq> Some fmempty) \<and>
     (\<forall>i k t. fmlookup (ts_registered e i) k = Some t \<longrightarrow> task_ID t = k)"

text \<open>Every trigger that some task has scheduled has an entry in \<open>triggerTasks\<close>.\<close>

definition ts_linked :: "'c task_scheduler \<Rightarrow> bool" where
  "ts_linked e \<longleftrightarrow>
     (\<forall>k i. fmlookup (ts_scheduled e k) i \<noteq> None \<longrightarrow> fmlookup (ts_triggerTasks e) i \<noteq> None)"

text \<open>The trigger scheduler reports no error for this trigger.\<close>

definition never_fails :: "('c, 'w) triggers_ops \<Rightarrow> task_trigger \<Rightarrow> bool" where
  "never_fails ops t \<longleftrightarrow>
     (\<forall>c w err c' w'. op_ScheduleByID ops (trigger_id t) t (c, w) \<noteq> Inr (Inl err, c', w'))"

text \<open>
  What scheduling a new task has done after the triggers \<open>seen\<close>, starting from \<open>e0\<close>: the task is on the books, other
  tasks are untouched, and each trigger that was scheduled is registered for this task and no other.
\<close>

definition new_task_state ::
  "('c, 'w) triggers_ops \<Rightarrow> defined_task \<Rightarrow> 'c task_scheduler \<Rightarrow> task_trigger list
   \<Rightarrow> 'c task_scheduler \<Rightarrow> bool" where
  "new_task_state ops task e0 seen e \<longleftrightarrow>
     (\<exists>st. fmlookup (ts_tasks e) (task_ID task) = Some st \<and> st_DefinedTask st = task) \<and>
     (\<forall>k. k \<noteq> task_ID task \<longrightarrow> fmlookup (ts_tasks e) k = fmlookup (ts_tasks e0) k) \<and>
     (\<forall>i. fmlookup (ts_triggerTasks e) i =
        (if fmlookup (ts_scheduled e (task_ID task)) i \<noteq> None then Some (fmupd (task_ID task) task fmempty)
         else fmlookup (ts_triggerTasks e0) i)) \<and>
     fmdom' (ts_scheduled e (task_ID task)) \<subseteq> trigger_id ` set seen \<and>
     (\<forall>t \<in> set seen. never_fails ops t \<longrightarrow> trigger_id t \<in> fmdom' (ts_scheduled e (task_ID task))) \<and>
     ts_callback e = ts_callback e0"

section \<open>Lemmas\<close>

lemma updateTrigger_cases:
  assumes "updateTrigger ops k t (e, w) = Inr (r, e', w')"
  obtains (scheduled) st c j where "fmlookup (ts_tasks e) k = Some st"
      and "fmlookup (st_ScheduledTriggers st) (trigger_id t) = None"
      and "op_ScheduleByID ops (trigger_id t) t (ts_triggersScheduler e, w) = Inr (Inr j, c, w')"
      and "r = Inr (trigger_id t)"
      and "e' = e\<lparr>ts_triggersScheduler := c,
        ts_tasks := fmupd k (st\<lparr>st_ScheduledTriggers := fmupd (trigger_id t)
          \<lparr>st_Trigger = t, st_SchedulingError = None\<rparr> (st_ScheduledTriggers st)\<rparr>) (ts_tasks e),
        ts_triggerTasks := fmupd (trigger_id t) (fmupd k (st_DefinedTask st) fmempty) (ts_triggerTasks e)\<rparr>"
    | (failed) st c err where "fmlookup (ts_tasks e) k = Some st"
      and "fmlookup (st_ScheduledTriggers st) (trigger_id t) = None"
      and "op_ScheduleByID ops (trigger_id t) t (ts_triggersScheduler e, w) = Inr (Inl err, c, w')"
      and "r = Inl (ChainError ''failed to schedule trigger'' err)"
      and "e' = e\<lparr>ts_triggersScheduler := c\<rparr>"
    | (known) st tasks where "fmlookup (ts_tasks e) k = Some st"
      and "fmlookup (st_ScheduledTriggers st) (trigger_id t) \<noteq> None"
      and "fmlookup (ts_triggerTasks e) (trigger_id t) = Some tasks"
      and "r = Inr (trigger_id t)" and "w' = w"
      and "e' = e\<lparr>ts_triggerTasks :=
        fmupd (trigger_id t) (fmupd k (st_DefinedTask st) tasks) (ts_triggerTasks e)\<rparr>"
proof -
  from assms obtain st where st: "fmlookup (ts_tasks e) k = Some st"
    by (auto simp: updateTrigger_def split: option.splits)
  show thesis
  proof (cases "fmlookup (st_ScheduledTriggers st) (trigger_id t)")
    case None
    with assms st obtain r' c v where run:
      "op_ScheduleByID ops (trigger_id t) t (ts_triggersScheduler e, w) = Inr (r', c, v)"
      by (auto simp: updateTrigger_def Let_def andThen_Inr_iff)
    show thesis
    proof (cases r')
      case (Inl err)
      with assms st None run show thesis
        by (intro failed [of st err c]) (simp_all add: updateTrigger_def Let_def)
    next
      case (Inr j)
      with assms st None run show thesis
        by (intro scheduled [of st j c]) (simp_all add: updateTrigger_def Let_def)
    qed
  next
    case (Some x)
    with assms st obtain tasks where "fmlookup (ts_triggerTasks e) (trigger_id t) = Some tasks"
      by (auto simp: updateTrigger_def Let_def split: option.splits)
    with assms st Some show thesis
      by (intro known [of st tasks]) (simp_all add: updateTrigger_def Let_def)
  qed
qed

lemma removeTrigger_cases:
  assumes "removeTrigger ops k i (e, w) = Inr (e', w')"
  obtains (unknown) "fmlookup (ts_triggerTasks e) i = None" and "e' = e" and "w' = w"
    | (last_one) tasks u c where "fmlookup (ts_triggerTasks e) i = Some tasks" and "fmdrop k tasks = fmempty"
      and "op_Unschedule ops i (ts_triggersScheduler e, w) = Inr (u, c, w')"
      and "e' = e\<lparr>ts_triggersScheduler := c, ts_triggerTasks := fmdrop i (ts_triggerTasks e)\<rparr>"
    | (shared) tasks where "fmlookup (ts_triggerTasks e) i = Some tasks" and "fmdrop k tasks \<noteq> fmempty"
      and "w' = w" and "e' = e\<lparr>ts_triggerTasks := fmupd i (fmdrop k tasks) (ts_triggerTasks e)\<rparr>"
proof (cases "fmlookup (ts_triggerTasks e) i")
  case None
  with assms show thesis by (intro unknown) (simp_all add: removeTrigger_def)
next
  case (Some tasks)
  show thesis
  proof (cases "fmdrop k tasks = fmempty")
    case True
    with assms Some obtain u c where "op_Unschedule ops i (ts_triggersScheduler e, w) = Inr (u, c, w')"
      and "e' = e\<lparr>ts_triggersScheduler := c, ts_triggerTasks := fmdrop i (ts_triggerTasks e)\<rparr>"
      by (auto simp: removeTrigger_def Let_def andThen_Inr_iff)
    with Some True show thesis by (intro last_one)
  next
    case False
    then have "mlen (fmdrop k tasks) \<noteq> 0" by (simp only: mlen_0_iff not_False_eq_True)
    with assms Some False show thesis by (intro shared) (auto simp: removeTrigger_def Let_def simp del: mlen_drop)
  qed
qed

text \<open>Loops: what every step keeps, the loops keep.\<close>

lemma update_trigger_step_iff:
  "update_trigger_step ops k t (m, e, w) = Inr (m', e', w') \<longleftrightarrow>
    (\<exists>r. updateTrigger ops k t (e, w) = Inr (r, e', w') \<and>
      m' = (case r of Inl err \<Rightarrow> m | Inr i \<Rightarrow> fmupd i t m))"
proof (cases "updateTrigger ops k t (e, w)")
  case (Inr x)
  obtain r e1 w1 where "x = (r, e1, w1)" by (cases x)
  with Inr show ?thesis by (cases r) (auto simp: update_trigger_step_def)
qed (simp add: update_trigger_step_def)

lemma update_triggers_invariant:
  assumes "update_triggers ops k triggers (e, w) = Inr (new, e', w')" and "P (e, w)"
    and "\<And>t e w r e' w'. t \<in> set triggers \<Longrightarrow> P (e, w) \<Longrightarrow>
      updateTrigger ops k t (e, w) = Inr (r, e', w') \<Longrightarrow> P (e', w')"
  shows "P (e', w')"
proof -
  have "P (snd (new, e', w'))"
    using assms(1) [unfolded update_triggers_def]
  proof (rule mfold_invariant [where P = "\<lambda>s. P (snd s)"])
    fix t and s s' :: "(u64, task_trigger) fmap \<times> 'a task_scheduler \<times> 'b"
    assume t: "t \<in> set triggers" and P: "P (snd s)" and run: "update_trigger_step ops k t s = Inr s'"
    obtain m e w where s: "s = (m, e, w)" by (cases s)
    obtain m' e' w' where s': "s' = (m', e', w')" by (cases s')
    from run obtain r where "updateTrigger ops k t (e, w) = Inr (r, e', w')"
      unfolding s s' update_trigger_step_iff by blast
    with assms(3) [OF t, of e w r e' w'] P s s' show "P (snd s')" by simp
  qed (simp add: assms(2))
  then show ?thesis by simp
qed

lemma ts_scheduled_simps [simp]:
  "fmlookup (ts_tasks e) k = Some st \<Longrightarrow> ts_scheduled e k = st_ScheduledTriggers st"
  "fmlookup (ts_tasks e) k = None \<Longrightarrow> ts_scheduled e k = fmempty"
  by (simp_all add: ts_scheduled_def)

text \<open>The structural invariant.\<close>

lemma ts_okD:
  assumes "ts_ok e"
  shows "fmlookup (ts_tasks e) k = Some st \<Longrightarrow> task_ID (st_DefinedTask st) = k"
    and "fmlookup (ts_scheduled e k) i = Some x \<Longrightarrow> trigger_id (st_Trigger x) = i \<and> IsSuccessful x"
    and "fmlookup (ts_triggerTasks e) i \<noteq> Some fmempty"
    and "fmlookup (ts_registered e i) k = Some t \<Longrightarrow> task_ID t = k"
  using assms unfolding ts_ok_def by blast+

lemma ts_ok_tasks:
  assumes "ts_ok e" and "task_ID (st_DefinedTask st) = k"
    and "\<And>i x. fmlookup (st_ScheduledTriggers st) i = Some x \<Longrightarrow> trigger_id (st_Trigger x) = i \<and> IsSuccessful x"
  shows "ts_ok (e\<lparr>ts_tasks := fmupd k st (ts_tasks e)\<rparr>)"
proof -
  have "ts_scheduled (e\<lparr>ts_tasks := fmupd k st (ts_tasks e)\<rparr>) m =
      (if m = k then st_ScheduledTriggers st else ts_scheduled e m)" for m
    by (simp add: ts_scheduled_def)
  with assms ts_okD [OF assms(1)] show ?thesis by (auto simp: ts_ok_def ts_registered_def)
qed

lemma ts_ok_triggerTasks:
  assumes "ts_ok e" and "tasks \<noteq> fmempty" and "\<And>k t. fmlookup tasks k = Some t \<Longrightarrow> task_ID t = k"
  shows "ts_ok (e\<lparr>ts_triggerTasks := fmupd i tasks (ts_triggerTasks e)\<rparr>)"
  using assms(2,3) ts_okD [OF assms(1)]
  by (auto simp: ts_ok_def ts_registered_def nested_upd ts_scheduled_def)

lemma ts_ok_scheduler: "ts_ok (e\<lparr>ts_triggersScheduler := c\<rparr>) = ts_ok e"
  by (simp add: ts_ok_def ts_registered_def ts_scheduled_def)

lemma ts_ok_registered:
  "ts_ok e \<Longrightarrow> fmlookup (ts_triggerTasks e) i = Some tasks \<Longrightarrow> fmlookup tasks k = Some t \<Longrightarrow> task_ID t = k"
  using ts_okD(4) [of e i k t] by (simp add: ts_registered_def)

lemma updateTrigger_ok:
  assumes "updateTrigger ops k t (e, w) = Inr (r, e', w')" and "ts_ok e"
  shows "ts_ok e'"
  using assms(1)
proof (cases rule: updateTrigger_cases)
  case (scheduled st c j)
  let ?st = "st\<lparr>st_ScheduledTriggers := fmupd (trigger_id t)
          \<lparr>st_Trigger = t, st_SchedulingError = None\<rparr> (st_ScheduledTriggers st)\<rparr>"
  let ?e = "e\<lparr>ts_triggersScheduler := c\<rparr>"
  have ok: "ts_ok ?e" using assms(2) by (simp add: ts_ok_scheduler)
  have id: "task_ID (st_DefinedTask st) = k" using scheduled(1) ts_okD(1) [OF assms(2)] by blast
  have "ts_ok (?e\<lparr>ts_tasks := fmupd k ?st (ts_tasks ?e)\<rparr>)"
    using scheduled(1) ts_okD(2) [OF assms(2), of k] id
    by (intro ts_ok_tasks [OF ok]) (auto simp: IsSuccessful_def split: if_splits)
  then have "ts_ok (?e\<lparr>ts_tasks := fmupd k ?st (ts_tasks ?e), ts_triggerTasks :=
      fmupd (trigger_id t) (fmupd k (st_DefinedTask st) fmempty)
        (ts_triggerTasks (?e\<lparr>ts_tasks := fmupd k ?st (ts_tasks ?e)\<rparr>))\<rparr>)"
    by (rule ts_ok_triggerTasks) (auto simp: id split: if_splits)
  with scheduled(5) show ?thesis by simp
next
  case (failed st c err)
  with assms(2) show ?thesis by (simp add: ts_ok_scheduler)
next
  case (known st tasks)
  have "task_ID (st_DefinedTask st) = k" using known(1) ts_okD(1) [OF assms(2)] by blast
  with known(3) show ?thesis unfolding known(6)
    by (intro ts_ok_triggerTasks [OF assms(2)])
      (auto split: if_splits dest: ts_ok_registered [OF assms(2)])
qed

lemma removeTrigger_ok:
  assumes "removeTrigger ops k i (e, w) = Inr (e', w')" and "ts_ok e"
  shows "ts_ok e'"
  using assms(1)
proof (cases rule: removeTrigger_cases)
  case unknown
  with assms(2) show ?thesis by simp
next
  case (last_one tasks u c)
  with ts_okD [OF assms(2)] show ?thesis
    by (auto simp: ts_ok_def ts_registered_def ts_scheduled_def nested_drop)
next
  case (shared tasks)
  then show ?thesis unfolding shared(4)
    by (intro ts_ok_triggerTasks [OF assms(2)])
      (auto split: if_splits dest: ts_ok_registered [OF assms(2)])
qed

lemma ts_ok_drop:
  assumes "ts_ok e"
  shows "ts_ok (e\<lparr>ts_tasks := fmdrop k (ts_tasks e)\<rparr>)"
proof -
  have "ts_scheduled (e\<lparr>ts_tasks := fmdrop k (ts_tasks e)\<rparr>) m =
      (if m = k then fmempty else ts_scheduled e m)" for m
    by (simp add: ts_scheduled_def)
  with ts_okD [OF assms] show ?thesis by (auto simp: ts_ok_def ts_registered_def)
qed

lemma TS_Unschedule_ok:
  assumes "TS_Unschedule ops pick k (e, w) = Inr (r, e', w')" and "ts_ok e"
  shows "ts_ok e'"
proof (cases "fmlookup (ts_tasks e) k")
  case None
  with assms show ?thesis by (simp add: TS_Unschedule_def)
next
  case (Some st)
  with assms(1) obtain c where "e' = e\<lparr>ts_triggersScheduler := c, ts_tasks := fmdrop k (ts_tasks e)\<rparr>"
    by (auto simp: TS_Unschedule_def andThen_Inr_iff)
  then show ?thesis
    using ts_ok_drop [of "e\<lparr>ts_triggersScheduler := c\<rparr>" k] assms(2) by (simp add: ts_ok_scheduler)
qed

lemma mfold_ts_ok:
  assumes "mfold f xs ew = Inr ew'" and "ts_ok (fst ew)"
    and "\<And>x e w e' w'. f x (e, w) = Inr (e', w') \<Longrightarrow> ts_ok e \<Longrightarrow> ts_ok e'"
  shows "ts_ok (fst ew')"
  using assms(1)
proof (rule mfold_invariant [where P = "\<lambda>s. ts_ok (fst s)"])
  fix x s s' assume "ts_ok (fst s)" and "f x s = Inr s'"
  with assms(3) show "ts_ok (fst s')" by (cases s; cases s') auto
qed (rule assms(2))

lemma UnscheduleTask_ok:
  assumes "UnscheduleTask ops pick k (e, w) = Inr (e', w')" and "ts_ok e"
  shows "ts_ok e'"
proof (cases "fmlookup (ts_tasks e) k")
  case None
  with assms show ?thesis by (simp add: UnscheduleTask_def)
next
  case (Some t)
  with assms(1) obtain e1 where loop: "mfold (removeTrigger ops k) (pick (st_ScheduledTriggers t)) (e, w) = Inr (e1, w')"
    and e': "e' = e1\<lparr>ts_tasks := fmdrop k (ts_tasks e1)\<rparr>"
    by (auto simp: UnscheduleTask_def andThen_Inr_iff)
  have "ts_ok (fst (e1, w'))"
    using loop by (rule mfold_ts_ok) (auto simp: assms(2) intro: removeTrigger_ok)
  then show ?thesis by (simp add: e' ts_ok_drop)
qed

lemma TS_Schedule_ok:
  assumes "TS_Schedule ops pick task (e, w) = Inr (r, e', w')" and "ts_ok e"
  shows "ts_ok e'"
proof (cases "fmlookup (ts_tasks e) (task_ID task)")
  case None
  let ?e1 = "e\<lparr>ts_tasks := fmupd (task_ID task)
    \<lparr>st_DefinedTask = task, st_ScheduledTriggers = fmempty\<rparr> (ts_tasks e)\<rparr>"
  from None assms(1) obtain new where
    run: "update_triggers ops (task_ID task) (task_Triggers task) (?e1, w) = Inr (new, e', w')"
    by (auto simp: TS_Schedule_def andThen_Inr_iff)
  have "ts_ok (fst (?e1, w))" unfolding fst_conv by (rule ts_ok_tasks [OF assms(2)]) simp_all
  with run have "ts_ok (fst (e', w'))"
    by (rule update_triggers_invariant [where P = "\<lambda>s. ts_ok (fst s)"]) (auto intro: updateTrigger_ok)
  then show ?thesis by simp
next
  case (Some t)
  let ?e1 = "e\<lparr>ts_tasks := fmupd (task_ID task) (t\<lparr>st_DefinedTask := task\<rparr>) (ts_tasks e)\<rparr>"
  from Some assms(1) obtain new e2 w2 xs where
    run: "update_triggers ops (task_ID task) (task_Triggers task) (?e1, w) = Inr (new, e2, w2)"
    and loop: "mfold (\<lambda>i ew3. if fmlookup new i = None then removeTrigger ops (task_ID task) i ew3
      else Inr ew3) xs (e2, w2) = Inr (e', w')"
    by (auto simp: TS_Schedule_def Let_def andThen_Inr_iff)
  have "ts_ok (fst (?e1, w))" using Some ts_okD(2) [OF assms(2), of "task_ID task"]
    unfolding fst_conv by (intro ts_ok_tasks [OF assms(2)]) simp_all
  with run have "ts_ok (fst (e2, w2))"
    by (rule update_triggers_invariant [where P = "\<lambda>s. ts_ok (fst s)"]) (auto intro: updateTrigger_ok)
  with loop have "ts_ok (fst (e', w'))"
    by (rule mfold_ts_ok) (auto intro: removeTrigger_ok split: if_splits)
  then show ?thesis by simp
qed

section \<open>Scheduling a new task\<close>

lemma new_task_step:
  assumes "new_task_state ops task e0 seen e"
    and "updateTrigger ops (task_ID task) t (e, w) = Inr (r, e', w')"
  shows "new_task_state ops task e0 (seen @ [t]) e'"
  using assms(2)
proof (cases rule: updateTrigger_cases)
  case (scheduled st c j)
  with assms(1) show ?thesis by (auto simp: new_task_state_def ts_scheduled_def)
next
  case (failed st c err)
  then have "\<not> never_fails ops t" unfolding never_fails_def by blast
  with failed assms(1) show ?thesis by (auto simp: new_task_state_def ts_scheduled_def)
next
  case (known st tasks)
  then have i: "trigger_id t \<in> fmdom' (ts_scheduled e (task_ID task))" by (auto simp: fmlookup_dom'_iff)
  from known assms(1) have "tasks = fmupd (task_ID task) task fmempty" and "st_DefinedTask st = task"
    by (auto simp: new_task_state_def)
  with known have "fmlookup (ts_triggerTasks e') m = fmlookup (ts_triggerTasks e) m" for m by auto
  with known assms(1) i show ?thesis by (auto simp: new_task_state_def ts_scheduled_def)
qed

lemma new_task_run:
  assumes "new_task_state ops task e0 seen e"
    and "mfold (update_trigger_step ops (task_ID task)) triggers (m, e, w) = Inr (new, e', w')"
  shows "new_task_state ops task e0 (seen @ triggers) e'"
  using assms
proof (induction triggers arbitrary: seen m e w)
  case Nil
  then show ?case by simp
next
  case (Cons t ts)
  from Cons.prems(2) obtain m1 e1 w1 where
    "update_trigger_step ops (task_ID task) t (m, e, w) = Inr (m1, e1, w1)"
    and rest: "mfold (update_trigger_step ops (task_ID task)) ts (m1, e1, w1) = Inr (new, e', w')"
    by (auto simp: andThen_Inr_iff)
  then obtain r where step: "updateTrigger ops (task_ID task) t (e, w) = Inr (r, e1, w1)"
    by (auto simp: update_trigger_step_iff)
  from Cons.IH [OF new_task_step [OF Cons.prems(1) step] rest] show ?case by simp
qed

lemma TS_Schedule_new_state:
  assumes "fmlookup (ts_tasks e) (task_ID task) = None"
    and "TS_Schedule ops pick task (e, w) = Inr (r, e', w')"
  shows "r = None \<and> new_task_state ops task e (task_Triggers task) e'"
proof -
  let ?e1 = "e\<lparr>ts_tasks := fmupd (task_ID task)
    \<lparr>st_DefinedTask = task, st_ScheduledTriggers = fmempty\<rparr> (ts_tasks e)\<rparr>"
  from assms obtain new where
    run: "update_triggers ops (task_ID task) (task_Triggers task) (?e1, w) = Inr (new, e', w')"
    and r: "r = None"
    by (auto simp: TS_Schedule_def andThen_Inr_iff)
  have "new_task_state ops task e [] ?e1"
    by (auto simp: new_task_state_def ts_scheduled_def)
  from new_task_run [OF this run [unfolded update_triggers_def]] r show ?thesis by simp
qed

section \<open>Scheduling a task again\<close>

text \<open>The triggers are all known: the loop only registers the new version of the task.\<close>

lemma update_triggers_known:
  assumes "fmlookup (ts_tasks e) k = Some st"
    and "\<forall>t \<in> set triggers. fmlookup (st_ScheduledTriggers st) (trigger_id t) \<noteq> None \<and>
      fmlookup (ts_triggerTasks e) (trigger_id t) \<noteq> None"
  shows "\<exists>new e'. mfold (update_trigger_step ops k) triggers (m, e, w) = Inr (new, e', w) \<and>
    fmdom' new = fmdom' m \<union> trigger_id ` set triggers \<and>
    ts_triggersScheduler e' = ts_triggersScheduler e \<and> ts_tasks e' = ts_tasks e \<and>
    ts_callback e' = ts_callback e \<and>
    (\<forall>i. fmlookup (ts_triggerTasks e') i =
       (if i \<in> trigger_id ` set triggers then Some (fmupd k (st_DefinedTask st) (ts_registered e i))
        else fmlookup (ts_triggerTasks e) i))"
  using assms
proof (induction triggers arbitrary: m e)
  case Nil
  then show ?case by simp
next
  case (Cons t ts)
  let ?i = "trigger_id t"
  let ?e1 = "e\<lparr>ts_triggerTasks := fmupd ?i (fmupd k (st_DefinedTask st) (ts_registered e ?i)) (ts_triggerTasks e)\<rparr>"
  from Cons.prems obtain x tasks where "fmlookup (st_ScheduledTriggers st) ?i = Some x"
    and "fmlookup (ts_triggerTasks e) ?i = Some tasks" by auto
  then have step: "updateTrigger ops k t (e, w) = Inr (Inr ?i, ?e1, w)"
    using Cons.prems(1) by (simp add: updateTrigger_def Let_def ts_registered_def)
  have "\<forall>u \<in> set ts. fmlookup (st_ScheduledTriggers st) (trigger_id u) \<noteq> None \<and>
      fmlookup (ts_triggerTasks ?e1) (trigger_id u) \<noteq> None" using Cons.prems(2) by auto
  from Cons.IH [OF _ this, of "fmupd ?i t m"] Cons.prems(1) obtain new e' where
    e': "mfold (update_trigger_step ops k) ts (fmupd ?i t m, ?e1, w) = Inr (new, e', w)"
    "fmdom' new = insert ?i (fmdom' m) \<union> trigger_id ` set ts"
    "ts_triggersScheduler e' = ts_triggersScheduler e" "ts_tasks e' = ts_tasks e"
    "ts_callback e' = ts_callback e"
    "\<forall>i. fmlookup (ts_triggerTasks e') i =
       (if i \<in> trigger_id ` set ts then Some (fmupd k (st_DefinedTask st) (ts_registered ?e1 i))
        else fmlookup (ts_triggerTasks ?e1) i)"
    by auto
  moreover have "ts_registered ?e1 i = (if i = ?i then fmupd k (st_DefinedTask st) (ts_registered e ?i)
      else ts_registered e i)" for i
    by (simp add: ts_registered_def nested_upd)
  moreover have "update_trigger_step ops k t (m, e, w) = Inr (fmupd ?i t m, ?e1, w)"
    using step by (auto simp: update_trigger_step_iff)
  ultimately show ?case by (intro exI [of _ new] exI [of _ e']) auto
qed

lemma TS_Schedule_same_triggers:
  assumes "fmlookup (ts_tasks e) (task_ID task) = Some st"
    and "fmdom' (st_ScheduledTriggers st) = trigger_id ` set (task_Triggers task)"
    and "\<forall>t \<in> set (task_Triggers task). fmlookup (ts_triggerTasks e) (trigger_id t) \<noteq> None"
    and "range_order (st_ScheduledTriggers st) (pick (st_ScheduledTriggers st))"
  shows "\<exists>e'. TS_Schedule ops pick task (e, w) = Inr (None, e', w) \<and>
    ts_triggersScheduler e' = ts_triggersScheduler e \<and>
    ts_tasks e' = fmupd (task_ID task) (st\<lparr>st_DefinedTask := task\<rparr>) (ts_tasks e) \<and>
    ts_callback e' = ts_callback e \<and>
    (\<forall>i. fmlookup (ts_triggerTasks e') i =
       (if i \<in> trigger_id ` set (task_Triggers task) then Some (fmupd (task_ID task) task (ts_registered e i))
        else fmlookup (ts_triggerTasks e) i))"
proof -
  let ?k = "task_ID task"
  let ?e1 = "e\<lparr>ts_tasks := fmupd ?k (st\<lparr>st_DefinedTask := task\<rparr>) (ts_tasks e)\<rparr>"
  have "\<forall>t \<in> set (task_Triggers task).
      fmlookup (st_ScheduledTriggers (st\<lparr>st_DefinedTask := task\<rparr>)) (trigger_id t) \<noteq> None \<and>
      fmlookup (ts_triggerTasks ?e1) (trigger_id t) \<noteq> None"
    using assms(2,3) by (auto simp: fmlookup_dom'_iff dest!: equalityD2 subsetD)
  from update_triggers_known [OF _ this, of ?k ops fmempty w] obtain new e' where
    e': "update_triggers ops ?k (task_Triggers task) (?e1, w) = Inr (new, e', w)"
    "fmdom' new = trigger_id ` set (task_Triggers task)"
    "ts_triggersScheduler e' = ts_triggersScheduler e" "ts_tasks e' = ts_tasks ?e1"
    "ts_callback e' = ts_callback e"
    "\<forall>i. fmlookup (ts_triggerTasks e') i =
       (if i \<in> trigger_id ` set (task_Triggers task) then Some (fmupd ?k task (ts_registered e i))
        else fmlookup (ts_triggerTasks e) i)"
    by (auto simp: update_triggers_def ts_registered_def)
  have "set (pick (st_ScheduledTriggers st)) = fmdom' new"
    using range_order_set [OF assms(4)] assms(2) e'(2) by simp
  then have "mfold (\<lambda>i ew3. if fmlookup new i = None then removeTrigger ops ?k i ew3 else Inr ew3)
      (pick (st_ScheduledTriggers st)) (e', w) = Inr (e', w)"
    by (intro mfold_id) (auto simp: fmlookup_dom'_iff)
  with assms(1) e' show ?thesis by (simp add: TS_Schedule_def Let_def)
qed

section \<open>Taking a task out\<close>

lemma removeTrigger_registered:
  assumes "removeTrigger ops k i (e, w) = Inr (e', w')"
  shows "ts_tasks e' = ts_tasks e \<and> ts_callback e' = ts_callback e \<and>
    (\<forall>m j. fmlookup (ts_registered e' m) j =
      (if m = i \<and> j = k then None else fmlookup (ts_registered e m) j))"
  using assms
proof (cases rule: removeTrigger_cases)
  case unknown
  then show ?thesis by (simp add: ts_registered_def)
next
  case (last_one tasks u c)
  then have "j \<noteq> k \<Longrightarrow> fmlookup tasks j = None" for j by (metis fmempty_lookup fmlookup_drop)
  with last_one show ?thesis by (simp add: ts_registered_def nested_drop)
next
  case (shared tasks)
  then show ?thesis by (simp add: ts_registered_def nested_upd)
qed

lemma removeTriggers_registered:
  "mfold (removeTrigger ops k) is (e, w) = Inr (e', w') \<Longrightarrow>
    ts_tasks e' = ts_tasks e \<and> ts_callback e' = ts_callback e \<and>
    (\<forall>m j. fmlookup (ts_registered e' m) j =
      (if m \<in> set is \<and> j = k then None else fmlookup (ts_registered e m) j))"
proof (induction "is" arbitrary: e w)
  case (Cons i "is")
  then obtain e1 w1 where step: "removeTrigger ops k i (e, w) = Inr (e1, w1)"
    and rest: "mfold (removeTrigger ops k) is (e1, w1) = Inr (e', w')"
    by (auto simp: andThen_Inr_iff)
  from Cons.IH [OF rest] removeTrigger_registered [OF step] show ?case by auto
qed simp

section \<open>Returning\<close>

text \<open>A client's calls, and what a sequence of them must respect: an update of a task keeps its triggers.\<close>

datatype ts_call = CallScheduleTask defined_task | CallUnscheduleTask uuid

fun ts_step ::
  "('c, 'w) triggers_ops \<Rightarrow> pick_triggers \<Rightarrow> ts_call \<Rightarrow> 'c task_scheduler \<times> 'w
   \<Rightarrow> ('c task_scheduler \<times> 'w) outcome" where
  "ts_step ops pick (CallScheduleTask task) ew = andThen (TS_Schedule ops pick task ew) (\<lambda>r. Inr (snd r))"
| "ts_step ops pick (CallUnscheduleTask k) ew = andThen (TS_Unschedule ops pick k ew) (\<lambda>r. Inr (snd r))"

definition ts_run ::
  "('c, 'w) triggers_ops \<Rightarrow> pick_triggers \<Rightarrow> ts_call list \<Rightarrow> 'c task_scheduler \<times> 'w
   \<Rightarrow> ('c task_scheduler \<times> 'w) outcome" where
  "ts_run ops pick calls ew = mfold (ts_step ops pick) calls ew"

definition task_trigger_ids :: "defined_task \<Rightarrow> u64 set" where
  "task_trigger_ids task = trigger_id ` set (task_Triggers task)"

fun keeps_triggers :: "(uuid \<Rightarrow> u64 set) \<Rightarrow> ts_call list \<Rightarrow> bool" where
  "keeps_triggers known [] \<longleftrightarrow> True"
| "keeps_triggers known (CallScheduleTask task # calls) \<longleftrightarrow>
     known (task_ID task) \<subseteq> task_trigger_ids task \<and>
     keeps_triggers (known(task_ID task := task_trigger_ids task)) calls"
| "keeps_triggers known (CallUnscheduleTask k # calls) \<longleftrightarrow> keeps_triggers (known(k := {})) calls"

fun called_triggers :: "ts_call list \<Rightarrow> task_trigger list" where
  "called_triggers [] = []"
| "called_triggers (CallScheduleTask task # calls) = task_Triggers task @ called_triggers calls"
| "called_triggers (CallUnscheduleTask k # calls) = called_triggers calls"

text \<open>The triggers a task has scheduled are among those of its last definition.\<close>

definition ts_known :: "(uuid \<Rightarrow> u64 set) \<Rightarrow> 'c task_scheduler \<Rightarrow> bool" where
  "ts_known known e \<longleftrightarrow> (\<forall>k. fmdom' (ts_scheduled e k) \<subseteq> known k)"

context triggers_scheduler
begin

definition ts_rdy :: "(string \<Rightarrow> bool) \<Rightarrow> 'c task_scheduler \<times> 'w \<Rightarrow> bool" where
  "ts_rdy can ew \<longleftrightarrow> rdy (ts_triggersScheduler (fst ew)) \<and> live (snd ew) \<and> ts_linked (fst ew) \<and>
     op_CanSchedule ops (ts_triggersScheduler (fst ew)) = can"

lemma updateTrigger_returns:
  assumes "ts_rdy can (e, w)" and "fmlookup (ts_tasks e) k \<noteq> None"
    and "can (trigger_Name t)" and "decodable t"
  shows "\<exists>r e' w'. updateTrigger ops k t (e, w) = Inr (r, e', w') \<and> ts_rdy can (e', w') \<and>
    (fmlookup (ts_scheduled e k) (trigger_id t) \<noteq> None \<longrightarrow> r = Inr (trigger_id t)) \<and>
    (\<forall>m. fmdom' (ts_scheduled e' m) =
      fmdom' (ts_scheduled e m) \<union> (if m = k then {i. r = Inr i} else {})) \<and>
    (\<forall>i. r = Inr i \<longrightarrow> i = trigger_id t) \<and> fmlookup (ts_tasks e') k \<noteq> None"
proof -
  let ?c = "ts_triggersScheduler e" and ?i = "trigger_id t"
  from assms(2) obtain st where st: "fmlookup (ts_tasks e) k = Some st" by auto
  have rdy: "rdy ?c" "live w" "op_CanSchedule ops ?c (trigger_Name t)" and linked: "ts_linked e"
    and can: "op_CanSchedule ops ?c = can"
    using assms(1,3) by (auto simp: ts_rdy_def)
  show ?thesis
  proof (cases "fmlookup (st_ScheduledTriggers st) ?i")
    case None
    from sched_returns [OF rdy assms(4)] obtain r c' w' where
      run: "op_ScheduleByID ops ?i t (?c, w) = Inr (r, c', w')" "rdy c'" "live w'" by blast
    have can': "op_CanSchedule ops c' = can" using sched_can [OF run(1)] can by simp
    show ?thesis
    proof (cases r)
      case (Inl err)
      let ?e = "e\<lparr>ts_triggersScheduler := c'\<rparr>"
      have "ts_scheduled ?e m = ts_scheduled e m" for m by (simp add: ts_scheduled_def)
      with Inl run can' linked st None show ?thesis
        by (intro exI [of _ "Inl (ChainError ''failed to schedule trigger'' err)"] exI [of _ ?e] exI [of _ w'])
          (simp add: updateTrigger_def Let_def ts_rdy_def ts_linked_def)
    next
      case (Inr j)
      let ?e = "e\<lparr>ts_triggersScheduler := c',
        ts_tasks := fmupd k (st\<lparr>st_ScheduledTriggers := fmupd ?i
          \<lparr>st_Trigger = t, st_SchedulingError = None\<rparr> (st_ScheduledTriggers st)\<rparr>) (ts_tasks e),
        ts_triggerTasks := fmupd ?i (fmupd k (st_DefinedTask st) fmempty) (ts_triggerTasks e)\<rparr>"
      have sch: "ts_scheduled ?e m = (if m = k then fmupd ?i
          \<lparr>st_Trigger = t, st_SchedulingError = None\<rparr> (ts_scheduled e k) else ts_scheduled e m)" for m
        using st by (simp add: ts_scheduled_def)
      have "ts_linked ?e" using linked by (auto simp: ts_linked_def sch split: if_splits)
      with Inr run can' st None sch show ?thesis
        by (intro exI [of _ "Inr ?i"] exI [of _ ?e] exI [of _ w'])
          (simp add: updateTrigger_def Let_def ts_rdy_def)
    qed
  next
    case (Some x)
    with st have "fmlookup (ts_scheduled e k) ?i \<noteq> None" by simp
    then obtain tasks where tasks: "fmlookup (ts_triggerTasks e) ?i = Some tasks"
      using linked unfolding ts_linked_def by blast
    let ?e = "e\<lparr>ts_triggerTasks := fmupd ?i (fmupd k (st_DefinedTask st) tasks) (ts_triggerTasks e)\<rparr>"
    have sch: "ts_scheduled ?e m = ts_scheduled e m" for m by (simp add: ts_scheduled_def)
    have "ts_linked ?e" using linked by (auto simp: ts_linked_def sch)
    moreover have "?i \<in> fmdom' (ts_scheduled e k)" using Some st by (simp add: fmlookup_dom'_iff)
    ultimately show ?thesis using assms(1) st Some tasks sch
      by (intro exI [of _ "Inr ?i"] exI [of _ ?e] exI [of _ w])
        (auto simp: updateTrigger_def Let_def ts_rdy_def)
  qed
qed

lemma update_triggers_returns:
  assumes "ts_rdy can (e, w)" and "fmlookup (ts_tasks e) k \<noteq> None"
    and "\<forall>t \<in> set triggers. can (trigger_Name t) \<and> decodable t"
    and "fmdom' (ts_scheduled e k) \<subseteq> fmdom' m \<union> trigger_id ` set triggers"
  shows "\<exists>new e' w'. mfold (update_trigger_step ops k) triggers (m, e, w) = Inr (new, e', w') \<and>
    ts_rdy can (e', w') \<and> fmdom' (ts_scheduled e' k) \<subseteq> fmdom' new \<and>
    fmdom' new \<subseteq> fmdom' m \<union> trigger_id ` set triggers \<and>
    (\<forall>j. j \<noteq> k \<longrightarrow> fmdom' (ts_scheduled e' j) = fmdom' (ts_scheduled e j))"
  using assms
proof (induction triggers arbitrary: m e w)
  case Nil
  then show ?case by auto
next
  case (Cons t ts)
  from updateTrigger_returns [OF Cons.prems(1,2), of t] Cons.prems(3) obtain r e1 w1 where
    step: "updateTrigger ops k t (e, w) = Inr (r, e1, w1)" "ts_rdy can (e1, w1)"
    "fmlookup (ts_scheduled e k) (trigger_id t) \<noteq> None \<longrightarrow> r = Inr (trigger_id t)"
    "\<And>j. fmdom' (ts_scheduled e1 j) =
      fmdom' (ts_scheduled e j) \<union> (if j = k then {i. r = Inr i} else {})"
    "\<forall>i. r = Inr i \<longrightarrow> i = trigger_id t" "fmlookup (ts_tasks e1) k \<noteq> None"
    by auto
  let ?m = "case r of Inl err \<Rightarrow> m | Inr i \<Rightarrow> fmupd i t m"
  have one: "update_trigger_step ops k t (m, e, w) = Inr (?m, e1, w1)"
    using step(1) by (auto simp: update_trigger_step_iff)
  have new: "fmdom' ?m = fmdom' m \<union> {i. r = Inr i}" by (cases r) auto
  have "fmdom' (ts_scheduled e1 k) \<subseteq> fmdom' ?m \<union> trigger_id ` set ts"
    using Cons.prems(4) step(3,4,5) unfolding new
    by (auto simp: fmlookup_dom'_iff)
  with Cons.IH [OF step(2,6), of ?m] Cons.prems(3) obtain new' e' w' where
    rest: "mfold (update_trigger_step ops k) ts (?m, e1, w1) = Inr (new', e', w')" "ts_rdy can (e', w')"
    "fmdom' (ts_scheduled e' k) \<subseteq> fmdom' new'" "fmdom' new' \<subseteq> fmdom' ?m \<union> trigger_id ` set ts"
    "\<forall>j. j \<noteq> k \<longrightarrow> fmdom' (ts_scheduled e' j) = fmdom' (ts_scheduled e1 j)"
    by auto
  have "fmdom' new' \<subseteq> fmdom' m \<union> trigger_id ` set (t # ts)"
    using rest(4) step(5) unfolding new by auto
  with one rest step(4) show ?case by (intro exI [of _ new'] exI [of _ e'] exI [of _ w']) auto
qed

lemma TS_Schedule_returns:
  assumes "ts_rdy can (e, w)" and "\<forall>t \<in> set (task_Triggers task). can (trigger_Name t) \<and> decodable t"
    and "fmdom' (ts_scheduled e (task_ID task)) \<subseteq> task_trigger_ids task"
    and "\<And>m. range_order m (pick m)"
  shows "\<exists>e' w'. TS_Schedule ops pick task (e, w) = Inr (None, e', w') \<and> ts_rdy can (e', w') \<and>
    fmdom' (ts_scheduled e' (task_ID task)) \<subseteq> task_trigger_ids task \<and>
    (\<forall>j. j \<noteq> task_ID task \<longrightarrow> fmdom' (ts_scheduled e' j) = fmdom' (ts_scheduled e j))"
proof -
  let ?k = "task_ID task"
  let ?st = "case fmlookup (ts_tasks e) ?k of None \<Rightarrow> \<lparr>st_DefinedTask = task, st_ScheduledTriggers = fmempty\<rparr>
    | Some t \<Rightarrow> t\<lparr>st_DefinedTask := task\<rparr>"
  let ?e1 = "e\<lparr>ts_tasks := fmupd ?k ?st (ts_tasks e)\<rparr>"
  have sch: "ts_scheduled ?e1 m = ts_scheduled e m" for m
    by (simp add: ts_scheduled_def split: option.split)
  have "ts_rdy can (?e1, w)" using assms(1) by (auto simp: ts_rdy_def ts_linked_def sch)
  from update_triggers_returns [OF this _ assms(2), of ?k fmempty] assms(3) obtain new e2 w2 where
    run: "update_triggers ops ?k (task_Triggers task) (?e1, w) = Inr (new, e2, w2)"
    "ts_rdy can (e2, w2)" "fmdom' (ts_scheduled e2 ?k) \<subseteq> fmdom' new"
    "fmdom' new \<subseteq> task_trigger_ids task"
    "\<forall>j. j \<noteq> ?k \<longrightarrow> fmdom' (ts_scheduled e2 j) = fmdom' (ts_scheduled e j)"
    by (auto simp: update_triggers_def sch task_trigger_ids_def)
  have "fmlookup new i \<noteq> None" if "i \<in> set (pick (ts_scheduled e2 ?k))" for i
    using that run(3) range_order_set [OF assms(4), of "ts_scheduled e2 ?k"]
    by (metis fmdom'_notI subsetD)
  then have "mfold (\<lambda>i ew3. if fmlookup new i = None then removeTrigger ops ?k i ew3 else Inr ew3)
      (pick (ts_scheduled e2 ?k)) (e2, w2) = Inr (e2, w2)"
    by (intro mfold_id) fastforce
  then have "TS_Schedule ops pick task (e, w) = Inr (None, e2, w2)"
    using run(1)
    by (cases "fmlookup (ts_tasks e) ?k") (simp_all add: TS_Schedule_def Let_def ts_scheduled_def)
  with run show ?thesis by (intro exI [of _ e2] exI [of _ w2]) auto
qed

lemma unschedule_all_returns:
  assumes "rdy c" and "live w" and "op_CanSchedule ops c = can"
  shows "\<exists>c' w'. mfold (\<lambda>i cw. andThen (op_Unschedule ops i cw) (\<lambda>(u, cw1). Inr cw1)) is (c, w) =
    Inr (c', w') \<and> rdy c' \<and> live w' \<and> op_CanSchedule ops c' = can"
proof -
  let ?P = "\<lambda>cw. rdy (fst cw) \<and> live (snd cw) \<and> op_CanSchedule ops (fst cw) = can"
  have "\<exists>cw'. mfold (\<lambda>i cw. andThen (op_Unschedule ops i cw) (\<lambda>(u, cw1). Inr cw1)) is (c, w) =
      Inr cw' \<and> ?P cw'"
  proof (rule mfold_returns [where P = ?P])
    fix i and cw :: "'c \<times> 'w" assume P: "?P cw"
    obtain d v where cw: "cw = (d, v)" by (cases cw)
    from P obtain u d' v' where run: "op_Unschedule ops i (d, v) = Inr (u, d', v')" "rdy d'" "live v'"
      using unsched_returns [of d v i] by (auto simp: cw)
    with unsched_can [OF run(1)] P
    show "\<exists>cw'. andThen (op_Unschedule ops i cw) (\<lambda>(u, cw1). Inr cw1) = Inr cw' \<and> ?P cw'"
      by (auto simp: cw)
  qed (simp add: assms)
  then show ?thesis by auto
qed

lemma TS_Unschedule_returns:
  assumes "ts_rdy can (e, w)"
  shows "\<exists>r e' w'. TS_Unschedule ops pick k (e, w) = Inr (r, e', w') \<and> ts_rdy can (e', w') \<and>
    (\<forall>j. ts_scheduled e' j = (if j = k then fmempty else ts_scheduled e j))"
proof (cases "fmlookup (ts_tasks e) k")
  case None
  with assms show ?thesis by (auto simp: TS_Unschedule_def)
next
  case (Some st)
  from assms have "rdy (ts_triggersScheduler e)" and "live w"
    and "op_CanSchedule ops (ts_triggersScheduler e) = can" by (auto simp: ts_rdy_def)
  from unschedule_all_returns [OF this] obtain c' w' where run:
    "mfold (\<lambda>i cw. andThen (op_Unschedule ops i cw) (\<lambda>(u, cw1). Inr cw1))
      (pick (st_ScheduledTriggers st)) (ts_triggersScheduler e, w) = Inr (c', w')"
    "rdy c'" "live w'" "op_CanSchedule ops c' = can" by blast
  let ?e = "e\<lparr>ts_triggersScheduler := c', ts_tasks := fmdrop k (ts_tasks e)\<rparr>"
  have sch: "ts_scheduled ?e j = (if j = k then fmempty else ts_scheduled e j)" for j
    by (simp add: ts_scheduled_def)
  have "ts_linked ?e" using assms by (auto simp: ts_rdy_def ts_linked_def sch split: if_splits)
  with run Some sch show ?thesis
    by (intro exI [of _ "(True, None)"] exI [of _ ?e] exI [of _ w'])
      (simp add: TS_Unschedule_def ts_rdy_def)
qed

text \<open>Calls in which no update of a task drops a trigger all return.\<close>

lemma ts_run_returns:
  assumes "ts_rdy can (e, w)" and "ts_known known e" and "keeps_triggers known calls"
    and "\<forall>t \<in> set (called_triggers calls). can (trigger_Name t) \<and> decodable t"
    and "\<And>m. range_order m (pick m)"
  shows "\<exists>e' w'. ts_run ops pick calls (e, w) = Inr (e', w') \<and> ts_rdy can (e', w')"
  using assms(1-4)
proof (induction calls arbitrary: e w known)
  case Nil
  then show ?case by (simp add: ts_run_def)
next
  case (Cons call calls)
  show ?case
  proof (cases call)
    case (CallScheduleTask task)
    with Cons.prems have sub: "fmdom' (ts_scheduled e (task_ID task)) \<subseteq> task_trigger_ids task"
      and ok: "\<forall>t \<in> set (task_Triggers task). can (trigger_Name t) \<and> decodable t"
      by (auto simp: ts_known_def)
    from TS_Schedule_returns [OF Cons.prems(1) ok sub assms(5)] obtain e1 w1 where
      run: "TS_Schedule ops pick task (e, w) = Inr (None, e1, w1)" "ts_rdy can (e1, w1)"
      "fmdom' (ts_scheduled e1 (task_ID task)) \<subseteq> task_trigger_ids task"
      "\<forall>j. j \<noteq> task_ID task \<longrightarrow> fmdom' (ts_scheduled e1 j) = fmdom' (ts_scheduled e j)" by blast
    have "ts_known (known(task_ID task := task_trigger_ids task)) e1"
      using run(3,4) Cons.prems(2) by (auto simp: ts_known_def)
    from Cons.IH [OF run(2) this] Cons.prems(3,4) CallScheduleTask run(1) show ?thesis
      by (simp add: ts_run_def del: fun_upd_apply)
  next
    case (CallUnscheduleTask k)
    from TS_Unschedule_returns [OF Cons.prems(1), of pick k] obtain r e1 w1 where
      run: "TS_Unschedule ops pick k (e, w) = Inr (r, e1, w1)" "ts_rdy can (e1, w1)"
      "\<forall>j. ts_scheduled e1 j = (if j = k then fmempty else ts_scheduled e j)" by blast
    have "ts_known (known(k := {})) e1" using run(3) Cons.prems(2) by (simp add: ts_known_def)
    from Cons.IH [OF run(2) this] Cons.prems(3,4) CallUnscheduleTask run(1) show ?thesis
      by (simp add: ts_run_def del: fun_upd_apply)
  qed
qed

end

end
