(* ===== verification/Agent_Triggers.thy ===== *)
theory Agent_Triggers
  imports Cron_Triggers FS_Triggers Event_Triggers Composite_Triggers Task_Scheduler
begin

text \<open>
  The composite that \<open>createExecutor\<close> of \<open>scheduler.go\<close> builds: a cron, an event and a file system scheduler
  behind the interface \<open>TriggersScheduler\<close>. A child is one of the three; its method table dispatches on
  the kind, as a Go interface value does. The table has the contract of \<open>Triggers_Scheduler\<close>, and so has the
  composite over it.
\<close>

section \<open>Definitions\<close>

datatype ('g, 'j, 'n) child =
    CronChild "('g, 'j) cron_scheduler"
  | EventChild event_scheduler
  | FSChild "'n fs_scheduler"

text \<open>What the schedulers use from outside: the two libraries, and the choices of the runtime.\<close>

record ('g, 'j, 'n) agent_env =
  ae_gocron :: "('g, 'j) gocron"
  ae_fsnotify :: "'n fsnotify"
  ae_mkchan :: "ws_client \<Rightarrow> chan_id"
  ae_pick :: "event_queue \<Rightarrow> string list"

text \<open>The result of a method of one kind of child, with the new state put back under its constructor.\<close>

definition as_child :: "('s \<Rightarrow> 'd) \<Rightarrow> ('r \<times> 's \<times> 'w) outcome \<Rightarrow> ('r \<times> 'd \<times> 'w) outcome" where
  "as_child con m = andThen m (\<lambda>(r, s, w). Inr (r, con s, w))"

definition as_child_only :: "('s \<Rightarrow> 'd) \<Rightarrow> ('s \<times> 'w) outcome \<Rightarrow> ('d \<times> 'w) outcome" where
  "as_child_only con m = andThen m (\<lambda>(s, w). Inr (con s, w))"

definition Child_ops ::
  "('g, 'j, 'n) agent_env \<Rightarrow> (('g, 'j, 'n) child, ws_client) triggers_ops" where
  "Child_ops env =
     (let cron = Cron_ops (ae_gocron env); event = Event_ops (ae_mkchan env) (ae_pick env);
          fs = FS_ops (ae_fsnotify env)
      in \<lparr>op_CanSchedule = (\<lambda>c. case c of CronChild s \<Rightarrow> op_CanSchedule cron s
            | EventChild s \<Rightarrow> op_CanSchedule event s | FSChild s \<Rightarrow> op_CanSchedule fs s),
          op_Schedule = (\<lambda>t (c, w). case c of CronChild s \<Rightarrow> as_child CronChild (op_Schedule cron t (s, w))
            | EventChild s \<Rightarrow> as_child EventChild (op_Schedule event t (s, w))
            | FSChild s \<Rightarrow> as_child FSChild (op_Schedule fs t (s, w))),
          op_ScheduleByID = (\<lambda>i t (c, w). case c of
              CronChild s \<Rightarrow> as_child CronChild (op_ScheduleByID cron i t (s, w))
            | EventChild s \<Rightarrow> as_child EventChild (op_ScheduleByID event i t (s, w))
            | FSChild s \<Rightarrow> as_child FSChild (op_ScheduleByID fs i t (s, w))),
          op_Unschedule = (\<lambda>i (c, w). case c of
              CronChild s \<Rightarrow> as_child CronChild (op_Unschedule cron i (s, w))
            | EventChild s \<Rightarrow> as_child EventChild (op_Unschedule event i (s, w))
            | FSChild s \<Rightarrow> as_child FSChild (op_Unschedule fs i (s, w))),
          op_Start = (\<lambda>(c, w). case c of CronChild s \<Rightarrow> as_child CronChild (op_Start cron (s, w))
            | EventChild s \<Rightarrow> as_child EventChild (op_Start event (s, w))
            | FSChild s \<Rightarrow> as_child FSChild (op_Start fs (s, w))),
          op_Stop = (\<lambda>(c, w). case c of CronChild s \<Rightarrow> as_child_only CronChild (op_Stop cron (s, w))
            | EventChild s \<Rightarrow> as_child_only EventChild (op_Stop event (s, w))
            | FSChild s \<Rightarrow> as_child_only FSChild (op_Stop fs (s, w))),
          op_IsRunning = (\<lambda>c. case c of CronChild s \<Rightarrow> op_IsRunning cron s
            | EventChild s \<Rightarrow> op_IsRunning event s | FSChild s \<Rightarrow> op_IsRunning fs s),
          op_SetCallback = (\<lambda>cb c. case c of CronChild s \<Rightarrow> CronChild (op_SetCallback cron cb s)
            | EventChild s \<Rightarrow> EventChild (op_SetCallback event cb s)
            | FSChild s \<Rightarrow> FSChild (op_SetCallback fs cb s)),
          op_Explain = (\<lambda>c. case c of CronChild s \<Rightarrow> op_Explain cron s
            | EventChild s \<Rightarrow> op_Explain event s | FSChild s \<Rightarrow> op_Explain fs s)\<rparr>)"

fun child_ids :: "('g, 'j, 'n) child \<Rightarrow> u64 set" where
  "child_ids (CronChild s) = cron_ids s"
| "child_ids (EventChild s) = event_ids s"
| "child_ids (FSChild s) = fs_ids s"

fun child_rdy :: "('g, 'j, 'n) child \<Rightarrow> bool" where
  "child_rdy (CronChild s) \<longleftrightarrow> True"
| "child_rdy (EventChild s) \<longleftrightarrow> event_rdy s"
| "child_rdy (FSChild s) \<longleftrightarrow> fs_rdy s"

text \<open>The scheduler of the agent: \<open>g\<close> is the fresh \<open>gocron\<close> scheduler, \<open>watcher\<close> the result of \<open>fsnotify.NewWatcher\<close>.\<close>

definition agent_composite ::
  "'g \<Rightarrow> goerror + 'n \<Rightarrow> goerror + (('g, 'j, 'n) child) composite_scheduler" where
  "agent_composite g watcher =
     (case NewFSTriggersScheduler watcher of
        Inl err \<Rightarrow> Inl err
      | Inr fsExecutor \<Rightarrow>
          Inr (NewCompositeTriggersScheduler
            [CronChild (NewCronTriggersScheduler g), EventChild NewTelephonistScheduler,
             FSChild fsExecutor]))"

section \<open>Lemmas\<close>

lemma as_child_Inr_iff:
  "as_child con m = Inr (r, d, w) \<longleftrightarrow> (\<exists>s. m = Inr (r, s, w) \<and> d = con s)"
  by (auto simp: as_child_def andThen_Inr_iff)

lemma as_child_only_Inr_iff:
  "as_child_only con m = Inr (d, w) \<longleftrightarrow> (\<exists>s. m = Inr (s, w) \<and> d = con s)"
  by (auto simp: as_child_only_def andThen_Inr_iff)

lemma Child_ops_cron [simp]:
  "op_CanSchedule (Child_ops env) (CronChild s) = op_CanSchedule (Cron_ops (ae_gocron env) :: (_, ws_client) triggers_ops) s"
  "op_ScheduleByID (Child_ops env) i t (CronChild s, w) =
    as_child CronChild (op_ScheduleByID (Cron_ops (ae_gocron env)) i t (s, w))"
  "op_Unschedule (Child_ops env) i (CronChild s, w) =
    as_child CronChild (op_Unschedule (Cron_ops (ae_gocron env)) i (s, w))"
  "op_Start (Child_ops env) (CronChild s, w) = as_child CronChild (op_Start (Cron_ops (ae_gocron env)) (s, w))"
  "op_Stop (Child_ops env) (CronChild s, w) = as_child_only CronChild (op_Stop (Cron_ops (ae_gocron env)) (s, w))"
  "op_SetCallback (Child_ops env) cb (CronChild s) = CronChild (Cron_SetCallback cb s)"
  by (simp_all add: Child_ops_def Let_def)

lemma Child_ops_event [simp]:
  "op_CanSchedule (Child_ops env) (EventChild s) = op_CanSchedule (Event_ops (ae_mkchan env) (ae_pick env)) s"
  "op_ScheduleByID (Child_ops env) i t (EventChild s, w) =
    as_child EventChild (op_ScheduleByID (Event_ops (ae_mkchan env) (ae_pick env)) i t (s, w))"
  "op_Unschedule (Child_ops env) i (EventChild s, w) =
    as_child EventChild (op_Unschedule (Event_ops (ae_mkchan env) (ae_pick env)) i (s, w))"
  "op_Start (Child_ops env) (EventChild s, w) =
    as_child EventChild (op_Start (Event_ops (ae_mkchan env) (ae_pick env)) (s, w))"
  "op_Stop (Child_ops env) (EventChild s, w) =
    as_child_only EventChild (op_Stop (Event_ops (ae_mkchan env) (ae_pick env)) (s, w))"
  "op_SetCallback (Child_ops env) cb (EventChild s) = EventChild (Event_SetCallback cb s)"
  by (simp_all add: Child_ops_def Let_def)

lemma Child_ops_fs [simp]:
  "op_CanSchedule (Child_ops env) (FSChild s) = op_CanSchedule (FS_ops (ae_fsnotify env) :: (_, ws_client) triggers_ops) s"
  "op_ScheduleByID (Child_ops env) i t (FSChild s, w) =
    as_child FSChild (op_ScheduleByID (FS_ops (ae_fsnotify env)) i t (s, w))"
  "op_Unschedule (Child_ops env) i (FSChild s, w) =
    as_child FSChild (op_Unschedule (FS_ops (ae_fsnotify env)) i (s, w))"
  "op_Start (Child_ops env) (FSChild s, w) = as_child FSChild (op_Start (FS_ops (ae_fsnotify env)) (s, w))"
  "op_Stop (Child_ops env) (FSChild s, w) = as_child_only FSChild (op_Stop (FS_ops (ae_fsnotify env)) (s, w))"
  "op_SetCallback (Child_ops env) cb (FSChild s) = FSChild (FS_SetCallback cb s)"
  by (simp_all add: Child_ops_def Let_def)

lemma child_sched_returns:
  assumes "child_rdy c" and "ws_live w" and "op_CanSchedule (Child_ops env) c (trigger_Name t)"
    and "decodable t"
  shows "\<exists>r c' w'. op_ScheduleByID (Child_ops env) i t (c, w) = Inr (r, c', w') \<and> child_rdy c' \<and> ws_live w'"
proof (cases c)
  case (CronChild s)
  with assms obtain r s' w' where run: "Cron_ScheduleByID (ae_gocron env) i t (s, w) = Inr (r, s', w')"
    using Cron_ScheduleByID_returns [of s t "ae_gocron env" i w] by auto
  moreover have "w' = w" using Cron_ScheduleByID_cases [OF run] by simp
  ultimately show ?thesis using CronChild assms by (auto simp: as_child_Inr_iff)
next
  case (EventChild s)
  with assms Event_ScheduleByID_returns [of s w t i] show ?thesis
    by (fastforce simp: as_child_Inr_iff)
next
  case (FSChild s)
  with assms obtain r s' w' where run: "FS_ScheduleByID (ae_fsnotify env) i t (s, w) = Inr (r, s', w')"
      "fs_rdy s'"
    using FS_ScheduleByID_returns [of s t "ae_fsnotify env" i w] by auto
  moreover have "w' = w" by (rule FS_ScheduleByID_cases [OF run(1)])
  ultimately show ?thesis using FSChild assms by (auto simp: as_child_Inr_iff)
qed

lemma child_unsched_returns:
  assumes "child_rdy c" and "ws_live w"
  shows "\<exists>u c' w'. op_Unschedule (Child_ops env) i (c, w) = Inr (u, c', w') \<and> child_rdy c' \<and> ws_live w'"
proof (cases c)
  case (CronChild s)
  then show ?thesis using assms
    by (cases "fmlookup (cron_jobs s) i") (auto simp: as_child_Inr_iff Cron_Unschedule_def)
next
  case (EventChild s)
  with assms Event_Unschedule_returns [of s w i] show ?thesis by (fastforce simp: as_child_Inr_iff)
next
  case (FSChild s)
  with assms obtain u s' w' where run: "FS_Unschedule (ae_fsnotify env) i (s, w) = Inr (u, s', w')" "fs_rdy s'"
    using FS_Unschedule_returns [of s "ae_fsnotify env" i w] by auto
  moreover from run(1) have "w' = w"
    by (auto simp: FS_Unschedule_def andThen_Inr_iff Let_def split: option.splits prod.splits if_splits)
  ultimately show ?thesis using FSChild assms by (fastforce simp: as_child_Inr_iff)
qed

interpretation child: triggers_scheduler "Child_ops env" child_ids child_rdy ws_live
proof
  fix i j t err u r cb and c c' :: "('a, 'b, 'c) child" and w w' :: ws_client
  show "op_ScheduleByID (Child_ops env) i t (c, w) = Inr (Inr j, c', w') \<Longrightarrow>
      j = i \<and> child_ids c' = insert i (child_ids c)"
    by (cases c) (auto simp: as_child_Inr_iff simp del: Cron_ops_simps Event_ops_simps FS_ops_simps
        dest: cron.sched_ok event.sched_ok fs.sched_ok)
  show "op_ScheduleByID (Child_ops env) i t (c, w) = Inr (Inl err, c', w') \<Longrightarrow>
      child_ids c' = child_ids c"
    by (cases c) (auto simp: as_child_Inr_iff simp del: Cron_ops_simps Event_ops_simps FS_ops_simps
        dest: cron.sched_err event.sched_err fs.sched_err)
  show "op_ScheduleByID (Child_ops env) i t (c, w) = Inr (r, c', w') \<Longrightarrow>
      op_CanSchedule (Child_ops env) c' = op_CanSchedule (Child_ops env) c"
    by (cases c) (auto simp: as_child_Inr_iff intro: Cron_can Event_can FS_can)
  show "op_Unschedule (Child_ops env) i (c, w) = Inr (u, c', w') \<Longrightarrow>
      op_CanSchedule (Child_ops env) c' = op_CanSchedule (Child_ops env) c"
    by (cases c) (auto simp: as_child_Inr_iff intro: Cron_can Event_can FS_can)
  show "op_Unschedule (Child_ops env) i (c, w) = Inr (u, c', w') \<Longrightarrow>
      child_ids c - {i} \<subseteq> child_ids c' \<and> child_ids c' \<subseteq> child_ids c"
    by (cases c) (auto simp: as_child_Inr_iff simp del: Cron_ops_simps Event_ops_simps FS_ops_simps
        dest!: cron.unsched_ids event.unsched_ids fs.unsched_ids)
  show "i \<notin> child_ids c \<Longrightarrow>
      \<exists>err. op_Unschedule (Child_ops env) i (c, w) = Inr ((err, False), c, w)"
    by (cases c) (auto simp: as_child_Inr_iff Cron_Unschedule_def Event_Unschedule_def FS_Unschedule_def
        cron_ids_def event_ids_def fs_ids_def fmdom'_notD)
  show "child_rdy c \<Longrightarrow> ws_live w \<Longrightarrow>
      \<exists>u c' w'. op_Unschedule (Child_ops env) i (c, w) = Inr (u, c', w') \<and> child_rdy c' \<and> ws_live w'"
    by (rule child_unsched_returns)
  show "child_ids (op_SetCallback (Child_ops env) cb c) = child_ids c"
    and "child_rdy (op_SetCallback (Child_ops env) cb c) = child_rdy c"
    and "op_CanSchedule (Child_ops env) (op_SetCallback (Child_ops env) cb c) =
      op_CanSchedule (Child_ops env) c"
    by (cases c; simp add: Cron_SetCallback_def Event_SetCallback_def FS_SetCallback_def cron_ids_def
        event_ids_def fs_ids_def event_rdy_def fs_rdy_def Cron_CanSchedule_def Event_CanSchedule_def
        FS_CanSchedule_def fun_eq_iff)+
qed (rule child_sched_returns)

text \<open>The composite over these children has the contract, too: this is what the task scheduler gets.\<close>

interpretation agent: triggers_scheduler "Composite_ops (Child_ops env)" composite_ids
  "composite_rdy child_rdy" ws_live
  by (rule child.composite_contract)

lemma agent_composite_eq:
  "agent_composite g (Inr n) = Inr (NewCompositeTriggersScheduler
     [CronChild (NewCronTriggersScheduler g), EventChild NewTelephonistScheduler,
      FSChild \<lparr>fs_watcher = n, fs_pathTriggers = fmempty, fs_triggers = fmempty,
        fs_callback = None, fs_isRunning = False\<rparr>])"
  by (simp add: agent_composite_def NewFSTriggersScheduler_def)

lemma Composite_CanSchedule_agent:
  assumes "co_childSchedulers e = [CronChild c, EventChild v, FSChild f]"
  shows "Composite_CanSchedule (Child_ops env) e n \<longleftrightarrow> n \<in> {TRIGGER_CRON, TRIGGER_EVENT, TRIGGER_FSNOTIFY}"
  by (auto simp: Composite_CanSchedule_iff assms Cron_CanSchedule_def Event_CanSchedule_def FS_CanSchedule_def)

text \<open>Starting the children of the agent: none of them reports an error.\<close>

lemma agent_start_children:
  assumes "co_childSchedulers e = [CronChild c, EventChild v, FSChild f]" and "\<not> co_isRunning e"
    and "ev_triggers v = fmempty" and "fs_triggers f = fmempty" and "co_ids e = fmempty"
  shows "\<exists>e1 c v f. Composite_Start (Child_ops env) (e, w) = Inr (None, e1, w) \<and> co_isRunning e1 \<and>
    co_childSchedulers e1 = [CronChild c, EventChild v, FSChild f] \<and> composite_ids e1 = {} \<and>
    composite_rdy child_rdy e1"
  using assms
  by (cases "ev_queue v")
    (auto simp: Composite_Start_def as_child_def Cron_Start_def Event_Start_def FS_Start_def
      composite_ids_def composite_rdy_def event_rdy_def fs_rdy_def)

lemma agent_start:
  assumes "agent_composite g (Inr n) = Inr e"
  shows "\<exists>e1 c v f. Composite_Start (Child_ops env) (e, w) = Inr (None, e1, w) \<and> co_isRunning e1 \<and>
    co_childSchedulers e1 = [CronChild c, EventChild v, FSChild f] \<and> composite_ids e1 = {} \<and>
    composite_rdy child_rdy e1"
  using assms
  by (intro agent_start_children)
    (auto simp: agent_composite_eq NewCompositeTriggersScheduler_def NewTelephonistScheduler_def)

lemma agent_start_callback:
  assumes "agent_composite g (Inr n) = Inr e"
  shows "\<exists>e1 c v f. Composite_Start (Child_ops env) (Composite_SetCallback (Child_ops env) cb e, w) =
      Inr (None, e1, w) \<and> co_isRunning e1 \<and>
    co_childSchedulers e1 = [CronChild c, EventChild v, FSChild f] \<and> composite_ids e1 = {} \<and>
    composite_rdy child_rdy e1"
  using assms
  by (intro agent_start_children)
    (auto simp: agent_composite_eq NewCompositeTriggersScheduler_def NewTelephonistScheduler_def
      Composite_SetCallback_def Event_SetCallback_def FS_SetCallback_def)

section \<open>Properties\<close>

text \<open>C21. The agent's trigger scheduler is safe to use once it is started, which always succeeds: on a live
  connection, whatever the libraries answer, every sequence of \<open>ScheduleByID\<close> and \<open>Unschedule\<close> calls whose triggers are
  of the three known types and have a JSON string as their body returns, without a panic and without blocking; the books hold
  only identifiers that were scheduled.\<close>

theorem Agent_calls_safe:
  assumes "agent_composite g (Inr n) = Inr e" and "ws_live w"
    and "\<forall>t \<in> set (scheduled_triggers calls).
      trigger_Name t \<in> {TRIGGER_CRON, TRIGGER_EVENT, TRIGGER_FSNOTIFY} \<and> decodable t"
  shows "\<exists>e1 e2 w2. Composite_Start (Child_ops env) (e, w) = Inr (None, e1, w) \<and> co_isRunning e1 \<and>
    sched_run (Composite_ops (Child_ops env)) calls (e1, w) = Inr (e2, w2) \<and>
    composite_ids e2 \<subseteq> scheduled_ids calls"
proof -
  obtain e1 c v f where e1: "Composite_Start (Child_ops env) (e, w) = Inr (None, e1, w)" "co_isRunning e1"
      "co_childSchedulers e1 = [CronChild c, EventChild v, FSChild f]" "composite_ids e1 = {}"
      "composite_rdy child_rdy e1"
    using agent_start [OF assms(1)] by blast
  have "\<forall>t \<in> set (scheduled_triggers calls).
      op_CanSchedule (Composite_ops (Child_ops env)) e1 (trigger_Name t) \<and> decodable t"
    using assms(3) Composite_CanSchedule_agent [OF e1(3)] by simp
  from agent.run_returns [OF e1(5) assms(2) this] obtain e2 w2 where
    run: "sched_run (Composite_ops (Child_ops env)) calls (e1, w) = Inr (e2, w2)" by blast
  from agent.run_ids [OF run] e1(4) have "composite_ids e2 \<subseteq> scheduled_ids calls" by simp
  with e1(1,2) run show ?thesis by blast
qed

theorem Agent_calls_safe_witness:
  "\<exists>e e1 e2 w2. agent_composite ([] :: nat list) (Inr ([] :: string list)) = Inr e \<and>
    Composite_Start (Child_ops \<lparr>ae_gocron = counting_gocron, ae_fsnotify = list_watcher,
      ae_mkchan = \<lambda>_. 9, ae_pick = \<lambda>_. []\<rparr>) (e, example_client) = Inr (None, e1, example_client) \<and>
    sched_run (Composite_ops (Child_ops \<lparr>ae_gocron = counting_gocron, ae_fsnotify = list_watcher,
      ae_mkchan = \<lambda>_. 9, ae_pick = \<lambda>_. []\<rparr>))
      [CallSchedule 1 (event_trigger ''login''), CallSchedule 2 (fs_trigger ''/a/''), CallUnschedule 1]
      (e1, example_client) = Inr (e2, w2)"
proof -
  let ?calls = "[CallSchedule 1 (event_trigger ''login''), CallSchedule 2 (fs_trigger ''/a/''), CallUnschedule 1]"
  have live: "ws_live example_client" by (simp add: ws_live_def)
  have "decodable (event_trigger ''login'')" "decodable (fs_trigger ''/a/'')"
    by (rule MustString_decodable, simp)+
  then have "\<forall>t \<in> set (scheduled_triggers ?calls).
      trigger_Name t \<in> {TRIGGER_CRON, TRIGGER_EVENT, TRIGGER_FSNOTIFY} \<and> decodable t" by simp
  moreover obtain e :: "(nat list, nat, string list) child composite_scheduler" where
    e: "agent_composite [] (Inr []) = Inr e" by (simp add: agent_composite_eq)
  ultimately show ?thesis
    using e Agent_calls_safe [OF e live, of ?calls "\<lparr>ae_gocron = counting_gocron,
      ae_fsnotify = list_watcher, ae_mkchan = \<lambda>_. 9, ae_pick = \<lambda>_. []\<rparr>"] by blast
qed

end
