(* ===== verification/Agent_Tasks.thy ===== *)
theory Agent_Tasks
  imports Agent_Triggers
begin

text \<open>
  The properties of the task scheduler (\<open>taskscheduler/task_scheduler.go\<close>), for any trigger scheduler
  below it, and for the one the agent uses. The examples run it on the event scheduler of \<open>Event_Triggers\<close>.
\<close>

section \<open>Examples\<close>

text \<open>An order in which \<open>range\<close> may visit a map: by increasing keys.\<close>

definition pick_sorted :: pick_triggers where
  "pick_sorted m = sorted_list_of_fset (fmdom m)"

lemma pick_sorted_order: "range_order m (pick_sorted m)"
  by (simp add: pick_sorted_def sorted_range_order)

definition example_task :: "uuid \<Rightarrow> task_trigger list \<Rightarrow> defined_task" where
  "example_task k ts =
     \<lparr>task_Name = ''task'', task_Description = [],
      task_Body = \<lparr>body_Value = [], body_Type = TASK_TYPE_EXEC\<rparr>, task_Env = fmempty, task_Tags = [],
      task_Triggers = ts, task_ID = k, task_LastUpdated = 0, task_Disabled = False\<rparr>"

lemma example_task_fields [simp]:
  "task_ID (example_task k ts) = k" "task_Triggers (example_task k ts) = ts"
  by (simp_all add: example_task_def)

abbreviation event_ops :: "(event_scheduler, ws_client) triggers_ops" where
  "event_ops \<equiv> Event_ops (\<lambda>_. 9) (\<lambda>_. [])"

lemma event_never_fails: "never_fails event_ops t"
  by (auto simp: never_fails_def dest: Event_ScheduleByID_cases)

abbreviation login :: task_trigger where "login \<equiv> event_trigger ''login''"

text \<open>A task scheduler on the started event scheduler, without and with a task on the event \<open>login\<close>.\<close>

definition ts_empty :: "event_scheduler task_scheduler" where
  "ts_empty = \<lparr>ts_triggersScheduler = event_started, ts_tasks = fmempty, ts_callback = Some 5,
     ts_triggerTasks = fmempty\<rparr>"

definition event_one :: event_scheduler where
  "event_one = event_started
     \<lparr>ev_queue := Some ((NewQueue 9)\<lparr>q_subscribed := fmupd ''login'' 1 fmempty\<rparr>),
      ev_triggers := fmupd (trigger_id login) login fmempty,
      ev_eventTriggers := fmupd ''login'' (fmupd (trigger_id login) login fmempty) fmempty,
      ev_subscriptionsCounters := fmupd ''login'' 1 fmempty\<rparr>"

definition ts_one :: "event_scheduler task_scheduler" where
  "ts_one = \<lparr>ts_triggersScheduler = event_one,
     ts_tasks = fmupd 1 \<lparr>st_DefinedTask = example_task 1 [login], st_ScheduledTriggers =
       fmupd (trigger_id login) \<lparr>st_Trigger = login, st_SchedulingError = None\<rparr> fmempty\<rparr> fmempty,
     ts_callback = Some 5,
     ts_triggerTasks = fmupd (trigger_id login) (fmupd 1 (example_task 1 [login]) fmempty) fmempty\<rparr>"

lemma event_one_schedule:
  "Event_ScheduleByID (trigger_id login) login (event_started, example_client) =
    Inr (Inr (trigger_id login), event_one, subscribed_client)"
  by (simp add: Event_ScheduleByID_eq Let_def event_started_def event_one_def subscribed_client_def
      NewTelephonistScheduler_def Subcribe_def IsSubscribed_def NewQueue_def addEventChannel_def ws_send_def)

lemma ts_one_schedule:
  "TS_Schedule event_ops pick_sorted (example_task 1 [login]) (ts_empty, example_client) =
    Inr (None, ts_one, subscribed_client)"
  by (simp add: TS_Schedule_def Let_def update_triggers_def update_trigger_step_def updateTrigger_def
      ts_empty_def event_one_schedule ts_one_def)

section \<open>Properties\<close>

text \<open>C14. After any calls of \<open>Schedule\<close> and \<open>Unschedule\<close> on a new task scheduler, whatever the trigger scheduler
  below does: every task is filed under its own identifier, every scheduled trigger under its hash and without an
  error, no entry of \<open>triggerTasks\<close> is empty, and every task in it stands under its own identifier.\<close>

theorem TS_invariant:
  assumes "NewTaskScheduler ops f (Some c) = Inr e" and "ts_run ops pick calls (e, w) = Inr (e', w')"
  shows "ts_ok e'"
proof -
  have "ts_ok e" using assms(1)
    by (auto simp: NewTaskScheduler_def ts_ok_def ts_scheduled_def ts_registered_def)
  then have start: "ts_ok (fst (e, w))" by simp
  have "ts_ok (fst (e', w'))"
    using assms(2) [unfolded ts_run_def] start
  proof (rule mfold_ts_ok)
    fix call e w e' w' assume step: "ts_step ops pick call (e, w) = Inr (e', w')" and ok: "ts_ok e"
    show "ts_ok e'"
    proof (cases call)
      case (CallScheduleTask task)
      with step obtain r where "TS_Schedule ops pick task (e, w) = Inr (r, e', w')"
        by (auto simp: andThen_Inr_iff)
      then show ?thesis using ok by (rule TS_Schedule_ok)
    next
      case (CallUnscheduleTask k)
      with step obtain r where "TS_Unschedule ops pick k (e, w) = Inr (r, e', w')"
        by (auto simp: andThen_Inr_iff)
      then show ?thesis using ok by (rule TS_Unschedule_ok)
    qed
  qed
  then show ?thesis by simp
qed

theorem TS_invariant_witness:
  "ts_ok (fst (projr (ts_run event_ops pick_sorted [CallScheduleTask (example_task 1 [login])]
     (projr (NewTaskScheduler event_ops 4 (Some event_started)), example_client))))"
proof -
  obtain e where new: "NewTaskScheduler event_ops 4 (Some event_started) = Inr e"
    by (simp add: NewTaskScheduler_def)
  have "ts_triggersScheduler e = Event_SetCallback (Some 4) event_started" "ts_tasks e = fmempty"
    using new by (auto simp: NewTaskScheduler_def)
  moreover obtain c where "Event_ScheduleByID (trigger_id login) login
      (Event_SetCallback (Some 4) event_started, example_client) = Inr (Inr (trigger_id login), c, subscribed_client)"
    by (simp add: Event_ScheduleByID_eq Let_def event_started_def subscribed_client_def Event_SetCallback_def
      NewTelephonistScheduler_def Subcribe_def IsSubscribed_def NewQueue_def addEventChannel_def ws_send_def)
  ultimately obtain e' where run: "ts_run event_ops pick_sorted
      [CallScheduleTask (example_task 1 [login])] (e, example_client) = Inr (e', subscribed_client)"
    by (simp add: ts_run_def TS_Schedule_def Let_def update_triggers_def update_trigger_step_def updateTrigger_def)
  from TS_invariant [OF new run] new run show ?thesis by simp
qed

text \<open>Scheduling a new task: the call reports no error, other tasks are not touched, exactly the triggers that
  the trigger scheduler accepted are recorded (all of those for which it never reports an error), and when one of them
  fires, the callback is called once, with this task.\<close>

theorem TS_Schedule_new:
  assumes "fmlookup (ts_tasks e) (task_ID task) = None"
    and "TS_Schedule ops pick task (e, w) = Inr (r, e', w')"
  shows "r = None \<and> (\<exists>st. fmlookup (ts_tasks e') (task_ID task) = Some st \<and> st_DefinedTask st = task) \<and>
    (\<forall>k. k \<noteq> task_ID task \<longrightarrow> fmlookup (ts_tasks e') k = fmlookup (ts_tasks e) k) \<and>
    {trigger_id t | t. t \<in> set (task_Triggers task) \<and> never_fails ops t} \<subseteq>
      fmdom' (ts_scheduled e' (task_ID task)) \<and>
    fmdom' (ts_scheduled e' (task_ID task)) \<subseteq> task_trigger_ids task \<and>
    (\<forall>x cb. te_TriggerID x \<in> fmdom' (ts_scheduled e' (task_ID task)) \<and> ts_callback e = Some cb \<longrightarrow>
       (\<forall>order. range_order (ts_registered e' (te_TriggerID x)) order \<longrightarrow>
         map (\<lambda>c. (fst c, tte_Task (snd c))) (TS_onTrigger now order x e') = [(cb, task)]))"
proof -
  from TS_Schedule_new_state [OF assms] have r: "r = None"
    and s: "new_task_state ops task e (task_Triggers task) e'" by auto
  have fires: "map (\<lambda>c. (fst c, tte_Task (snd c))) (TS_onTrigger now order x e') = [(cb, task)]"
    if x: "te_TriggerID x \<in> fmdom' (ts_scheduled e' (task_ID task))" and cb: "ts_callback e = Some cb"
      and order: "range_order (ts_registered e' (te_TriggerID x)) order" for x cb order
  proof -
    from s x have tt: "fmlookup (ts_triggerTasks e') (te_TriggerID x) = Some (fmupd (task_ID task) task fmempty)"
      by (auto simp: new_task_state_def fmlookup_dom'_iff)
    with order have "order = [task_ID task]" by (simp add: ts_registered_def range_order_single)
    with tt cb s show ?thesis by (simp add: TS_onTrigger_def Let_def new_task_state_def)
  qed
  show ?thesis using r s fires by (auto simp: new_task_state_def task_trigger_ids_def)
qed

theorem TS_Schedule_new_witness:
  "trigger_id login \<in> fmdom' (ts_scheduled ts_one 1)"
proof -
  have "fmlookup (ts_tasks ts_empty) (task_ID (example_task 1 [login])) = None"
    by (simp add: ts_empty_def)
  from TS_Schedule_new [OF this ts_one_schedule] event_never_fails show ?thesis by auto
qed

text \<open>Scheduling a task again with the triggers it has leaves the trigger scheduler alone: no call is made of it, the
  task's new definition replaces the old one, and it is this definition that is registered for each of its triggers, beside
  the other tasks of that trigger.\<close>

theorem TS_reschedule_same_triggers:
  assumes "fmlookup (ts_tasks e) (task_ID task) = Some st"
    and "fmdom' (st_ScheduledTriggers st) = task_trigger_ids task"
    and "\<forall>i \<in> task_trigger_ids task. fmlookup (ts_triggerTasks e) i \<noteq> None"
    and "range_order (st_ScheduledTriggers st) (pick (st_ScheduledTriggers st))"
  shows "\<exists>e'. TS_Schedule ops pick task (e, w) = Inr (None, e', w) \<and>
    ts_triggersScheduler e' = ts_triggersScheduler e \<and>
    ts_tasks e' = fmupd (task_ID task) (st\<lparr>st_DefinedTask := task\<rparr>) (ts_tasks e) \<and>
    (\<forall>i k. fmlookup (ts_registered e' i) k =
       (if i \<in> task_trigger_ids task \<and> k = task_ID task then Some task
        else fmlookup (ts_registered e i) k))"
proof -
  have "\<forall>t \<in> set (task_Triggers task). fmlookup (ts_triggerTasks e) (trigger_id t) \<noteq> None"
    using assms(3) by (auto simp: task_trigger_ids_def)
  from TS_Schedule_same_triggers [where pick = pick and ops = ops and w = w, OF assms(1) assms(2) [unfolded task_trigger_ids_def] this assms(4)]
  obtain e' where e': "TS_Schedule ops pick task (e, w) = Inr (None, e', w)"
    "ts_triggersScheduler e' = ts_triggersScheduler e"
    "ts_tasks e' = fmupd (task_ID task) (st\<lparr>st_DefinedTask := task\<rparr>) (ts_tasks e)"
    "\<forall>i. fmlookup (ts_triggerTasks e') i =
       (if i \<in> trigger_id ` set (task_Triggers task) then Some (fmupd (task_ID task) task (ts_registered e i))
        else fmlookup (ts_triggerTasks e) i)" by blast
  have "fmlookup (ts_registered e' i) k =
       (if i \<in> task_trigger_ids task \<and> k = task_ID task then Some task
        else fmlookup (ts_registered e i) k)" for i k
    using e'(4) by (simp add: ts_registered_def nested_def task_trigger_ids_def)
  with e' show ?thesis by blast
qed

theorem TS_reschedule_same_triggers_witness:
  "\<exists>e'. TS_Schedule event_ops pick_sorted (example_task 1 [login]) (ts_one, subscribed_client) =
      Inr (None, e', subscribed_client) \<and> ts_triggersScheduler e' = event_one"
proof -
  let ?task = "example_task 1 [login]"
  let ?st = "\<lparr>st_DefinedTask = ?task, st_ScheduledTriggers =
       fmupd (trigger_id login) \<lparr>st_Trigger = login, st_SchedulingError = None\<rparr> fmempty\<rparr>"
  have "fmlookup (ts_tasks ts_one) (task_ID ?task) = Some ?st"
    and "fmdom' (st_ScheduledTriggers ?st) = task_trigger_ids ?task"
    and "\<forall>i \<in> task_trigger_ids ?task. fmlookup (ts_triggerTasks ts_one) i \<noteq> None"
    by (simp_all add: ts_one_def task_trigger_ids_def)
  from TS_reschedule_same_triggers [where pick = pick_sorted and ops = event_ops and w = subscribed_client,
      OF this pick_sorted_order]
  obtain e' where "TS_Schedule event_ops pick_sorted ?task (ts_one, subscribed_client) =
      Inr (None, e', subscribed_client)" "ts_triggersScheduler e' = ts_triggersScheduler ts_one" by blast
  moreover have "ts_triggersScheduler ts_one = event_one" by (simp add: ts_one_def)
  ultimately show ?thesis by auto
qed

text \<open>When a new task shares a trigger with a task that is already scheduled, the registration of the older task is
  overwritten: it stays on the books with the trigger, and the trigger no longer runs it.\<close>

theorem TS_shared_trigger_lost:
  assumes "fmlookup (ts_tasks e) (task_ID b) = None" and "TS_Schedule ops pick b (e, w) = Inr (r, e', w')"
    and "i \<in> fmdom' (ts_scheduled e' (task_ID b))" and "a \<noteq> task_ID b"
  shows "fmlookup (ts_registered e' i) a = None \<and>
    fmlookup (ts_tasks e') a = fmlookup (ts_tasks e) a \<and> ts_scheduled e' a = ts_scheduled e a"
  using TS_Schedule_new_state [OF assms(1,2)] assms(3,4)
  by (auto simp: new_task_state_def ts_registered_def ts_scheduled_def nested_def fmlookup_dom'_iff)

theorem TS_shared_trigger_lost_witness:
  "\<exists>e' w'. TS_Schedule event_ops pick_sorted (example_task 2 [login]) (ts_one, subscribed_client) =
      Inr (None, e', w') \<and> fmlookup (ts_registered ts_one (trigger_id login)) 1 = Some (example_task 1 [login]) \<and>
    fmlookup (ts_registered e' (trigger_id login)) 1 = None \<and>
    trigger_id login \<in> fmdom' (ts_scheduled e' 1)"
proof -
  let ?b = "example_task 2 [login]"
  have new: "fmlookup (ts_tasks ts_one) (task_ID ?b) = None" by (simp add: ts_one_def)
  obtain c where "Event_ScheduleByID (trigger_id login) login (event_one, subscribed_client) =
      Inr (Inr (trigger_id login), c, subscribed_client)"
    by (simp add: Event_ScheduleByID_eq Let_def event_one_def event_started_def)
  with new obtain e' where run: "TS_Schedule event_ops pick_sorted ?b (ts_one, subscribed_client) =
      Inr (None, e', subscribed_client)" and "trigger_id login \<in> fmdom' (ts_scheduled e' (task_ID ?b))"
    by (simp add: TS_Schedule_def Let_def update_triggers_def update_trigger_step_def updateTrigger_def
      ts_one_def ts_scheduled_def)
  from TS_shared_trigger_lost [OF new run this(2), of 1] run show ?thesis
    by (auto simp: ts_one_def ts_scheduled_def ts_registered_def nested_upd)
qed

text \<open>C36. A trigger that is taken out of a task and put back crashes the process: the update without the trigger
  unschedules it and deletes its entry of \<open>triggerTasks\<close>, but the task still lists it as scheduled, so
  the update that brings it back assigns into the missing inner map.\<close>

theorem TS_readd_panics:
  assumes "fmlookup (ts_tasks e) k = Some st"
    and "st_ScheduledTriggers st = fmupd (trigger_id t) x fmempty"
    and "fmlookup (ts_triggerTasks e) (trigger_id t) = Some (fmupd k old fmempty)"
    and "op_Unschedule ops (trigger_id t) (ts_triggersScheduler e, w) = Inr (u, c, w1)"
    and "task_ID without = k" and "task_Triggers without = []"
    and "task_ID again = k" and "task_Triggers again = [t]"
    and "\<forall>m. range_order m (pick m)"
  shows "\<exists>e1. TS_Schedule ops pick without (e, w) = Inr (None, e1, w1) \<and>
    TS_Schedule ops pick again (e1, w1) = Inl nil_map"
proof -
  have "pick (st_ScheduledTriggers st) = [trigger_id t]"
    using assms(2,9) range_order_single by metis
  with assms(1-6) show ?thesis using assms(7,8)
    by (simp add: TS_Schedule_def Let_def update_triggers_def update_trigger_step_def removeTrigger_def
      updateTrigger_def)
qed

theorem TS_readd_panics_witness:
  "\<exists>e1 w1. TS_Schedule event_ops pick_sorted (example_task 1 []) (ts_one, subscribed_client) =
      Inr (None, e1, w1) \<and>
    TS_Schedule event_ops pick_sorted (example_task 1 [login]) (e1, w1) = Inl nil_map"
proof -
  let ?st = "\<lparr>st_DefinedTask = example_task 1 [login], st_ScheduledTriggers =
       fmupd (trigger_id login) \<lparr>st_Trigger = login, st_SchedulingError = None\<rparr> fmempty\<rparr>"
  have task: "fmlookup (ts_tasks ts_one) 1 = Some ?st"
    and sched: "st_ScheduledTriggers ?st = fmupd (trigger_id login) \<lparr>st_Trigger = login, st_SchedulingError = None\<rparr> fmempty"
    and reg: "fmlookup (ts_triggerTasks ts_one) (trigger_id login) = Some (fmupd 1 (example_task 1 [login]) fmempty)"
    by (simp_all add: ts_one_def)
  obtain u c w1 where un: "op_Unschedule event_ops (trigger_id login) (ts_triggersScheduler ts_one, subscribed_client) =
      Inr (u, c, w1)"
    by (simp add: ts_one_def event_one_def event_started_def subscribed_client_def Event_Unschedule_def
      Let_def Unsubscribe_def removeEventChannel_def ws_send_def NewQueue_def)
  from TS_readd_panics [OF task sched reg un, of "example_task 1 []" "example_task 1 [login]" pick_sorted]
    pick_sorted_order show ?thesis by auto
qed

text \<open>\<open>Unschedule\<close> takes the task off the books and leaves \<open>triggerTasks\<close> as it is: a trigger that still fires runs the
  unscheduled task exactly as before.\<close>

theorem TS_Unschedule_keeps_registrations:
  assumes "fmlookup (ts_tasks e) k = Some st" and "TS_Unschedule ops pick k (e, w) = Inr (r, e', w')"
  shows "r = (True, None) \<and> ts_tasks e' = fmdrop k (ts_tasks e) \<and>
    ts_triggerTasks e' = ts_triggerTasks e \<and> TS_onTrigger now order x e' = TS_onTrigger now order x e"
proof -
  from assms obtain c where "r = (True, None)"
    and e': "e' = e\<lparr>ts_triggersScheduler := c, ts_tasks := fmdrop k (ts_tasks e)\<rparr>"
    by (auto simp: TS_Unschedule_def andThen_Inr_iff)
  then show ?thesis by (simp add: TS_onTrigger_def cong: option.case_cong)
qed

theorem TS_Unschedule_keeps_registrations_witness:
  "\<exists>e' w'. TS_Unschedule event_ops pick_sorted 1 (ts_one, subscribed_client) = Inr ((True, None), e', w') \<and>
    fmlookup (ts_tasks e') 1 = None \<and>
    fmlookup (ts_registered e' (trigger_id login)) 1 = Some (example_task 1 [login])"
proof -
  have pick: "pick_sorted (fmupd (trigger_id login) x fmempty) = [trigger_id login]" for x
    using range_order_single pick_sorted_order by metis
  obtain e' w' where run: "TS_Unschedule event_ops pick_sorted 1 (ts_one, subscribed_client) =
      Inr ((True, None), e', w')"
    by (simp add: TS_Unschedule_def ts_one_def event_one_def event_started_def subscribed_client_def
      Event_Unschedule_def Let_def Unsubscribe_def removeEventChannel_def ws_send_def NewQueue_def pick)
  obtain st where st: "fmlookup (ts_tasks ts_one) 1 = Some st" by (simp add: ts_one_def)
  from TS_Unschedule_keeps_registrations [OF st run] run show ?thesis
    by (simp add: ts_registered_def ts_one_def nested_upd)
qed

text \<open>C20. \<open>UnscheduleTask\<close> takes the task out of exactly the triggers it had scheduled, leaves every other registration
  and every other task alone.\<close>

theorem UnscheduleTask_removes:
  assumes "fmlookup (ts_tasks e) k = Some st"
    and "range_order (st_ScheduledTriggers st) (pick (st_ScheduledTriggers st))"
    and "UnscheduleTask ops pick k (e, w) = Inr (e', w')"
  shows "ts_tasks e' = fmdrop k (ts_tasks e) \<and>
    (\<forall>i j. fmlookup (ts_registered e' i) j =
      (if j = k \<and> i \<in> fmdom' (ts_scheduled e k) then None else fmlookup (ts_registered e i) j))"
proof -
  from assms(1,3) obtain e1 where
    loop: "mfold (removeTrigger ops k) (pick (st_ScheduledTriggers st)) (e, w) = Inr (e1, w')"
    and e': "e' = e1\<lparr>ts_tasks := fmdrop k (ts_tasks e1)\<rparr>"
    by (auto simp: UnscheduleTask_def andThen_Inr_iff)
  from removeTriggers_registered [OF loop] range_order_set [OF assms(2)] assms(1) show ?thesis
    by (auto simp: e' ts_registered_def)
qed

theorem UnscheduleTask_removes_witness:
  "\<exists>e' w'. UnscheduleTask event_ops pick_sorted 1 (ts_one, subscribed_client) = Inr (e', w') \<and>
    fmlookup (ts_registered e' (trigger_id login)) 1 = None"
proof -
  have pick: "pick_sorted (fmupd (trigger_id login) x fmempty) = [trigger_id login]" for x
    using range_order_single pick_sorted_order by metis
  obtain st where st: "fmlookup (ts_tasks ts_one) 1 = Some st" by (simp add: ts_one_def)
  obtain e' w' where run: "UnscheduleTask event_ops pick_sorted 1 (ts_one, subscribed_client) = Inr (e', w')"
    by (simp add: UnscheduleTask_def removeTrigger_def ts_one_def event_one_def event_started_def
      subscribed_client_def Event_Unschedule_def Let_def Unsubscribe_def removeEventChannel_def ws_send_def
      NewQueue_def pick)
  have "trigger_id login \<in> fmdom' (ts_scheduled ts_one 1)" by (simp add: ts_one_def ts_scheduled_def)
  with UnscheduleTask_removes [where pick = pick_sorted, OF st pick_sorted_order run] run show ?thesis by auto
qed

text \<open>C19. The agent's task scheduler does not crash as long as no update of a task takes a trigger away: once it is
  started, on a live connection and whatever the libraries answer, every sequence of \<open>Schedule\<close> and \<open>Unschedule\<close> calls
  with this restraint, whose triggers are of the three known types with a JSON string as their body, returns.\<close>

theorem Agent_tasks_safe:
  assumes "agent_composite g (Inr n) = Inr c"
    and "NewTaskScheduler (Composite_ops (Child_ops env)) f (Some c) = Inr e" and "ws_live w"
    and "keeps_triggers (\<lambda>_. {}) calls"
    and "\<forall>t \<in> set (called_triggers calls).
      trigger_Name t \<in> {TRIGGER_CRON, TRIGGER_EVENT, TRIGGER_FSNOTIFY} \<and> decodable t"
    and "\<forall>m. range_order m (pick m)"
  shows "\<exists>e1 e2 w2. TS_Start (Composite_ops (Child_ops env)) (e, w) = Inr (None, e1, w) \<and>
    ts_run (Composite_ops (Child_ops env)) pick calls (e1, w) = Inr (e2, w2)"
proof -
  from assms(2) have e: "ts_triggersScheduler e = Composite_SetCallback (Child_ops env) (Some f) c"
    "ts_tasks e = fmempty" by (auto simp: NewTaskScheduler_def)
  from agent_start_callback [OF assms(1)] obtain c1 x v y where
    start: "Composite_Start (Child_ops env) (ts_triggersScheduler e, w) = Inr (None, c1, w)"
    and c1: "co_childSchedulers c1 = [CronChild x, EventChild v, FSChild y]" "composite_rdy child_rdy c1"
    unfolding e by blast
  let ?e1 = "e\<lparr>ts_triggersScheduler := c1\<rparr>"
  have none: "ts_scheduled ?e1 k = fmempty" for k using e(2) by (simp add: ts_scheduled_def)
  have "agent.ts_rdy env (Composite_CanSchedule (Child_ops env) c1) (?e1, w)"
    and "ts_known (\<lambda>_. {}) ?e1"
    using c1(2) assms(3) none by (simp_all add: agent.ts_rdy_def ts_linked_def ts_known_def)
  moreover have "\<forall>t \<in> set (called_triggers calls).
      Composite_CanSchedule (Child_ops env) c1 (trigger_Name t) \<and> decodable t"
    using assms(5) Composite_CanSchedule_agent [OF c1(1)] by simp
  ultimately obtain e2 w2 where
    "ts_run (Composite_ops (Child_ops env)) pick calls (?e1, w) = Inr (e2, w2)"
    using agent.ts_run_returns [of env _ ?e1 w "\<lambda>_. {}" calls pick] assms(4,6) by blast
  moreover have "TS_Start (Composite_ops (Child_ops env)) (e, w) = Inr (None, ?e1, w)"
    using start by (simp add: TS_Start_def)
  ultimately show ?thesis by blast
qed

theorem Agent_tasks_safe_witness:
  "\<exists>c e e1 e2 w2. agent_composite ([] :: nat list) (Inr ([] :: string list)) = Inr c \<and>
    NewTaskScheduler (Composite_ops (Child_ops \<lparr>ae_gocron = counting_gocron, ae_fsnotify = list_watcher,
      ae_mkchan = \<lambda>_. 9, ae_pick = \<lambda>_. []\<rparr>)) 4 (Some c) = Inr e \<and>
    TS_Start (Composite_ops (Child_ops \<lparr>ae_gocron = counting_gocron, ae_fsnotify = list_watcher,
      ae_mkchan = \<lambda>_. 9, ae_pick = \<lambda>_. []\<rparr>)) (e, example_client) = Inr (None, e1, example_client) \<and>
    ts_run (Composite_ops (Child_ops \<lparr>ae_gocron = counting_gocron, ae_fsnotify = list_watcher,
      ae_mkchan = \<lambda>_. 9, ae_pick = \<lambda>_. []\<rparr>)) pick_sorted
      [CallScheduleTask (example_task 1 [login]),
       CallScheduleTask (example_task 1 [login, fs_trigger ''/a'']), CallUnscheduleTask 1]
      (e1, example_client) = Inr (e2, w2)"
proof -
  let ?env = "\<lparr>ae_gocron = counting_gocron, ae_fsnotify = list_watcher, ae_mkchan = \<lambda>_. 9, ae_pick = \<lambda>_. []\<rparr>"
  let ?calls = "[CallScheduleTask (example_task 1 [login]),
       CallScheduleTask (example_task 1 [login, fs_trigger ''/a'']), CallUnscheduleTask 1]"
  have live: "ws_live example_client" by (simp add: ws_live_def)
  have keeps: "keeps_triggers (\<lambda>_. {}) ?calls" by (simp add: task_trigger_ids_def)
  have "decodable login" "decodable (fs_trigger ''/a'')"
    by (rule MustString_decodable, simp)+
  then have ok: "\<forall>t \<in> set (called_triggers ?calls).
      trigger_Name t \<in> {TRIGGER_CRON, TRIGGER_EVENT, TRIGGER_FSNOTIFY} \<and> decodable t" by simp
  obtain c :: "(nat list, nat, string list) child composite_scheduler" where
    c: "agent_composite [] (Inr []) = Inr c" by (simp add: agent_composite_eq)
  obtain e where e: "NewTaskScheduler (Composite_ops (Child_ops ?env)) 4 (Some c) = Inr e"
    by (simp add: NewTaskScheduler_def)
  have "\<forall>m. range_order m (pick_sorted m)" by (simp add: pick_sorted_order)
  from Agent_tasks_safe [OF c e live keeps ok this] c e show ?thesis by blast
qed

end
