(* ===== verification/Script_Utils.thy ===== *)
theory Script_Utils
  imports Go_Strings
begin

text \<open>
  \<open>taskexecutor/utils.go\<close>: the interpreter named by a script's \<open>#!\<close> line, and the splitting of a
  chunk of output into lines. \<open>getLines\<close> is the index loop of the source, state by state, and is
  shown equal to a direct description of its result.
\<close>

section \<open>Definitions\<close>

definition blank_cutset :: string where "blank_cutset = [CHR 0x20, tab]"

subsection \<open>findShebang\<close>

text \<open>
  The loop over the lines. The second argument is the variable \<open>shebang\<close>; the loop stops at the
  first line that gives it a value other than the empty string.
\<close>

fun findShebang_loop :: "string list \<Rightarrow> string \<Rightarrow> string" where
  "findShebang_loop [] shebang = shebang"
| "findShebang_loop (l # lines) shebang =
     (let line = trim_left l blank_cutset
      in if has_prefix line ''#!'' then
           (let shebang' = trim (drop 2 line) blank_cutset
            in if shebang' \<noteq> [] then shebang' else findShebang_loop lines shebang')
         else findShebang_loop lines shebang)"

definition findShebang :: "string \<Rightarrow> string" where
  "findShebang script = findShebang_loop (split_byte nl script) []"

subsection \<open>getLines\<close>

definition is_blank :: "char \<Rightarrow> bool" where
  "is_blank c \<longleftrightarrow> c = CHR 0x20 \<or> c = tab \<or> c = cr"

record line_state =
  gl_lines :: "string list"
  gl_isEmptyLine :: bool
  gl_startIndex :: nat
  gl_stopIndex :: int

definition getLines_step :: "bytes \<Rightarrow> nat \<Rightarrow> line_state \<Rightarrow> line_state" where
  "getLines_step data i st =
     (if data ! i = nl then
        (let st1 =
           (if \<not> gl_isEmptyLine st then
              st\<lparr>gl_stopIndex := int i,
                 gl_lines := gl_lines st @ [take (i - gl_startIndex st) (drop (gl_startIndex st) data)]\<rparr>
            else st)
         in st1\<lparr>gl_startIndex := i + 1, gl_isEmptyLine := True\<rparr>)
      else if \<not> is_blank (data ! i) \<and> gl_isEmptyLine st then st\<lparr>gl_isEmptyLine := False\<rparr>
      else st)"

definition getLines_init :: line_state where
  "getLines_init = \<lparr>gl_lines = [], gl_isEmptyLine = True, gl_startIndex = 0, gl_stopIndex = -1\<rparr>"

definition getLines :: "bytes \<Rightarrow> string list \<times> bytes" where
  "getLines data =
     (let st = fold (getLines_step data) [0..<length data] getLines_init;
          remaining =
            (if gl_stopIndex st + 1 \<ge> int (length data) then []
             else (let rest = drop (nat (gl_stopIndex st + 1)) data
                   in if list_all is_blank rest then [] else rest))
      in (gl_lines st, remaining))"

subsection \<open>What they compute\<close>

definition shebang_of :: "string \<Rightarrow> string" where
  "shebang_of l =
     (let line = trim_left l blank_cutset
      in if has_prefix line ''#!'' then trim (drop 2 line) blank_cutset else [])"

text \<open>A line counts when it holds a byte other than a space, a tab and a carriage return.\<close>

definition has_content :: "string \<Rightarrow> bool" where
  "has_content l \<longleftrightarrow> \<not> list_all is_blank l"

text \<open>
  The complete lines of the data, and the bytes after the last complete line with
  content (blank lines included).
\<close>

definition complete_lines :: "bytes \<Rightarrow> string list" where
  "complete_lines data = butlast (split_byte nl data)"

definition unfinished :: "bytes \<Rightarrow> bytes" where
  "unfinished data =
     join_byte nl (rev (takeWhile (\<lambda>l. \<not> has_content l) (rev (complete_lines data)))
       @ [last (split_byte nl data)])"

text \<open>The state of the loop after the first \<open>n\<close> bytes, read off those bytes.\<close>

definition getLines_inv :: "bytes \<Rightarrow> nat \<Rightarrow> line_state \<Rightarrow> bool" where
  "getLines_inv data n st \<longleftrightarrow>
     (let ps = split_byte nl (take n data)
      in gl_lines st = filter has_content (butlast ps)
       \<and> gl_startIndex st + length (last ps) = n
       \<and> drop (gl_startIndex st) (take n data) = last ps
       \<and> gl_isEmptyLine st = (\<not> has_content (last ps))
       \<and> 0 \<le> gl_stopIndex st + 1 \<and> gl_stopIndex st + 1 \<le> int n
       \<and> drop (nat (gl_stopIndex st + 1)) (take n data) =
           join_byte nl (rev (takeWhile (\<lambda>l. \<not> has_content l) (rev (butlast ps))) @ [last ps]))"

section \<open>Lemmas\<close>

lemma findShebang_loop_find:
  "findShebang_loop ls [] =
     (case List.find (\<lambda>l. shebang_of l \<noteq> []) ls of None \<Rightarrow> [] | Some l \<Rightarrow> shebang_of l)"
  by (induction ls) (auto simp: shebang_of_def Let_def)

lemma split_byte_snoc_sep: "split_byte c (s @ [c]) = split_byte c s @ [[]]"
  by (induction s) (auto split: list.splits)

lemma split_byte_snoc:
  "x \<noteq> c \<Longrightarrow> split_byte c (s @ [x]) =
     butlast (split_byte c s) @ [last (split_byte c s) @ [x]]"
proof (induction s)
  case (Cons y s)
  obtain p ps where "split_byte c s = p # ps" by (metis list.exhaust split_byte_nonempty)
  with Cons show ?case by (cases ps) auto
qed simp

lemma last_split_byte_suffix: "\<exists>pre. s = pre @ last (split_byte c s)"
proof (induction s rule: rev_induct)
  case (snoc x s)
  then show ?case
    by (cases "x = c") (auto simp: split_byte_snoc_sep split_byte_snoc)
qed simp

lemma join_byte_snoc_nil: "join_byte c ((ps @ [q]) @ [[]]) = join_byte c (ps @ [q]) @ [c]"
proof (induction ps)
  case (Cons p ps)
  then show ?case by (cases ps) auto
qed simp

lemma join_byte_snoc_char:
  "join_byte c (ps @ [q @ [x]]) = join_byte c (ps @ [q]) @ [x]"
proof (induction ps)
  case (Cons p ps)
  then show ?case by (cases ps) auto
qed simp

lemma getLines_inv_init: "getLines_inv data 0 getLines_init"
  by (simp add: getLines_inv_def getLines_init_def has_content_def)

lemma has_content_Nil [simp]: "\<not> has_content []"
  by (simp add: has_content_def)

lemma has_content_snoc: "has_content (l @ [x]) \<longleftrightarrow> has_content l \<or> \<not> is_blank x"
  by (auto simp: has_content_def)

lemma nl_not_blank: "\<not> is_blank nl"
  by (simp add: is_blank_def nl_def tab_def cr_def)

lemma butlast_last_split_byte: "split_byte c s = butlast (split_byte c s) @ [last (split_byte c s)]"
  by simp

lemma drop_take_snoc:
  "m \<le> n \<Longrightarrow> n < length xs \<Longrightarrow> drop m (take (Suc n) xs) = drop m (take n xs) @ [xs ! n]"
  by (simp add: take_Suc_conv_app_nth)

lemma filter_content_split:
  "filter has_content (split_byte c s) = filter has_content (butlast (split_byte c s)) @
     (if has_content (last (split_byte c s)) then [last (split_byte c s)] else [])"
  by (subst butlast_last_split_byte) (simp del: append_butlast_last_id)

lemma takeWhile_rev_split:
  "rev (takeWhile (\<lambda>l. \<not> has_content l) (rev (split_byte c s))) =
     (if has_content (last (split_byte c s)) then []
      else rev (takeWhile (\<lambda>l. \<not> has_content l) (rev (butlast (split_byte c s))))
        @ [last (split_byte c s)])"
  by (subst butlast_last_split_byte) (simp del: append_butlast_last_id)

lemma getLines_step_nl:
  assumes "n < length data" and "data ! n = nl" and inv: "getLines_inv data n st"
  shows "getLines_inv data (Suc n) (getLines_step data n st)"
proof -
  let ?ps = "split_byte nl (take n data)"
  have ps: "split_byte nl (take (Suc n) data) = ?ps @ [[]]"
    using assms(1,2) by (simp add: take_Suc_conv_app_nth split_byte_snoc_sep)
  have stop: "nat (gl_stopIndex st + 1) \<le> n" and start: "gl_startIndex st \<le> n"
    using inv by (auto simp: getLines_inv_def Let_def)
  show ?thesis
  proof (cases "has_content (last ?ps)")
    case True
    have "take (n - gl_startIndex st) (drop (gl_startIndex st) data) = last ?ps"
      using inv by (simp add: getLines_inv_def Let_def drop_take)
    with True assms inv show ?thesis
      unfolding getLines_inv_def Let_def ps getLines_step_def
      by (simp add: filter_content_split takeWhile_rev_split nat_add_distrib)
  next
    case False
    with assms inv stop show ?thesis
      unfolding getLines_inv_def Let_def ps getLines_step_def
      by (simp add: filter_content_split takeWhile_rev_split drop_take_snoc join_byte_snoc_nil [simplified])
  qed
qed

lemma getLines_step_other:
  assumes "n < length data" and "data ! n \<noteq> nl" and inv: "getLines_inv data n st"
  shows "getLines_inv data (Suc n) (getLines_step data n st)"
proof -
  let ?ps = "split_byte nl (take n data)"
  have ps: "split_byte nl (take (Suc n) data) = butlast ?ps @ [last ?ps @ [data ! n]]"
    using assms(1,2) by (simp add: take_Suc_conv_app_nth split_byte_snoc)
  have stop: "nat (gl_stopIndex st + 1) \<le> n" and start: "gl_startIndex st \<le> n"
    using inv by (auto simp: getLines_inv_def Let_def)
  have st: "getLines_step data n st =
      (if \<not> is_blank (data ! n) \<and> gl_isEmptyLine st then st\<lparr>gl_isEmptyLine := False\<rparr> else st)"
    using assms(2) by (simp add: getLines_step_def)
  show ?thesis
    using assms inv stop start unfolding getLines_inv_def Let_def ps st
    by (auto simp: drop_take_snoc join_byte_snoc_char has_content_snoc)
qed

lemma getLines_loop_inv:
  "n \<le> length data \<Longrightarrow> getLines_inv data n (fold (getLines_step data) [0..<n] getLines_init)"
proof (induction n)
  case 0
  then show ?case by (simp add: getLines_inv_init)
next
  case (Suc n)
  then show ?case
    using getLines_step_nl [of n data] getLines_step_other [of n data] by fastforce
qed

section \<open>Properties\<close>

text \<open>C24. \<open>getLines\<close> returns the lines with content that end in a line break, in order, and
  as the remainder what follows the last of them, or nothing when that holds only spaces, tabs and carriage
  returns.\<close>

theorem getLines_characterised:
  "getLines data =
     (filter has_content (complete_lines data),
      if has_content (unfinished data) then unfinished data else [])"
proof -
  let ?st = "fold (getLines_step data) [0..<length data] getLines_init"
  have inv: "getLines_inv data (length data) ?st" by (rule getLines_loop_inv) simp
  then have lines: "gl_lines ?st = filter has_content (complete_lines data)"
    and rest: "drop (nat (gl_stopIndex ?st + 1)) data = unfinished data"
    and stop: "0 \<le> gl_stopIndex ?st + 1"
    by (simp_all add: getLines_inv_def Let_def complete_lines_def unfinished_def)
  have "unfinished data = []" if "int (length data) \<le> gl_stopIndex ?st + 1"
    using rest that stop by (metis drop_all nat_int nat_mono)
  then show ?thesis
    by (auto simp: getLines_def Let_def lines rest has_content_def)
qed

text \<open>\<open>findShebang\<close> returns the interpreter of the first line of the script that names one,
  blanks around it removed, and the empty string when no line does.\<close>

theorem findShebang_first:
  "findShebang script =
     (case List.find (\<lambda>l. shebang_of l \<noteq> []) (split_byte nl script) of
        None \<Rightarrow> [] | Some l \<Rightarrow> shebang_of l)"
  by (simp add: findShebang_def findShebang_loop_find)

end
