(* ===== verification/Output_Buffer.thy ===== *)
theory Output_Buffer
  imports Telephonist_Types
begin

text \<open>
  \<open>taskexecutor/output.go\<close>: the buffer between a running task and the log, and the operations that run alone: \<open>FlushRecord\<close> turns the
  open record into a log record, \<open>Flush\<close> hands the records to the callback, \<open>Stop\<close> does both after the last write. Every reading of
  the clock is an argument, in microseconds (values of \<open>UnixMicro\<close> are far from the bounds of \<open>int64\<close>). \<open>ob_delivered\<close> records the
  arguments of the callback's calls. \<open>Write\<close>, which two goroutines call without a lock, is in \<open>Output_Writers\<close>.
\<close>

section \<open>Definitions\<close>

datatype record_type = noRecord | stdoutRecord | stderrRecord

record output_buffer =
  ob_FlushCallback :: "func option"
  ob_lastFlush :: int
  ob_stdout :: bytes
  ob_stderr :: bytes
  ob_records :: "log_record list"
  ob_currentRecordType :: record_type
  ob_recordDeadlineUs :: int
  ob_delivered :: "log_record list list"

definition NewOutputBuffer :: "func option \<Rightarrow> output_buffer" where
  "NewOutputBuffer callback =
     \<lparr>ob_FlushCallback = callback, ob_lastFlush = 0, ob_stdout = [], ob_stderr = [],
      ob_records = [], ob_currentRecordType = noRecord, ob_recordDeadlineUs = 0, ob_delivered = []\<rparr>"

definition Flush :: "int \<Rightarrow> output_buffer \<Rightarrow> output_buffer" where
  "Flush now buf =
     (if length (ob_records buf) = 0 then buf
      else
        (let buf1 = buf\<lparr>ob_lastFlush := now\<rparr>;
             buf2 =
               (if ob_FlushCallback buf1 \<noteq> None
                then buf1\<lparr>ob_delivered := ob_delivered buf1 @ [ob_records buf1]\<rparr> else buf1)
         in buf2\<lparr>ob_records := []\<rparr>))"

text \<open>
  Reading the whole of a \<open>bytes.Buffer\<close> empties it, and so does the \<open>Reset\<close> after it.
\<close>

definition FlushRecord :: "int \<Rightarrow> output_buffer \<Rightarrow> output_buffer" where
  "FlushRecord now buf =
     (case ob_currentRecordType buf of
        noRecord \<Rightarrow> buf
      | stderrRecord \<Rightarrow>
          buf\<lparr>ob_records := ob_records buf @
                [\<lparr>rec_Time = now, rec_Severity = SEVERITY_ERROR, rec_Body = ob_stderr buf\<rparr>],
              ob_stderr := [], ob_currentRecordType := noRecord\<rparr>
      | stdoutRecord \<Rightarrow>
          buf\<lparr>ob_records := ob_records buf @
                [\<lparr>rec_Time = now, rec_Severity = SEVERITY_INFO, rec_Body = ob_stdout buf\<rparr>],
              ob_stdout := [], ob_currentRecordType := noRecord\<rparr>)"

definition recType_of :: "bool \<Rightarrow> record_type" where
  "recType_of isStderr = (if isStderr then stderrRecord else stdoutRecord)"

text \<open>
  The body of \<open>flushLoop\<close>: a tick of the timer flushes and goes on, a close request flushes the
  open record, flushes, and ends the loop. The flag says whether the loop goes on.
\<close>

datatype loop_event = TimerFired int | CloseRequested int int

fun flushLoop_step :: "loop_event \<Rightarrow> output_buffer \<Rightarrow> output_buffer \<times> bool" where
  "flushLoop_step (TimerFired now) buf = (Flush now buf, True)"
| "flushLoop_step (CloseRequested recNow now) buf = (Flush now (FlushRecord recNow buf), False)"

definition OutputBuffer_Start :: "int \<Rightarrow> output_buffer \<Rightarrow> output_buffer" where
  "OutputBuffer_Start now buf = buf\<lparr>ob_lastFlush := now\<rparr>"

text \<open>\<open>Stop\<close> sends the close request and waits until the loop has confirmed it.\<close>

definition OutputBuffer_Stop :: "int \<Rightarrow> int \<Rightarrow> output_buffer \<Rightarrow> output_buffer" where
  "OutputBuffer_Stop recNow now buf = fst (flushLoop_step (CloseRequested recNow now) buf)"

text \<open>
  What the buffer is for: every byte of the task's output with the severity of its stream. \<open>tagged\<close> reads it off records,
  \<open>pending\<close> off the open record.
\<close>

definition tagged :: "log_record list \<Rightarrow> (log_severity \<times> char) list" where
  "tagged rs = concat (map (\<lambda>r. map (Pair (rec_Severity r)) (rec_Body r)) rs)"

definition stream_severity :: "bool \<Rightarrow> log_severity" where
  "stream_severity isStderr = (if isStderr then SEVERITY_ERROR else SEVERITY_INFO)"

definition pending :: "output_buffer \<Rightarrow> (log_severity \<times> char) list" where
  "pending buf =
     (case ob_currentRecordType buf of
        noRecord \<Rightarrow> []
      | stdoutRecord \<Rightarrow> map (Pair SEVERITY_INFO) (ob_stdout buf)
      | stderrRecord \<Rightarrow> map (Pair SEVERITY_ERROR) (ob_stderr buf))"

definition contents :: "output_buffer \<Rightarrow> (log_severity \<times> char) list" where
  "contents buf = tagged (concat (ob_delivered buf) @ ob_records buf) @ pending buf"

section \<open>Lemmas\<close>

lemma tagged_simps [simp]:
  "tagged [] = []"
  "tagged (r # rs) = map (Pair (rec_Severity r)) (rec_Body r) @ tagged rs"
  "tagged (rs @ rs') = tagged rs @ tagged rs'"
  by (simp_all add: tagged_def)

lemma stream_severity_simps [simp]:
  "stream_severity True = SEVERITY_ERROR" "stream_severity False = SEVERITY_INFO"
  by (simp_all add: stream_severity_def)

lemma recType_of_simps [simp]: "recType_of True = stderrRecord" "recType_of False = stdoutRecord" "recType_of b \<noteq> noRecord"
  "recType_of a = recType_of b \<longleftrightarrow> a = b"
  by (simp_all add: recType_of_def)

text \<open>Between two writes only the buffer of the open record holds bytes.\<close>

definition settled :: "output_buffer \<Rightarrow> bool" where
  "settled buf \<longleftrightarrow>
     (ob_currentRecordType buf \<noteq> stdoutRecord \<longrightarrow> ob_stdout buf = []) \<and>
     (ob_currentRecordType buf \<noteq> stderrRecord \<longrightarrow> ob_stderr buf = [])"

lemma NewOutputBuffer_simps [simp]:
  "settled (OutputBuffer_Start now (NewOutputBuffer cb))" "contents (OutputBuffer_Start now (NewOutputBuffer cb)) = []"
  "ob_FlushCallback (OutputBuffer_Start now (NewOutputBuffer cb)) = cb"
  by (simp_all add: settled_def contents_def pending_def NewOutputBuffer_def OutputBuffer_Start_def)

lemma Flush_simps [simp]:
  "ob_stdout (Flush now buf) = ob_stdout buf" "ob_stderr (Flush now buf) = ob_stderr buf"
  "ob_currentRecordType (Flush now buf) = ob_currentRecordType buf" "ob_FlushCallback (Flush now buf) = ob_FlushCallback buf"
  "ob_recordDeadlineUs (Flush now buf) = ob_recordDeadlineUs buf" "ob_records (Flush now buf) = []"
  by (simp_all add: Flush_def Let_def)

lemma Flush_delivered:
  "concat (ob_delivered (Flush now buf)) = concat (ob_delivered buf) @ (if ob_FlushCallback buf = None then [] else ob_records buf)"
  by (simp add: Flush_def Let_def)

lemma FlushRecord_simps [simp]:
  "ob_currentRecordType (FlushRecord now buf) = noRecord" "ob_FlushCallback (FlushRecord now buf) = ob_FlushCallback buf"
  "ob_delivered (FlushRecord now buf) = ob_delivered buf"
  by (simp_all add: FlushRecord_def split: record_type.split)

lemma FlushRecord_settled: "settled buf \<Longrightarrow> settled (FlushRecord now buf)"
  by (simp add: settled_def FlushRecord_def split: record_type.split)

lemma FlushRecord_contents: "contents (FlushRecord now buf) = contents buf"
  by (simp add: contents_def pending_def FlushRecord_def split: record_type.split)

lemma Flush_contents: "ob_FlushCallback buf \<noteq> None \<Longrightarrow> contents (Flush now buf) = contents buf"
  by (auto simp: contents_def pending_def Flush_delivered split: record_type.split)

text \<open>\<open>Stop\<close> hands over all that a settled buffer holds, and leaves it empty.\<close>

lemma Stop_delivers:
  assumes "settled buf" and "ob_FlushCallback buf \<noteq> None"
  shows "tagged (concat (ob_delivered (OutputBuffer_Stop recNow now buf))) = contents buf"
    and "ob_records (OutputBuffer_Stop recNow now buf) = []"
    and "ob_stdout (OutputBuffer_Stop recNow now buf) = []" and "ob_stderr (OutputBuffer_Stop recNow now buf) = []"
proof -
  let ?buf = "OutputBuffer_Stop recNow now buf"
  have stop: "?buf = Flush now (FlushRecord recNow buf)" by (simp add: OutputBuffer_Stop_def)
  then have "contents ?buf = contents buf" using assms(2) by (simp add: Flush_contents FlushRecord_contents)
  then show "tagged (concat (ob_delivered ?buf)) = contents buf" by (simp add: contents_def pending_def stop)
  show "ob_records ?buf = []" "ob_stdout ?buf = []" "ob_stderr ?buf = []"
    using FlushRecord_settled [OF assms(1), of recNow] by (simp_all add: stop settled_def)
qed

end
