(* ===== verification/Output_Writers.thy ===== *)
theory Output_Writers
  imports Output_Buffer "HOL-Library.Sublist"
begin

text \<open>
  \<open>Write\<close> of \<open>taskexecutor/output.go\<close>, as two goroutines of \<open>Execute\<close> run it at the same time, one for each stream, next to \<open>flushLoop\<close>.
  It takes no lock of its own, so its steps are single accesses to the fields of the buffer (a method of
  \<open>bytes.Buffer\<close> and one append count as one access); only \<open>FlushRecord\<close> and \<open>Flush\<close>, which it may wait for, are under the mutex. What a step
  reads may have been changed by the other goroutine since the step before.
\<close>

section \<open>Definitions\<close>

text \<open>Where a call of \<open>Write\<close> is; the argument is the data. From \<open>WFlushIsNone\<close> to \<open>WUnset\<close> it is in \<open>FlushRecord\<close>.\<close>

datatype write_pc =
    WIdle
  | WIsNone bytes  \<comment> \<open>before the comparison with \<open>noRecord\<close>\<close>
  | WSetDeadline bytes
  | WIsOther bytes  \<comment> \<open>before the comparison with the type of its stream\<close>
  | WIsLate bytes
  | WFlushIsNone bytes
  | WLock bytes
  | WIsStderr bytes
  | WIsStdout bytes
  | WRead bytes bool  \<comment> \<open>with the stream whose buffer \<open>w\<close> points to\<close>
  | WAppend bytes bool bytes
  | WReset bytes bool
  | WUnset bytes  \<comment> \<open>before \<open>noRecord\<close> is set and the mutex is given back\<close>
  | WSetType bytes
  | WPut bytes

definition stream_buffer :: "bool \<Rightarrow> output_buffer \<Rightarrow> bytes" where
  "stream_buffer isStderr buf = (if isStderr then ob_stderr buf else ob_stdout buf)"

definition set_stream_buffer :: "bool \<Rightarrow> bytes \<Rightarrow> output_buffer \<Rightarrow> output_buffer" where
  "set_stream_buffer isStderr b buf = (if isStderr then buf\<lparr>ob_stderr := b\<rparr> else buf\<lparr>ob_stdout := b\<rparr>)"

text \<open>
  One step of a call of \<open>Write\<close> on the buffer and the mutex (\<open>True\<close> when it is held); \<open>None\<close> while it waits. With \<open>noRecord\<close> under
  the mutex, \<open>w\<close> is nil when \<open>w.Len()\<close> is called.
\<close>

fun write_step ::
  "bool \<Rightarrow> int \<Rightarrow> write_pc \<Rightarrow> output_buffer \<Rightarrow> bool \<Rightarrow> (write_pc \<times> output_buffer \<times> bool) outcome option" where
  "write_step isStderr now WIdle buf held = None"
| "write_step isStderr now (WIsNone d) buf held =
     Some (Inr (if ob_currentRecordType buf = noRecord then WSetDeadline d else WIsOther d, buf, held))"
| "write_step isStderr now (WSetDeadline d) buf held =
     Some (Inr (WSetType d, buf\<lparr>ob_recordDeadlineUs := now + 20000\<rparr>, held))"
| "write_step isStderr now (WIsOther d) buf held =
     Some (Inr (if ob_currentRecordType buf \<noteq> recType_of isStderr then WFlushIsNone d else WIsLate d, buf, held))"
| "write_step isStderr now (WIsLate d) buf held =
     Some (Inr (if now > ob_recordDeadlineUs buf then WFlushIsNone d else WSetType d, buf, held))"
| "write_step isStderr now (WFlushIsNone d) buf held =
     Some (Inr (if ob_currentRecordType buf = noRecord then WSetType d else WLock d, buf, held))"
| "write_step isStderr now (WLock d) buf held = (if held then None else Some (Inr (WIsStderr d, buf, True)))"
| "write_step isStderr now (WIsStderr d) buf held =
     Some (Inr (if ob_currentRecordType buf = stderrRecord then WRead d True else WIsStdout d, buf, held))"
| "write_step isStderr now (WIsStdout d) buf held =
     Some (if ob_currentRecordType buf = stdoutRecord then Inr (WRead d False, buf, held) else Inl nil_dereference)"
| "write_step isStderr now (WRead d s) buf held =
     Some (Inr (WAppend d s (stream_buffer s buf), set_stream_buffer s [] buf, held))"
| "write_step isStderr now (WAppend d s b) buf held =
     Some (Inr (WReset d s, buf\<lparr>ob_records := ob_records buf @
       [\<lparr>rec_Time = now, rec_Severity = stream_severity s, rec_Body = b\<rparr>]\<rparr>, held))"
| "write_step isStderr now (WReset d s) buf held = Some (Inr (WUnset d, set_stream_buffer s [] buf, held))"
| "write_step isStderr now (WUnset d) buf held =
     Some (Inr (WSetType d, buf\<lparr>ob_currentRecordType := noRecord\<rparr>, False))"
| "write_step isStderr now (WSetType d) buf held =
     Some (Inr (WPut d, buf\<lparr>ob_currentRecordType := recType_of isStderr\<rparr>, held))"
| "write_step isStderr now (WPut d) buf held =
     Some (Inr (WIdle, set_stream_buffer isStderr (stream_buffer isStderr buf @ d) buf, held))"

text \<open>The goroutines: \<open>wr_pc True\<close> copies stderr, \<open>wr_pc False\<close> stdout; \<open>wr_flushing\<close> says that \<open>Flush\<close> of \<open>flushLoop\<close> waits for the mutex.\<close>

record writers =
  wr_buf :: output_buffer
  wr_held :: bool
  wr_pc :: "bool \<Rightarrow> write_pc"
  wr_flushing :: bool

text \<open>\<open>Copied\<close>: the goroutine of a stream has read bytes from its pipe and calls \<open>Write\<close> with them.\<close>

datatype writers_op =
    Copied bool bytes
  | Wrote bool int
  | Tick
  | FlushLocked int

fun writers_step :: "writers_op \<Rightarrow> writers \<Rightarrow> writers outcome option" where
  "writers_step (Copied isStderr d) s =
     (if wr_pc s isStderr = WIdle
      then Some (Inr (s\<lparr>wr_pc := (wr_pc s)(isStderr := if length d = 0 then WIdle else WIsNone d)\<rparr>)) else None)"
| "writers_step (Wrote isStderr now) s =
     (case write_step isStderr now (wr_pc s isStderr) (wr_buf s) (wr_held s) of
        None \<Rightarrow> None
      | Some (Inl c) \<Rightarrow> Some (Inl c)
      | Some (Inr (pc, buf, held)) \<Rightarrow>
          Some (Inr (s\<lparr>wr_buf := buf, wr_held := held, wr_pc := (wr_pc s)(isStderr := pc)\<rparr>)))"
| "writers_step Tick s =
     (if wr_flushing s then None else Some (Inr (s\<lparr>wr_flushing := length (ob_records (wr_buf s)) \<noteq> 0\<rparr>)))"
| "writers_step (FlushLocked now) s =
     (if wr_flushing s \<and> \<not> wr_held s
      then Some (Inr (s\<lparr>wr_buf := Flush now (wr_buf s), wr_flushing := False\<rparr>)) else None)"

fun writers_run :: "writers_op list \<Rightarrow> writers \<Rightarrow> writers outcome option" where
  "writers_run [] s = Some (Inr s)"
| "writers_run (x # xs) s = (case writers_step x s of Some (Inr s') \<Rightarrow> writers_run xs s' | r \<Rightarrow> r)"

text \<open>\<open>Execute\<close> waits for both goroutines before \<open>Stop\<close>, and \<open>Stop\<close> for \<open>flushLoop\<close>.\<close>

definition writers_start :: "output_buffer \<Rightarrow> writers" where
  "writers_start buf = \<lparr>wr_buf = buf, wr_held = False, wr_pc = \<lambda>_. WIdle, wr_flushing = False\<rparr>"

definition writers_done :: "writers \<Rightarrow> bool" where
  "writers_done s \<longleftrightarrow> wr_pc s True = WIdle \<and> wr_pc s False = WIdle \<and> \<not> wr_flushing s"

text \<open>What was read from the pipes, in the order in which it was handed to \<open>Write\<close>, and the part of one stream.\<close>

fun copied :: "writers_op list \<Rightarrow> (log_severity \<times> char) list" where
  "copied [] = []"
| "copied (Copied isStderr d # xs) = map (Pair (stream_severity isStderr)) d @ copied xs"
| "copied (x # xs) = copied xs"

definition of_stream :: "bool \<Rightarrow> (log_severity \<times> char) list \<Rightarrow> bytes" where
  "of_stream isStderr xs = map snd (filter (\<lambda>x. fst x = stream_severity isStderr) xs)"

text \<open>No call of \<open>Write\<close> begins while the other goroutine is in one.\<close>

fun serial :: "writers_op list \<Rightarrow> writers \<Rightarrow> bool" where
  "serial [] s \<longleftrightarrow> True"
| "serial (x # xs) s \<longleftrightarrow>
     (case x of Copied isStderr d \<Rightarrow> wr_pc s (\<not> isStderr) = WIdle | _ \<Rightarrow> True) \<and>
     (case writers_step x s of Some (Inr s') \<Rightarrow> serial xs s' | _ \<Rightarrow> True)"

section \<open>Lemmas\<close>

text \<open>What a call of \<open>Write\<close> does when nothing else runs; \<open>now\<close> is the reading of the clock in \<open>Write\<close> and in \<open>FlushRecord\<close>.\<close>

definition Write_alone :: "bytes \<Rightarrow> bool \<Rightarrow> int \<Rightarrow> output_buffer \<Rightarrow> output_buffer" where
  "Write_alone d isStderr now buf =
     (let buf1 =
        (if ob_currentRecordType buf = noRecord then buf\<lparr>ob_recordDeadlineUs := now + 20000\<rparr>
         else if ob_currentRecordType buf \<noteq> recType_of isStderr \<or> now > ob_recordDeadlineUs buf then FlushRecord now buf
         else buf)
      in set_stream_buffer isStderr (stream_buffer isStderr buf1 @ d) (buf1\<lparr>ob_currentRecordType := recType_of isStderr\<rparr>))"

lemma stream_buffer_simps [simp]:
  "stream_buffer a (set_stream_buffer b x buf) = (if a = b then x else stream_buffer a buf)"
  "ob_currentRecordType (set_stream_buffer b x buf) = ob_currentRecordType buf"
  "ob_records (set_stream_buffer b x buf) = ob_records buf" "ob_delivered (set_stream_buffer b x buf) = ob_delivered buf"
  "ob_FlushCallback (set_stream_buffer b x buf) = ob_FlushCallback buf"
  "ob_recordDeadlineUs (set_stream_buffer b x buf) = ob_recordDeadlineUs buf"
  "stream_buffer a (buf\<lparr>ob_currentRecordType := ty\<rparr>) = stream_buffer a buf"
  "stream_buffer a (buf\<lparr>ob_recordDeadlineUs := n\<rparr>) = stream_buffer a buf"
  "stream_buffer a (buf\<lparr>ob_records := rs\<rparr>) = stream_buffer a buf" "stream_buffer a (Flush n buf) = stream_buffer a buf"
  by (auto simp: stream_buffer_def set_stream_buffer_def)

lemma of_stream_simps [simp]:
  "of_stream a [] = []" "of_stream a (xs @ ys) = of_stream a xs @ of_stream a ys"
  "of_stream a (map (Pair (stream_severity b)) d) = (if a = b then d else [])"
  "of_stream True (map (Pair SEVERITY_ERROR) d) = d" "of_stream False (map (Pair SEVERITY_ERROR) d) = []"
  "of_stream True (map (Pair SEVERITY_INFO) d) = []" "of_stream False (map (Pair SEVERITY_INFO) d) = d"
  by (cases a; cases b; simp add: of_stream_def filter_map o_def)+

lemma copied_append [simp]: "copied (xs @ ys) = copied xs @ copied ys"
  by (induction xs rule: copied.induct) simp_all

lemma tagged_of_stream: "of_stream a (tagged [\<lparr>rec_Time = n, rec_Severity = stream_severity b, rec_Body = d\<rparr>]) = (if a = b then d else [])"
  by simp

lemma writers_run_snoc:
  "writers_run (xs @ [x]) s = (case writers_run xs s of Some (Inr s') \<Rightarrow> writers_step x s' | r \<Rightarrow> r)"
  by (induction xs arbitrary: s) (auto split: option.split sum.split)

subsection \<open>Every interleaving\<close>

text \<open>At most one goroutine is under the mutex.\<close>

fun holds :: "write_pc \<Rightarrow> bool" where
  "holds (WIsStderr d) = True" | "holds (WIsStdout d) = True" | "holds (WRead d s) = True" | "holds (WAppend d s b) = True"
| "holds (WReset d s) = True" | "holds (WUnset d) = True" | "holds _ = False"

definition exclusive :: "writers \<Rightarrow> bool" where
  "exclusive s \<longleftrightarrow> (wr_held s \<longleftrightarrow> holds (wr_pc s True) \<or> holds (wr_pc s False)) \<and> \<not> (holds (wr_pc s True) \<and> holds (wr_pc s False))"

text \<open>The bytes of a stream on their way: handed over, in a record, read out of the buffer, in the buffer, and about to be written.\<close>

fun in_hand :: "bool \<Rightarrow> write_pc \<Rightarrow> bytes" where
  "in_hand a (WAppend d s b) = (if s = a then b else [])"
| "in_hand a _ = []"

fun to_write :: "write_pc \<Rightarrow> bytes" where
  "to_write WIdle = []" | "to_write (WIsNone d) = d" | "to_write (WSetDeadline d) = d" | "to_write (WIsOther d) = d"
| "to_write (WIsLate d) = d" | "to_write (WFlushIsNone d) = d" | "to_write (WLock d) = d" | "to_write (WIsStderr d) = d"
| "to_write (WIsStdout d) = d" | "to_write (WRead d s) = d" | "to_write (WAppend d s b) = d" | "to_write (WReset d s) = d"
| "to_write (WUnset d) = d" | "to_write (WSetType d) = d" | "to_write (WPut d) = d"

definition on_record :: "output_buffer \<Rightarrow> (log_severity \<times> char) list" where
  "on_record buf = tagged (concat (ob_delivered buf) @ ob_records buf)"

definition on_its_way :: "bool \<Rightarrow> writers \<Rightarrow> bytes" where
  "on_its_way a s =
     of_stream a (on_record (wr_buf s)) @ in_hand a (wr_pc s True) @ in_hand a (wr_pc s False) @
     stream_buffer a (wr_buf s) @ to_write (wr_pc s a)"

lemma on_record_simps [simp]:
  "on_record (set_stream_buffer b x buf) = on_record buf" "on_record (buf\<lparr>ob_currentRecordType := ty\<rparr>) = on_record buf"
  "on_record (buf\<lparr>ob_recordDeadlineUs := n\<rparr>) = on_record buf"
  "on_record (buf\<lparr>ob_records := ob_records buf @ [r]\<rparr>) = on_record buf @ map (Pair (rec_Severity r)) (rec_Body r)"
  by (simp_all add: on_record_def)

lemma not_holding: "\<not> holds p \<Longrightarrow> in_hand a p = []"
  by (cases p) auto

lemma subseq_drop: "subseq (x @ z) (x @ y @ z)"
  by (intro list_emb_append_mono) (auto intro: list_emb_append2)

lemma writers_step_exclusive:
  assumes "writers_step x s = Some (Inr s')" and "exclusive s"
  shows "exclusive s'"
proof (cases x)
  case (Wrote b now)
  show ?thesis
    using assms Wrote by (cases "wr_pc s b"; cases b) (auto simp: exclusive_def split: if_splits)
qed (use assms in \<open>auto simp: exclusive_def split: if_splits\<close>)

lemma exclusive_other: "exclusive s \<Longrightarrow> holds (wr_pc s b) \<Longrightarrow> in_hand a (wr_pc s (\<not> b)) = []"
  by (cases b) (auto simp: exclusive_def intro: not_holding)

lemma on_its_way_at:
  assumes "exclusive s"
  shows "on_its_way a s = of_stream a (on_record (wr_buf s)) @ in_hand a (wr_pc s b) @ in_hand a (wr_pc s (\<not> b)) @
    stream_buffer a (wr_buf s) @ to_write (wr_pc s a)"
proof (cases b)
  case False
  have "in_hand a (wr_pc s True) = [] \<or> in_hand a (wr_pc s False) = []"
    using assms by (auto simp: exclusive_def intro: not_holding)
  with False show ?thesis by (auto simp: on_its_way_def)
qed (simp add: on_its_way_def)

text \<open>A step outside \<open>FlushRecord\<close> moves bytes at most from the call into the buffer of its stream; one inside moves a buffer into a record.\<close>

lemma write_step_outside:
  assumes "write_step b now p buf held = Some (Inr (p', buf', held'))" and "\<not> holds p"
  shows "on_record buf' = on_record buf" and "in_hand a p' = []"
    and "stream_buffer a buf' @ (if a = b then to_write p' else []) = stream_buffer a buf @ (if a = b then to_write p else [])"
  using assms by (cases p; auto split: if_splits)+

lemma write_step_inside:
  assumes "write_step b now p buf held = Some (Inr (p', buf', held'))" and "holds p"
  shows "subseq (of_stream a (on_record buf') @ in_hand a p' @ stream_buffer a buf')
      (of_stream a (on_record buf) @ in_hand a p @ stream_buffer a buf)" and "to_write p' = to_write p"
  using assms by (cases p; auto split: if_splits)+

lemma on_its_way_Wrote:
  assumes "write_step b now (wr_pc s b) (wr_buf s) (wr_held s) = Some (Inr (p, buf, held))" and "exclusive s"
    and "exclusive (s\<lparr>wr_buf := buf, wr_held := held, wr_pc := (wr_pc s)(b := p)\<rparr>)"
  shows "subseq (on_its_way a (s\<lparr>wr_buf := buf, wr_held := held, wr_pc := (wr_pc s)(b := p)\<rparr>)) (on_its_way a s)"
proof (cases "holds (wr_pc s b)")
  case True
  have "subseq ((of_stream a (on_record buf) @ in_hand a p @ stream_buffer a buf) @ (if a = b then to_write p else to_write (wr_pc s a)))
      ((of_stream a (on_record (wr_buf s)) @ in_hand a (wr_pc s b) @ stream_buffer a (wr_buf s)) @ to_write (wr_pc s a))"
    by (rule list_emb_append_mono [OF write_step_inside(1) [OF assms(1) True]]) (simp add: write_step_inside(2) [OF assms(1) True])
  with exclusive_other [OF assms(2) True, of a] show ?thesis
    unfolding on_its_way_at [OF assms(2), of a b] on_its_way_at [OF assms(3), of a b] by (simp split: if_splits)
next
  case False
  from write_step_outside(1) [OF assms(1) False] write_step_outside(2,3) [OF assms(1) False, of a] not_holding [OF False, of a] show ?thesis
    unfolding on_its_way_at [OF assms(2), of a b] on_its_way_at [OF assms(3), of a b] by (cases "a = b") simp_all
qed

lemma on_its_way_step:
  assumes "writers_step x s = Some (Inr s')" and "exclusive s"
  shows "subseq (on_its_way a s') (on_its_way a s @ of_stream a (copied [x]))"
proof (cases x)
  case (Copied b d)
  with assms(1) show ?thesis by (cases a; cases b) (auto simp: on_its_way_def split: if_splits)
next
  case (Wrote b now)
  with assms(1) obtain pc buf held where
    step: "write_step b now (wr_pc s b) (wr_buf s) (wr_held s) = Some (Inr (pc, buf, held))"
    and s': "s' = s\<lparr>wr_buf := buf, wr_held := held, wr_pc := (wr_pc s)(b := pc)\<rparr>"
    by (auto split: option.splits sum.splits)
  have "exclusive s'" by (rule writers_step_exclusive [OF assms])
  with on_its_way_Wrote [OF step assms(2)] show ?thesis by (simp add: s' Wrote)
next
  case Tick
  with assms(1) show ?thesis by (auto simp: on_its_way_def split: if_splits)
next
  case (FlushLocked now)
  with assms(1) have "s' = s\<lparr>wr_buf := Flush now (wr_buf s), wr_flushing := False\<rparr>" by (auto split: if_splits)
  moreover have "subseq (of_stream a (on_record (Flush now (wr_buf s)))) (of_stream a (on_record (wr_buf s)))"
    by (auto simp: on_record_def Flush_delivered)
  ultimately show ?thesis using FlushLocked by (auto simp: on_its_way_def intro!: list_emb_append_mono)
qed

lemma run_on_its_way:
  assumes "writers_run xs s = Some (Inr s')" and "exclusive s"
  shows "subseq (on_its_way a s') (on_its_way a s @ of_stream a (copied xs)) \<and> exclusive s'"
  using assms
proof (induction xs arbitrary: s)
  case (Cons x xs)
  then obtain s1 where step: "writers_step x s = Some (Inr s1)" and run: "writers_run xs s1 = Some (Inr s')"
    by (auto split: option.splits sum.splits)
  from Cons.IH [OF run writers_step_exclusive [OF step Cons.prems(2)]]
  have "subseq (on_its_way a s') (on_its_way a s1 @ of_stream a (copied xs))" "exclusive s'" by auto
  moreover have "subseq (on_its_way a s1 @ of_stream a (copied xs)) ((on_its_way a s @ of_stream a (copied [x])) @ of_stream a (copied xs))"
    using on_its_way_step [OF step Cons.prems(2)] by (intro list_emb_append_mono) auto
  moreover have "copied (x # xs) = copied [x] @ copied xs" using copied_append [of "[x]" xs] by simp
  ultimately show ?case by (auto intro: subseq_order.order_trans)
qed simp

subsection \<open>Writes that do not overlap\<close>

abbreviation tag :: "bool \<Rightarrow> bytes \<Rightarrow> (log_severity \<times> char) list" where
  "tag b d \<equiv> map (Pair (stream_severity b)) d"

text \<open>What the buffer holds while only the goroutine of the stream \<open>b\<close> is in a call of \<open>Write\<close>; \<open>h\<close> is all that was copied.\<close>

fun type_at :: "bool \<Rightarrow> write_pc \<Rightarrow> record_type \<Rightarrow> bool" where
  "type_at b (WSetDeadline d) ty \<longleftrightarrow> ty = noRecord"
| "type_at b (WIsOther d) ty \<longleftrightarrow> ty \<noteq> noRecord"
| "type_at b (WIsLate d) ty \<longleftrightarrow> ty = recType_of b"
| "type_at b (WFlushIsNone d) ty \<longleftrightarrow> ty \<noteq> noRecord"
| "type_at b (WLock d) ty \<longleftrightarrow> ty \<noteq> noRecord"
| "type_at b (WIsStderr d) ty \<longleftrightarrow> ty \<noteq> noRecord"
| "type_at b (WIsStdout d) ty \<longleftrightarrow> ty = stdoutRecord"
| "type_at b (WRead d x) ty \<longleftrightarrow> ty = recType_of x"
| "type_at b (WSetType d) ty \<longleftrightarrow> ty = noRecord \<or> ty = recType_of b"
| "type_at b (WPut d) ty \<longleftrightarrow> ty = recType_of b"
| "type_at b _ ty \<longleftrightarrow> True"

fun taken :: "write_pc \<Rightarrow> (log_severity \<times> char) list option" where
  "taken (WAppend d x y) = Some (tag x y)" | "taken (WReset d x) = Some []" | "taken (WUnset d) = Some []" | "taken _ = None"

definition at_ok :: "bool \<Rightarrow> write_pc \<Rightarrow> output_buffer \<Rightarrow> (log_severity \<times> char) list \<Rightarrow> bool" where
  "at_ok b p buf h \<longleftrightarrow>
     (case taken p of
        Some t \<Rightarrow> ob_stdout buf = [] \<and> ob_stderr buf = [] \<and> on_record buf @ t @ tag b (to_write p) = h
      | None \<Rightarrow> settled buf \<and> type_at b p (ob_currentRecordType buf) \<and> contents buf @ tag b (to_write p) = h)"

lemma contents_recorded: "contents buf = on_record buf @ pending buf"
  by (simp add: contents_def on_record_def)

lemmas buffer_unfolds = settled_def contents_recorded pending_def stream_buffer_def set_stream_buffer_def

lemma at_ok_crash: "write_step b now p buf held = Some (Inl c) \<Longrightarrow> at_ok b p buf h \<Longrightarrow> False"
  by (cases p) (auto simp: at_ok_def split: if_splits)

lemma at_ok_step:
  assumes "write_step b now p buf held = Some (Inr (p', buf', held'))" and "at_ok b p buf h"
  shows "at_ok b p' buf' h \<and> ob_FlushCallback buf' = ob_FlushCallback buf"
proof (cases p)
  case (WRead d x)
  with assms show ?thesis by (cases x) (auto simp: at_ok_def buffer_unfolds on_record_def)
next
  case (WAppend d x y)
  with assms show ?thesis by (cases x) (auto simp: at_ok_def)
next
  case (WReset d x)
  with assms show ?thesis by (cases x) (auto simp: at_ok_def set_stream_buffer_def on_record_def)
next
  case (WUnset d)
  with assms show ?thesis by (auto simp: at_ok_def settled_def contents_recorded pending_def)
next
  case (WSetType d)
  with assms show ?thesis by (cases b) (auto simp: at_ok_def settled_def contents_recorded pending_def)
next
  case (WPut d)
  with assms show ?thesis by (cases b) (auto simp: at_ok_def buffer_unfolds on_record_def)
next
  case (WIsStderr d)
  with assms show ?thesis by (cases "ob_currentRecordType buf") (auto simp: at_ok_def)
next
  case (WSetDeadline d)
  with assms show ?thesis by (auto simp: at_ok_def settled_def contents_recorded pending_def)
qed (use assms in \<open>auto simp: at_ok_def split: if_splits\<close>)

lemma at_ok_Flush:
  assumes "at_ok b p buf h" and "\<not> holds p" and "ob_FlushCallback buf \<noteq> None"
  shows "at_ok b p (Flush now buf) h"
  using assms by (cases p) (auto simp: at_ok_def settled_def Flush_contents)

definition serial_ok :: "(log_severity \<times> char) list \<Rightarrow> writers \<Rightarrow> bool" where
  "serial_ok h s \<longleftrightarrow> exclusive s \<and> ob_FlushCallback (wr_buf s) \<noteq> None \<and>
     (\<exists>b. wr_pc s (\<not> b) = WIdle \<and> at_ok b (wr_pc s b) (wr_buf s) h)"

lemma at_ok_idle: "at_ok b WIdle buf h \<longleftrightarrow> settled buf \<and> contents buf = h"
  by (simp add: at_ok_def)

lemma serial_ok_at:
  assumes "serial_ok h s" and "wr_pc s (\<not> b) = WIdle"
  shows "at_ok b (wr_pc s b) (wr_buf s) h"
proof -
  obtain c where c: "wr_pc s (\<not> c) = WIdle" "at_ok c (wr_pc s c) (wr_buf s) h" using assms(1) by (auto simp: serial_ok_def)
  show ?thesis
  proof (cases "c = b")
    case False
    then have "c = (\<not> b)" by auto
    with c assms(2) show ?thesis by (simp add: at_ok_idle)
  qed (use c in simp)
qed

lemma serial_step:
  assumes "serial_ok h s" and "serial [x] s" and "writers_step x s = Some r"
  shows "\<exists>s'. r = Inr s' \<and> serial_ok (h @ copied [x]) s'"
proof (cases x)
  case (Copied b d)
  with assms(2,3) have idle: "wr_pc s (\<not> b) = WIdle" "wr_pc s b = WIdle"
    and r: "r = Inr (s\<lparr>wr_pc := (wr_pc s)(b := if length d = 0 then WIdle else WIsNone d)\<rparr>)"
    by (auto split: if_splits)
  moreover have "exclusive (s\<lparr>wr_pc := (wr_pc s)(b := if length d = 0 then WIdle else WIsNone d)\<rparr>)"
    using writers_step_exclusive [of x s] assms(1,3) r by (auto simp: serial_ok_def)
  moreover have "at_ok b (if length d = 0 then WIdle else WIsNone d) (wr_buf s) (h @ tag b d)"
    using serial_ok_at [OF assms(1) idle(1)] idle(2) by (simp add: at_ok_def)
  ultimately show ?thesis using assms(1) Copied by (auto simp: serial_ok_def intro!: exI [of _ b])
next
  case (Wrote b now)
  with assms(3) have "wr_pc s b \<noteq> WIdle" by auto
  then have idle: "wr_pc s (\<not> b) = WIdle" using assms(1) by (cases b) (auto simp: serial_ok_def ex_bool_eq)
  from Wrote assms(3) obtain r1 where step: "write_step b now (wr_pc s b) (wr_buf s) (wr_held s) = Some r1"
    by (auto split: option.splits)
  note ok = serial_ok_at [OF assms(1) idle]
  obtain p buf held where r1: "r1 = Inr (p, buf, held)" using step at_ok_crash [OF _ ok] by (cases r1) auto
  with at_ok_step [OF _ ok] step have r1: "r1 = Inr (p, buf, held)" "at_ok b p buf h"
    "ob_FlushCallback buf = ob_FlushCallback (wr_buf s)" by auto
  let ?s = "s\<lparr>wr_buf := buf, wr_held := held, wr_pc := (wr_pc s)(b := p)\<rparr>"
  have r: "r = Inr ?s" using assms(3) Wrote step r1(1) by simp
  then have "exclusive ?s" using writers_step_exclusive [of x s] assms(1,3) by (simp add: serial_ok_def)
  with r1 idle assms(1) have "serial_ok h ?s" by (auto simp: serial_ok_def intro!: exI [of _ b])
  with r Wrote show ?thesis by simp
next
  case Tick
  with assms show ?thesis by (auto simp: serial_ok_def exclusive_def split: if_splits)
next
  case (FlushLocked now)
  with assms(3) have free: "\<not> wr_held s" and r: "r = Inr (s\<lparr>wr_buf := Flush now (wr_buf s), wr_flushing := False\<rparr>)"
    by (auto split: if_splits)
  then have "\<not> holds (wr_pc s b)" for b using assms(1) by (cases b) (auto simp: serial_ok_def exclusive_def)
  with assms(1) r FlushLocked show ?thesis by (auto simp: serial_ok_def exclusive_def intro!: at_ok_Flush)
qed

lemma serial_run:
  assumes "serial_ok h s" and "serial xs s" and "writers_run xs s = Some r"
  shows "\<exists>s'. r = Inr s' \<and> serial_ok (h @ copied xs) s'"
  using assms
proof (induction xs arbitrary: h s)
  case (Cons x xs)
  from Cons.prems(3) obtain r1 where step: "writers_step x s = Some r1" by (auto split: option.splits)
  moreover have "serial [x] s" using Cons.prems(2) by (auto split: option.splits sum.splits)
  ultimately obtain s1 where s1: "r1 = Inr s1" "serial_ok (h @ copied [x]) s1" using serial_step [OF Cons.prems(1)] by blast
  moreover have "serial xs s1" "writers_run xs s1 = Some r" using Cons.prems(2,3) step s1(1) by simp_all
  moreover have "copied (x # xs) = copied [x] @ copied xs" using copied_append [of "[x]" xs] by simp
  ultimately show ?case using Cons.IH [of "h @ copied [x]" s1] by simp
qed auto

text \<open>Alone, the steps of a call are \<open>Write_alone\<close>.\<close>

lemma writers_run_append: "writers_run xs s = Some (Inr s1) \<Longrightarrow> writers_run (xs @ ys) s = writers_run ys s1"
  by (induction xs arbitrary: s) (auto split: option.splits sum.splits)

lemma Write_alone_steps:
  assumes "wr_pc s b = WIdle" and "\<not> wr_held s" and "d \<noteq> []"
  shows "\<exists>k. writers_run (Copied b d # replicate k (Wrote b now)) s = Some (Inr (s\<lparr>wr_buf := Write_alone d b now (wr_buf s)\<rparr>))"
proof -
  have pc: "(wr_pc s)(b := WIdle) = wr_pc s" "s\<lparr>wr_buf := x, wr_held := False\<rparr> = s\<lparr>wr_buf := x\<rparr>" for x
    using assms(1,2) by (auto simp: fun_eq_iff)
  note defs = Write_alone_def FlushRecord_def stream_buffer_def set_stream_buffer_def pc eval_nat_numeral Let_def
  consider (none) "ob_currentRecordType (wr_buf s) = noRecord"
    | (goes_on) "ob_currentRecordType (wr_buf s) = recType_of b" "\<not> now > ob_recordDeadlineUs (wr_buf s)"
    | (late) "ob_currentRecordType (wr_buf s) = recType_of b" "now > ob_recordDeadlineUs (wr_buf s)"
    | (other) "ob_currentRecordType (wr_buf s) = recType_of (\<not> b)"
    by (cases "ob_currentRecordType (wr_buf s)"; cases b) auto
  then show ?thesis
  proof cases
    case none
    with assms show ?thesis by (intro exI [of _ 4]) (simp add: defs)
  next
    case goes_on
    with assms show ?thesis by (intro exI [of _ 5]) (simp add: defs)
  next
    case late
    with assms show ?thesis by (intro exI [of _ "if b then 12 else 13"]; cases b) (simp_all add: defs fun_upd_idem)
  next
    case other
    with assms show ?thesis by (intro exI [of _ "if b then 12 else 11"]; cases b) (simp_all add: defs fun_upd_idem)
  qed
qed

lemma writers_start_ok [simp]:
  "exclusive (writers_start buf)" "settled buf \<Longrightarrow> ob_FlushCallback buf \<noteq> None \<Longrightarrow> serial_ok (contents buf) (writers_start buf)"
  "wr_pc (writers_start buf) b = WIdle" "wr_buf (writers_start buf) = buf"
  by (simp_all add: writers_start_def exclusive_def serial_ok_def at_ok_idle)

text \<open>What has reached the callback after \<open>Stop\<close>: of each stream a part, and all when the writes did not overlap.\<close>

abbreviation new_buffer :: "int \<Rightarrow> func \<Rightarrow> output_buffer" where
  "new_buffer t0 cb \<equiv> OutputBuffer_Start t0 (NewOutputBuffer (Some cb))"

lemma Stop_part: "subseq (of_stream b (tagged (concat (ob_delivered (OutputBuffer_Stop t1 t2 buf)))))
    (of_stream b (on_record buf) @ stream_buffer b buf)"
proof -
  have "tagged (concat (ob_delivered (OutputBuffer_Stop t1 t2 buf))) = (if ob_FlushCallback buf = None then tagged (concat (ob_delivered buf))
      else on_record buf @ pending buf)"
    by (auto simp: OutputBuffer_Stop_def Flush_delivered FlushRecord_def on_record_def pending_def split: record_type.split)
  then show ?thesis
    by (cases b) (auto simp: on_record_def pending_def stream_buffer_def split: record_type.split)
qed

lemma delivered_part:
  assumes "writers_run xs (writers_start (new_buffer t0 cb)) = Some (Inr s)" and "writers_done s"
  shows "subseq (of_stream b (tagged (concat (ob_delivered (OutputBuffer_Stop t1 t2 (wr_buf s)))))) (of_stream b (copied xs))"
proof -
  have "on_its_way b (writers_start (new_buffer t0 cb)) = []"
    by (simp add: on_its_way_def writers_start_def on_record_def stream_buffer_def OutputBuffer_Start_def NewOutputBuffer_def)
  with run_on_its_way [OF assms(1), of b] have "subseq (on_its_way b s) (of_stream b (copied xs))" by simp
  moreover have "on_its_way b s = of_stream b (on_record (wr_buf s)) @ stream_buffer b (wr_buf s)"
    using assms(2) by (cases b) (simp_all add: on_its_way_def writers_done_def)
  ultimately show ?thesis using Stop_part [of b t1 t2 "wr_buf s"] by (metis subseq_order.order_trans)
qed

lemma delivered_all:
  assumes "writers_run xs (writers_start (new_buffer t0 cb)) = Some (Inr s)" and "writers_done s"
    and "serial xs (writers_start (new_buffer t0 cb))"
  shows "tagged (concat (ob_delivered (OutputBuffer_Stop t1 t2 (wr_buf s)))) = copied xs"
    and "ob_records (OutputBuffer_Stop t1 t2 (wr_buf s)) = []" and "ob_stdout (OutputBuffer_Stop t1 t2 (wr_buf s)) = []"
    and "ob_stderr (OutputBuffer_Stop t1 t2 (wr_buf s)) = []"
proof -
  have "serial_ok (copied xs) s" using serial_run [OF _ assms(3,1), of "[]"] writers_start_ok(2) [of "new_buffer t0 cb"] by simp
  moreover from this obtain b where "at_ok b (wr_pc s b) (wr_buf s) (copied xs)" by (auto simp: serial_ok_def)
  ultimately have "settled (wr_buf s)" "ob_FlushCallback (wr_buf s) \<noteq> None" "contents (wr_buf s) = copied xs"
    using assms(2) by (cases b; simp add: serial_ok_def writers_done_def at_ok_idle)+
  with Stop_delivers [of "wr_buf s" t1 t2]
  show "tagged (concat (ob_delivered (OutputBuffer_Stop t1 t2 (wr_buf s)))) = copied xs"
    and "ob_records (OutputBuffer_Stop t1 t2 (wr_buf s)) = []" and "ob_stdout (OutputBuffer_Stop t1 t2 (wr_buf s)) = []"
    and "ob_stderr (OutputBuffer_Stop t1 t2 (wr_buf s)) = []" by simp_all
qed

section \<open>Examples\<close>

text \<open>Two writes one after the other, with a tick between them.\<close>

definition serial_ops :: "writers_op list" where
  "serial_ops = Copied False ''a'' # replicate 4 (Wrote False 0) @ Tick # Copied True ''b'' # replicate 12 (Wrote True 5)"

lemma serial_ops_run:
  "\<exists>s. writers_run serial_ops (writers_start (new_buffer 0 1)) = Some (Inr s) \<and> writers_done s"
  "serial serial_ops (writers_start (new_buffer 0 1))" "copied serial_ops = [(SEVERITY_INFO, CHR ''a''), (SEVERITY_ERROR, CHR ''b'')]"
  by (simp_all add: serial_ops_def writers_start_def writers_done_def eval_nat_numeral OutputBuffer_Start_def NewOutputBuffer_def
      stream_buffer_def set_stream_buffer_def)

text \<open>
  Writes that overlap. In the first list both goroutines find no open record, and the type that the second sets hides the bytes of the first.
  In the second, when the record that the first write opened is late, both find it open and wait for the mutex; the one that gets it second
  finds no record under it.
\<close>

definition losing_ops :: "bytes \<Rightarrow> bytes \<Rightarrow> writers_op list" where
  "losing_ops a b = [Copied False a, Copied True b, Wrote False 0, Wrote True 0] @ replicate 3 (Wrote False 0) @ replicate 3 (Wrote True 0)"

definition crashing_ops :: "bytes \<Rightarrow> bytes \<Rightarrow> writers_op list" where
  "crashing_ops a b = Copied False a # replicate 4 (Wrote False 0) @ [Copied False a, Copied True b] @ replicate 4 (Wrote False 20001) @
     replicate 3 (Wrote True 20001) @ replicate 7 (Wrote False 20001) @ replicate 3 (Wrote True 20001)"

section \<open>Properties\<close>

text \<open>C1. What reaches the log. In every interleaving of the two goroutines that copy the streams, step by step, with each other and with
  \<open>flushLoop\<close>, the callback has received, when \<open>Stop\<close> returns, of each stream only bytes that were read from its pipe, with the severity of the
  stream, none twice and in their order. When no call of \<open>Write\<close> begins while the other goroutine is in one, the process does not
  crash, and nothing is lost: the callback has received exactly what was read, across both streams in the order of the writes,
  and the buffer is empty.\<close>

theorem output_delivered_in_order:
  assumes "writers_run xs (writers_start (OutputBuffer_Start t0 (NewOutputBuffer (Some cb)))) = Some r"
  shows "(\<forall>s b. r = Inr s \<and> writers_done s \<longrightarrow>
      subseq (of_stream b (tagged (concat (ob_delivered (OutputBuffer_Stop t1 t2 (wr_buf s)))))) (of_stream b (copied xs))) \<and>
    (serial xs (writers_start (OutputBuffer_Start t0 (NewOutputBuffer (Some cb)))) \<longrightarrow>
      (\<exists>s. r = Inr s \<and> (writers_done s \<longrightarrow>
        tagged (concat (ob_delivered (OutputBuffer_Stop t1 t2 (wr_buf s)))) = copied xs \<and>
        ob_records (OutputBuffer_Stop t1 t2 (wr_buf s)) = [] \<and> ob_stdout (OutputBuffer_Stop t1 t2 (wr_buf s)) = [] \<and>
        ob_stderr (OutputBuffer_Stop t1 t2 (wr_buf s)) = [])))"
proof (intro conjI allI impI)
  fix s b assume "r = Inr s \<and> writers_done s"
  with assms delivered_part [of xs t0 cb s b t1 t2]
  show "subseq (of_stream b (tagged (concat (ob_delivered (OutputBuffer_Stop t1 t2 (wr_buf s)))))) (of_stream b (copied xs))" by simp
next
  assume serial: "serial xs (writers_start (new_buffer t0 cb))"
  with serial_run [OF writers_start_ok(2) serial assms] obtain s where "r = Inr s" by auto
  with delivered_all [of xs t0 cb s t1 t2] serial assms show "\<exists>s. r = Inr s \<and> (writers_done s \<longrightarrow>
        tagged (concat (ob_delivered (OutputBuffer_Stop t1 t2 (wr_buf s)))) = copied xs \<and>
        ob_records (OutputBuffer_Stop t1 t2 (wr_buf s)) = [] \<and> ob_stdout (OutputBuffer_Stop t1 t2 (wr_buf s)) = [] \<and>
        ob_stderr (OutputBuffer_Stop t1 t2 (wr_buf s)) = [])" by blast
qed

theorem output_delivered_in_order_witness:
  "\<exists>s. writers_run serial_ops (writers_start (OutputBuffer_Start 0 (NewOutputBuffer (Some 1)))) = Some (Inr s) \<and>
    tagged (concat (ob_delivered (OutputBuffer_Stop 7 8 (wr_buf s)))) = [(SEVERITY_INFO, CHR ''a''), (SEVERITY_ERROR, CHR ''b'')]"
proof -
  from serial_ops_run(1) obtain s where run: "writers_run serial_ops (writers_start (new_buffer 0 1)) = Some (Inr s)"
    and fin: "writers_done s" by blast
  from output_delivered_in_order [OF run, THEN conjunct2, THEN mp, OF serial_ops_run(2), of 7 8]
  have "tagged (concat (ob_delivered (OutputBuffer_Stop 7 8 (wr_buf s)))) = copied serial_ops" using fin by simp
  with run show ?thesis by (simp add: serial_ops_run(3))
qed

text \<open>C18. Writes that overlap lose output or bring the process down. Whatever bytes the two streams bring, there is an interleaving of
  two calls of \<open>Write\<close> on a new buffer after which \<open>Stop\<close> hands over the bytes of stderr only, and those of stdout stay in
  the buffer for ever; and there is one in which, after a first record is open for more than 20 milliseconds, both calls go
  into \<open>FlushRecord\<close> and the second dereferences a nil pointer.\<close>

theorem overlapping_writes_lose_and_crash:
  assumes "a \<noteq> []" and "b \<noteq> []"
  shows "(\<exists>xs s. writers_run xs (writers_start (OutputBuffer_Start t0 (NewOutputBuffer (Some cb)))) = Some (Inr s) \<and> writers_done s \<and>
      of_stream False (copied xs) = a \<and> of_stream True (copied xs) = b \<and>
      tagged (concat (ob_delivered (OutputBuffer_Stop t1 t2 (wr_buf s)))) = map (Pair SEVERITY_ERROR) b \<and>
      ob_stdout (OutputBuffer_Stop t1 t2 (wr_buf s)) = a) \<and>
    (\<exists>xs. writers_run xs (writers_start (OutputBuffer_Start t0 (NewOutputBuffer (Some cb)))) = Some (Inl nil_dereference) \<and>
      of_stream False (copied xs) = a @ a \<and> of_stream True (copied xs) = b)"
proof
  note defs = writers_start_def writers_done_def eval_nat_numeral OutputBuffer_Start_def NewOutputBuffer_def stream_buffer_def
    set_stream_buffer_def OutputBuffer_Stop_def FlushRecord_def Flush_def Let_def
  show "\<exists>xs s. writers_run xs (writers_start (new_buffer t0 cb)) = Some (Inr s) \<and> writers_done s \<and>
      of_stream False (copied xs) = a \<and> of_stream True (copied xs) = b \<and>
      tagged (concat (ob_delivered (OutputBuffer_Stop t1 t2 (wr_buf s)))) = map (Pair SEVERITY_ERROR) b \<and>
      ob_stdout (OutputBuffer_Stop t1 t2 (wr_buf s)) = a"
    by (rule exI [of _ "losing_ops a b"]) (use assms in \<open>simp add: losing_ops_def defs\<close>)
  show "\<exists>xs. writers_run xs (writers_start (new_buffer t0 cb)) = Some (Inl nil_dereference) \<and>
      of_stream False (copied xs) = a @ a \<and> of_stream True (copied xs) = b"
    by (rule exI [of _ "crashing_ops a b"]) (use assms in \<open>simp add: crashing_ops_def defs\<close>)
qed

theorem overlapping_writes_lose_and_crash_witness:
  "\<exists>xs. writers_run xs (writers_start (OutputBuffer_Start 0 (NewOutputBuffer (Some 1)))) = Some (Inl nil_dereference) \<and>
    of_stream True (copied xs) = ''b''"
  using overlapping_writes_lose_and_crash [of "''a''" "''b''" 0 1] by auto

text \<open>The deadline of a record is only set when no record is open. Once it has passed while
  a record is open, it is never renewed: every later write, on either stream, closes the record
  before it, whatever its distance to the write before, until the buffer is closed.\<close>

theorem output_deadline_never_renewed:
  assumes "ob_currentRecordType buf \<noteq> noRecord" and "ob_recordDeadlineUs buf < now"
  shows "let buf' = Write_alone data isStderr now buf
         in ob_recordDeadlineUs buf' = ob_recordDeadlineUs buf \<and>
            ob_currentRecordType buf' \<noteq> noRecord \<and>
            length (ob_records buf') = Suc (length (ob_records buf))"
  using assms
  by (cases "ob_currentRecordType buf") (auto simp: Write_alone_def FlushRecord_def Let_def)

theorem output_deadline_never_renewed_witness:
  "let buf = Write_alone ''a'' False 0 (NewOutputBuffer (Some 1));
       buf' = Write_alone ''b'' False 20001 buf
   in ob_recordDeadlineUs buf' = 20000 \<and> length (ob_records buf') = 1"
proof -
  let ?buf = "Write_alone ''a'' False 0 (NewOutputBuffer (Some 1))"
  have pre: "ob_currentRecordType ?buf \<noteq> noRecord" "ob_recordDeadlineUs ?buf < 20001"
    "ob_recordDeadlineUs ?buf = 20000" "ob_records ?buf = []"
    by (simp_all add: Write_alone_def NewOutputBuffer_def Let_def)
  show ?thesis
    using output_deadline_never_renewed [OF pre(1,2), of "''b''" False] pre(3,4)
    by (simp add: Let_def)
qed

end
