(* ===== verification/Shell_Executor.thy ===== *)
theory Shell_Executor
  imports Script_Utils Output_Writers
begin

text \<open>
  \<open>taskexecutor/executor.go\<close>: the executor of tasks. It chooses the interpreter, builds the environment, writes
  the script into the standard input of a process that is not started yet, and lets two goroutines copy the pipes of the
  process into an \<open>OutputBuffer\<close>. The operating system is a record of arguments: the errors of the three calls that make pipes, the
  capacity of a pipe (a write of more bytes blocks while nobody reads), what a command writes to its two streams, and its run: the
  steps of the two goroutines and of \<open>flushLoop\<close> in the order in which they happen (\<open>Output_Writers\<close>), and the error of \<open>cmd.Run\<close>. What the
  goroutines read need not be all that the command writes: \<open>cmd.Run\<close> closes the pipes when the process has ended, read or not.
\<close>

section \<open>Definitions\<close>

record task_execution_descriptor =
  ted_Task :: defined_task
  ted_Params :: "(string, goval) fmap"
  ted_FlushCallback :: "func option"

record executor_info =
  ei_Name :: string
  ei_AllowedTaskTypes :: "string list"

definition ShellExecutor_Explain :: executor_info where
  "ShellExecutor_Explain =
     \<lparr>ei_Name = ''ShellExecutor'', ei_AllowedTaskTypes = [TASK_TYPE_EXEC, TASK_TYPE_SCRIPT]\<rparr>"

definition CanExecute :: "defined_task \<Rightarrow> bool" where
  "CanExecute task \<longleftrightarrow>
     body_Type (task_Body task) = TASK_TYPE_EXEC \<or> body_Type (task_Body task) = TASK_TYPE_SCRIPT"

text \<open>Whether \<open>json.Marshal\<close> returns an error for a parameter.\<close>

definition marshal_fails :: "goval \<Rightarrow> bool" where
  "marshal_fails v \<longleftrightarrow> (case v of VOther ok \<Rightarrow> \<not> ok | _ \<Rightarrow> False)"

text \<open>
  The text of a parameter, \<open>None\<close> where the loop continues. In the default case the condition on the error is the
  wrong way round: with an error the bytes are nil and the text is empty, without one the parameter is skipped.
\<close>

definition param_string :: "goval \<Rightarrow> string option" where
  "param_string value =
     (case value of
        VNil \<Rightarrow> None
      | VString s \<Rightarrow> Some s
      | VInt n \<Rightarrow> Some (itoa n)
      | _ \<Rightarrow> (if marshal_fails value then Some [] else None))"

text \<open>One iteration of the loop that fills \<open>cmd.Env\<close>, a slice of fixed length.\<close>

definition fill_env_step ::
  "(string, goval) fmap \<Rightarrow> string \<Rightarrow> string list \<times> nat \<Rightarrow> (string list \<times> nat) outcome" where
  "fill_env_step params param s =
     (case s of (env, index) \<Rightarrow>
        (case fmlookup params param of
           None \<Rightarrow> Inr (env, index)
         | Some value \<Rightarrow>
             (case param_string value of
                None \<Rightarrow> Inr (env, index)
              | Some stringValue \<Rightarrow>
                  (if index < length env
                   then Inr (env[index := param @ ''='' @ stringValue], index + 1)
                   else Inl (Panic ''index out of range'')))))"

definition command_env :: "string list \<Rightarrow> (string, goval) fmap \<Rightarrow> string list outcome" where
  "command_env order params =
     andThen (mfold (fill_env_step params) order (replicate (mlen params + 1) [], 0))
       (\<lambda>(env, index). Inr env)"

record command =
  cmd_Path :: string
  cmd_Env :: "string list"
  cmd_Stdin :: bytes

record os_env =
  os_StdinPipe :: "goerror option"
  os_StderrPipe :: "goerror option"
  os_StdoutPipe :: "goerror option"
  os_pipe_capacity :: nat
  os_output :: "command \<Rightarrow> bool \<Rightarrow> bytes"
  os_run :: "command \<Rightarrow> writers_op list \<times> goerror option"
  os_times :: "int \<times> int \<times> int"

definition default_shell :: string where "default_shell = ''/bin/bash''"

definition choose_shell :: "defined_task \<Rightarrow> string \<Rightarrow> string" where
  "choose_shell task body =
     (if body_Type (task_Body task) = TASK_TYPE_SCRIPT then
        (let shell = findShebang body in if shell = [] then default_shell else shell)
      else default_shell)"

text \<open>
  \<open>os_times\<close> are the clock readings of the output buffer's start and of its final flush. \<open>copying\<close> is the run of the goroutines on the
  buffer. \<open>wg.Wait\<close> and \<open>Stop\<close> wait until they are done. The second result of \<open>Execute\<close> is the output buffer, once there is one.
\<close>

definition started_buffer :: "os_env \<Rightarrow> func option \<Rightarrow> output_buffer" where
  "started_buffer os callback = OutputBuffer_Start (fst (os_times os)) (NewOutputBuffer callback)"

definition copying :: "os_env \<Rightarrow> func option \<Rightarrow> command \<Rightarrow> writers outcome" where
  "copying os callback cmd =
     (case writers_run (fst (os_run os cmd)) (writers_start (started_buffer os callback)) of
        None \<Rightarrow> Inl Blocked
      | Some (Inl c) \<Rightarrow> Inl c
      | Some (Inr s) \<Rightarrow> if writers_done s then Inr s else Inl Blocked)"

definition Execute ::
  "os_env \<Rightarrow> string list \<Rightarrow> task_execution_descriptor
   \<Rightarrow> (goerror option \<times> command option \<times> output_buffer option) outcome" where
  "Execute os order descriptor =
     (let task = ted_Task descriptor
      in if body_Type (task_Body task) \<noteq> TASK_TYPE_EXEC \<and> body_Type (task_Body task) \<noteq> TASK_TYPE_SCRIPT
         then Inl (Panic ''invali task type'')
         else
           andThen (Task_MustString task) (\<lambda>s.
             let body = s @ [nl]; shell = choose_shell task body
             in andThen (command_env order (ted_Params descriptor)) (\<lambda>env.
               case os_StdinPipe os of
                 Some err \<Rightarrow> Inr (Some err, None, None)
               | None \<Rightarrow>
                   (if length body > os_pipe_capacity os then Inl Blocked
                    else case os_StderrPipe os of
                      Some err \<Rightarrow> Inr (Some err, None, None)
                    | None \<Rightarrow>
                        (case os_StdoutPipe os of
                           Some err \<Rightarrow> Inr (Some err, None, None)
                         | None \<Rightarrow>
                             (case os_times os of (t0, t1, t2) \<Rightarrow>
                                let cmd = \<lparr>cmd_Path = shell, cmd_Env = env, cmd_Stdin = body\<rparr>
                                in andThen (copying os (ted_FlushCallback descriptor) cmd) (\<lambda>s.
                                     Inr (snd (os_run os cmd), Some cmd,
                                       Some (OutputBuffer_Stop t1 t2 (wr_buf s))))))))))"

section \<open>Lemmas\<close>

text \<open>The entries the loop writes, in order.\<close>

definition env_entries :: "(string, goval) fmap \<Rightarrow> string list \<Rightarrow> string list" where
  "env_entries params order =
     concat (map (\<lambda>p. case fmlookup params p of
       None \<Rightarrow> []
     | Some v \<Rightarrow> (case param_string v of None \<Rightarrow> [] | Some s \<Rightarrow> [p @ ''='' @ s])) order)"

lemma env_entries_simps [simp]:
  "env_entries params [] = []"
  "env_entries params (p # ps) =
    (case fmlookup params p of None \<Rightarrow> []
     | Some v \<Rightarrow> (case param_string v of None \<Rightarrow> [] | Some s \<Rightarrow> [p @ ''='' @ s])) @ env_entries params ps"
  by (simp_all add: env_entries_def)

lemma env_entries_length: "length (env_entries params order) \<le> length order"
  by (induction order) (auto split: option.split)

lemma fill_env_loop:
  assumes "length done + length order \<le> n"
  shows "mfold (fill_env_step params) order (done @ replicate (n - length done) [], length done) =
    Inr (done @ env_entries params order @
      replicate (n - length done - length (env_entries params order)) [],
      length done + length (env_entries params order))"
  using assms
proof (induction order arbitrary: "done")
  case Nil
  then show ?case by simp
next
  case (Cons p ps)
  show ?case
  proof (cases "fmlookup params p")
    case None
    with Cons show ?thesis by (simp add: fill_env_step_def)
  next
    case (Some v)
    show ?thesis
    proof (cases "param_string v")
      case None
      with Some Cons show ?thesis by (simp add: fill_env_step_def)
    next
      case (Some s)
      let ?x = "p @ ''='' @ s"
      from Cons.prems have "n - length done = Suc (n - length (done @ [?x]))" by simp
      then have "fill_env_step params p (done @ replicate (n - length done) [], length done) =
          Inr ((done @ [?x]) @ replicate (n - length (done @ [?x])) [], length (done @ [?x]))"
        using \<open>fmlookup params p = Some v\<close> Some by (simp add: fill_env_step_def list_update_append)
      with Cons.IH [of "done @ [?x]"] Cons.prems \<open>fmlookup params p = Some v\<close> Some
      show ?thesis by simp
    qed
  qed
qed

lemma command_env_eq:
  assumes "range_order params order"
  shows "command_env order params =
    Inr (env_entries params order @ replicate (mlen params + 1 - length (env_entries params order)) [])"
  using fill_env_loop [of "[]" order "mlen params + 1" params] range_order_length [OF assms]
  by (simp add: command_env_def)

lemma env_entries_set:
  assumes "range_order params order"
  shows "x \<in> set (env_entries params order) \<longleftrightarrow>
    (\<exists>p v s. fmlookup params p = Some v \<and> param_string v = Some s \<and> x = p @ ''='' @ s)"
proof
  assume "x \<in> set (env_entries params order)"
  then show "\<exists>p v s. fmlookup params p = Some v \<and> param_string v = Some s \<and> x = p @ ''='' @ s"
    by (auto simp: env_entries_def split: option.splits) metis
next
  assume "\<exists>p v s. fmlookup params p = Some v \<and> param_string v = Some s \<and> x = p @ ''='' @ s"
  then obtain p v s where "fmlookup params p = Some v" "param_string v = Some s" "x = p @ ''='' @ s" by blast
  moreover from this(1) have "p \<in> set order" using range_order_lookup [OF assms] by simp
  ultimately show "x \<in> set (env_entries params order)"
    by (auto simp: env_entries_def intro!: bexI [of _ p])
qed

lemma char_prefix_split:
  assumes "c \<notin> set p" and "c \<notin> set q" and "p @ [c] @ s = q @ [c] @ r"
  shows "p = q"
proof -
  have "takeWhile (\<lambda>x. x \<noteq> c) (y @ [c] @ z) = y" if "c \<notin> set y" for y z :: "'a list"
    using that by (induction y) auto
  with assms show ?thesis by metis
qed

text \<open>
  The goroutines come to their end; no call of \<open>Write\<close> begins while the other goroutine is in one; a pipe gives the bytes that were written into
  it, from the first.
\<close>

definition copies_end :: "os_env \<Rightarrow> bool" where
  "copies_end os \<longleftrightarrow> (\<forall>callback cmd. \<exists>s. copying os callback cmd = Inr s)"

definition copies_serially :: "os_env \<Rightarrow> bool" where
  "copies_serially os \<longleftrightarrow> (\<forall>callback cmd. serial (fst (os_run os cmd)) (writers_start (started_buffer os callback)))"

definition pipe_docs :: "os_env \<Rightarrow> bool" where
  "pipe_docs os \<longleftrightarrow> (\<forall>cmd b. prefix (of_stream b (copied (fst (os_run os cmd)))) (os_output os cmd b))"

lemma copying_Inr:
  "copying os callback cmd = Inr s \<longleftrightarrow>
     writers_run (fst (os_run os cmd)) (writers_start (started_buffer os callback)) = Some (Inr s) \<and> writers_done s"
  by (auto simp: copying_def split: option.splits sum.splits)

lemma copying_delivers:
  assumes "copying os (Some cb) cmd = Inr s"
  shows "subseq (of_stream b (tagged (concat (ob_delivered (OutputBuffer_Stop t1 t2 (wr_buf s))))))
      (of_stream b (copied (fst (os_run os cmd))))"
    and "copies_serially os \<Longrightarrow> tagged (concat (ob_delivered (OutputBuffer_Stop t1 t2 (wr_buf s)))) = copied (fst (os_run os cmd)) \<and>
      ob_records (OutputBuffer_Stop t1 t2 (wr_buf s)) = []"
proof -
  from assms have run: "writers_run (fst (os_run os cmd)) (writers_start (new_buffer (fst (os_times os)) cb)) = Some (Inr s)" "writers_done s"
    by (simp_all add: copying_Inr started_buffer_def)
  from delivered_part [OF this] show "subseq (of_stream b (tagged (concat (ob_delivered (OutputBuffer_Stop t1 t2 (wr_buf s))))))
      (of_stream b (copied (fst (os_run os cmd))))" .
  assume "copies_serially os"
  then have "serial (fst (os_run os cmd)) (writers_start (new_buffer (fst (os_times os)) cb))"
    by (simp add: copies_serially_def started_buffer_def)
  from delivered_all [OF run this, of t1 t2]
  show "tagged (concat (ob_delivered (OutputBuffer_Stop t1 t2 (wr_buf s)))) = copied (fst (os_run os cmd)) \<and>
      ob_records (OutputBuffer_Stop t1 t2 (wr_buf s)) = []" by simp
qed

lemma Execute_eq:
  assumes "CanExecute (ted_Task d)" and "Task_MustString (ted_Task d) = Inr s"
    and "length s < os_pipe_capacity os" and "range_order (ted_Params d) order"
    and "os_StdinPipe os = None" and "os_StderrPipe os = None" and "os_StdoutPipe os = None"
    and "ted_FlushCallback d = Some cb" and "copies_end os"
  shows "\<exists>cmd buf. Execute os order d = Inr (snd (os_run os cmd), Some cmd, Some buf) \<and>
    cmd_Path cmd = choose_shell (ted_Task d) (s @ [nl]) \<and> cmd_Stdin cmd = s @ [nl] \<and>
    Inr (cmd_Env cmd) = command_env order (ted_Params d) \<and>
    (\<forall>b. subseq (of_stream b (tagged (concat (ob_delivered buf)))) (of_stream b (copied (fst (os_run os cmd))))) \<and>
    (copies_serially os \<longrightarrow> tagged (concat (ob_delivered buf)) = copied (fst (os_run os cmd)) \<and> ob_records buf = [])"
proof -
  obtain env where env: "command_env order (ted_Params d) = Inr env"
    using command_env_eq [OF assms(4)] by blast
  let ?cmd = "\<lparr>cmd_Path = choose_shell (ted_Task d) (s @ [nl]), cmd_Env = env, cmd_Stdin = s @ [nl]\<rparr>"
  obtain t where copies: "copying os (Some cb) ?cmd = Inr t" using assms(9) by (auto simp: copies_end_def)
  obtain t0 t1 t2 where times: "os_times os = (t0, t1, t2)" by (cases "os_times os")
  let ?buf = "OutputBuffer_Stop t1 t2 (wr_buf t)"
  have "Execute os order d = Inr (snd (os_run os ?cmd), Some ?cmd, Some ?buf)"
    using assms(1-8) env times copies by (auto simp: Execute_def CanExecute_def Let_def)
  with copying_delivers(1) [OF copies, of _ t1 t2] copying_delivers(2) [OF copies, of t1 t2] env show ?thesis by (intro exI [of _ ?cmd] exI [of _ ?buf]) simp
qed

text \<open>A crash of one of the goroutines is a crash of the process.\<close>

lemma Execute_crashes:
  assumes "CanExecute (ted_Task d)" and "Task_MustString (ted_Task d) = Inr s"
    and "length s < os_pipe_capacity os" and "range_order (ted_Params d) order"
    and "os_StdinPipe os = None" and "os_StderrPipe os = None" and "os_StdoutPipe os = None"
    and "\<forall>cmd. copying os (ted_FlushCallback d) cmd = Inl c"
  shows "Execute os order d = Inl c"
  using assms command_env_eq [OF assms(4)] by (auto simp: Execute_def CanExecute_def Let_def split: prod.split)

section \<open>Examples\<close>

definition example_script :: "string \<Rightarrow> defined_task" where
  "example_script s =
     \<lparr>task_Name = ''backup'', task_Description = [],
      task_Body = \<lparr>body_Value = quoted s, body_Type = TASK_TYPE_EXEC\<rparr>, task_Env = fmempty, task_Tags = [],
      task_Triggers = [], task_ID = 77, task_LastUpdated = 0, task_Disabled = False\<rparr>"

definition example_params :: "(string, goval) fmap" where
  "example_params = fmupd ''TASK_ID'' (VUUID 77) (fmupd ''TASK_NAME'' (VString ''backup'') fmempty)"

definition example_os :: os_env where
  "example_os =
     \<lparr>os_StdinPipe = None, os_StderrPipe = None, os_StdoutPipe = None, os_pipe_capacity = 65536,
      os_output = \<lambda>cmd b. if b then [] else ''ok'', os_run = \<lambda>cmd. (Copied False ''ok'' # replicate 4 (Wrote False 1), None),
      os_times = (0, 2, 2)\<rparr>"

lemma example_copies: "Copied False ''ok'' # replicate 4 (Wrote False 1) =
    [Copied False ''ok'', Wrote False 1, Wrote False 1, Wrote False 1, Wrote False 1]"
  by (simp add: eval_nat_numeral)

lemma example_os_copies: "copies_end example_os" "copies_serially example_os" "pipe_docs example_os"
  "copied (fst (os_run example_os cmd)) = [(SEVERITY_INFO, CHR ''o''), (SEVERITY_INFO, CHR ''k'')]" "snd (os_run example_os cmd) = None"
proof -
  note defs = example_os_def example_copies started_buffer_def writers_start_def writers_done_def OutputBuffer_Start_def NewOutputBuffer_def
  show "copies_end example_os" by (simp add: copies_end_def copying_Inr defs)
  show "copies_serially example_os" by (simp add: copies_serially_def defs)
  show "pipe_docs example_os" by (simp add: pipe_docs_def example_os_def example_copies of_stream_def)
qed (simp_all add: example_os_def example_copies)

lemma example_params_order: "range_order example_params [''TASK_ID'', ''TASK_NAME'']"
  by (auto simp: range_order_def example_params_def)

section \<open>Properties\<close>

text \<open>C23. The environment of a task: the loop never runs out of the slice, and the non-empty entries are exactly
  \<open>name=value\<close> for the string parameters, the \<open>int\<close> parameters in decimal, and, with an empty value, the parameters that
  \<open>json.Marshal\<close> refuses; the rest of the slice is empty strings.\<close>

theorem command_env_exact:
  assumes "range_order params order"
  shows "\<exists>env. command_env order params = Inr env \<and> length env = mlen params + 1 \<and>
    (\<forall>x. x \<in> set env \<and> x \<noteq> [] \<longleftrightarrow>
       (\<exists>p v. fmlookup params p = Some v \<and>
         (\<exists>s. v = VString s \<and> x = p @ ''='' @ s) \<or>
         (\<exists>n. fmlookup params p = Some (VInt n) \<and> x = p @ ''='' @ itoa n) \<or>
         (fmlookup params p = Some v \<and> marshal_fails v \<and> x = p @ ''='')))"
proof -
  let ?env = "env_entries params order @ replicate (mlen params + 1 - length (env_entries params order)) []"
  have len: "length (env_entries params order) \<le> mlen params"
    using env_entries_length [of params order] range_order_length [OF assms] by simp
  have "x \<in> set ?env \<and> x \<noteq> [] \<longleftrightarrow> x \<in> set (env_entries params order)" for x
    using env_entries_set [OF assms, of x] by auto
  moreover have "(\<exists>p v s. fmlookup params p = Some v \<and> param_string v = Some s \<and> x = p @ ''='' @ s) \<longleftrightarrow>
      (\<exists>p v. fmlookup params p = Some v \<and>
         (\<exists>s. v = VString s \<and> x = p @ ''='' @ s) \<or>
         (\<exists>n. fmlookup params p = Some (VInt n) \<and> x = p @ ''='' @ itoa n) \<or>
         (fmlookup params p = Some v \<and> marshal_fails v \<and> x = p @ ''=''))" for x
  proof
    assume "\<exists>p v s. fmlookup params p = Some v \<and> param_string v = Some s \<and> x = p @ ''='' @ s"
    then obtain p v s where *: "fmlookup params p = Some v" "param_string v = Some s" "x = p @ ''='' @ s" by blast
    then show "\<exists>p v. fmlookup params p = Some v \<and>
         (\<exists>s. v = VString s \<and> x = p @ ''='' @ s) \<or>
         (\<exists>n. fmlookup params p = Some (VInt n) \<and> x = p @ ''='' @ itoa n) \<or>
         (fmlookup params p = Some v \<and> marshal_fails v \<and> x = p @ ''='')"
      by (intro exI [of _ p] exI [of _ v]) (cases v; auto simp: param_string_def marshal_fails_def split: if_splits)
  next
    assume "\<exists>p v. fmlookup params p = Some v \<and>
         (\<exists>s. v = VString s \<and> x = p @ ''='' @ s) \<or>
         (\<exists>n. fmlookup params p = Some (VInt n) \<and> x = p @ ''='' @ itoa n) \<or>
         (fmlookup params p = Some v \<and> marshal_fails v \<and> x = p @ ''='')"
    then obtain p v where "fmlookup params p = Some v \<and> (\<exists>s. v = VString s \<and> x = p @ ''='' @ s) \<or>
         (\<exists>n. fmlookup params p = Some (VInt n) \<and> x = p @ ''='' @ itoa n) \<or>
         (fmlookup params p = Some v \<and> marshal_fails v \<and> x = p @ ''='')" by blast
    then show "\<exists>p v s. fmlookup params p = Some v \<and> param_string v = Some s \<and> x = p @ ''='' @ s"
    proof (elim disjE conjE exE)
      assume "fmlookup params p = Some v" "marshal_fails v" "x = p @ ''=''"
      then show ?thesis
        by (intro exI [of _ p] exI [of _ v] exI [of _ "[]"])
          (cases v; auto simp: param_string_def marshal_fails_def split: if_splits)
    qed (force simp: param_string_def)+
  qed
  ultimately show ?thesis
    using command_env_eq [OF assms] len env_entries_set [OF assms] by (intro exI [of _ ?env]) simp
qed

theorem command_env_exact_witness:
  "\<exists>env. command_env [''TASK_ID'', ''TASK_NAME''] example_params = Inr env \<and>
    ''TASK_NAME=backup'' \<in> set env"
proof -
  have "\<exists>p v. fmlookup example_params p = Some v \<and> (\<exists>s. v = VString s \<and> ''TASK_NAME=backup'' = p @ ''='' @ s)"
    by (intro exI [of _ "''TASK_NAME''"] exI [of _ "VString ''backup''"] conjI exI [of _ "''backup''"])
      (simp_all add: example_params_def)
  with command_env_exact [OF example_params_order] show ?thesis by blast
qed

text \<open>A parameter that is neither a string nor an \<open>int\<close> and that \<open>json.Marshal\<close> accepts (the task's identifier, the
  time of the trigger) is never passed to the task: no entry of the environment starts with its name and an equals sign, when
  no parameter name contains one.\<close>

theorem marshalled_params_dropped:
  assumes "range_order params order" and "fmlookup params p = Some v"
    and "\<not> marshal_fails v" and "\<not> (\<exists>s. v = VString s)" and "\<not> (\<exists>n. v = VInt n)"
    and "\<forall>q \<in> fmdom' params. CHR ''='' \<notin> set q"
  shows "\<exists>env. command_env order params = Inr env \<and> (\<forall>x \<in> set env. \<not> has_prefix x (p @ ''=''))"
proof -
  let ?env = "env_entries params order @ replicate (mlen params + 1 - length (env_entries params order)) []"
  have none: "param_string v = None" using assms(3-5)
    by (cases v) (auto simp: param_string_def marshal_fails_def)
  have "\<not> has_prefix x (p @ ''='')" if x: "x \<in> set ?env" for x
  proof
    assume "has_prefix x (p @ ''='')"
    then obtain r where r: "x = p @ ''='' @ r" by (auto simp: has_prefix_iff)
    then have "x \<in> set (env_entries params order)" using x by auto
    then obtain q u s where q: "fmlookup params q = Some u" "param_string u = Some s" "x = q @ ''='' @ s"
      using env_entries_set [OF assms(1)] by auto
    from assms(2,6) q(1) have "CHR ''='' \<notin> set p" "CHR ''='' \<notin> set q" by (auto simp: fmlookup_dom'_iff)
    then have "p = q" using char_prefix_split [of "CHR ''=''" p q r s] r q(3) by simp
    with q assms(2) none show False by simp
  qed
  with command_env_eq [OF assms(1)] show ?thesis by blast
qed

theorem marshalled_params_dropped_witness:
  "\<exists>env. command_env [''TASK_ID'', ''TASK_NAME''] example_params = Inr env \<and>
    (\<forall>x \<in> set env. \<not> has_prefix x (''TASK_ID'' @ ''=''))"
  by (rule marshalled_params_dropped [OF example_params_order, of _ "VUUID 77"])
    (simp_all add: example_params_def marshal_fails_def)

text \<open>C22. Running an executable task: when its body decodes, its script fits into a pipe, the pipes can be made and the goroutines that copy
  the output come to their end, \<open>Execute\<close> runs the chosen interpreter with the script and a final line feed on its standard input and returns
  the error of the process. Of what the process wrote to a stream the callback has received a part, in order and with the
  stream's severity. When no two calls of \<open>Write\<close> overlap, it has received exactly what the goroutines read before \<open>cmd.Run\<close> closed the
  pipes, in the order of the reads.\<close>

theorem Execute_runs:
  assumes "CanExecute (ted_Task d)" and "Task_MustString (ted_Task d) = Inr s"
    and "length s < os_pipe_capacity os" and "range_order (ted_Params d) order"
    and "os_StdinPipe os = None" and "os_StderrPipe os = None" and "os_StdoutPipe os = None"
    and "ted_FlushCallback d = Some cb" and "copies_end os" and "pipe_docs os"
  shows "\<exists>cmd buf. Execute os order d = Inr (snd (os_run os cmd), Some cmd, Some buf) \<and>
    cmd_Path cmd = choose_shell (ted_Task d) (s @ [nl]) \<and> cmd_Stdin cmd = s @ [nl] \<and>
    Inr (cmd_Env cmd) = command_env order (ted_Params d) \<and>
    (\<forall>b. subseq (of_stream b (tagged (concat (ob_delivered buf)))) (os_output os cmd b)) \<and>
    (copies_serially os \<longrightarrow> tagged (concat (ob_delivered buf)) = copied (fst (os_run os cmd)) \<and> ob_records buf = [])"
proof -
  have "subseq (of_stream b (copied (fst (os_run os cmd)))) (os_output os cmd b)" for b cmd
    using assms(10) by (auto simp: pipe_docs_def prefix_imp_subseq)
  with Execute_eq [OF assms(1-9)] show ?thesis by (metis subseq_order.order_trans)
qed

theorem Execute_runs_witness:
  "\<exists>cmd buf. Execute example_os [''TASK_ID'', ''TASK_NAME''] \<lparr>ted_Task = example_script ''ls'',
      ted_Params = example_params, ted_FlushCallback = Some 3\<rparr> = Inr (None, Some cmd, Some buf) \<and>
    cmd_Stdin cmd = ''ls'' @ [nl] \<and>
    tagged (concat (ob_delivered buf)) = [(SEVERITY_INFO, CHR ''o''), (SEVERITY_INFO, CHR ''k'')]"
proof -
  let ?d = "\<lparr>ted_Task = example_script ''ls'', ted_Params = example_params, ted_FlushCallback = Some 3\<rparr>"
  have "plain ''ls''" by (simp add: plain_def between_def dquote_def backslash_def)
  then have body: "Task_MustString (ted_Task ?d) = Inr ''ls''"
    by (simp add: Task_MustString_def example_script_def Unmarshal_def json_string_quoted)
  have can: "CanExecute (ted_Task ?d)" by (simp add: CanExecute_def example_script_def)
  have "length ''ls'' < os_pipe_capacity example_os" and "range_order (ted_Params ?d) [''TASK_ID'', ''TASK_NAME'']"
    and "os_StdinPipe example_os = None" and "os_StderrPipe example_os = None"
    and "os_StdoutPipe example_os = None" and "ted_FlushCallback ?d = Some 3"
    by (simp_all add: example_os_def example_params_order)
  from Execute_runs [OF can body this example_os_copies(1,3)] show ?thesis by (auto simp: example_os_copies)
qed

text \<open>A script that does not fit into a pipe is never run: \<open>Execute\<close> writes it before it starts the process that would
  read it, so the write blocks for ever.\<close>

theorem Execute_large_script_blocks:
  assumes "CanExecute (ted_Task d)" and "Task_MustString (ted_Task d) = Inr s"
    and "os_pipe_capacity os \<le> length s" and "range_order (ted_Params d) order"
    and "os_StdinPipe os = None"
  shows "Execute os order d = Inl Blocked"
  using assms command_env_eq [OF assms(4)] by (auto simp: Execute_def CanExecute_def Let_def)

theorem Execute_large_script_blocks_witness:
  "Execute (example_os\<lparr>os_pipe_capacity := 2\<rparr>) [''TASK_ID'', ''TASK_NAME''] \<lparr>ted_Task = example_script ''ls'',
      ted_Params = example_params, ted_FlushCallback = Some 3\<rparr> = Inl Blocked"
proof -
  have "plain ''ls''" by (simp add: plain_def between_def dquote_def backslash_def)
  then show ?thesis
    by (intro Execute_large_script_blocks [where s = "''ls''"])
      (simp_all add: CanExecute_def example_script_def Task_MustString_def Unmarshal_def json_string_quoted
        example_os_def example_params_order)
qed

end
