(* ===== verification/Sequence_DB.thy ===== *)
theory Sequence_DB
  imports Telephonist_Types "HOL-Library.List_Lexorder" "HOL-Library.Char_ord"
begin

text \<open>
  \<open>db/db.go\<close> and \<open>db/records.go\<close>: the records of sequences in a bbolt database. bbolt is an argument: a database state and its
  operations inside a transaction. \<open>bolt_docs\<close> says what its documentation promises and the code relies on. The
  JSON codec of the records is an argument; it decodes into an existing record.
\<close>

section \<open>Definitions\<close>

record sequence_record =
  sr_TaskID :: uuid
  sr_TaskName :: string
  sr_State :: string
  sr_OnlyLocal :: bool
  sr_BackendID :: string

text \<open>
  \<open>bo_CreateBucket\<close> takes whether the transaction is writable. \<open>bo_ForEach\<close> lists the pairs of a bucket in key order, and is
  \<open>None\<close> when there is no such bucket. \<open>bo_Commit\<close> ends an \<open>Update\<close>.
\<close>

record 'b bolt =
  bo_CreateBucket :: "bool \<Rightarrow> string \<Rightarrow> 'b \<Rightarrow> goerror option \<times> 'b"
  bo_Put :: "string \<Rightarrow> string \<Rightarrow> bytes \<Rightarrow> 'b \<Rightarrow> goerror option \<times> 'b"
  bo_Get :: "string \<Rightarrow> string \<Rightarrow> 'b \<Rightarrow> bytes option"
  bo_ForEach :: "string \<Rightarrow> 'b \<Rightarrow> (string \<times> bytes) list option"
  bo_Commit :: "'b \<Rightarrow> goerror option"

record record_codec =
  rc_Marshal :: "sequence_record \<Rightarrow> goerror + bytes"
  rc_Unmarshal :: "bytes \<Rightarrow> sequence_record \<Rightarrow> goerror option \<times> sequence_record"

text \<open>\<open>DB.Update\<close>: an error of the function or of the commit rolls everything back.\<close>

definition bolt_Update :: "'b bolt \<Rightarrow> ('b \<Rightarrow> goerror option \<times> 'b) \<Rightarrow> 'b \<Rightarrow> goerror option \<times> 'b" where
  "bolt_Update bo f db =
     (case f db of
        (Some err, db1) \<Rightarrow> (Some err, db)
      | (None, db1) \<Rightarrow> (case bo_Commit bo db1 of Some err \<Rightarrow> (Some err, db) | None \<Rightarrow> (None, db1)))"

definition putJSON ::
  "'b bolt \<Rightarrow> record_codec \<Rightarrow> string \<Rightarrow> string \<Rightarrow> sequence_record \<Rightarrow> 'b \<Rightarrow> goerror option \<times> 'b" where
  "putJSON bo rc bucket i data db =
     (case rc_Marshal rc data of
        Inl err \<Rightarrow> (Some err, db)
      | Inr jsonBytes \<Rightarrow>
          bolt_Update bo (\<lambda>tx.
            case bo_CreateBucket bo True bucket tx of
              (Some err, tx1) \<Rightarrow> (Some err, tx1)
            | (None, tx1) \<Rightarrow> bo_Put bo bucket i jsonBytes tx1) db)"

text \<open>\<open>getJSON\<close> works in a \<open>View\<close>, a read-only transaction: its changes are never kept.\<close>

definition getJSON ::
  "'b bolt \<Rightarrow> record_codec \<Rightarrow> string \<Rightarrow> string \<Rightarrow> sequence_record \<Rightarrow> 'b
   \<Rightarrow> bool \<times> goerror option \<times> sequence_record" where
  "getJSON bo rc bucketName i ptr db =
     (case bo_CreateBucket bo False bucketName db of
        (Some err, tx) \<Rightarrow> (True, Some err, ptr)
      | (None, tx) \<Rightarrow>
          (case bo_Get bo bucketName i tx of
             None \<Rightarrow> (False, None, ptr)
           | Some v \<Rightarrow> (case rc_Unmarshal rc v ptr of (err, ptr1) \<Rightarrow> (True, err, ptr1))))"

definition zero_record :: sequence_record where
  "zero_record = \<lparr>sr_TaskID = 0, sr_TaskName = [], sr_State = [], sr_OnlyLocal = False, sr_BackendID = []\<rparr>"

definition GetSequence ::
  "'b bolt \<Rightarrow> record_codec \<Rightarrow> string \<Rightarrow> 'b \<Rightarrow> sequence_record option \<times> goerror option" where
  "GetSequence bo rc i db =
     (case getJSON bo rc ''seq'' i zero_record db of
        (found, Some err, r) \<Rightarrow> (None, Some err)
      | (found, None, r) \<Rightarrow> if \<not> found then (None, None) else (Some r, None))"

definition PutSequence ::
  "'b bolt \<Rightarrow> record_codec \<Rightarrow> string \<Rightarrow> sequence_record \<Rightarrow> 'b \<Rightarrow> goerror option \<times> 'b" where
  "PutSequence bo rc i r db = putJSON bo rc ''seq'' i r db"

definition UpdateSequence ::
  "'b bolt \<Rightarrow> record_codec \<Rightarrow> string \<Rightarrow> (sequence_record \<Rightarrow> sequence_record) \<Rightarrow> 'b
   \<Rightarrow> bool \<times> goerror option \<times> 'b" where
  "UpdateSequence bo rc i update db =
     (case GetSequence bo rc i db of
        (r, Some err) \<Rightarrow> (False, Some err, db)
      | (None, None) \<Rightarrow> (False, None, db)
      | (Some r, None) \<Rightarrow> (case PutSequence bo rc i (update r) db of (err, db1) \<Rightarrow> (True, err, db1)))"

text \<open>
  \<open>mapRecordsUtil\<close> has one record variable for all rounds, and stops at the first value that does not decode. The result is
  the calls of \<open>iteration\<close>.
\<close>

fun map_records :: "record_codec \<Rightarrow> (string \<times> bytes) list \<Rightarrow> sequence_record \<Rightarrow> (string \<times> sequence_record) list" where
  "map_records rc [] r = []"
| "map_records rc ((k, v) # kvs) r =
     (case rc_Unmarshal rc v r of
        (Some err, r1) \<Rightarrow> []
      | (None, r1) \<Rightarrow> (k, r1) # map_records rc kvs r1)"

definition mapRecordsUtil :: "'b bolt \<Rightarrow> record_codec \<Rightarrow> string \<Rightarrow> 'b \<Rightarrow> (string \<times> sequence_record) list" where
  "mapRecordsUtil bo rc bucketName db =
     (case bo_ForEach bo bucketName db of None \<Rightarrow> [] | Some kvs \<Rightarrow> map_records rc kvs zero_record)"

definition IterateSequences :: "'b bolt \<Rightarrow> record_codec \<Rightarrow> 'b \<Rightarrow> (string \<times> sequence_record) list" where
  "IterateSequences bo rc db = mapRecordsUtil bo rc ''seq'' db"

definition FindLocalOnlySequences :: "'b bolt \<Rightarrow> record_codec \<Rightarrow> 'b \<Rightarrow> sequence_record list" where
  "FindLocalOnlySequences bo rc db = map snd (filter (\<lambda>(i, r). sr_OnlyLocal r) (IterateSequences bo rc db))"

subsection \<open>Documented behaviour\<close>

text \<open>
  A bucket cannot be created in a read-only transaction. In a writable one, creating a bucket and putting a pair succeed and change only
  that pair; the pairs of a bucket are listed in key order, each key once.
\<close>

definition bolt_pairs :: "'b bolt \<Rightarrow> string \<Rightarrow> 'b \<Rightarrow> (string \<times> bytes) list" where
  "bolt_pairs bo bucket db = (case bo_ForEach bo bucket db of None \<Rightarrow> [] | Some kvs \<Rightarrow> kvs)"

definition bolt_docs :: "'b bolt \<Rightarrow> bool" where
  "bolt_docs bo \<longleftrightarrow>
     (\<forall>bucket db. fst (bo_CreateBucket bo False bucket db) \<noteq> None) \<and>
     (\<forall>bucket db. \<exists>db1. bo_CreateBucket bo True bucket db = (None, db1) \<and> bo_ForEach bo bucket db1 \<noteq> None \<and>
        bolt_pairs bo bucket db1 = bolt_pairs bo bucket db) \<and>
     (\<forall>bucket k v db. bo_ForEach bo bucket db \<noteq> None \<longrightarrow>
        (\<exists>db1. bo_Put bo bucket k v db = (None, db1) \<and>
          map_of (bolt_pairs bo bucket db1) = (map_of (bolt_pairs bo bucket db))(k \<mapsto> v))) \<and>
     (\<forall>bucket db. distinct (map fst (bolt_pairs bo bucket db)))"

definition full_codec :: "record_codec \<Rightarrow> bool" where
  "full_codec rc \<longleftrightarrow> (\<forall>r. \<exists>b. rc_Marshal rc r = Inr b \<and> (\<forall>old. rc_Unmarshal rc b old = (None, r)))"

section \<open>Lemmas\<close>

lemma map_records_full:
  assumes "\<forall>(k, v) \<in> set kvs. \<exists>r. \<forall>old. rc_Unmarshal rc v old = (None, r)"
  shows "map_records rc kvs old = map (\<lambda>(k, v). (k, snd (rc_Unmarshal rc v zero_record))) kvs"
  using assms
proof (induction kvs arbitrary: old)
  case (Cons kv kvs)
  obtain k v where kv: "kv = (k, v)" by fastforce
  with Cons.prems obtain r where "\<forall>old. rc_Unmarshal rc v old = (None, r)" by auto
  with Cons kv show ?case by simp
qed simp

lemma map_of_map_values: "map_of (map (\<lambda>(k, v). (k, f v)) kvs) k = map_option f (map_of kvs k)"
  by (induction kvs) auto

definition decodable_pairs :: "record_codec \<Rightarrow> (string \<times> bytes) list \<Rightarrow> bool" where
  "decodable_pairs rc kvs \<longleftrightarrow> (\<forall>(k, v) \<in> set kvs. \<exists>r. \<forall>old. rc_Unmarshal rc v old = (None, r))"

lemma IterateSequences_map:
  assumes "decodable_pairs rc (bolt_pairs bo ''seq'' db)"
  shows "map_of (IterateSequences bo rc db) k =
    map_option (\<lambda>v. snd (rc_Unmarshal rc v zero_record)) (map_of (bolt_pairs bo ''seq'' db) k)"
proof -
  have "IterateSequences bo rc db =
      map (\<lambda>(k, v). (k, snd (rc_Unmarshal rc v zero_record))) (bolt_pairs bo ''seq'' db)"
    using assms map_records_full [of "bolt_pairs bo ''seq'' db" rc zero_record]
    by (auto simp: IterateSequences_def mapRecordsUtil_def bolt_pairs_def decodable_pairs_def split: option.split)
  then show ?thesis by (simp add: map_of_map_values)
qed

lemma PutSequence_pairs:
  assumes "bolt_docs bo" and "rc_Marshal rc r = Inr b" and "\<forall>db. bo_Commit bo db = None"
  shows "\<exists>db'. PutSequence bo rc i r db = (None, db') \<and>
    map_of (bolt_pairs bo ''seq'' db') = (map_of (bolt_pairs bo ''seq'' db))(i \<mapsto> b)"
proof -
  from assms(1) obtain db1 where db1: "bo_CreateBucket bo True ''seq'' db = (None, db1)"
    "bo_ForEach bo ''seq'' db1 \<noteq> None" "bolt_pairs bo ''seq'' db1 = bolt_pairs bo ''seq'' db"
    unfolding bolt_docs_def by metis
  with assms(1) obtain db2 where "bo_Put bo ''seq'' i b db1 = (None, db2)"
    "map_of (bolt_pairs bo ''seq'' db2) = (map_of (bolt_pairs bo ''seq'' db1))(i \<mapsto> b)"
    unfolding bolt_docs_def by metis
  with db1 assms(2,3) show ?thesis by (simp add: PutSequence_def putJSON_def bolt_Update_def)
qed

lemma decodable_map_of:
  "distinct (map fst kvs) \<Longrightarrow> decodable_pairs rc kvs \<longleftrightarrow>
     (\<forall>k v. map_of kvs k = Some v \<longrightarrow> (\<exists>r. \<forall>old. rc_Unmarshal rc v old = (None, r)))"
  by (auto simp: decodable_pairs_def)

section \<open>Examples\<close>

text \<open>A database as a map of buckets, each a map from keys to values.\<close>

type_synonym example_db = "(string, (string, bytes) fmap) fmap"

definition sorted_pairs :: "(string, bytes) fmap \<Rightarrow> (string \<times> bytes) list" where
  "sorted_pairs m = map (\<lambda>k. (k, the (fmlookup m k))) (sorted_list_of_fset (fmdom m))"

definition example_bolt :: "example_db bolt" where
  "example_bolt =
     \<lparr>bo_CreateBucket = \<lambda>writable bucket db.
        if \<not> writable then (Some (ErrText ''tx not writable''), db)
        else (None, fmupd bucket (nested db bucket) db),
      bo_Put = \<lambda>bucket k v db. (None, fmupd bucket (fmupd k v (nested db bucket)) db),
      bo_Get = \<lambda>bucket k db. fmlookup (nested db bucket) k,
      bo_ForEach = \<lambda>bucket db. map_option sorted_pairs (fmlookup db bucket),
      bo_Commit = \<lambda>db. None\<rparr>"

definition example_records :: record_codec where
  "example_records =
     \<lparr>rc_Marshal = \<lambda>r. Inr (if sr_OnlyLocal r then ''local'' else ''remote''),
      rc_Unmarshal = \<lambda>b old. (None, zero_record\<lparr>sr_OnlyLocal := (b = ''local'')\<rparr>)\<rparr>"

lemma map_of_sorted_pairs: "map_of (sorted_pairs m) = fmlookup m"
proof
  fix k
  have "map_of (map (\<lambda>k. (k, the (fmlookup m k))) ks) k = (if k \<in> set ks then Some (the (fmlookup m k)) else None)" for ks
    by (induction ks) auto
  moreover have "set (sorted_list_of_fset (fmdom m)) = fmdom' m"
    by (rule range_order_set) (rule sorted_range_order)
  ultimately show "map_of (sorted_pairs m) k = fmlookup m k"
    by (auto simp: sorted_pairs_def fmlookup_dom'_iff)
qed

lemma example_pairs: "map_of (bolt_pairs example_bolt bucket db) = fmlookup (nested db bucket)"
  by (auto simp: bolt_pairs_def example_bolt_def nested_def map_of_sorted_pairs split: option.split)

lemma distinct_sorted_pairs: "distinct (map fst (sorted_pairs m))"
proof -
  have "distinct (sorted_list_of_fset (fmdom m))" by (rule range_order_distinct) (rule sorted_range_order)
  then show ?thesis by (simp add: sorted_pairs_def comp_def)
qed

lemma example_bolt_docs: "bolt_docs example_bolt"
proof -
  have "distinct (map fst (bolt_pairs example_bolt bucket db))" for bucket db
    by (auto simp: bolt_pairs_def example_bolt_def distinct_sorted_pairs split: option.split)
  moreover have "bolt_pairs example_bolt bucket (fmupd bucket (nested db bucket) db) = bolt_pairs example_bolt bucket db"
    for bucket db
    by (auto simp: bolt_pairs_def example_bolt_def nested_def sorted_pairs_def sorted_list_of_fset.rep_eq split: option.split)
  moreover have "map_of (bolt_pairs example_bolt bucket (fmupd bucket (fmupd k v (nested db bucket)) db)) =
      (map_of (bolt_pairs example_bolt bucket db))(k \<mapsto> v)" for bucket k v db
    by (simp add: example_pairs nested_upd fun_eq_iff)
  ultimately show ?thesis by (simp add: bolt_docs_def) (simp add: example_bolt_def)
qed

section \<open>Properties\<close>

text \<open>No record can be read back: \<open>getJSON\<close> creates the bucket inside a read-only transaction, which bbolt refuses, so
  \<open>GetSequence\<close> fails for every identifier and \<open>UpdateSequence\<close> never updates anything.\<close>

theorem GetSequence_fails:
  assumes "bolt_docs bo"
  shows "\<exists>err. GetSequence bo rc i db = (None, Some err) \<and> UpdateSequence bo rc i update db = (False, Some err, db)"
proof -
  obtain err tx where "bo_CreateBucket bo False ''seq'' db = (Some err, tx)"
    using assms unfolding bolt_docs_def by (metis eq_fst_iff option.exhaust)
  then show ?thesis by (simp add: GetSequence_def UpdateSequence_def getJSON_def)
qed

theorem GetSequence_fails_witness:
  "GetSequence example_bolt example_records ''a'' fmempty = (None, Some (ErrText ''tx not writable'')) \<and>
    UpdateSequence example_bolt example_records ''a'' id fmempty = (False, Some (ErrText ''tx not writable''), fmempty)"
proof -
  have "GetSequence example_bolt example_records ''a'' fmempty = (None, Some (ErrText ''tx not writable''))"
    by (simp add: GetSequence_def getJSON_def example_bolt_def)
  with GetSequence_fails [OF example_bolt_docs, of example_records "''a''" fmempty id] show ?thesis by auto
qed

text \<open>\<open>PutSequence\<close> stores the record under its identifier and keeps all others, as the iteration over the
  records shows it, and the record is among the local ones exactly when it is marked so, as long as every stored value
  decodes.\<close>

theorem PutSequence_stores:
  assumes "bolt_docs bo" and "\<forall>db. bo_Commit bo db = None" and "decodable_pairs rc (bolt_pairs bo ''seq'' db)"
    and "rc_Marshal rc r = Inr b" and "\<forall>old. rc_Unmarshal rc b old = (None, r)"
  shows "\<exists>db'. PutSequence bo rc i r db = (None, db') \<and>
    map_of (IterateSequences bo rc db') = (map_of (IterateSequences bo rc db))(i \<mapsto> r) \<and>
    (sr_OnlyLocal r \<longrightarrow> r \<in> set (FindLocalOnlySequences bo rc db')) \<and>
    (\<forall>x \<in> set (FindLocalOnlySequences bo rc db'). sr_OnlyLocal x)"
proof -
  obtain db' where put: "PutSequence bo rc i r db = (None, db')"
    and pairs: "map_of (bolt_pairs bo ''seq'' db') = (map_of (bolt_pairs bo ''seq'' db))(i \<mapsto> b)"
    using PutSequence_pairs [OF assms(1,4,2)] by blast
  have dist: "distinct (map fst (bolt_pairs bo ''seq'' d))" for d using assms(1) by (simp add: bolt_docs_def)
  have dec: "decodable_pairs rc (bolt_pairs bo ''seq'' db')"
    using assms(3,5) by (auto simp: decodable_map_of [OF dist] pairs)
  have iter: "map_of (IterateSequences bo rc db') = (map_of (IterateSequences bo rc db))(i \<mapsto> r)"
    using assms(5) by (auto simp: IterateSequences_map [OF dec] IterateSequences_map [OF assms(3)] pairs)
  then have "(i, r) \<in> set (IterateSequences bo rc db')" by (auto intro: map_of_SomeD)
  with put iter show ?thesis by (force simp: FindLocalOnlySequences_def)
qed

theorem PutSequence_stores_witness:
  "\<exists>db'. PutSequence example_bolt example_records ''a'' (zero_record\<lparr>sr_OnlyLocal := True\<rparr>) fmempty = (None, db') \<and>
    zero_record\<lparr>sr_OnlyLocal := True\<rparr> \<in> set (FindLocalOnlySequences example_bolt example_records db')"
proof -
  have "decodable_pairs example_records (bolt_pairs example_bolt ''seq'' fmempty)"
    by (simp add: decodable_pairs_def bolt_pairs_def example_bolt_def)
  moreover have "\<forall>db. bo_Commit example_bolt db = None" by (simp add: example_bolt_def)
  ultimately show ?thesis
    using PutSequence_stores [OF example_bolt_docs, of example_records fmempty "zero_record\<lparr>sr_OnlyLocal := True\<rparr>"
        "''local''" "''a''"]
    by (auto simp: example_records_def)
qed

end
