(* ===== verification/App_Scheduler.thy ===== *)
theory App_Scheduler
  imports Agent_Tasks Shell_Executor Sequence_DB
begin

text \<open>
  \<open>scheduler.go\<close>: what the agent does when the server sends tasks and when a trigger fires. The state is the task
  scheduler (once there is one), the tasks in the configuration file and the contents that were handed to its
  \<open>Write\<close> (whose errors the code ignores), and the records put into the database. The world is the WebSocket
  client. The server's answers (to \<open>FinishSequence\<close>, as a function of its arguments), the text form of a UUID, and the operating system are arguments. \<open>pickT\<close> is the order in
  which \<open>range\<close> visits a map of tasks.
\<close>

section \<open>Definitions\<close>

definition VERSION :: string where "VERSION = ''0.1.1''"

record 'c app_scheduler =
  app_taskScheduler :: "'c task_scheduler option"
  app_Tasks :: "(uuid, defined_task) fmap"
  app_written :: "(uuid, defined_task) fmap list"
  app_hasDB :: bool
  app_sequences :: "(string \<times> sequence_record) list"

type_synonym pick_tasks = "(uuid, defined_task) fmap \<Rightarrow> uuid list"

text \<open>\<open>config.Write\<close>: the contents of the file are the current tasks.\<close>

definition config_Write :: "'c app_scheduler \<Rightarrow> 'c app_scheduler" where
  "config_Write a = a\<lparr>app_written := app_written a @ [app_Tasks a]\<rparr>"

definition getTasksMap :: "defined_task list \<Rightarrow> (uuid, defined_task) fmap" where
  "getTasksMap tasks = fold (\<lambda>task m. fmupd (task_ID task) task m) tasks fmempty"

definition getTasksArray :: "pick_tasks \<Rightarrow> (uuid, defined_task) fmap \<Rightarrow> defined_task list" where
  "getTasksArray pickT m = map (\<lambda>k. the (fmlookup m k)) (pickT m)"

definition onTask ::
  "('c, 'w) triggers_ops \<Rightarrow> pick_triggers \<Rightarrow> defined_task \<Rightarrow> 'c app_scheduler \<times> 'w
   \<Rightarrow> ('c app_scheduler \<times> 'w) outcome" where
  "onTask ops pick task aw =
     (case aw of (a, w) \<Rightarrow>
        (case app_taskScheduler a of
           None \<Rightarrow> Inl nil_dereference
         | Some ts \<Rightarrow>
             andThen (TS_Schedule ops pick task (ts, w)) (\<lambda>(err, ts1, w1).
               Inr (config_Write (a\<lparr>app_taskScheduler := Some ts1,
                      app_Tasks := fmupd (task_ID task) task (app_Tasks a)\<rparr>), w1))))"

definition onTaskRemoved :: "uuid \<Rightarrow> 'c app_scheduler \<Rightarrow> 'c app_scheduler" where
  "onTaskRemoved taskID a =
     (case fmlookup (app_Tasks a) taskID of
        Some task \<Rightarrow> config_Write (a\<lparr>app_Tasks := fmdrop taskID (app_Tasks a)\<rparr>)
      | None \<Rightarrow> a)"

text \<open>
  \<open>oldTasks\<close> is the map of the configuration itself, so the second loop also sees the tasks that the first one added;
  they are in \<open>newMap\<close>.
\<close>

definition onTasks ::
  "('c, 'w) triggers_ops \<Rightarrow> pick_triggers \<Rightarrow> pick_tasks \<Rightarrow> defined_task list \<Rightarrow> 'c app_scheduler \<times> 'w
   \<Rightarrow> ('c app_scheduler \<times> 'w) outcome" where
  "onTasks ops pick pickT tasks aw =
     (let newMap = getTasksMap tasks
      in andThen
           (mfold (\<lambda>k aw1. case fmlookup newMap k of
              None \<Rightarrow> Inr aw1
            | Some task \<Rightarrow> if \<not> CanExecute task then Inr aw1 else onTask ops pick task aw1) (pickT newMap) aw)
           (\<lambda>(a2, w2).
             let a3 = fold (\<lambda>k a. case fmlookup (app_Tasks a2) k of
                    None \<Rightarrow> a
                  | Some task \<Rightarrow>
                      if fmlookup newMap k = None then onTaskRemoved (task_ID task) a else a)
                    (pickT (app_Tasks a2)) a2
             in Inr (config_Write (a3\<lparr>app_Tasks := newMap\<rparr>), w2)))"

definition App_Stop ::
  "('c, ws_client) triggers_ops \<Rightarrow> 'c app_scheduler \<times> ws_client
   \<Rightarrow> ('c app_scheduler \<times> ws_client) outcome" where
  "App_Stop ops aw =
     (case aw of (a, w) \<Rightarrow>
        (case app_taskScheduler a of
           None \<Rightarrow> Inr (a, w)
         | Some ts \<Rightarrow>
             andThen (TS_Stop ops (ts, w)) (\<lambda>(ts1, w1).
               andThen (Stop w1) (\<lambda>w2. Inr (a\<lparr>app_taskScheduler := Some ts1\<rparr>, w2)))))"

definition SyncConfig :: "ws_client \<Rightarrow> (goerror option \<times> ws_client) outcome" where
  "SyncConfig w = SendTasksSync w"

text \<open>\<open>onTrigger\<close> starts \<open>executeTask\<close> in a goroutine, for a task the executor accepts.\<close>

definition App_onTrigger :: "task_triggered_event \<Rightarrow> task_triggered_event option" where
  "App_onTrigger event = (if \<not> CanExecute (tte_Task event) then None else Some event)"

text \<open>The parameters of an execution: those of the trigger, over them those of the task, over them the agent's own.\<close>

definition execution_params ::
  "(uuid \<Rightarrow> string) \<Rightarrow> string \<Rightarrow> task_triggered_event \<Rightarrow> (string, goval) fmap" where
  "execution_params uuid_String sequenceID event =
     fmupd ''TELEPHONIST_TASK_ID'' (VString (uuid_String (task_ID (tte_Task event))))
       (fmupd ''TELEPHONIST_TASK_NAME'' (VString (task_Name (tte_Task event)))
         (fmupd ''TELEPHONIST_SEQUENCE_ID'' (VString sequenceID)
           (fmupd ''TELEPHONIST_AGENT'' (VString (''TelephonistAgent '' @ VERSION))
             (te_Params (tte_TriggerEvent event) ++\<^sub>f tte_Params event))))"

record server_env =
  sv_CreateSequence :: "goerror + string"
  sv_FinishSequence :: "string \<Rightarrow> string option \<Rightarrow> goerror option"
  sv_internalID :: string
  sv_uuid_String :: "uuid \<Rightarrow> string"

text \<open>
  \<open>executeTask\<close>: the sequence on the server, the record in the database, then the run, whose log records are sent as
  they are flushed. A failed \<open>CreateSequence\<close> returns a nil pointer, which is read all the same. \<open>sendLogs\<close> is the identity of
  the callback.
\<close>

definition SEQUENCE_IN_PROGRESS :: string where "SEQUENCE_IN_PROGRESS = ''in_progress''"

definition executeTask ::
  "server_env \<Rightarrow> os_env \<Rightarrow> ((string, goval) fmap \<Rightarrow> string list) \<Rightarrow> func \<Rightarrow> task_triggered_event
   \<Rightarrow> 'c app_scheduler \<times> ws_client \<Rightarrow> (goerror option \<times> 'c app_scheduler \<times> ws_client) outcome" where
  "executeTask sv os pickP sendLogs event aw =
     (case aw of (a, w) \<Rightarrow>
        let seq = (case sv_CreateSequence sv of Inl err \<Rightarrow> None | Inr i \<Rightarrow> Some i);
            rec = \<lparr>sr_TaskID = task_ID (tte_Task event), sr_TaskName = task_Name (tte_Task event),
                   sr_State = SEQUENCE_IN_PROGRESS, sr_OnlyLocal = (seq = None),
                   sr_BackendID = (case seq of None \<Rightarrow> [] | Some i \<Rightarrow> i)\<rparr>;
            a1 = (if app_hasDB a then a\<lparr>app_sequences := app_sequences a @ [(sv_internalID sv, rec)]\<rparr> else a)
        in case seq of
             None \<Rightarrow> Inl nil_dereference
           | Some sequenceID \<Rightarrow>
               (let params = execution_params (sv_uuid_String sv) sequenceID event
                in andThen (Execute os (pickP params)
                     \<lparr>ted_Task = tte_Task event, ted_Params = params, ted_FlushCallback = Some sendLogs\<rparr>)
                     (\<lambda>(err, cmd, buf).
                       let flushed = (case buf of None \<Rightarrow> [] | Some b \<Rightarrow> ob_delivered b)
                       in andThen
                            (mfold (\<lambda>lr w1. andThen
                               (SendLogs \<lparr>lm_SequenceID = sequenceID, lm_Logs = lr\<rparr> w1) (\<lambda>(e1, w2). Inr w2))
                               flushed w)
                            (\<lambda>w1. Inr (map_option (ChainError ''failed to finish sequence'')
                               (sv_FinishSequence sv sequenceID (map_option error_string err)), a1, w1)))))"

section \<open>Lemmas\<close>

definition ts_defined :: "'c task_scheduler \<Rightarrow> uuid \<Rightarrow> defined_task option" where
  "ts_defined e k = map_option st_DefinedTask (fmlookup (ts_tasks e) k)"

lemma updateTrigger_defined:
  assumes "updateTrigger ops k t (e, w) = Inr (r, e', w')"
  shows "ts_defined e' j = ts_defined e j"
  using assms by (cases rule: updateTrigger_cases) (auto simp: ts_defined_def)

lemma removeTrigger_defined:
  assumes "removeTrigger ops k i (e, w) = Inr (e', w')"
  shows "ts_defined e' j = ts_defined e j"
  using removeTrigger_registered [OF assms] by (simp add: ts_defined_def)

text \<open>Scheduling a task puts its definition on the books and takes no task off.\<close>

lemma TS_Schedule_defined:
  assumes "TS_Schedule ops pick task (e, w) = Inr (r, e', w')"
  shows "ts_defined e' k = (if k = task_ID task then Some task else ts_defined e k)"
proof -
  let ?st = "case fmlookup (ts_tasks e) (task_ID task) of
      None \<Rightarrow> \<lparr>st_DefinedTask = task, st_ScheduledTriggers = fmempty\<rparr> | Some t \<Rightarrow> t\<lparr>st_DefinedTask := task\<rparr>"
  let ?e1 = "e\<lparr>ts_tasks := fmupd (task_ID task) ?st (ts_tasks e)\<rparr>"
  let ?P = "\<lambda>s :: 'a task_scheduler \<times> 'b. ts_defined (fst s) k = ts_defined ?e1 k"
  obtain new e2 w2 xs where
    run: "update_triggers ops (task_ID task) (task_Triggers task) (?e1, w) = Inr (new, e2, w2)"
    and loop: "mfold (\<lambda>i ew3. if fmlookup new i = None then removeTrigger ops (task_ID task) i ew3
      else Inr ew3) xs (e2, w2) = Inr (e', w')"
  proof (cases "fmlookup (ts_tasks e) (task_ID task)")
    case None
    with assms obtain new where "update_triggers ops (task_ID task) (task_Triggers task) (?e1, w) = Inr (new, e', w')"
      by (auto simp: TS_Schedule_def andThen_Inr_iff)
    then show thesis using that [of new e' w' "[]"] by simp
  next
    case (Some t)
    with assms show thesis
      using that by (auto simp: TS_Schedule_def Let_def andThen_Inr_iff)
  qed
  have e2: "?P (e2, w2)"
    using run by (rule update_triggers_invariant [where P = ?P]) (simp_all add: updateTrigger_defined)
  have "?P (e', w')"
    using loop e2
  proof (rule mfold_invariant [where P = ?P])
    fix i s s' assume "?P s"
      and "(if fmlookup new i = None then removeTrigger ops (task_ID task) i s else Inr s) = Inr s'"
    then show "?P s'"
      by (cases s; cases s') (auto simp: removeTrigger_defined split: if_splits)
  qed
  moreover have "ts_defined ?e1 k = (if k = task_ID task then Some task else ts_defined e k)"
    by (simp add: ts_defined_def split: option.split)
  ultimately show ?thesis by simp
qed

lemma getTasksMap_ID: "fmlookup (getTasksMap tasks) k = Some t \<Longrightarrow> task_ID t = k"
proof -
  have "fmlookup (fold (\<lambda>task m. fmupd (task_ID task) task m) tasks m) k = Some t \<Longrightarrow>
      \<forall>k t. fmlookup m k = Some t \<longrightarrow> task_ID t = k \<Longrightarrow> task_ID t = k" for m
    by (induction tasks arbitrary: m) (auto split: if_splits)
  then show "fmlookup (getTasksMap tasks) k = Some t \<Longrightarrow> task_ID t = k"
    by (auto simp: getTasksMap_def)
qed

lemma onTask_returns_state:
  assumes "onTask ops pick task (a, w) = Inr (a', w')" and "app_taskScheduler a = Some ts"
  shows "\<exists>ts'. app_taskScheduler a' = Some ts' \<and>
    (\<forall>k. ts_defined ts' k = (if k = task_ID task then Some task else ts_defined ts k))"
proof -
  from assms obtain r ts' w1 where run: "TS_Schedule ops pick task (ts, w) = Inr (r, ts', w1)"
    and "a' = config_Write (a\<lparr>app_taskScheduler := Some ts',
                      app_Tasks := fmupd (task_ID task) task (app_Tasks a)\<rparr>)"
    by (auto simp: onTask_def andThen_Inr_iff)
  with TS_Schedule_defined [OF run] show ?thesis by (auto simp: config_Write_def)
qed

lemma onTasks_loop:
  assumes "mfold (\<lambda>k aw1. case fmlookup m k of
              None \<Rightarrow> Inr aw1
            | Some task \<Rightarrow> if \<not> CanExecute task then Inr aw1 else onTask ops pick task aw1) ks (a, w) =
      Inr (a', w')"
    and "app_taskScheduler a = Some ts" and "\<forall>k t. fmlookup m k = Some t \<longrightarrow> task_ID t = k"
  shows "\<exists>ts'. app_taskScheduler a' = Some ts' \<and>
    (\<forall>k. ts_defined ts' k = (case fmlookup m k of
       None \<Rightarrow> ts_defined ts k
     | Some t \<Rightarrow> if CanExecute t \<and> k \<in> set ks then Some t else ts_defined ts k))"
  using assms(1,2)
proof (induction ks arbitrary: a w ts)
  case Nil
  then show ?case by (auto split: option.split)
next
  case (Cons x xs)
  from Cons.prems(1) obtain a1 w1 where
    step: "(case fmlookup m x of None \<Rightarrow> Inr (a, w)
      | Some task \<Rightarrow> if \<not> CanExecute task then Inr (a, w) else onTask ops pick task (a, w)) = Inr (a1, w1)"
    and rest: "mfold (\<lambda>k aw1. case fmlookup m k of
              None \<Rightarrow> Inr aw1
            | Some task \<Rightarrow> if \<not> CanExecute task then Inr aw1 else onTask ops pick task aw1) xs (a1, w1) =
      Inr (a', w')"
    by (auto simp: andThen_Inr_iff)
  have "\<exists>ts1. app_taskScheduler a1 = Some ts1 \<and> (\<forall>k. ts_defined ts1 k = (case fmlookup m k of
       None \<Rightarrow> ts_defined ts k
     | Some t \<Rightarrow> if CanExecute t \<and> k = x then Some t else ts_defined ts k))"
  proof (cases "fmlookup m x")
    case None
    with step Cons.prems(2) show ?thesis by (auto split: option.split)
  next
    case (Some t)
    show ?thesis
    proof (cases "CanExecute t")
      case True
      with step Some have "onTask ops pick t (a, w) = Inr (a1, w1)" by simp
      from onTask_returns_state [OF this Cons.prems(2)] assms(3) Some True
      show ?thesis by (fastforce split: option.split)
    next
      case False
      with step Some Cons.prems(2) show ?thesis by (auto split: option.split)
    qed
  qed
  then obtain ts1 where ts1: "app_taskScheduler a1 = Some ts1"
    "\<And>k. ts_defined ts1 k = (case fmlookup m k of
       None \<Rightarrow> ts_defined ts k
     | Some t \<Rightarrow> if CanExecute t \<and> k = x then Some t else ts_defined ts k)" by blast
  from Cons.IH [OF rest ts1(1)] obtain ts' where ts': "app_taskScheduler a' = Some ts'"
    "\<And>k. ts_defined ts' k = (case fmlookup m k of
       None \<Rightarrow> ts_defined ts1 k
     | Some t \<Rightarrow> if CanExecute t \<and> k \<in> set xs then Some t else ts_defined ts1 k)" by blast
  have "ts_defined ts' k = (case fmlookup m k of
       None \<Rightarrow> ts_defined ts k
     | Some t \<Rightarrow> if CanExecute t \<and> k \<in> set (x # xs) then Some t else ts_defined ts k)" for k
    using ts1(2) [of k] ts'(2) [of k] by (cases "fmlookup m k") auto
  with ts'(1) show ?case by blast
qed

lemma onTaskRemoved_scheduler [simp]: "app_taskScheduler (onTaskRemoved k a) = app_taskScheduler a"
  by (simp add: onTaskRemoved_def config_Write_def split: option.split)

lemma removed_loop_scheduler:
  "app_taskScheduler (fold (\<lambda>k a. case fmlookup m k of
       None \<Rightarrow> a | Some task \<Rightarrow> if P k then onTaskRemoved (task_ID task) a else a) ks a) = app_taskScheduler a"
  by (induction ks arbitrary: a) (auto split: option.split)

text \<open>On a live connection the logs go into the channel one after another.\<close>

lemma SendLogs_loop:
  assumes "ws_state w = StateConnected" and "chan_live (ws_sendMessages w)"
  shows "\<exists>w'. mfold (\<lambda>lr w1. andThen (SendLogs \<lparr>lm_SequenceID = s, lm_Logs = lr\<rparr> w1) (\<lambda>(e1, w2). Inr w2)) lrs w =
      Inr w' \<and>
    chan_log (ws_sendMessages w') = chan_log (ws_sendMessages w) @
      map (\<lambda>lr. \<lparr>o_MessageType = ''send_log'', o_Data = DLogs \<lparr>lm_SequenceID = s, lm_Logs = lr\<rparr>\<rparr>) lrs \<and>
    ws_state w' = StateConnected \<and> server_subscriptions w' = server_subscriptions w"
  using assms
proof (induction lrs arbitrary: w)
  case Nil
  then show ?case by simp
next
  case (Cons lr lrs)
  let ?m = "\<lparr>o_MessageType = ''send_log'', o_Data = DLogs \<lparr>lm_SequenceID = s, lm_Logs = lr\<rparr>\<rparr>"
  obtain w1 where w1: "ws_send ?m w = Inr w1" using ws_send_returns [OF Cons.prems(2)] by blast
  have "ws_state w1 = StateConnected" using w1 Cons.prems(1) by (auto simp: ws_send_def andThen_Inr_iff)
  moreover have "server_subscriptions w1 = server_subscriptions w" using ws_send_server [OF w1] by (simp add: server_step_def)
  ultimately show ?case using Cons.IH [OF _ ws_send_live [OF w1]] w1 Cons.prems(1)
    by (auto simp: SendLogs_def SendWebsocketMessage_def ws_send_def andThen_Inr_iff dest: chan_send_log)
qed

text \<open>Running a task whose sequence was created.\<close>

lemma executeTask_runs:
  assumes "sv_CreateSequence sv = Inr sid" and "CanExecute (tte_Task event)"
    and "Task_MustString (tte_Task event) = Inr s" and "length s < os_pipe_capacity os"
    and "\<forall>m. range_order m (pickP m)"
    and "os_StdinPipe os = None" and "os_StderrPipe os = None" and "os_StdoutPipe os = None"
    and "ws_state w = StateConnected" and "chan_live (ws_sendMessages w)" and "copies_end os"
  shows "\<exists>cmd lrs w' a'. executeTask sv os pickP cb event (a, w) =
      Inr (map_option (ChainError ''failed to finish sequence'')
        (sv_FinishSequence sv sid (map_option error_string (snd (os_run os cmd)))), a', w') \<and>
    (app_hasDB a \<longrightarrow> (\<exists>rec. app_sequences a' = app_sequences a @ [(sv_internalID sv, rec)] \<and>
       sr_BackendID rec = sid \<and> sr_TaskID rec = task_ID (tte_Task event) \<and> \<not> sr_OnlyLocal rec)) \<and>
    (\<not> app_hasDB a \<longrightarrow> app_sequences a' = app_sequences a) \<and>
    ''TELEPHONIST_SEQUENCE_ID='' @ sid \<in> set (cmd_Env cmd) \<and>
    ''TELEPHONIST_TASK_NAME='' @ task_Name (tte_Task event) \<in> set (cmd_Env cmd) \<and>
    cmd_Stdin cmd = s @ [nl] \<and>
    (\<forall>b. subseq (of_stream b (tagged (concat lrs))) (of_stream b (copied (fst (os_run os cmd))))) \<and>
    (copies_serially os \<longrightarrow> tagged (concat lrs) = copied (fst (os_run os cmd))) \<and>
    chan_log (ws_sendMessages w') = chan_log (ws_sendMessages w) @
      map (\<lambda>lr. \<lparr>o_MessageType = ''send_log'', o_Data = DLogs \<lparr>lm_SequenceID = sid, lm_Logs = lr\<rparr>\<rparr>) lrs \<and>
    (\<forall>p v. fmlookup (execution_params (sv_uuid_String sv) sid event) p = Some (VString v) \<longrightarrow> p @ ''='' @ v \<in> set (cmd_Env cmd)) \<and>
    ws_state w' = StateConnected \<and> server_subscriptions w' = server_subscriptions w"
proof -
  let ?params = "execution_params (sv_uuid_String sv) sid event"
  let ?d = "\<lparr>ted_Task = tte_Task event, ted_Params = ?params, ted_FlushCallback = Some cb\<rparr>"
  have order: "range_order ?params (pickP ?params)" using assms(5) by blast
  from Execute_eq [of ?d s os "pickP ?params" cb] assms order obtain cmd buf where
    run: "Execute os (pickP ?params) ?d = Inr (snd (os_run os cmd), Some cmd, Some buf)"
    and cmd: "cmd_Stdin cmd = s @ [nl]" "Inr (cmd_Env cmd) = command_env (pickP ?params) ?params"
    and out: "\<forall>b. subseq (of_stream b (tagged (concat (ob_delivered buf)))) (of_stream b (copied (fst (os_run os cmd))))"
      "copies_serially os \<longrightarrow> tagged (concat (ob_delivered buf)) = copied (fst (os_run os cmd))"
    by auto
  from SendLogs_loop [OF assms(9,10), of sid "ob_delivered buf"] obtain w' where
    logs: "mfold (\<lambda>lr w1. andThen (SendLogs \<lparr>lm_SequenceID = sid, lm_Logs = lr\<rparr> w1) (\<lambda>(e1, w2). Inr w2))
      (ob_delivered buf) w = Inr w'"
    and sent: "chan_log (ws_sendMessages w') = chan_log (ws_sendMessages w) @
      map (\<lambda>lr. \<lparr>o_MessageType = ''send_log'', o_Data = DLogs \<lparr>lm_SequenceID = sid, lm_Logs = lr\<rparr>\<rparr>)
        (ob_delivered buf)" and same: "ws_state w' = StateConnected" "server_subscriptions w' = server_subscriptions w" by blast
  have env: "p @ ''='' @ v \<in> set (cmd_Env cmd)" if "fmlookup ?params p = Some (VString v)" for p v
  proof -
    have "param_string (VString v) = Some v" by (simp add: param_string_def)
    with that have "p @ ''='' @ v \<in> set (env_entries ?params (pickP ?params))"
      using env_entries_set [OF order] by blast
    then show ?thesis using cmd(2) command_env_eq [OF order] by simp
  qed
  let ?a = "(if app_hasDB a then a\<lparr>app_sequences := app_sequences a @ [(sv_internalID sv,
           \<lparr>sr_TaskID = task_ID (tte_Task event), sr_TaskName = task_Name (tte_Task event),
            sr_State = SEQUENCE_IN_PROGRESS, sr_OnlyLocal = False, sr_BackendID = sid\<rparr>)]\<rparr> else a)"
  have "executeTask sv os pickP cb event (a, w) =
      Inr (map_option (ChainError ''failed to finish sequence'')
        (sv_FinishSequence sv sid (map_option error_string (snd (os_run os cmd)))), ?a, w')"
    using run logs assms(1) by (simp add: executeTask_def Let_def)
  moreover have "''TELEPHONIST_SEQUENCE_ID='' @ sid \<in> set (cmd_Env cmd)"
    using env [of "''TELEPHONIST_SEQUENCE_ID''" sid] by (simp add: execution_params_def)
  moreover have "''TELEPHONIST_TASK_NAME='' @ task_Name (tte_Task event) \<in> set (cmd_Env cmd)"
    using env [of "''TELEPHONIST_TASK_NAME''" "task_Name (tte_Task event)"] by (simp add: execution_params_def)
  ultimately show ?thesis using cmd(1) out sent env same
    by (intro exI [of _ cmd] exI [of _ "ob_delivered buf"] exI [of _ w'] exI [of _ ?a]) simp
qed

section \<open>Examples\<close>

definition pick_tasks_sorted :: pick_tasks where
  "pick_tasks_sorted m = sorted_list_of_fset (fmdom m)"

definition example_app :: "event_scheduler app_scheduler" where
  "example_app = \<lparr>app_taskScheduler = Some ts_one, app_Tasks = fmupd 1 (example_task 1 [login]) fmempty,
     app_written = [], app_hasDB = True, app_sequences = []\<rparr>"

definition pick_params :: "(string, goval) fmap \<Rightarrow> string list" where
  "pick_params m = sorted_list_of_fset (fmdom m)"

lemma pick_params_order: "range_order m (pick_params m)"
  by (simp add: pick_params_def sorted_range_order)

definition example_server :: server_env where
  "example_server = \<lparr>sv_CreateSequence = Inr ''s1'', sv_FinishSequence = \<lambda>_ _. None, sv_internalID = ''i1'',
     sv_uuid_String = \<lambda>_. ''u''\<rparr>"

definition example_run :: task_triggered_event where
  "example_run = \<lparr>tte_TriggerEvent = \<lparr>te_TriggerID = trigger_id login, te_Trigger = login, te_Params = fmempty\<rparr>,
     tte_Task = example_script ''ls'', tte_Params = fmempty\<rparr>"

lemma example_run_fine:
  "CanExecute (tte_Task example_run)" "Task_MustString (tte_Task example_run) = Inr ''ls''"
  "length ''ls'' < os_pipe_capacity example_os" "\<forall>m. range_order m (pick_params m)"
  "os_StdinPipe example_os = None" "os_StderrPipe example_os = None" "os_StdoutPipe example_os = None"
  "ws_state example_client = StateConnected" "chan_live (ws_sendMessages example_client)" "copies_end example_os"
proof -
  have "plain ''ls''" by (simp add: plain_def between_def dquote_def backslash_def)
  then show "Task_MustString (tte_Task example_run) = Inr ''ls''"
    by (simp add: Task_MustString_def example_script_def Unmarshal_def json_string_quoted example_run_def)
  show "copies_end example_os" by (rule example_os_copies)
qed (simp_all add: CanExecute_def example_script_def example_run_def example_os_def pick_params_order example_client_def)

section \<open>Properties\<close>

text \<open>A list of tasks from the server becomes the contents of the configuration, which is written last, and every
  task of the list that the executor accepts is on the scheduler in its new version. Nothing is ever taken off the
  scheduler: a task that the list no longer has is deleted from the configuration and stays scheduled.\<close>

theorem onTasks_scheduled:
  assumes "app_taskScheduler a = Some ts" and "onTasks ops pick pickT tasks (a, w) = Inr (a', w')"
    and "\<forall>m. range_order m (pickT m)"
  shows "app_Tasks a' = getTasksMap tasks \<and> last (app_written a') = getTasksMap tasks \<and>
    (\<exists>ts'. app_taskScheduler a' = Some ts' \<and>
      (\<forall>k. ts_defined ts' k = (case fmlookup (getTasksMap tasks) k of
         Some t \<Rightarrow> if CanExecute t then Some t else ts_defined ts k
       | None \<Rightarrow> ts_defined ts k)))"
proof -
  let ?m = "getTasksMap tasks"
  from assms(2) obtain a2 a3 where
    loop: "mfold (\<lambda>k aw1. case fmlookup ?m k of
              None \<Rightarrow> Inr aw1
            | Some task \<Rightarrow> if \<not> CanExecute task then Inr aw1 else onTask ops pick task aw1) (pickT ?m) (a, w) =
      Inr (a2, w')"
    and a3: "a3 = fold (\<lambda>k a. case fmlookup (app_Tasks a2) k of
                    None \<Rightarrow> a
                  | Some task \<Rightarrow>
                      if fmlookup ?m k = None then onTaskRemoved (task_ID task) a else a)
                    (pickT (app_Tasks a2)) a2"
    and a': "a' = config_Write (a3\<lparr>app_Tasks := ?m\<rparr>)"
    by (auto simp: onTasks_def Let_def andThen_Inr_iff)
  have "\<forall>k t. fmlookup ?m k = Some t \<longrightarrow> task_ID t = k" by (simp add: getTasksMap_ID)
  from onTasks_loop [OF loop assms(1) this] obtain ts' where ts': "app_taskScheduler a2 = Some ts'"
    "\<forall>k. ts_defined ts' k = (case fmlookup ?m k of
       None \<Rightarrow> ts_defined ts k
     | Some t \<Rightarrow> if CanExecute t \<and> k \<in> set (pickT ?m) then Some t else ts_defined ts k)"
    by blast
  have "app_taskScheduler a3 = Some ts'" unfolding a3 using ts'(1) by (simp add: removed_loop_scheduler)
  moreover have "ts_defined ts' k = (case fmlookup ?m k of
         Some t \<Rightarrow> if CanExecute t then Some t else ts_defined ts k
       | None \<Rightarrow> ts_defined ts k)" for k
    using ts'(2) range_order_lookup [of ?m "pickT ?m" k] assms(3) by (cases "fmlookup ?m k") auto
  ultimately show ?thesis by (simp add: a' config_Write_def)
qed

theorem onTasks_scheduled_witness:
  "\<exists>a' ts'. onTasks event_ops pick_sorted pick_tasks_sorted [] (example_app, example_client) = Inr (a', example_client) \<and>
    app_Tasks a' = fmempty \<and> app_taskScheduler a' = Some ts' \<and> ts_defined ts' 1 = Some (example_task 1 [login])"
proof -
  obtain a' where run: "onTasks event_ops pick_sorted pick_tasks_sorted [] (example_app, example_client) =
      Inr (a', example_client)"
    by (simp add: onTasks_def getTasksMap_def pick_tasks_sorted_def Let_def sorted_list_of_fset.rep_eq)
  have "range_order m (pick_tasks_sorted m)" for m
    by (simp add: pick_tasks_sorted_def sorted_range_order)
  moreover have "app_taskScheduler example_app = Some ts_one" by (simp add: example_app_def)
  moreover have "ts_defined ts_one 1 = Some (example_task 1 [login])" by (simp add: ts_defined_def ts_one_def)
  ultimately show ?thesis using onTasks_scheduled [OF _ run, of ts_one] run by (auto simp: getTasksMap_def)
qed

text \<open>C12. Running a task the executor accepts, whose script can be decoded and fits into a pipe, when the server gives it a sequence, the pipes can
  be made, the goroutines that copy the output come to their end, the connection is up and nothing else uses it meanwhile: the process
  runs with the script on its standard input and with the identifier of the sequence and the name of the task in its environment; the batches
  of log records are queued for the server in order and under that sequence; they hold, of each stream, a part of what was read
  from its pipe, in order, and all that was read when no two calls of \<open>Write\<close> overlap; the end is reported. The sequence gets a record in
  the database when the scheduler was given one, which \<open>app.go\<close> never does, and none otherwise.\<close>

theorem executeTask_success:
  assumes "sv_CreateSequence sv = Inr sid" and "CanExecute (tte_Task event)"
    and "Task_MustString (tte_Task event) = Inr s" and "length s < os_pipe_capacity os"
    and "\<forall>m. range_order m (pickP m)"
    and "os_StdinPipe os = None" and "os_StderrPipe os = None" and "os_StdoutPipe os = None"
    and "ws_state w = StateConnected" and "chan_live (ws_sendMessages w)" and "copies_end os"
  shows "\<exists>cmd lrs w' a'. executeTask sv os pickP cb event (a, w) =
      Inr (map_option (ChainError ''failed to finish sequence'')
        (sv_FinishSequence sv sid (map_option error_string (snd (os_run os cmd)))), a', w') \<and>
    (app_hasDB a \<longrightarrow> (\<exists>rec. app_sequences a' = app_sequences a @ [(sv_internalID sv, rec)] \<and>
       sr_BackendID rec = sid \<and> sr_TaskID rec = task_ID (tte_Task event) \<and> \<not> sr_OnlyLocal rec)) \<and>
    (\<not> app_hasDB a \<longrightarrow> app_sequences a' = app_sequences a) \<and>
    ''TELEPHONIST_SEQUENCE_ID='' @ sid \<in> set (cmd_Env cmd) \<and>
    ''TELEPHONIST_TASK_NAME='' @ task_Name (tte_Task event) \<in> set (cmd_Env cmd) \<and>
    cmd_Stdin cmd = s @ [nl] \<and>
    (\<forall>b. subseq (of_stream b (tagged (concat lrs))) (of_stream b (copied (fst (os_run os cmd))))) \<and>
    (copies_serially os \<longrightarrow> tagged (concat lrs) = copied (fst (os_run os cmd))) \<and>
    chan_log (ws_sendMessages w') = chan_log (ws_sendMessages w) @
      map (\<lambda>lr. \<lparr>o_MessageType = ''send_log'', o_Data = DLogs \<lparr>lm_SequenceID = sid, lm_Logs = lr\<rparr>\<rparr>) lrs"
  using executeTask_runs [OF assms, of cb a] by (elim exE conjE) (intro exI conjI)

theorem executeTask_success_witness:
  "\<exists>lrs w' a'. executeTask example_server example_os pick_params 3 example_run (example_app, example_client) =
      Inr (None, a', w') \<and> length (app_sequences a') = 1 \<and>
    chan_log (ws_sendMessages w') =
      map (\<lambda>lr. \<lparr>o_MessageType = ''send_log'', o_Data = DLogs \<lparr>lm_SequenceID = ''s1'', lm_Logs = lr\<rparr>\<rparr>) lrs \<and>
    tagged (concat lrs) = [(SEVERITY_INFO, CHR ''o''), (SEVERITY_INFO, CHR ''k'')]"
proof -
  have "sv_CreateSequence example_server = Inr ''s1''" by (simp add: example_server_def)
  from executeTask_success [OF this example_run_fine, of 3 example_app]
  show ?thesis using example_os_copies(2) by (auto simp: example_server_def example_app_def example_os_copies(4,5))
qed

text \<open>When the server does not create the sequence (it cannot be reached, it answers with an error), running
  a task crashes the process: the nil sequence is read, after its record was put into the database as local.\<close>

theorem executeTask_offline_crashes:
  assumes "sv_CreateSequence sv = Inl err"
  shows "executeTask sv os pickP cb event (a, w) = Inl nil_dereference"
  using assms by (simp add: executeTask_def)

theorem executeTask_offline_crashes_witness:
  "executeTask (example_server\<lparr>sv_CreateSequence := Inl (ErrText ''connection refused'')\<rparr>) example_os pick_params 3
     example_run (example_app, example_client) = Inl nil_dereference"
  by (rule executeTask_offline_crashes [where err = "ErrText ''connection refused''"]) simp

end
