(* ===== verification/Go_Net.thy ===== *)
theory Go_Net
  imports Go_Strings
begin

text \<open>
  The parts of Go's \<open>path\<close> and \<open>net/url\<close> packages that the REST client and the WebSocket client use: \<open>path.Join\<close>, the URL
  struct, and the escaping of query parameters. A URL is the fields the program reads or writes.
\<close>

section \<open>Definitions\<close>

subsection \<open>Paths\<close>

text \<open>
  \<open>path.Clean\<close>: the elements so far are kept in reverse. \<open>..\<close> removes the element before it; with none before
  it, it is dropped at the root and kept in a relative path.
\<close>

fun clean_parts :: "bool \<Rightarrow> string list \<Rightarrow> string list \<Rightarrow> string list" where
  "clean_parts rooted acc [] = rev acc"
| "clean_parts rooted acc (p # ps) =
     (if p = [] \<or> p = ''.'' then clean_parts rooted acc ps
      else if p = ''..'' then
        (if acc \<noteq> [] \<and> hd acc \<noteq> ''..'' then clean_parts rooted (tl acc) ps
         else if rooted then clean_parts rooted acc ps
         else clean_parts rooted (p # acc) ps)
      else clean_parts rooted (p # acc) ps)"

definition path_Clean :: "string \<Rightarrow> string" where
  "path_Clean p =
     (let rooted = has_prefix p ''/'';
          body = join_byte (CHR ''/'') (clean_parts rooted [] (split_byte (CHR ''/'') p))
      in if rooted then ''/'' @ body else if body = [] then ''.'' else body)"

definition path_Join :: "string list \<Rightarrow> string" where
  "path_Join elems =
     (case filter (\<lambda>e. e \<noteq> []) elems of
        [] \<Rightarrow> []
      | es \<Rightarrow> path_Clean (join_byte (CHR ''/'') es))"

subsection \<open>URLs\<close>

record url =
  url_Scheme :: string
  url_Host :: string
  url_Path :: string
  url_RawQuery :: string

text \<open>\<open>url.QueryEscape\<close>: letters, digits and four marks stay, a space becomes a plus sign, any other byte its code.\<close>

definition unreserved :: "char \<Rightarrow> bool" where
  "unreserved c \<longleftrightarrow>
     (let n = of_char c :: nat
      in 97 \<le> n \<and> n \<le> 122 \<or> 65 \<le> n \<and> n \<le> 90 \<or> 48 \<le> n \<and> n \<le> 57 \<or> c \<in> {CHR ''-'', CHR ''_'', CHR ''.'', CHR ''~''})"

definition hex_upper :: "nat \<Rightarrow> char" where
  "hex_upper n = (if n < 10 then char_of (48 + n) else char_of (55 + n))"

fun escape_byte :: "char \<Rightarrow> string" where
  "escape_byte c =
     (if unreserved c then [c]
      else if c = CHR '' '' then ''+''
      else [CHR ''%'', hex_upper (of_char c div 16), hex_upper (of_char c mod 16)])"

definition query_escape :: "string \<Rightarrow> string" where
  "query_escape s = concat (map escape_byte s)"

definition unhex :: "char \<Rightarrow> nat option" where
  "unhex c =
     (let n = of_char c :: nat
      in if 48 \<le> n \<and> n \<le> 57 then Some (n - 48)
         else if 97 \<le> n \<and> n \<le> 102 then Some (n - 87)
         else if 65 \<le> n \<and> n \<le> 70 then Some (n - 55)
         else None)"

text \<open>\<open>url.QueryUnescape\<close>: a percent sign that is not followed by two hexadecimal digits is an error.\<close>

fun query_unescape :: "string \<Rightarrow> string option" where
  "query_unescape [] = Some []"
| "query_unescape (c # cs) =
     (if c = CHR ''%'' then
        (case cs of
           a # b # rest \<Rightarrow>
             (case (unhex a, unhex b) of
                (Some x, Some y) \<Rightarrow> map_option (Cons (char_of (x * 16 + y))) (query_unescape rest)
              | _ \<Rightarrow> None)
         | _ \<Rightarrow> None)
      else if c = CHR ''+'' then map_option (Cons (CHR '' '')) (query_unescape cs)
      else map_option (Cons c) (query_unescape cs))"

section \<open>Lemmas\<close>

text \<open>Paths of plain elements are their own normal form.\<close>

definition plain_element :: "string \<Rightarrow> bool" where
  "plain_element e \<longleftrightarrow> e \<noteq> [] \<and> e \<noteq> ''.'' \<and> e \<noteq> ''..'' \<and> CHR ''/'' \<notin> set e"

lemma clean_parts_plain: "\<forall>e \<in> set es. plain_element e \<Longrightarrow> clean_parts r acc es = rev acc @ es"
  by (induction es arbitrary: acc) (auto simp: plain_element_def)

lemma clean_parts_Nil [simp]: "clean_parts r acc ([] # es) = clean_parts r acc es"
  by simp

lemma split_join_byte: "es \<noteq> [] \<Longrightarrow> \<forall>e \<in> set es. c \<notin> set e \<Longrightarrow> split_byte c (join_byte c es) = es"
proof (induction es rule: join_byte.induct)
  case (3 c p q ps)
  then show ?case using split_byte_sep [of c p "join_byte c (q # ps)"] by simp
qed (auto simp: split_byte_no_sep)

lemma plain_not_rooted:
  assumes "es \<noteq> []" and "\<forall>e \<in> set es. plain_element e"
  shows "\<not> has_prefix (join_byte (CHR ''/'') es) ''/''" and "join_byte (CHR ''/'') es \<noteq> []"
proof -
  obtain e es' where es: "es = e # es'" using assms(1) by (cases es) auto
  then have "plain_element e" using assms(2) by simp
  then obtain x xs where e: "e = x # xs" "x \<noteq> CHR ''/''" by (cases e) (auto simp: plain_element_def)
  then have "\<exists>r. join_byte (CHR ''/'') es = x # r" using es by (cases es') auto
  then obtain r where "join_byte (CHR ''/'') es = x # r" by blast
  with e(2) show "\<not> has_prefix (join_byte (CHR ''/'') es) ''/''" and "join_byte (CHR ''/'') es \<noteq> []"
    by (auto simp: has_prefix_def)
qed

lemma path_Clean_plain:
  assumes "es \<noteq> []" and "\<forall>e \<in> set es. plain_element e"
  shows "path_Clean (join_byte (CHR ''/'') es) = join_byte (CHR ''/'') es"
    and "path_Clean (CHR ''/'' # join_byte (CHR ''/'') es) = CHR ''/'' # join_byte (CHR ''/'') es"
proof -
  have split: "split_byte (CHR ''/'') (join_byte (CHR ''/'') es) = es"
    using assms by (intro split_join_byte) (auto simp: plain_element_def)
  show "path_Clean (join_byte (CHR ''/'') es) = join_byte (CHR ''/'') es"
    using plain_not_rooted [OF assms] split clean_parts_plain [OF assms(2), of False "[]"]
    by (simp add: path_Clean_def)
  show "path_Clean (CHR ''/'' # join_byte (CHR ''/'') es) = CHR ''/'' # join_byte (CHR ''/'') es"
    using split clean_parts_plain [OF assms(2), of True "[]"]
    by (simp add: path_Clean_def has_prefix_def del: clean_parts.simps)
qed

lemma join_byte_append:
  "xs \<noteq> [] \<Longrightarrow> ys \<noteq> [] \<Longrightarrow> join_byte c (xs @ ys) = join_byte c xs @ [c] @ join_byte c ys"
proof (induction xs rule: join_byte.induct)
  case (2 c p)
  then show ?case by (cases ys) auto
qed auto

text \<open>Escaping and unescaping.\<close>

lemma unhex_hex: "n < 16 \<Longrightarrow> unhex (hex_upper n) = Some n"
  by (auto simp: unhex_def hex_upper_def Let_def)

lemma high_digit: "(of_char c :: nat) div 16 < 16"
  using nat_of_char_less_256 [of c] by (simp add: less_mult_imp_div_less)

lemma unreserved_not_special: "unreserved c \<Longrightarrow> c \<noteq> CHR ''%'' \<and> c \<noteq> CHR ''+''"
  by (auto simp: unreserved_def Let_def)

lemma query_unescape_byte: "query_unescape (escape_byte c @ s) = map_option (Cons c) (query_unescape s)"
proof -
  have "unhex (hex_upper (of_char c div 16)) = Some (of_char c div 16)"
    and "unhex (hex_upper (of_char c mod 16)) = Some (of_char c mod 16)"
    by (auto intro: unhex_hex high_digit)
  moreover have "char_of (of_char c div 16 * 16 + of_char c mod 16 :: nat) = c" by simp
  ultimately show ?thesis using unreserved_not_special [of c] by auto
qed

lemma query_unescape_escape: "query_unescape (query_escape s) = Some s"
  by (induction s) (simp_all add: query_escape_def query_unescape_byte del: escape_byte.simps query_unescape.simps(2))

lemma query_escape_safe: "c \<in> set (query_escape s) \<Longrightarrow> unreserved c \<or> c = CHR ''+'' \<or> c = CHR ''%''"
proof -
  have hex: "unreserved (hex_upper n)" if "n < 16" for n
    using that by (auto simp: unreserved_def hex_upper_def Let_def)
  show "c \<in> set (query_escape s) \<Longrightarrow> unreserved c \<or> c = CHR ''+'' \<or> c = CHR ''%''"
    by (auto simp: query_escape_def intro: hex high_digit split: if_splits)
qed

end
