(* ===== verification/Config_Files.thy ===== *)
theory Config_Files
  imports Go_Net Telephonist_Types
begin

text \<open>
  \<open>config.go\<close>, the configuration file of the scheduler and the file of the instance identifier in \<open>scheduler.go\<close>. A disk is a map from paths to
  contents; the errors of the operating system are arguments, and so is the JSON codec: \<open>cd_Decode\<close> decodes into an
  existing value, as \<open>json.Decoder\<close> does.
\<close>

section \<open>Definitions\<close>

type_synonym disk = "(string, bytes) fmap"

record 'a codec =
  cd_Encode :: "'a \<Rightarrow> goerror + bytes"
  cd_Decode :: "bytes \<Rightarrow> 'a \<Rightarrow> goerror option \<times> 'a"

text \<open>
  \<open>io_open\<close> is the error of opening a path for another reason than that it is missing. A failed write has written
  \<open>io_written\<close> bytes.
\<close>

record file_env =
  io_open :: "string \<Rightarrow> goerror option"
  io_write :: "goerror option"
  io_written :: nat
  io_seek :: "goerror option"
  io_truncate :: "goerror option"

definition ENOENT :: goerror where
  "ENOENT = ErrErrno 2 ''no such file or directory''"

definition IsNotExist :: "goerror option \<Rightarrow> bool" where
  "IsNotExist err \<longleftrightarrow> (case err of Some (ErrErrno n s) \<Rightarrow> n = 2 | _ \<Rightarrow> False)"

definition read_file :: "file_env \<Rightarrow> string \<Rightarrow> disk \<Rightarrow> goerror + bytes" where
  "read_file io path d =
     (case io_open io path of
        Some err \<Rightarrow> Inl err
      | None \<Rightarrow> (case fmlookup d path of None \<Rightarrow> Inl ENOENT | Some content \<Rightarrow> Inr content))"

definition Load :: "'a codec \<Rightarrow> file_env \<Rightarrow> string \<Rightarrow> disk \<Rightarrow> 'a \<Rightarrow> goerror option \<times> 'a" where
  "Load cd io path d v =
     (case read_file io path d of
        Inl err \<Rightarrow> (Some err, v)
      | Inr content \<Rightarrow> cd_Decode cd content v)"

text \<open>Writing at the start of an opened file, and cutting it off.\<close>

definition overwrite :: "bytes \<Rightarrow> bytes \<Rightarrow> bytes" where
  "overwrite new old = new @ drop (length new) old"

definition config_file_Write ::
  "'a codec \<Rightarrow> file_env \<Rightarrow> string \<Rightarrow> 'a \<Rightarrow> disk \<Rightarrow> goerror option \<times> disk" where
  "config_file_Write cd io path v d =
     (case io_open io path of
        Some err \<Rightarrow> (Some err, d)
      | None \<Rightarrow>
          (let old = (case fmlookup d path of None \<Rightarrow> [] | Some content \<Rightarrow> content)
           in case cd_Encode cd v of
                Inl err \<Rightarrow> (None, fmupd path old d)
              | Inr b \<Rightarrow>
                  if io_write io \<noteq> None then (None, fmupd path (overwrite (take (io_written io) b) old) d)
                  else if io_seek io \<noteq> None then (io_seek io, fmupd path (overwrite b old) d)
                  else if io_truncate io \<noteq> None then (io_truncate io, fmupd path (overwrite b old) d)
                  else (None, fmupd path (take (length b) (overwrite b old)) d)))"

definition LoadOrCreate ::
  "'a codec \<Rightarrow> file_env \<Rightarrow> string \<Rightarrow> disk \<Rightarrow> 'a \<Rightarrow> goerror option \<times> 'a \<times> disk" where
  "LoadOrCreate cd io path d v =
     (case Load cd io path d v of
        (err, v1) \<Rightarrow>
          if IsNotExist err then (case config_file_Write cd io path v1 d of (err1, d1) \<Rightarrow> (err1, v1, d1))
          else (err, v1, d))"

subsection \<open>The tasks of the scheduler\<close>

record executor_config =
  ec_Tasks :: "(uuid, defined_task) fmap"

record executor_config_file =
  ecf_file :: string
  ecf_Value :: executor_config

definition NewSchedulerConfig :: "string \<Rightarrow> executor_config_file" where
  "NewSchedulerConfig path = \<lparr>ecf_file = path, ecf_Value = \<lparr>ec_Tasks = fmempty\<rparr>\<rparr>"

definition ecf_Load ::
  "executor_config codec \<Rightarrow> file_env \<Rightarrow> disk \<Rightarrow> executor_config_file \<Rightarrow> goerror option \<times> executor_config_file" where
  "ecf_Load cd io d f =
     (case Load cd io (ecf_file f) d (ecf_Value f) of (err, v) \<Rightarrow> (err, f\<lparr>ecf_Value := v\<rparr>))"

definition ecf_Write ::
  "executor_config codec \<Rightarrow> file_env \<Rightarrow> executor_config_file \<Rightarrow> disk \<Rightarrow> goerror option \<times> disk" where
  "ecf_Write cd io f d = config_file_Write cd io (ecf_file f) (ecf_Value f) d"

definition LoadOrWrite ::
  "executor_config codec \<Rightarrow> file_env \<Rightarrow> disk \<Rightarrow> executor_config_file
   \<Rightarrow> goerror option \<times> executor_config_file \<times> disk" where
  "LoadOrWrite cd io d f =
     (case ecf_Load cd io d f of
        (err, f1) \<Rightarrow>
          if IsNotExist err then (case ecf_Write cd io f1 d of (err1, d1) \<Rightarrow> (err1, f1, d1)) else (err, f1, d))"

subsection \<open>The instance identifier\<close>

text \<open>\<open>filepath.Dir\<close>: the normal form of what comes before the last slash.\<close>

definition path_Dir :: "string \<Rightarrow> string" where
  "path_Dir p = path_Clean (rev (dropWhile (\<lambda>c. c \<noteq> CHR ''/'') (rev p)))"

text \<open>
  The parser and the text form of identifiers are arguments, and so are the fresh identifier and the error of
  \<open>os.WriteFile\<close>, which is ignored; a failed write leaves the disk as it was.
\<close>

record uuid_env =
  ue_Parse :: "bytes \<Rightarrow> uuid option"
  ue_String :: "uuid \<Rightarrow> string"

definition instance_id_path :: "string \<Rightarrow> string" where
  "instance_id_path configPath = path_Join [path_Dir configPath, ''.telephonist-instance-id'']"

definition getOrSetInstanceID ::
  "uuid_env \<Rightarrow> file_env \<Rightarrow> string \<Rightarrow> uuid \<Rightarrow> disk \<Rightarrow> uuid \<times> disk" where
  "getOrSetInstanceID ue io configPath fresh d =
     (let path = instance_id_path configPath;
          saved = (if io_write io = None \<and> io_open io path = None then fmupd path (ue_String ue fresh) d else d)
      in case read_file io path d of
           Inr content \<Rightarrow>
             (case ue_Parse ue content of
                Some u \<Rightarrow> (u, d)
              | None \<Rightarrow> (fresh, saved))
         | Inl err \<Rightarrow> if IsNotExist (Some err) then (fresh, saved) else (fresh, d))"

section \<open>Lemmas\<close>

definition no_io_errors :: "file_env \<Rightarrow> bool" where
  "no_io_errors io \<longleftrightarrow>
     (\<forall>p. io_open io p = None) \<and> io_write io = None \<and> io_seek io = None \<and> io_truncate io = None"

lemma config_file_Write_ok:
  "no_io_errors io \<Longrightarrow> cd_Encode cd v = Inr b \<Longrightarrow> config_file_Write cd io path v d = (None, fmupd path b d)"
  by (simp add: config_file_Write_def no_io_errors_def overwrite_def Let_def)

lemma read_file_upd: "no_io_errors io \<Longrightarrow> read_file io path (fmupd path b d) = Inr b"
  by (simp add: read_file_def no_io_errors_def)

section \<open>Examples\<close>

definition example_io :: file_env where
  "example_io = \<lparr>io_open = \<lambda>_. None, io_write = None, io_written = 0, io_seek = None, io_truncate = None\<rparr>"

text \<open>A codec for strings: the text itself; the letter \<open>x\<close> cannot be encoded.\<close>

definition example_codec :: "string codec" where
  "example_codec = \<lparr>cd_Encode = \<lambda>v. if v = ''x'' then Inl (ErrText ''unsupported'') else Inr v, cd_Decode = \<lambda>b v. (None, b)\<rparr>"

text \<open>A text form of identifiers that can be read back.\<close>

definition example_uuids :: uuid_env where
  "example_uuids = \<lparr>ue_Parse = \<lambda>b. Some (of_nat (length b)), ue_String = \<lambda>u. replicate (unat u) CHR ''x''\<rparr>"

lemma example_io_fine: "no_io_errors example_io"
  by (simp add: no_io_errors_def example_io_def)

section \<open>Properties\<close>

text \<open>C29. What \<open>Write\<close> saved, \<open>Load\<close> reads back: with a codec that decodes what it encoded into the value in memory and no error of the system, the
  file holds exactly the new encoding (also when the old contents were longer), no other file changes, and loading
  gives the value.\<close>

theorem config_roundtrip:
  assumes "no_io_errors io" and "cd_Encode cd v = Inr b" and "cd_Decode cd b u = (None, v)"
  shows "\<exists>d'. config_file_Write cd io path v d = (None, d') \<and> fmlookup d' path = Some b \<and>
    (\<forall>q. q \<noteq> path \<longrightarrow> fmlookup d' q = fmlookup d q) \<and> Load cd io path d' u = (None, v)"
  using assms by (simp add: config_file_Write_ok Load_def read_file_upd)

theorem config_roundtrip_witness:
  "\<exists>d'. config_file_Write example_codec example_io ''c'' ''new'' (fmupd ''c'' ''older and longer'' fmempty) = (None, d') \<and>
    Load example_codec example_io ''c'' d' [] = (None, ''new'')"
  using config_roundtrip [OF example_io_fine, where cd = example_codec and v = "''new''" and path = "''c''" and u = "[]"
      and d = "fmupd ''c'' ''older and longer'' fmempty"]
  by (auto simp: example_codec_def)

text \<open>A failure of the encoder or of the write is not reported: \<open>Write\<close> returns nil, while the file keeps its old contents,
  is empty when it is new, or starts with a part of the new encoding.\<close>

theorem config_write_silent:
  assumes "io_open io path = None"
    and "(\<exists>e. cd_Encode cd v = Inl e) \<or> (\<exists>b. cd_Encode cd v = Inr b) \<and> io_write io \<noteq> None"
  shows "\<exists>d'. config_file_Write cd io path v d = (None, d') \<and>
    fmlookup d' path = Some (case cd_Encode cd v of
      Inl e \<Rightarrow> (case fmlookup d path of None \<Rightarrow> [] | Some old \<Rightarrow> old)
    | Inr b \<Rightarrow> overwrite (take (io_written io) b) (case fmlookup d path of None \<Rightarrow> [] | Some old \<Rightarrow> old))"
  using assms by (auto simp: config_file_Write_def Let_def)

theorem config_write_silent_witness:
  "\<exists>d'. config_file_Write example_codec example_io ''c'' ''x'' fmempty = (None, d') \<and> fmlookup d' ''c'' = Some []"
  using config_write_silent [of example_io "''c''" example_codec "''x''" fmempty]
  by (auto simp: example_io_def example_codec_def)

text \<open>The instance keeps its identifier: once the file could be written, every later start gets the same identifier, whatever fresh
  one it would have drawn, and leaves the disk alone.\<close>

theorem instance_id_stable:
  assumes "no_io_errors io" and "\<forall>u. ue_Parse ue (ue_String ue u) = Some u"
    and "getOrSetInstanceID ue io p fresh d = (i, d')"
  shows "getOrSetInstanceID ue io p fresh' d' = (i, d')"
proof -
  have open_ok: "io_open io q = None" "io_write io = None" for q using assms(1) by (simp_all add: no_io_errors_def)
  show ?thesis
  proof (cases "fmlookup d (instance_id_path p)")
    case None
    with assms(3) open_ok have "i = fresh" "d' = fmupd (instance_id_path p) (ue_String ue fresh) d"
      by (auto simp: getOrSetInstanceID_def read_file_def Let_def IsNotExist_def ENOENT_def)
    with open_ok assms(2) show ?thesis by (simp add: getOrSetInstanceID_def read_file_def Let_def)
  next
    case (Some content)
    with assms(3) open_ok have
      "(case ue_Parse ue content of Some u \<Rightarrow> (u, d)
        | None \<Rightarrow> (fresh, fmupd (instance_id_path p) (ue_String ue fresh) d)) = (i, d')"
      by (simp add: getOrSetInstanceID_def read_file_def Let_def)
    with Some open_ok assms(2) show ?thesis
      by (auto simp: getOrSetInstanceID_def read_file_def Let_def split: option.splits)
  qed
qed

theorem instance_id_stable_witness:
  "\<exists>i d'. getOrSetInstanceID example_uuids example_io ''/etc/agent/c.json'' 7 fmempty = (i, d') \<and>
    getOrSetInstanceID example_uuids example_io ''/etc/agent/c.json'' 8 d' = (i, d')"
proof -
  obtain i d' where run: "getOrSetInstanceID example_uuids example_io ''/etc/agent/c.json'' 7 fmempty = (i, d')"
    by fastforce
  moreover have "\<forall>u. ue_Parse example_uuids (ue_String example_uuids u) = Some u" by (simp add: example_uuids_def)
  ultimately show ?thesis using instance_id_stable [OF example_io_fine] by blast
qed

end
