(* ===== verification/Rest_Client.thy ===== *)
theory Rest_Client
  imports Go_Net WS_Client "HOL-Library.List_Lexorder" "HOL-Library.Char_ord"
begin

text \<open>
  \<open>telephonist/client.go\<close>: the REST client and the addresses of the WebSocket endpoint. \<open>gorequest\<close> is an argument: a function
  from a request to what \<open>End\<close> or \<open>EndStruct\<close> return (a response or nil, the errors, and the struct that was
  filled in, \<open>unit\<close> where there is none). The validator of request structs is an argument too. Requests are plain data,
  so which address, key and payload is sent can be stated.
\<close>

section \<open>Definitions\<close>

subsection \<open>Requests\<close>

record triggered_by =
  tb_TriggerType :: string
  tb_TriggerBody :: bytes
  tb_Extra :: "(string, goval) fmap"

record create_sequence_request =
  csr_CustomName :: "string option"
  csr_Description :: "string option"
  csr_Meta :: "(string, goval) fmap"
  csr_TaskID :: uuid
  csr_ConnectionID :: uuid
  csr_TriggeredBy :: triggered_by

record define_task_request =
  dtr_ID :: uuid
  dtr_Name :: string
  dtr_Description :: "string option"
  dtr_Body :: task_body
  dtr_Env :: "(string, string) fmap"
  dtr_Tags :: "string list"
  dtr_Triggers :: "task_trigger list"

record finish_sequence_request =
  fsr_Error :: "string option"
  fsr_IsSkipped :: bool

record log_entry =
  le_Body :: goval
  le_SequenceID :: "string option"
  le_Severity :: log_severity
  le_CreatedAt :: int

record event_data =
  evd_Name :: string
  evd_Data :: goval
  evd_SequenceID :: string

record create_application_request =
  car_Name :: string
  car_Description :: string
  car_DisplayName :: string
  car_Tags :: "string list"

record code_registration_completed =
  crc_Key :: string
  crc_ID :: string

record taken_tasks =
  tt_Taken :: "string list"
  tt_Free :: "string list"
  tt_BelongToSelf :: "string list"

datatype payload =
    PEvent event_data
  | PMeta "(string, goval) fmap"
  | PSequence create_sequence_request
  | PFinish finish_sequence_request
  | PTask define_task_request
  | PNames "string list"
  | PLog log_entry
  | PApplication create_application_request

text \<open>The kinds of the payloads, as \<open>reflect\<close> reports them: maps and slices are not validated.\<close>

fun is_struct :: "payload \<Rightarrow> bool" where
  "is_struct (PMeta m) = False"
| "is_struct (PNames xs) = False"
| "is_struct _ = True"

record http_request =
  rq_Method :: string
  rq_URL :: url
  rq_Authorization :: "string option"
  rq_Data :: "payload option"

record http_response =
  rs_StatusCode :: int
  rs_Status :: string
  rs_Body :: "goerror + bytes"

record 'r reply =
  rp_response :: "http_response option"
  rp_value :: 'r
  rp_errs :: "goerror list"

type_synonym 'r gorequest = "http_request \<Rightarrow> 'r reply"
type_synonym validator = "payload \<Rightarrow> goerror option"

subsection \<open>The client\<close>

record rest_client =
  cl_APIKey :: string
  cl_URL :: url
  cl_userAgent :: string

definition NewClient :: "string \<Rightarrow> url option \<Rightarrow> goerror + rest_client" where
  "NewClient apiKey u =
     (case u of
        None \<Rightarrow> Inl (ErrText ''URL is required'')
      | Some v \<Rightarrow>
          if url_Scheme v \<noteq> ''http'' \<and> url_Scheme v \<noteq> ''https''
          then Inl (ErrText ''schema must be http or https'')
          else Inr \<lparr>cl_APIKey = apiKey, cl_URL = v, cl_userAgent = ''Telephonist Agent (Golang) '' @ ''0.1.1''\<rparr>)"

definition getUrl :: "rest_client \<Rightarrow> string \<Rightarrow> url" where
  "getUrl c sUrl =
     (cl_URL c)\<lparr>url_Path := path_Join [url_Path (cl_URL c), ''api/application-v1'', sUrl]\<rparr>"

definition authorized :: "rest_client \<Rightarrow> string \<Rightarrow> string \<Rightarrow> payload option \<Rightarrow> http_request" where
  "authorized c method relativeURL data =
     \<lparr>rq_Method = method, rq_URL = getUrl c relativeURL, rq_Authorization = Some (''Bearer '' @ cl_APIKey c),
      rq_Data = data\<rparr>"

text \<open>\<open>zero\<close> is the response struct before the call.\<close>

definition httpPost ::
  "'r gorequest \<Rightarrow> validator \<Rightarrow> rest_client \<Rightarrow> string \<Rightarrow> payload option \<Rightarrow> 'r
   \<Rightarrow> http_response option \<times> 'r \<times> goerror option" where
  "httpPost http validate c relativeURL data zero =
     (case (case data of Some d \<Rightarrow> if is_struct d then validate d else None | None \<Rightarrow> None) of
        Some err \<Rightarrow> (None, zero, Some (ErrCombined [err]))
      | None \<Rightarrow>
          (let r = http (authorized c ''POST'' relativeURL data)
           in if rp_errs r \<noteq> [] then (rp_response r, rp_value r, Some (ErrCombined (rp_errs r)))
              else
                (case rp_response r of
                   Some resp \<Rightarrow>
                     if rs_StatusCode resp \<ge> 300
                     then (Some resp, rp_value r,
                       Some (ErrCombined [ErrStatus (rs_StatusCode resp) (rs_Status resp)
                         (case rs_Body resp of Inl err \<Rightarrow> [] | Inr text \<Rightarrow> text)]))
                     else (Some resp, rp_value r, None)
                 | None \<Rightarrow> (None, rp_value r, None))))"

text \<open>What \<open>get\<close> and \<open>delete\<close> do with an answer: a nil response without an error would be dereferenced.\<close>

definition check_reply :: "'r reply \<Rightarrow> goerror option outcome" where
  "check_reply r =
     (if rp_errs r \<noteq> [] then Inr (Some (ErrCombined (rp_errs r)))
      else
        (case rp_response r of
           None \<Rightarrow> Inl (Panic ''invalid memory address or nil pointer dereference'')
         | Some resp \<Rightarrow>
             if rs_StatusCode resp \<ge> 300
             then Inr (Some (ErrCombined [ErrStatus (rs_StatusCode resp) (rs_Status resp) []]))
             else Inr None))"

definition http_delete :: "unit gorequest \<Rightarrow> rest_client \<Rightarrow> string \<Rightarrow> goerror option outcome" where
  "http_delete http c path = check_reply (http (authorized c ''DELETE'' path None))"

definition http_get :: "'r gorequest \<Rightarrow> rest_client \<Rightarrow> string \<Rightarrow> (goerror option \<times> 'r) outcome" where
  "http_get http c path =
     (let r = http (authorized c ''GET'' path None)
      in andThen (check_reply r) (\<lambda>err. Inr (err, rp_value r)))"

subsection \<open>The API\<close>

definition Probe :: "unit gorequest \<Rightarrow> rest_client \<Rightarrow> goerror option outcome" where
  "Probe http c = andThen (http_get http c ''probe'') (\<lambda>(err, u). Inr err)"

text \<open>
  \<open>url.Query\<close> and \<open>Values.Encode\<close>: the pairs of a query in order; \<open>Encode\<close> sorts by key and keeps the order of the values of a
  key. A part with a semicolon or a bad escape is dropped.
\<close>

definition cut_byte :: "char \<Rightarrow> string \<Rightarrow> string \<times> string" where
  "cut_byte c s = (takeWhile (\<lambda>x. x \<noteq> c) s, drop 1 (dropWhile (\<lambda>x. x \<noteq> c) s))"

definition query_pair :: "string \<Rightarrow> (string \<times> string) list" where
  "query_pair part =
     (if part = [] \<or> CHR '';'' \<in> set part then []
      else
        (case cut_byte (CHR ''='') part of
           (k, v) \<Rightarrow>
             (case (query_unescape k, query_unescape v) of
                (Some k', Some v') \<Rightarrow> [(k', v')]
              | _ \<Rightarrow> [])))"

definition parse_query :: "string \<Rightarrow> (string \<times> string) list" where
  "parse_query q = concat (map query_pair (split_byte (CHR ''&'') q))"

definition encode_query :: "(string \<times> string) list \<Rightarrow> string" where
  "encode_query ps =
     join_byte (CHR ''&'')
       (map (\<lambda>(k, v). query_escape k @ ''='' @ query_escape v) (sort_key fst ps))"

definition ErrCodeIsInvalid :: goerror where
  "ErrCodeIsInvalid = ErrText ''registration code is invalid''"

definition registration_request ::
  "rest_client \<Rightarrow> string \<Rightarrow> create_application_request \<Rightarrow> http_request" where
  "registration_request c code app =
     (let u = getUrl c ''cr''
      in \<lparr>rq_Method = ''POST'',
          rq_URL = u\<lparr>url_RawQuery := encode_query (parse_query (url_RawQuery u) @ [(''code'', code)])\<rparr>,
          rq_Authorization = None, rq_Data = Some (PApplication app)\<rparr>)"

definition SubmitCodeRegistration ::
  "code_registration_completed gorequest \<Rightarrow> rest_client \<Rightarrow> string \<Rightarrow> create_application_request option
   \<Rightarrow> (code_registration_completed \<times> goerror option) outcome" where
  "SubmitCodeRegistration http c code createApplication =
     (case createApplication of
        None \<Rightarrow> Inl (Panic ''createApplication argument is nil'')
      | Some app \<Rightarrow>
          (let r = http (registration_request c code app); d = rp_value r
           in if rp_errs r \<noteq> [] then Inr (d, Some (ErrCombined (rp_errs r)))
              else
                (case rp_response r of
                   Some resp \<Rightarrow>
                     if rs_StatusCode resp \<noteq> 200 \<and> rs_StatusCode resp \<noteq> 201 then
                       (if rs_StatusCode resp = 401 then Inr (d, Some ErrCodeIsInvalid)
                        else Inr (d, Some (ErrCombined [ErrStatus (rs_StatusCode resp) (rs_Status resp) []])))
                     else Inr (d, None)
                 | None \<Rightarrow> Inr (d, None))))"

definition Publish ::
  "unit gorequest \<Rightarrow> validator \<Rightarrow> rest_client \<Rightarrow> event_data \<Rightarrow> goerror option" where
  "Publish http validate c event =
     (case httpPost http validate c ''events/publish'' (Some (PEvent event)) () of (resp, u, err) \<Rightarrow> err)"

definition UpdateSequencMeta ::
  "unit gorequest \<Rightarrow> validator \<Rightarrow> rest_client \<Rightarrow> string \<Rightarrow> (string, goval) fmap \<Rightarrow> goerror option outcome" where
  "UpdateSequencMeta http validate c SequenceID meta =
     (case httpPost http validate c (''sequences/'' @ SequenceID @ ''/meta'') (Some (PMeta meta)) () of
        (resp, u, Some err) \<Rightarrow> Inr (Some err)
      | (None, u, None) \<Rightarrow> Inl (Panic ''invalid memory address or nil pointer dereference'')
      | (Some resp, u, None) \<Rightarrow>
          if rs_StatusCode resp \<noteq> 200
          then Inr (Some (ErrCombined [ErrText (''unexpected status code: '' @ rs_Status resp)]))
          else Inr None)"

definition CreateSequence ::
  "string gorequest \<Rightarrow> validator \<Rightarrow> rest_client \<Rightarrow> create_sequence_request \<Rightarrow> goerror + string" where
  "CreateSequence http validate c data =
     (case httpPost http validate c ''sequences'' (Some (PSequence data)) [] of
        (resp, i, Some err) \<Rightarrow> Inl err
      | (resp, i, None) \<Rightarrow> Inr i)"

text \<open>\<open>FinishSequence\<close> does its request itself, and does not look at the status.\<close>

definition FinishSequence ::
  "string gorequest \<Rightarrow> rest_client \<Rightarrow> string \<Rightarrow> finish_sequence_request \<Rightarrow> goerror + string" where
  "FinishSequence http c SequenceID body =
     (let r = http (authorized c ''POST'' (''sequences/'' @ SequenceID @ ''/finish'') (Some (PFinish body)))
      in if rp_errs r \<noteq> [] then Inl (ErrCombined (rp_errs r)) else Inr (rp_value r))"

definition DefineTask ::
  "unit gorequest \<Rightarrow> validator \<Rightarrow> rest_client \<Rightarrow> define_task_request \<Rightarrow> goerror option" where
  "DefineTask http validate c r =
     (case httpPost http validate c ''defined-tasks'' (Some (PTask r)) () of (resp, u, err) \<Rightarrow> err)"

definition DropTask :: "unit gorequest \<Rightarrow> rest_client \<Rightarrow> (uuid \<Rightarrow> string) \<Rightarrow> uuid \<Rightarrow> goerror option outcome" where
  "DropTask http c uuid_String taskID = http_delete http c (''defined-tasks/'' @ uuid_String taskID)"

text \<open>
  \<open>GetTasks\<close> passes its slice of length zero by value: whatever the decoder does with the copy, the slice it returns is
  the one it made, which is empty.
\<close>

definition GetTasks :: "unit gorequest \<Rightarrow> rest_client \<Rightarrow> (goerror + defined_task list) outcome" where
  "GetTasks http c =
     andThen (http_get http c ''defined-tasks'') (\<lambda>(err, u).
       Inr (case err of Some e \<Rightarrow> Inl e | None \<Rightarrow> Inr []))"

definition CheckTaskNamesArray ::
  "taken_tasks gorequest \<Rightarrow> validator \<Rightarrow> rest_client \<Rightarrow> string list \<Rightarrow> goerror + taken_tasks" where
  "CheckTaskNamesArray http validate c names =
     (case httpPost http validate c ''defined-tasks/check'' (Some (PNames names))
         \<lparr>tt_Taken = [], tt_Free = [], tt_BelongToSelf = []\<rparr> of
        (resp, tasks, Some err) \<Rightarrow> Inl err
      | (resp, tasks, None) \<Rightarrow> Inr tasks)"

definition LogThroughAPI ::
  "unit gorequest \<Rightarrow> validator \<Rightarrow> rest_client \<Rightarrow> log_entry \<Rightarrow> goerror option" where
  "LogThroughAPI http validate c entry =
     (case httpPost http validate c ''logs/add'' (Some (PLog entry)) () of (resp, u, err) \<Rightarrow> err)"

text \<open>\<open>decode\<close> is the JSON decoder on the body; a body that cannot be read is a decoder error too.\<close>

definition issueWSTicket ::
  "unit gorequest \<Rightarrow> (goerror + bytes \<Rightarrow> goerror + string) \<Rightarrow> rest_client \<Rightarrow> (goerror list + string) outcome" where
  "issueWSTicket http decode c =
     (let r = http (authorized c ''POST'' ''ws/issue-ws-ticket'' None)
      in if rp_errs r \<noteq> [] then Inr (Inl (rp_errs r))
         else
           (case rp_response r of
              None \<Rightarrow> Inl (Panic ''invalid memory address or nil pointer dereference'')
            | Some resp \<Rightarrow>
                if rs_StatusCode resp \<noteq> 200
                then Inr (Inl [ErrStatus (rs_StatusCode resp) (rs_Status resp) []])
                else
                  (case decode (rs_Body resp) of
                     Inl err \<Rightarrow> Inr (Inl [ErrText (''failed to decode backend response (WS ticket): '' @ error_string err)])
                   | Inr ticket \<Rightarrow> Inr (Inr ticket))))"

text \<open>\<open>getWebsocketURL\<close> of \<open>wsclient.go\<close>: the path of the base URL is replaced.\<close>

definition getWebsocketURL :: "rest_client \<Rightarrow> string \<Rightarrow> string \<Rightarrow> url" where
  "getWebsocketURL c prefix ticket =
     (let u = cl_URL c;
          p = (if prefix \<noteq> [] \<and> prefix ! 0 = CHR ''/'' then drop 1 prefix else prefix)
      in u\<lparr>url_Scheme := (if url_Scheme u = ''https'' then ''wss'' else ''ws''),
           url_Path := ''/api/application-v1/ws/'' @ p,
           url_RawQuery := ''ticket='' @ ticket\<rparr>)"

text \<open>\<open>sequence.go\<close>.\<close>

record sequence_handle =
  sh_id :: string
  sh_client :: rest_client

definition Sequence_Publish ::
  "unit gorequest \<Rightarrow> validator \<Rightarrow> sequence_handle \<Rightarrow> string \<Rightarrow> goval \<Rightarrow> goerror option" where
  "Sequence_Publish http validate s name data =
     Publish http validate (sh_client s) \<lparr>evd_Name = name, evd_Data = data, evd_SequenceID = sh_id s\<rparr>"

definition Sequence_Finish ::
  "string gorequest \<Rightarrow> sequence_handle \<Rightarrow> finish_sequence_request \<Rightarrow> goerror option" where
  "Sequence_Finish http s d =
     (case FinishSequence http (sh_client s) (sh_id s) d of Inl err \<Rightarrow> Some err | Inr r \<Rightarrow> None)"

section \<open>Lemmas\<close>

lemma query_escape_no_mark: "c \<in> {CHR ''&'', CHR '';'', CHR ''=''} \<Longrightarrow> c \<notin> set (query_escape s)"
  using query_escape_safe [of c s] by (auto simp: unreserved_def Let_def)

lemma cut_byte_sep: "c \<notin> set k \<Longrightarrow> cut_byte c (k @ [c] @ v) = (k, v)"
  by (simp add: cut_byte_def dropWhile_append takeWhile_append)

definition query_part :: "string \<times> string \<Rightarrow> string" where
  "query_part kv = query_escape (fst kv) @ ''='' @ query_escape (snd kv)"

lemma query_pair_part: "query_pair (query_part kv) = [kv]"
proof -
  have "CHR ''='' \<notin> set (query_escape (fst kv))" by (simp add: query_escape_no_mark)
  from cut_byte_sep [OF this, of "query_escape (snd kv)"]
  have "cut_byte (CHR ''='') (query_part kv) = (query_escape (fst kv), query_escape (snd kv))"
    by (simp add: query_part_def)
  moreover have "CHR '';'' \<notin> set (query_part kv)" by (simp add: query_part_def query_escape_no_mark)
  moreover have "query_part kv \<noteq> []" by (simp add: query_part_def)
  ultimately show ?thesis by (simp add: query_pair_def query_unescape_escape)
qed

lemma parse_query_encode: "parse_query (encode_query ps) = sort_key fst ps"
proof (cases "ps = []")
  case True
  then show ?thesis by (simp add: parse_query_def encode_query_def query_pair_def)
next
  case False
  have enc: "encode_query ps = join_byte (CHR ''&'') (map query_part (sort_key fst ps))"
    by (simp add: encode_query_def query_part_def [abs_def] case_prod_beta')
  have "sort_key fst ps \<noteq> []" using False by (metis length_0_conv length_sort)
  moreover have "CHR ''&'' \<notin> set (query_part kv)" for kv by (simp add: query_part_def query_escape_no_mark)
  ultimately have "split_byte (CHR ''&'') (encode_query ps) = map query_part (sort_key fst ps)"
    unfolding enc by (intro split_join_byte) auto
  then show ?thesis by (simp add: parse_query_def comp_def query_pair_part)
qed

lemma api_elements: "plain_element ''api''" "plain_element ''application-v1''"
  by (simp_all add: plain_element_def)

section \<open>Examples\<close>

definition example_rest :: rest_client where
  "example_rest = \<lparr>cl_APIKey = ''key'', cl_URL = \<lparr>url_Scheme = ''https'', url_Host = ''host'', url_Path = ''/sub'',
     url_RawQuery = []\<rparr>, cl_userAgent = ''agent''\<rparr>"

definition example_request :: create_sequence_request where
  "example_request = \<lparr>csr_CustomName = None, csr_Description = None, csr_Meta = fmempty, csr_TaskID = 1, csr_ConnectionID = 3,
     csr_TriggeredBy = \<lparr>tb_TriggerType = ''event'', tb_TriggerBody = [], tb_Extra = fmempty\<rparr>\<rparr>"

section \<open>Properties\<close>

text \<open>Every request goes below the path of the configured server: the elements of the base path, then \<open>api/application-v1\<close>, then
  those of the relative address, on the same host and scheme.\<close>

theorem getUrl_path:
  assumes "url_Path (cl_URL c) = concat (map (Cons (CHR ''/'')) base)"
    and "\<forall>e \<in> set base. plain_element e" and "rel \<noteq> []" and "\<forall>e \<in> set rel. plain_element e"
  shows "getUrl c (join_byte (CHR ''/'') rel) = (cl_URL c)\<lparr>url_Path :=
    (if base = [] then [] else ''/'') @ join_byte (CHR ''/'') (base @ [''api'', ''application-v1''] @ rel)\<rparr>"
proof -
  let ?join = "join_byte (CHR ''/'')"
  have api: "?join ([''api'', ''application-v1''] @ rel) = ''api/application-v1/'' @ ?join rel"
    using join_byte_append [OF _ assms(3), of "[''api'', ''application-v1'']" "CHR ''/''"] by simp
  have all: "\<forall>e \<in> set (base @ [''api'', ''application-v1''] @ rel). plain_element e"
    using assms(2,4) api_elements by auto
  have rel: "?join rel \<noteq> []" using plain_not_rooted(2) [OF assms(3,4)] .
  show ?thesis
  proof (cases "base = []")
    case True
    with assms(1) api rel path_Clean_plain(1) [of "[''api'', ''application-v1''] @ rel"] all
    show ?thesis by (simp add: getUrl_def path_Join_def del: join_byte.simps) simp
  next
    case False
    have "concat (map (Cons (CHR ''/'')) base) = CHR ''/'' # ?join base"
      using False by (induction base rule: join_byte.induct) auto
    moreover have "?join (base @ [''api'', ''application-v1''] @ rel) = ?join base @ ''/'' @ ''api/application-v1/'' @ ?join rel"
      using join_byte_append [OF False, of "[''api'', ''application-v1''] @ rel" "CHR ''/''"] api by simp
    ultimately show ?thesis
      using assms(1) False rel path_Clean_plain(2) [OF _ all] by (simp add: getUrl_def path_Join_def)
  qed
qed

theorem getUrl_path_witness:
  "url_Path (getUrl example_rest ''sequences/7/finish'') = ''/sub/api/application-v1/sequences/7/finish''"
proof -
  have "url_Path (cl_URL example_rest) = concat (map (Cons (CHR ''/'')) [''sub''])" by (simp add: example_rest_def)
  from getUrl_path [OF this, of "[''sequences'', ''7'', ''finish'']"] show ?thesis
    by (simp add: plain_element_def)
qed

text \<open>C30. The query of a URL survives: parsing what \<open>Encode\<close> wrote gives the same pairs, sorted by key and in their order for
  each key. So the server reads the code of a registration, whatever bytes it consists of, beside the parameters the
  base URL had.\<close>

theorem registration_code_roundtrip:
  "parse_query (encode_query ps) = sort_key fst ps \<and>
    set (parse_query (url_RawQuery (rq_URL (registration_request c code app)))) =
      insert (''code'', code) (set (parse_query (url_RawQuery (cl_URL c))))"
  by (simp add: parse_query_encode registration_request_def Let_def getUrl_def)

text \<open>\<open>httpPost\<close> reports an error exactly when the validator refuses the struct (and then nothing is sent), when the request
  failed, or when the status is 300 or more; the error is always a \<open>CombinedError\<close>, and carries the status and the body
  of the answer in the last case.\<close>

theorem httpPost_errors:
  assumes "httpPost http validate c rel (Some d) zero = (resp, v, err)"
    and "r = http (authorized c ''POST'' rel (Some d))"
  shows "err =
    (if is_struct d \<and> validate d \<noteq> None then Some (ErrCombined [the (validate d)])
     else if rp_errs r \<noteq> [] then Some (ErrCombined (rp_errs r))
     else case rp_response r of
       Some a \<Rightarrow> if rs_StatusCode a \<ge> 300
         then Some (ErrCombined [ErrStatus (rs_StatusCode a) (rs_Status a) (case rs_Body a of Inl e \<Rightarrow> [] | Inr t \<Rightarrow> t)])
         else None
     | None \<Rightarrow> None) \<and>
    (is_struct d \<and> validate d \<noteq> None \<longrightarrow> resp = None \<and> v = zero) \<and>
    (err \<noteq> None \<longrightarrow> IsCombinedError (the err))"
  using assms
  by (auto simp: httpPost_def Let_def IsCombinedError_def ExtractCombined_def split: option.splits if_splits)

theorem httpPost_errors_witness:
  "CreateSequence (\<lambda>_. \<lparr>rp_response = Some \<lparr>rs_StatusCode = 404, rs_Status = ''404'', rs_Body = Inr ''no''\<rparr>,
      rp_value = [], rp_errs = []\<rparr>) (\<lambda>_. None) example_rest example_request =
    Inl (ErrCombined [ErrStatus 404 ''404'' ''no''])"
proof -
  let ?http = "\<lambda>_ :: http_request. \<lparr>rp_response = Some \<lparr>rs_StatusCode = 404, rs_Status = ''404'', rs_Body = Inr ''no''\<rparr>,
      rp_value = [] :: string, rp_errs = []\<rparr>"
  obtain resp v err where post:
    "httpPost ?http (\<lambda>_. None) example_rest ''sequences'' (Some (PSequence example_request)) [] = (resp, v, err)"
    using prod_cases3 by blast
  from httpPost_errors [OF post refl] have "err = Some (ErrCombined [ErrStatus 404 ''404'' ''no''])" by simp
  with post show ?thesis by (simp add: CreateSequence_def)
qed

end
