(* ===== verification/WS_Lifecycle.thy ===== *)
theory WS_Lifecycle
  imports WS_Client "HOL-Library.Sublist"
begin

text \<open>
  \<open>telephonist/wsclient.go\<close>: the goroutines of the client. \<open>readPump\<close> and \<open>writePump\<close> are one step per round of their
  loops, \<open>runLoop\<close> is one step between two points at which another goroutine may run. The whole client is a transition
  system: the loop (with \<open>writePump\<close>, which it calls), the \<open>readPump\<close> goroutines, callers of the
  public operations and of \<open>Stop\<close>. A step that crashes is the end of the process; a step that blocks is one
  that does not happen. What the network returns comes with the action.

  A message counts as handed over when it is sent; the pump takes the messages in their order. In the program the
  next send waits until the pump is back at its channel, so the model allows it earlier than the program does.
\<close>

section \<open>Definitions\<close>

subsection \<open>Reading\<close>

text \<open>
  What a call of \<open>ReadMessage\<close> comes to. \<open>ReadNil\<close>: it begins while \<open>c.conn\<close> is nil. \<open>ReadPanics\<close>: the library panics, which it does at
  the 1000th failed read of one connection.
\<close>

datatype read_result =
    ReadFailed goerror
  | ReadBinary
  | ReadText bytes
  | ReadNil
  | ReadPanics

text \<open>
  \<open>rc_decode\<close> is \<open>json.Unmarshal\<close> into the message variable, which is the same for every round: what a message
  does not mention keeps its value from the message before. \<open>rc_unexpected\<close> is gorilla's \<open>IsUnexpectedCloseError\<close> with the
  expected codes 1001 and 1006: a close frame with another code.
\<close>

record read_env =
  rc_decode :: "bytes \<Rightarrow> i_raw_message \<Rightarrow> goerror option \<times> i_raw_message"
  rc_unexpected :: "goerror \<Rightarrow> bool"
  rc_handlers :: ws_env

text \<open>\<open>ErrInvalidWebsocketMessage\<close> is compared by identity: no error of the connection is equal to it.\<close>

datatype read_error = ErrInvalidWebsocketMessage | ReadError goerror

definition readMessage ::
  "read_env \<Rightarrow> read_result \<Rightarrow> i_raw_message \<Rightarrow> (read_error option \<times> i_raw_message) outcome" where
  "readMessage env r rm =
     (case r of
        ReadFailed err \<Rightarrow> Inr (Some (ReadError err), rm)
      | ReadBinary \<Rightarrow> Inr (Some ErrInvalidWebsocketMessage, rm)
      | ReadText message \<Rightarrow>
          (case rc_decode env message rm of
             (Some err, rm1) \<Rightarrow> Inr (Some ErrInvalidWebsocketMessage, rm1)
           | (None, rm1) \<Rightarrow> Inr (None, rm1))
      | ReadNil \<Rightarrow> Inl nil_dereference
      | ReadPanics \<Rightarrow> Inl (Panic ''repeated read on failed websocket connection''))"

text \<open>One round of \<open>readPump\<close>; the flag says whether the loop goes on.\<close>

definition readPump_step ::
  "read_env \<Rightarrow> read_result \<Rightarrow> i_raw_message \<Rightarrow> ws_client
   \<Rightarrow> (ws_effect list \<times> bool \<times> i_raw_message \<times> ws_client) outcome" where
  "readPump_step env r rm c =
     andThen (readMessage env r rm) (\<lambda>(err, rm1).
          if err = Some ErrInvalidWebsocketMessage then Inr ([], True, rm1, c)
          else if (case err of Some (ReadError e) \<Rightarrow> rc_unexpected env e | _ \<Rightarrow> False)
          then Inr ([], False, rm1, onDisconnect c)
          else andThen (handleMessage (rc_handlers env) rm1 c)
                 (\<lambda>(effs, err1, c1). Inr (effs, True, rm1, c1)))"

fun readPump ::
  "read_env \<Rightarrow> read_result list \<Rightarrow> i_raw_message \<Rightarrow> ws_client
   \<Rightarrow> (ws_effect list \<times> bool \<times> i_raw_message \<times> ws_client) outcome" where
  "readPump env [] rm c = Inr ([], True, rm, c)"
| "readPump env (r # rs) rm c =
     andThen (readPump_step env r rm c) (\<lambda>(effs, looping, rm1, c1).
       if looping
       then andThen (readPump env rs rm1 c1) (\<lambda>(effs2, looping2, rm2, c2). Inr (effs @ effs2, looping2, rm2, c2))
       else Inr (effs, False, rm1, c1))"

subsection \<open>Writing\<close>

text \<open>The results of the operations of the connection in one round, and the JSON encoder.\<close>

record write_env =
  wr_NextWriter :: "goerror option"
  wr_unexpected :: "goerror \<Rightarrow> bool"
  wr_Marshal :: "o_raw_message \<Rightarrow> goerror option"
  wr_Write :: "goerror option"
  wr_Ping :: "goerror option"

datatype write_input =
    Received o_raw_message
  | ChannelClosed
  | PingTick

text \<open>
  One round of \<open>writePump\<close>: the message it wrote, if any, and whether it goes on. \<open>w.Close()\<close>, which sends what \<open>Write\<close> took, is not a step of
  its own: the source ignores its error, and a message that it fails to send counts as written here.
\<close>

fun writePump_step :: "write_env \<Rightarrow> write_input \<Rightarrow> o_raw_message list \<times> bool" where
  "writePump_step env (Received msg) =
     (case wr_NextWriter env of
        Some err \<Rightarrow> ([], \<not> wr_unexpected env err)
      | None \<Rightarrow>
          (case wr_Marshal env msg of
             Some err \<Rightarrow> ([], True)
           | None \<Rightarrow>
               (case wr_Write env of
                  Some err \<Rightarrow> ([], False)
                | None \<Rightarrow> ([msg], True))))"
| "writePump_step env ChannelClosed = ([], False)"
| "writePump_step env PingTick = ([], wr_Ping env = None)"

fun writePump :: "(write_env \<times> write_input) list \<Rightarrow> o_raw_message list \<times> bool" where
  "writePump [] = ([], True)"
| "writePump ((env, x) # xs) =
     (case writePump_step env x of
        (ms, looping) \<Rightarrow>
          if looping then (case writePump xs of (ms2, looping2) \<Rightarrow> (ms @ ms2, looping2)) else (ms, False))"

subsection \<open>The loop\<close>

text \<open>\<open>connectWithTicket\<close>, cut at the point where it waits for the network.\<close>

definition dial_begin :: "ws_client \<Rightarrow> ws_client outcome" where
  "dial_begin c =
     andThen (requireState [StateConnecting] c) (\<lambda>_. Inr (c\<lparr>ws_sendMessages := OpenChan False []\<rparr>))"

definition dial_end :: "(goerror + nat) \<Rightarrow> ws_client \<Rightarrow> (goerror option \<times> ws_client) outcome" where
  "dial_end dial c =
     (case dial of
        Inl err \<Rightarrow>
          andThen (transitionState StateConnecting StateDisconnected (c\<lparr>ws_conn := None\<rparr>))
            (\<lambda>c2. Inr (Some err, c2))
      | Inr conn \<Rightarrow>
          andThen (transitionState StateConnecting StatePreparing (c\<lparr>ws_conn := Some conn\<rparr>))
            (\<lambda>c2. Inr (None, c2)))"

datatype loop_pc =
    PcIdle  \<comment> \<open>before \<open>runLoop\<close>\<close>
  | PcTop  \<comment> \<open>at the condition of the loop\<close>
  | PcConnect  \<comment> \<open>before \<open>connect\<close>\<close>
  | PcTicket  \<comment> \<open>waiting for the ticket\<close>
  | PcDial  \<comment> \<open>waiting for the connection\<close>
  | PcConnected  \<comment> \<open>\<open>connect\<close> has returned without an error\<close>
  | PcPump  \<comment> \<open>in \<open>writePump\<close>\<close>
  | PcSleep
  | PcDone

datatype loop_input =
    LStart
  | LCheck
  | LConnect
  | LTicket "goerror list + string"
  | LDial "goerror + nat"
  | LPumps
  | LWriteMessage write_env
  | LWriteClosed
  | LWritePing write_env
  | LWake

fun receiving :: "bool \<Rightarrow> 'm gochan \<Rightarrow> 'm gochan" where
  "receiving b (OpenChan b' xs) = OpenChan b xs"
| "receiving b ch = ch"

fun is_closed :: "'m gochan \<Rightarrow> bool" where
  "is_closed (ClosedChan xs) = True"
| "is_closed _ = False"

text \<open>
  The client and its goroutines: where \<open>runLoop\<close> is, the message variable of each live \<open>readPump\<close>, how many messages of
  the present channel the pump has taken, how often the pumps were started, what was written to the connections, and what
  callbacks were called.
\<close>

record ws_sys =
  sys_client :: ws_client
  sys_pc :: loop_pc
  sys_readers :: "i_raw_message list"
  sys_taken :: nat
  sys_starts :: nat
  sys_wire :: "o_raw_message list"
  sys_effects :: "ws_effect list"

definition no_message :: i_raw_message where
  "no_message = \<lparr>i_MessageType = [], i_Data = []\<rparr>"

text \<open>After a round of \<open>writePump\<close>: when its loop has ended, \<open>onDisconnect\<close> and the pause.\<close>

definition after_write :: "o_raw_message list \<times> bool \<Rightarrow> ws_sys \<Rightarrow> ws_sys" where
  "after_write r s =
     (case r of
        (ms, looping) \<Rightarrow>
          (let s1 = s\<lparr>sys_wire := sys_wire s @ ms\<rparr>
           in if looping then s1
              else s1\<lparr>sys_client := (onDisconnect (sys_client s1))
                       \<lparr>ws_sendMessages := receiving False (ws_sendMessages (sys_client s1))\<rparr>,
                      sys_pc := PcSleep\<rparr>))"

text \<open>One step of \<open>runLoop\<close>; \<open>None\<close> when the loop is not at the point the input belongs to.\<close>

definition goto :: "loop_pc \<Rightarrow> ws_sys \<Rightarrow> ws_client \<Rightarrow> ws_sys outcome" where
  "goto pc s c = Inr (s\<lparr>sys_client := c, sys_pc := pc\<rparr>)"

definition setLastError :: "goerror option \<Rightarrow> ws_client \<Rightarrow> ws_client" where
  "setLastError err c = c\<lparr>ws_lastError := err\<rparr>"

fun runLoop_step :: "loop_input \<Rightarrow> ws_sys \<Rightarrow> ws_sys outcome option" where
  "runLoop_step LStart s =
     (if sys_pc s = PcIdle
      then Some (andThen (transitionState StateStopped StateDisconnected (sys_client s)) (goto PcTop s)) else None)"
| "runLoop_step LCheck s =
     (if sys_pc s = PcTop
      then Some (goto (if ws_state (sys_client s) \<noteq> StateStopped then PcConnect else PcDone) s (sys_client s))
      else None)"
| "runLoop_step LConnect s =
     (if sys_pc s = PcConnect then Some (andThen (connect_begin (sys_client s)) (goto PcTicket s)) else None)"
| "runLoop_step (LTicket ticket) s =
     (if sys_pc s = PcTicket then
        Some (case ticket of
          Inl errs \<Rightarrow>
            andThen (transitionState StateConnecting StateDisconnected (sys_client s))
              (\<lambda>c1. goto PcSleep s (setLastError (Some (ticket_error errs)) c1))
        | Inr t \<Rightarrow> andThen (dial_begin (sys_client s)) (goto PcDial (s\<lparr>sys_taken := 0\<rparr>)))
      else None)"
| "runLoop_step (LDial dial) s =
     (if sys_pc s = PcDial then
        Some (andThen (dial_end dial (sys_client s)) (\<lambda>(err, c1).
          goto (if err \<noteq> None then PcSleep else PcConnected) s (setLastError err c1)))
      else None)"
| "runLoop_step LPumps s =
     (if sys_pc s = PcConnected then
        Some (andThen (requireState [StatePreparing] (sys_client s)) (\<lambda>_.
          goto PcPump (s\<lparr>sys_readers := sys_readers s @ [no_message], sys_starts := sys_starts s + 1\<rparr>)
            ((sys_client s)\<lparr>ws_sendMessages := receiving True (ws_sendMessages (sys_client s))\<rparr>)))
      else None)"
| "runLoop_step (LWriteMessage env) s =
     (let log = chan_log (ws_sendMessages (sys_client s))
      in if sys_pc s = PcPump \<and> sys_taken s < length log
         then Some (Inr (after_write (writePump_step env (Received (log ! sys_taken s)))
                     (s\<lparr>sys_taken := sys_taken s + 1\<rparr>)))
         else None)"
| "runLoop_step LWriteClosed s =
     (if sys_pc s = PcPump \<and> is_closed (ws_sendMessages (sys_client s)) \<and>
         sys_taken s = length (chan_log (ws_sendMessages (sys_client s)))
      then Some (Inr (after_write ([], False) s)) else None)"
| "runLoop_step (LWritePing env) s =
     (if sys_pc s = PcPump then Some (Inr (after_write (writePump_step env PingTick) s)) else None)"
| "runLoop_step LWake s =
     (if sys_pc s = PcSleep then Some (goto PcTop s (sys_client s)) else None)"

subsection \<open>The system\<close>

datatype ws_action =
    ALoop loop_input
  | ARead nat read_env read_result
  | ASend string o_data
  | AAddChannel string chan_id
  | ARemoveChannel string u32
  | AStop

definition with_client :: "ws_sys \<Rightarrow> ws_client \<Rightarrow> ws_sys" where
  "with_client s c = s\<lparr>sys_client := c\<rparr>"

text \<open>
  A \<open>readPump\<close> that ends leaves the list. A read that began on an earlier connection may end at any time; one begins on a nil connection only when
  the last dial failed.
\<close>

fun ws_act :: "ws_action \<Rightarrow> ws_sys \<Rightarrow> ws_sys outcome option" where
  "ws_act (ALoop x) s = runLoop_step x s"
| "ws_act (ARead n env r) s =
     (if n < length (sys_readers s) \<and> (r = ReadNil \<longrightarrow> ws_conn (sys_client s) = None) then
        Some (andThen (readPump_step env r (sys_readers s ! n) (sys_client s)) (\<lambda>(effs, looping, rm, c).
          Inr (s\<lparr>sys_client := c, sys_effects := sys_effects s @ effs,
                 sys_readers := (if looping then (sys_readers s)[n := rm]
                   else take n (sys_readers s) @ drop (Suc n) (sys_readers s))\<rparr>)))
      else None)"
| "ws_act (ASend t d) s =
     Some (andThen (SendWebsocketMessage t d (sys_client s)) (\<lambda>(err, c). Inr (with_client s c)))"
| "ws_act (AAddChannel e ch) s =
     Some (andThen (addEventChannel e ch (sys_client s)) (\<lambda>(i, c). Inr (with_client s c)))"
| "ws_act (ARemoveChannel e i) s =
     Some (andThen (removeEventChannel e i (sys_client s)) (\<lambda>c. Inr (with_client s c)))"
| "ws_act AStop s = Some (andThen (Stop (sys_client s)) (\<lambda>c. Inr (with_client s c)))"

inductive ws_step :: "ws_sys \<Rightarrow> ws_sys \<Rightarrow> bool" where
  "ws_act a s = Some (Inr s') \<Longrightarrow> ws_step s s'"

inductive_cases ws_stepE: "ws_step s s'"

inductive_simps ws_step_iff: "ws_step s s'"

definition ws_init :: "uuid \<Rightarrow> ws_options \<Rightarrow> ws_sys" where
  "ws_init freshID options =
     \<lparr>sys_client = NewWSClient freshID options, sys_pc = PcIdle, sys_readers = [], sys_taken = 0, sys_starts = 0, sys_wire = [],
      sys_effects = []\<rparr>"

inductive ws_reachable :: "ws_sys \<Rightarrow> bool" where
  start: "ws_reachable (ws_init freshID options)"
| step: "ws_reachable s \<Longrightarrow> ws_step s s' \<Longrightarrow> ws_reachable s'"

text \<open>A run of given actions.\<close>

fun ws_run :: "ws_action list \<Rightarrow> ws_sys \<Rightarrow> ws_sys outcome option" where
  "ws_run [] s = Some (Inr s)"
| "ws_run (a # as) s =
     (case ws_act a s of
        Some (Inr s') \<Rightarrow> ws_run as s'
      | r \<Rightarrow> r)"

subsection \<open>Invariant\<close>

text \<open>The states the client can be in while the loop is at a point.\<close>

fun pc_ok :: "loop_pc \<Rightarrow> client_state \<Rightarrow> bool" where
  "pc_ok PcIdle st \<longleftrightarrow> st = StateStopped"
| "pc_ok PcTop st \<longleftrightarrow> st \<in> {StateStopped, StateDisconnected}"
| "pc_ok PcConnect st \<longleftrightarrow> st \<in> {StateStopped, StateDisconnected}"
| "pc_ok PcTicket st \<longleftrightarrow> st \<in> {StateStopped, StateConnecting}"
| "pc_ok PcDial st \<longleftrightarrow> st \<in> {StateStopped, StateConnecting}"
| "pc_ok PcConnected st \<longleftrightarrow> st \<noteq> StateConnecting"
| "pc_ok PcPump st \<longleftrightarrow> st \<noteq> StateConnecting"
| "pc_ok PcSleep st \<longleftrightarrow> st \<in> {StateStopped, StateDisconnected}"
| "pc_ok PcDone st \<longleftrightarrow> st = StateStopped"

text \<open>
  The channel is closed exactly after \<open>Stop\<close>; somebody receives from it exactly while \<open>writePump\<close> runs; there is a channel
  and a connection as soon as they are needed.
\<close>

definition chan_ok :: "loop_pc \<Rightarrow> client_state \<Rightarrow> o_raw_message gochan \<Rightarrow> bool" where
  "chan_ok pc st ch \<longleftrightarrow>
     (pc = PcIdle \<longrightarrow> ch = NilChan) \<and>
     (is_closed ch \<longleftrightarrow> st = StateStopped \<and> pc \<noteq> PcIdle) \<and>
     (chan_live ch \<longleftrightarrow> pc = PcPump \<and> \<not> is_closed ch) \<and>
     (pc \<in> {PcDial, PcConnected, PcPump} \<longrightarrow> ch \<noteq> NilChan)"

definition sys_ok :: "ws_sys \<Rightarrow> bool" where
  "sys_ok s \<longleftrightarrow>
     pc_ok (sys_pc s) (ws_state (sys_client s)) \<and>
     chan_ok (sys_pc s) (ws_state (sys_client s)) (ws_sendMessages (sys_client s)) \<and>
     (sys_pc s \<in> {PcConnected, PcPump} \<longrightarrow> ws_conn (sys_client s) \<noteq> None) \<and>
     sys_taken s \<le> length (chan_log (ws_sendMessages (sys_client s))) \<and>
     (sys_starts s = 0 \<longrightarrow> sys_readers s = [] \<and>
        (sys_pc s = PcConnected \<longrightarrow> ws_state (sys_client s) \<in> {StatePreparing, StateStopped}))"

section \<open>Lemmas\<close>

text \<open>What sending does to a channel, and how a send can fail.\<close>

fun chan_grow :: "'m gochan \<Rightarrow> 'm list \<Rightarrow> 'm gochan" where
  "chan_grow (OpenChan b xs) ms = OpenChan b (xs @ ms)"
| "chan_grow ch ms = ch"

lemma chan_grow_simps [simp]:
  "chan_grow ch [] = ch" "chan_grow (chan_grow ch ms) ms' = chan_grow ch (ms @ ms')"
  "chan_grow ch ms = NilChan \<longleftrightarrow> ch = NilChan" "is_closed (chan_grow ch ms) = is_closed ch"
  "chan_live (chan_grow ch ms) = chan_live ch"
  "length (chan_log ch) \<le> length (chan_log (chan_grow ch ms))"
  by (cases ch; simp)+

lemma chan_send_grow: "chan_send x ch = Inr ch' \<Longrightarrow> ch' = chan_grow ch [x]"
  by (cases ch) (auto split: if_splits)

lemma chan_send_fails: "chan_send x ch = Inl e \<Longrightarrow> e = Blocked \<or> is_closed ch"
  by (cases ch) (auto split: if_splits)

text \<open>What the operations of the client leave alone. The channel may have grown.\<close>

definition client_frame :: "ws_client \<Rightarrow> ws_client \<Rightarrow> bool" where
  "client_frame c c' \<longleftrightarrow> ws_conn c' = ws_conn c \<and> (\<exists>ms. ws_sendMessages c' = chan_grow (ws_sendMessages c) ms)"

definition client_same :: "ws_client \<Rightarrow> ws_client \<Rightarrow> bool" where
  "client_same c c' \<longleftrightarrow> client_frame c c' \<and> ws_state c' = ws_state c \<and> ws_closedConns c' = ws_closedConns c"

lemma client_frame_refl [simp, intro]: "client_frame c c"
  by (auto simp: client_frame_def intro: exI [of _ "[]"])

lemma client_same_refl [simp, intro]: "client_same c c"
  by (simp add: client_same_def)

lemma ws_send_same: "ws_send m c = Inr c' \<Longrightarrow> client_same c c'"
  by (auto simp: client_same_def client_frame_def intro!: exI [of _ "[m]"] chan_send_grow elim!: outcome_elims)

lemma ws_send_fails: "ws_send m c = Inl e \<Longrightarrow> e = Blocked \<or> is_closed (ws_sendMessages c)"
  by (auto simp: ws_send_def andThen_def dest: chan_send_fails split: sum.splits)

lemma ws_send_upd_same:
  "ws_send m (c\<lparr>ws_eventChannels := x\<rparr>) = Inr c' \<Longrightarrow> client_same c c'"
  "ws_send m (c\<lparr>ws_eventChannelsSeq := n, ws_eventChannels := x\<rparr>) = Inr c' \<Longrightarrow> client_same c c'"
  by (drule ws_send_same; simp add: client_same_def client_frame_def)+

lemma ws_send_upd_fails:
  "ws_send m (c\<lparr>ws_eventChannels := x\<rparr>) = Inl e \<Longrightarrow> e = Blocked \<or> is_closed (ws_sendMessages c)"
  "ws_send m (c\<lparr>ws_eventChannelsSeq := n, ws_eventChannels := x\<rparr>) = Inl e \<Longrightarrow>
     e = Blocked \<or> is_closed (ws_sendMessages c)"
  by (drule ws_send_fails; simp)+

lemma client_same_upd [simp]:
  "client_same c (c\<lparr>ws_eventChannels := x\<rparr>)" "client_same c (c\<lparr>ws_eventChannelsSeq := n, ws_eventChannels := x\<rparr>)"
  by (auto simp: client_same_def client_frame_def intro: exI [of _ "[]"])

lemma andThen_Inl_iff: "andThen m f = Inl e \<longleftrightarrow> m = Inl e \<or> (\<exists>x. m = Inr x \<and> f x = Inl e)"
  by (cases m) auto

lemma addEventChannel_same: "addEventChannel e ch c = Inr (i, c') \<Longrightarrow> client_same c c'"
  by (auto simp: addEventChannel_def Let_def andThen_Inr_iff dest: ws_send_upd_same split: option.splits)

lemma addEventChannel_fails:
  "addEventChannel e ch c = Inl x \<Longrightarrow> x = Blocked \<or> is_closed (ws_sendMessages c)"
  by (auto simp: addEventChannel_def Let_def andThen_Inl_iff dest: ws_send_upd_fails split: option.splits)

lemma removeEventChannel_same: "removeEventChannel e i c = Inr c' \<Longrightarrow> client_same c c'"
  by (auto simp: removeEventChannel_def Let_def dest: ws_send_upd_same split: option.splits if_splits)

lemma removeEventChannel_fails:
  "removeEventChannel e i c = Inl x \<Longrightarrow> x = Blocked \<or> is_closed (ws_sendMessages c)"
  by (auto simp: removeEventChannel_def Let_def dest: ws_send_upd_fails split: option.splits if_splits)

lemma SendWebsocketMessage_same: "SendWebsocketMessage t d c = Inr (err, c') \<Longrightarrow> client_same c c'"
  by (auto simp: SendWebsocketMessage_def andThen_Inr_iff dest: ws_send_same split: if_splits)

lemma SendWebsocketMessage_fails:
  "SendWebsocketMessage t d c = Inl e \<Longrightarrow> e = Blocked \<or> is_closed (ws_sendMessages c)"
  by (auto simp: SendWebsocketMessage_def andThen_Inl_iff dest: ws_send_fails split: if_splits)

text \<open>A message that is handled leaves the state alone, or takes it from preparing to connected.\<close>

definition client_handled :: "ws_client \<Rightarrow> ws_client \<Rightarrow> bool" where
  "client_handled c c' \<longleftrightarrow> client_frame c c' \<and> ws_closedConns c' = ws_closedConns c \<and>
     (ws_state c' = ws_state c \<or> ws_state c = StatePreparing \<and> ws_state c' = StateConnected)"

lemma client_same_handled: "client_same c c' \<Longrightarrow> client_handled c c'"
  by (simp add: client_same_def client_handled_def)

lemma onIntroduction_handled: "onIntroduction os pid d c = Inr c' \<Longrightarrow> client_handled c c'"
  by (auto simp: onIntroduction_def Let_def client_handled_def client_same_def client_frame_def setState_def
      intro: exI [of _ "[]"] dest!: ws_send_same split: if_splits)

lemma onIntroduction_fails:
  "onIntroduction os pid d c = Inl e \<Longrightarrow> e = Blocked \<or> is_closed (ws_sendMessages c)"
  by (auto simp: onIntroduction_def Let_def setState_def dest!: ws_send_fails split: if_splits)

lemma handleMessage_handled: "handleMessage env m c = Inr (effs, err, c') \<Longrightarrow> client_handled c c'"
  unfolding handleMessage_def decoded_def onGreetings_def
  by (auto simp: andThen_Inr_iff intro: onIntroduction_handled client_same_handled
      dest: ws_send_same split: if_splits sum.splits)

lemma handleMessage_fails: "handleMessage env m c = Inl e \<Longrightarrow> e = Blocked \<or> is_closed (ws_sendMessages c)"
  unfolding handleMessage_def decoded_def onGreetings_def
  by (auto simp: andThen_Inl_iff dest: onIntroduction_fails ws_send_fails split: if_splits sum.splits)

lemma onDisconnect_simps [simp]:
  "ws_sendMessages (onDisconnect c) = ws_sendMessages c" "ws_conn (onDisconnect c) = ws_conn c"
  "ws_state (onDisconnect c) =
    (if ws_state c \<in> {StateConnected, StatePreparing} then StateDisconnected else ws_state c)"
  by (simp_all add: onDisconnect_def setState_def)

text \<open>A round of \<open>readPump\<close> either handles a message or ends with \<open>onDisconnect\<close>.\<close>

lemma readPump_step_cases:
  assumes "readPump_step env r rm c = Inr (effs, looping, rm', c')"
  obtains (skipped) "looping" and "effs = []" and "c' = c"
    | (ended) "\<not> looping" and "effs = []" and "c' = onDisconnect c"
    | (handled) "looping" and "\<exists>err. handleMessage (rc_handlers env) rm' c = Inr (effs, err, c')"
  using assms
  by (cases "readMessage env r rm") (auto simp: readPump_step_def andThen_Inr_iff split: if_splits)

lemma readMessage_fails: "readMessage env r rm = Inl e \<Longrightarrow>
    r = ReadNil \<and> e = nil_dereference \<or> r = ReadPanics \<and> e = Panic ''repeated read on failed websocket connection''"
  by (auto simp: readMessage_def split: read_result.splits prod.splits option.splits)

lemma readPump_step_fails:
  "readPump_step env r rm c = Inl e \<Longrightarrow> e = Blocked \<or> is_closed (ws_sendMessages c) \<or> r = ReadNil \<and> e = nil_dereference \<or>
     r = ReadPanics \<and> e = Panic ''repeated read on failed websocket connection''"
  by (auto simp: readPump_step_def andThen_Inl_iff dest: handleMessage_fails readMessage_fails split: prod.splits if_splits)

subsection \<open>Every step keeps the invariant\<close>

lemma chan_ok_grow [simp]: "chan_ok pc st (chan_grow ch ms) = chan_ok pc st ch"
  by (auto simp: chan_ok_def)

lemma sys_ok_init: "sys_ok (ws_init freshID options)"
  by (simp add: sys_ok_def ws_init_def NewWSClient_def chan_ok_def)

lemma sys_ok_same:
  assumes "sys_ok s" and "client_same (sys_client s) c"
  shows "sys_ok (with_client s c)"
proof -
  from assms(2) obtain ms where "ws_sendMessages c = chan_grow (ws_sendMessages (sys_client s)) ms"
    and "ws_state c = ws_state (sys_client s)" and "ws_conn c = ws_conn (sys_client s)"
    by (auto simp: client_same_def client_frame_def)
  with assms(1) show ?thesis
    by (auto simp: sys_ok_def with_client_def intro: order_trans [OF _ chan_grow_simps(6)])
qed

lemma sys_ok_read:
  assumes "sys_ok s" and "sys_starts s \<noteq> 0"
    and "client_handled (sys_client s) c \<or> c = onDisconnect (sys_client s)"
  shows "sys_ok (s\<lparr>sys_client := c, sys_effects := es, sys_readers := rs\<rparr>)"
proof -
  from assms(3) obtain ms where "ws_sendMessages c = chan_grow (ws_sendMessages (sys_client s)) ms"
    and "ws_conn c = ws_conn (sys_client s)"
    and st: "ws_state c = ws_state (sys_client s) \<or>
      ws_state (sys_client s) = StatePreparing \<and> ws_state c = StateConnected \<or>
      ws_state (sys_client s) \<in> {StateConnected, StatePreparing} \<and> ws_state c = StateDisconnected"
    by (auto simp: client_handled_def client_frame_def intro: that [of "[]"] split: if_splits)
  moreover have "pc_ok (sys_pc s) (ws_state c)" "chan_ok (sys_pc s) (ws_state c) (ws_sendMessages (sys_client s))"
    using assms(1) st by (cases "sys_pc s"; auto simp: sys_ok_def chan_ok_def)+
  ultimately show ?thesis using assms(1,2)
    by (auto simp: sys_ok_def intro: order_trans [OF _ chan_grow_simps(6)])
qed

lemma Stop_cases:
  assumes "Stop c = Inr c'"
  obtains (already) "ws_state c = StateStopped" and "c' = c"
    | (closed) b xs where "ws_state c \<noteq> StateStopped" and "ws_sendMessages c = OpenChan b xs"
      and "c' = c\<lparr>ws_state := StateStopped, ws_sendMessages := ClosedChan xs\<rparr>"
  using assms
  by (cases "ws_sendMessages c") (auto simp: Stop_def split: if_splits)

lemma sys_ok_Stop:
  assumes "sys_ok s" and "Stop (sys_client s) = Inr c"
  shows "sys_ok (with_client s c)"
  using assms(2)
proof (cases rule: Stop_cases)
  case already
  with assms(1) show ?thesis by (simp add: with_client_def)
next
  case (closed b xs)
  with assms(1) show ?thesis
    by (cases "sys_pc s") (auto simp: sys_ok_def with_client_def chan_ok_def)
qed

lemma receiving_simps [simp]:
  "is_closed (receiving b ch) = is_closed ch" "receiving b ch = NilChan \<longleftrightarrow> ch = NilChan"
  "chan_log (receiving b ch) = chan_log ch" "chan_live (receiving False ch) = False"
  by (cases ch; simp)+

lemma receiving_live: "\<not> is_closed ch \<Longrightarrow> ch \<noteq> NilChan \<Longrightarrow> chan_live (receiving True ch)"
  by (cases ch) simp_all

lemma sys_ok_after_write:
  assumes "sys_ok s" and "sys_pc s = PcPump" and "n \<le> length (chan_log (ws_sendMessages (sys_client s)))"
  shows "sys_ok (after_write r (s\<lparr>sys_taken := n\<rparr>))"
  using assms
  by (cases r; cases "ws_state (sys_client s)") (auto simp: after_write_def sys_ok_def chan_ok_def Let_def)

lemma sys_ok_after_write_same:
  "sys_ok s \<Longrightarrow> sys_pc s = PcPump \<Longrightarrow> sys_ok (after_write r s)"
  using sys_ok_after_write [of s "sys_taken s" r] by (simp add: sys_ok_def)

lemma transitionState_Inr_iff [simp]:
  "transitionState a b c = Inr c' \<longleftrightarrow> ws_state c = a \<and> c' = c\<lparr>ws_state := b\<rparr>"
  by (auto simp: transitionState_def requireState_def setState_def)

lemma requireState_Inr_iff [simp]: "requireState sts c = Inr u \<longleftrightarrow> ws_state c \<in> set sts"
  by (simp add: requireState_def)

lemma sys_ok_LStart:
  assumes "sys_ok s" and "runLoop_step LStart s = Some (Inr s')"
  shows "sys_ok s'"
  using assms by (auto simp: andThen_Inr_iff goto_def sys_ok_def chan_ok_def split: if_splits)

lemma sys_ok_LConnect:
  assumes "sys_ok s" and "runLoop_step LConnect s = Some (Inr s')"
  shows "sys_ok s'"
  using assms by (auto simp: andThen_Inr_iff goto_def sys_ok_def chan_ok_def connect_begin_def split: if_splits)

lemma sys_ok_LTicket:
  assumes "sys_ok s" and "runLoop_step (LTicket t) s = Some (Inr s')"
  shows "sys_ok s'"
proof (cases t)
  case (Inl errs)
  with assms show ?thesis
    by (auto simp: andThen_Inr_iff goto_def sys_ok_def chan_ok_def setLastError_def split: if_splits)
next
  case (Inr k)
  with assms show ?thesis
    by (auto simp: andThen_Inr_iff goto_def sys_ok_def chan_ok_def dial_begin_def split: if_splits)
qed

lemma sys_ok_LDial:
  assumes "sys_ok s" and "runLoop_step (LDial d) s = Some (Inr s')"
  shows "sys_ok s'"
  using assms
  by (cases d) (auto simp: andThen_Inr_iff goto_def sys_ok_def chan_ok_def dial_end_def setLastError_def split: if_splits)

lemma sys_ok_LPumps:
  assumes "sys_ok s" and "runLoop_step LPumps s = Some (Inr s')"
  shows "sys_ok s'"
  using assms by (auto simp: andThen_Inr_iff goto_def sys_ok_def chan_ok_def receiving_live split: if_splits)

lemma sys_ok_runLoop_step:
  assumes "sys_ok s" and "runLoop_step x s = Some (Inr s')"
  shows "sys_ok s'"
proof (cases x)
  case LCheck
  with assms show ?thesis
    by (cases "ws_state (sys_client s)") (auto simp: goto_def sys_ok_def chan_ok_def split: if_splits)
next
  case (LWriteMessage env)
  with assms show ?thesis
    by (auto simp: Let_def intro: sys_ok_after_write split: if_splits)
next
  case LWake
  with assms show ?thesis by (auto simp: goto_def sys_ok_def chan_ok_def split: if_splits)
qed (use assms in \<open>auto simp del: runLoop_step.simps(1,3-6) simp: Let_def
    intro: sys_ok_LStart sys_ok_LConnect sys_ok_LTicket sys_ok_LDial sys_ok_LPumps sys_ok_after_write_same
    split: if_splits\<close>)

lemma sys_ok_act:
  assumes "sys_ok s" and "ws_act a s = Some (Inr s')"
  shows "sys_ok s'"
proof (cases a)
  case (ALoop x)
  with assms show ?thesis by (auto intro: sys_ok_runLoop_step)
next
  case (ARead n env r)
  with assms(2) obtain effs looping rm c where n: "n < length (sys_readers s)"
    and read: "readPump_step env r (sys_readers s ! n) (sys_client s) = Inr (effs, looping, rm, c)"
    and s': "s' = s\<lparr>sys_client := c, sys_effects := sys_effects s @ effs,
      sys_readers := (if looping then (sys_readers s)[n := rm]
        else take n (sys_readers s) @ drop (Suc n) (sys_readers s))\<rparr>"
    by (auto simp: andThen_Inr_iff split: if_splits)
  from n assms(1) have "sys_starts s \<noteq> 0" by (auto simp: sys_ok_def)
  moreover from read have "client_handled (sys_client s) c \<or> c = onDisconnect (sys_client s)"
    by (cases rule: readPump_step_cases)
      (auto intro: client_same_handled handleMessage_handled)
  ultimately show ?thesis unfolding s' by (rule sys_ok_read [OF assms(1)])
next
  case AStop
  with assms show ?thesis by (auto simp: andThen_Inr_iff intro: sys_ok_Stop)
qed (use assms in \<open>auto simp: andThen_Inr_iff intro: sys_ok_same
    dest: SendWebsocketMessage_same addEventChannel_same removeEventChannel_same\<close>)

lemma reachable_sys_ok: "ws_reachable s \<Longrightarrow> sys_ok s"
proof (induction rule: ws_reachable.induct)
  case (start freshID options)
  show ?case by (rule sys_ok_init)
next
  case (step s s')
  then show ?case by (auto simp: ws_step_iff intro: sys_ok_act)
qed

lemma reachable_run: "ws_run as s = Some (Inr s') \<Longrightarrow> ws_reachable s \<Longrightarrow> ws_reachable s'"
proof (induction as arbitrary: s)
  case (Cons a as)
  then obtain s1 where act: "ws_act a s = Some (Inr s1)" and run: "ws_run as s1 = Some (Inr s')"
    by (auto split: option.splits sum.splits)
  from ws_reachable.step [OF Cons.prems(2) ws_step.intros [OF act]] show ?case by (rule Cons.IH [OF run])
qed simp

lemma ws_run_append: "ws_run as s = Some (Inr s') \<Longrightarrow> ws_run (as @ bs) s = ws_run bs s'"
  by (induction as arbitrary: s) (auto split: option.splits sum.splits)

lemma ws_run_snoc: "ws_run as s = Some (Inr s') \<Longrightarrow> ws_run (as @ [a]) s = ws_act a s'"
  by (auto simp: ws_run_append split: option.splits sum.splits)

text \<open>How a step can crash.\<close>

lemma runLoop_step_fails:
  assumes "sys_ok s" and "runLoop_step x s = Some (Inl e)"
  shows "ws_state (sys_client s) = StateStopped \<and> sys_pc s \<noteq> PcIdle \<or>
    x = LPumps \<and> e = Exited \<and> sys_starts s \<noteq> 0 \<and> ws_state (sys_client s) \<in> {StateDisconnected, StateConnected}"
proof (cases x)
  case LPumps
  with assms show ?thesis
    by (cases "ws_state (sys_client s)") (auto simp: sys_ok_def requireState_def goto_def split: if_splits)
qed (use assms in \<open>auto simp: sys_ok_def andThen_Inl_iff goto_def connect_begin_def transitionState_def requireState_def
    dial_begin_def dial_end_def Let_def split: if_splits sum.splits\<close>)

lemma closed_stopped: "sys_ok s \<Longrightarrow> is_closed (ws_sendMessages (sys_client s)) \<Longrightarrow>
    ws_state (sys_client s) = StateStopped \<and> sys_pc s \<noteq> PcIdle"
  by (simp add: sys_ok_def chan_ok_def)

lemma Stop_fails: "Stop c = Inl e \<Longrightarrow> ws_state c \<noteq> StateStopped \<and> (ws_sendMessages c = NilChan \<or> is_closed (ws_sendMessages c))"
  by (cases "ws_sendMessages c") (auto simp: Stop_def andThen_Inl_iff split: if_splits)

subsection \<open>The pumps\<close>

text \<open>The messages of a run of \<open>writePump\<close>, and what a list of incoming messages does.\<close>

fun received :: "write_input \<Rightarrow> o_raw_message list" where
  "received (Received m) = [m]"
| "received _ = []"

definition all_fine :: "write_env \<Rightarrow> bool" where
  "all_fine env \<longleftrightarrow> wr_NextWriter env = None \<and> wr_Marshal env = (\<lambda>_. None) \<and> wr_Write env = None \<and> wr_Ping env = None"

lemma writePump_step_received: "writePump_step env x = (ms, b) \<Longrightarrow> ms = [] \<or> ms = received x"
  by (cases x) (auto split: option.splits)

lemma writePump_subseq: "writePump xs = (ms, b) \<Longrightarrow> subseq ms (concat (map (\<lambda>(env, x). received x) xs))"
proof (induction xs arbitrary: ms b)
  case (Cons y ys)
  obtain env x where y: "y = (env, x)" by fastforce
  obtain ms1 b1 where step: "writePump_step env x = (ms1, b1)" by fastforce
  obtain ms2 b2 where rest: "writePump ys = (ms2, b2)" by fastforce
  have "subseq ms2 (concat (map (\<lambda>(env, x). received x) ys))" by (rule Cons.IH [OF rest])
  moreover have "subseq ms1 (received x)" using writePump_step_received [OF step] by auto
  moreover have "ms = ms1 @ ms2 \<or> ms = ms1" using Cons.prems y step rest by (auto split: if_splits)
  ultimately show ?case using y list_emb_append_mono [of "(=)" ms1 "received x" "[]"]
    by (auto intro: list_emb_append_mono)
qed simp

lemma writePump_goes_on: "snd (writePump xs) \<longleftrightarrow> (\<forall>(env, x) \<in> set xs. snd (writePump_step env x))"
  by (induction xs) (auto split: prod.splits if_splits)

lemma writePump_all_fine:
  "\<forall>(env, x) \<in> set xs. all_fine env \<and> x \<noteq> ChannelClosed \<Longrightarrow>
     writePump xs = (concat (map (\<lambda>(env, x). received x) xs), True)"
proof (induction xs)
  case (Cons y ys)
  obtain env x where y: "y = (env, x)" by fastforce
  with Cons have "writePump_step env x = (received x, True)"
    by (cases x) (auto simp: all_fine_def)
  with Cons y show ?case by simp
qed simp

fun handle_all :: "ws_env \<Rightarrow> i_raw_message list \<Rightarrow> ws_client \<Rightarrow> (ws_effect list \<times> ws_client) outcome" where
  "handle_all env [] c = Inr ([], c)"
| "handle_all env (m # ms) c =
     andThen (handleMessage env m c) (\<lambda>(effs, err, c1).
       andThen (handle_all env ms c1) (\<lambda>(effs2, c2). Inr (effs @ effs2, c2)))"

text \<open>The messages among the results of reading, when every text that decodes mentions both fields.\<close>

definition message_of :: "read_env \<Rightarrow> read_result \<Rightarrow> i_raw_message list" where
  "message_of env r =
     (case r of
        ReadText b \<Rightarrow> (case rc_decode env b no_message of (None, m) \<Rightarrow> [m] | _ \<Rightarrow> [])
      | _ \<Rightarrow> [])"

definition complete_messages :: "read_env \<Rightarrow> bool" where
  "complete_messages env \<longleftrightarrow>
     (\<forall>b rm. case rc_decode env b no_message of
        (None, m) \<Rightarrow> rc_decode env b rm = (None, m)
      | (Some e, m) \<Rightarrow> fst (rc_decode env b rm) \<noteq> None)"

text \<open>The message variable after a frame that was read.\<close>

fun read_into :: "read_env \<Rightarrow> read_result \<Rightarrow> i_raw_message \<Rightarrow> i_raw_message" where
  "read_into env (ReadText b) rm = snd (rc_decode env b rm)"
| "read_into env _ rm = rm"

lemma readPump_step_message:
  assumes "complete_messages env" and "r = ReadBinary \<or> (\<exists>b. r = ReadText b)"
  shows "readPump_step env r rm c =
    (case message_of env r of
       [] \<Rightarrow> Inr ([], True, read_into env r rm, c)
     | m # _ \<Rightarrow> andThen (handleMessage (rc_handlers env) m c) (\<lambda>(effs, err, c1). Inr (effs, True, read_into env r rm, c1)))"
proof (cases r)
  case (ReadText b)
  obtain o1 m where dec: "rc_decode env b no_message = (o1, m)" by fastforce
  show ?thesis
  proof (cases o1)
    case None
    with assms(1) dec have "rc_decode env b rm = (None, m)"
      by (auto simp: complete_messages_def dest: spec [of _ b])
    with ReadText dec None show ?thesis by (simp add: readPump_step_def readMessage_def message_of_def)
  next
    case (Some e)
    obtain o2 m2 where dec2: "rc_decode env b rm = (o2, m2)" by fastforce
    from assms(1) have "case rc_decode env b no_message of (None, m) \<Rightarrow> rc_decode env b rm = (None, m)
      | (Some e, m) \<Rightarrow> fst (rc_decode env b rm) \<noteq> None" unfolding complete_messages_def by (elim allE)
    with dec dec2 Some obtain e2 where "o2 = Some e2" by auto
    with ReadText dec dec2 Some show ?thesis by (simp add: readPump_step_def readMessage_def message_of_def)
  qed
qed (use assms(2) in \<open>auto simp: readPump_step_def readMessage_def message_of_def\<close>)

lemma readPump_handles:
  assumes "complete_messages env" and "\<forall>r \<in> set rs. r = ReadBinary \<or> (\<exists>b. r = ReadText b)"
    and "handle_all (rc_handlers env) (concat (map (message_of env) rs)) c = Inr (effs, c')"
  shows "readPump env (rs @ [x]) rm c =
    andThen (readPump_step env x (fold (read_into env) rs rm) c') (\<lambda>(effs2, looping, rm2, c2). Inr (effs @ effs2, looping, rm2, c2))"
  using assms(2,3)
proof (induction rs arbitrary: rm c effs)
  case Nil
  then show ?case by (cases "readPump_step env x rm c") (auto simp: andThen_def split: sum.splits)
next
  case (Cons r rs)
  from readPump_step_message [OF assms(1), of r rm c] Cons.prems(1) have
    step: "readPump_step env r rm c =
    (case message_of env r of
       [] \<Rightarrow> Inr ([], True, read_into env r rm, c)
     | m # _ \<Rightarrow> andThen (handleMessage (rc_handlers env) m c) (\<lambda>(effs, err, c1). Inr (effs, True, read_into env r rm, c1)))"
    by auto
  show ?case
  proof (cases "message_of env r")
    case Nil
    with Cons.prems step Cons.IH [of c effs "read_into env r rm"] show ?thesis
      by (cases "readPump_step env x (fold (read_into env) rs (read_into env r rm)) c'") auto
  next
    case (Cons m ms)
    then have "ms = []" by (auto simp: message_of_def split: read_result.splits prod.splits option.splits)
    with Cons Cons.prems(2) obtain effs1 err c1 effs2 where
      "handleMessage (rc_handlers env) m c = Inr (effs1, err, c1)"
      and rest: "handle_all (rc_handlers env) (concat (map (message_of env) rs)) c1 = Inr (effs2, c')"
      and "effs = effs1 @ effs2"
      by (auto simp: andThen_Inr_iff)
    moreover note Cons.IH [OF _ rest, of "read_into env r rm"]
    ultimately show ?thesis using Cons step Cons.prems(1)
      by (cases "readPump_step env x (fold (read_into env) rs (read_into env r rm)) c'") auto
  qed
qed

subsection \<open>Connecting\<close>

text \<open>The steps of the loop from the point before \<open>connect\<close> are the function \<open>connect\<close>, which \<open>Agent_Sessions\<close> uses.\<close>

lemma connect_refined:
  assumes "sys_pc s = PcConnect"
  shows "map_option (map_sum id sys_client) (ws_run (ALoop LConnect # ALoop (LTicket ticket) #
      (case ticket of Inl errs \<Rightarrow> [] | Inr t \<Rightarrow> [ALoop (LDial (dial t))])) s) =
    Some (map_sum id (\<lambda>(err, c). setLastError err c) (connect ticket dial (sys_client s)))"
proof (cases "ws_state (sys_client s) = StateDisconnected")
  case True
  show ?thesis
  proof (cases ticket)
    case (Inl errs)
    with True assms show ?thesis
      by (simp add: goto_def connect_def connect_begin_def connect_ticket_def transitionState_def requireState_def
          setState_def)
  next
    case (Inr t)
    with True assms show ?thesis
      by (cases "dial t") (simp_all add: goto_def connect_def connect_begin_def connect_ticket_def transitionState_def
          requireState_def setState_def dial_begin_def dial_end_def connectWithTicket_def Let_def)
  qed
next
  case False
  with assms show ?thesis
    by (simp add: connect_def connect_begin_def transitionState_def requireState_def)
qed

section \<open>Examples\<close>

definition example_handlers :: ws_env where
  "example_handlers =
     \<lparr>env_error = \<lambda>_. Inl (ErrText ''bad''), env_event = \<lambda>_. Inl (ErrText ''bad''), env_tasks = \<lambda>_. Inr [],
      env_task = \<lambda>_. Inl (ErrText ''bad''), env_uuid = \<lambda>_. Inl (ErrText ''bad''),
      env_introduction = \<lambda>_. Inr \<lparr>intro_ServerVersion = ''1'', intro_Authentication = ''ok'', intro_AppId = ''a''\<rparr>,
      env_osInfo = ''Linux'', env_pid = 1, env_event_order = [], env_channel_order = \<lambda>_. [], env_accepts = \<lambda>_. True\<rparr>"

text \<open>The text of a message is its type, and the connection can only fail with one error, which is not a close frame.\<close>

definition example_reads :: read_env where
  "example_reads = \<lparr>rc_decode = \<lambda>b rm. (None, \<lparr>i_MessageType = b, i_Data = []\<rparr>), rc_unexpected = \<lambda>_. False,
     rc_handlers = example_handlers\<rparr>"

definition example_options :: ws_options where
  "example_options =
     \<lparr>opt_CompatibilityKey = ''key'', opt_InstanceID = 2, opt_MachineID = ''m'', opt_ConnectionID = 3,
      opt_OnTask = None, opt_OnTasks = Some 7, opt_OnTaskRemoved = None, opt_OnConnected = None\<rparr>"

definition example_start :: ws_sys where
  "example_start = ws_init 1 example_options"

text \<open>A run that fails to get a ticket, and one that is connected.\<close>

definition no_ticket :: "ws_action list" where
  "no_ticket = map ALoop [LStart, LCheck, LConnect, LTicket (Inl [ErrText ''refused''])]"

definition dialled :: "ws_action list" where
  "dialled = map ALoop [LStart, LCheck, LConnect, LTicket (Inr ''t''), LDial (Inr 4), LPumps]"

definition failing_ping :: "goerror \<Rightarrow> write_env" where
  "failing_ping err = \<lparr>wr_NextWriter = None, wr_unexpected = \<lambda>_. False, wr_Marshal = \<lambda>_. None, wr_Write = None, wr_Ping = Some err\<rparr>"

lemma no_ticket_run:
  "\<exists>s. ws_run no_ticket example_start = Some (Inr s) \<and> sys_pc s = PcSleep \<and>
     ws_state (sys_client s) = StateDisconnected \<and> ws_sendMessages (sys_client s) = NilChan \<and>
     sys_readers s = []"
  by (simp add: no_ticket_def example_start_def ws_init_def NewWSClient_def transitionState_def requireState_def
      setState_def goto_def connect_begin_def setLastError_def)

lemma dialled_run:
  "\<exists>s. ws_run dialled example_start = Some (Inr s) \<and> sys_pc s = PcPump \<and>
     ws_state (sys_client s) = StatePreparing \<and> ws_sendMessages (sys_client s) = OpenChan True [] \<and>
     sys_readers s = [no_message] \<and> sys_taken s = 0 \<and> ws_closedConns (sys_client s) = []"
  by (simp add: dialled_def example_start_def ws_init_def NewWSClient_def transitionState_def requireState_def
      setState_def goto_def connect_begin_def setLastError_def dial_begin_def dial_end_def)

lemma example_start_reachable: "ws_reachable example_start"
  by (simp add: example_start_def ws_reachable.start)

section \<open>Properties\<close>

text \<open>C2. The client and its loop agree, whatever the network, the callers and \<open>Stop\<close> do, in every interleaving: the client is
  connecting exactly when its loop is (unless it was stopped), a client that is preparing or connected has a connection
  and its loop is about to enter or in \<open>writePump\<close>, the channel of outgoing messages is closed exactly after \<open>Stop\<close>,
  and somebody receives from it exactly while \<open>writePump\<close> runs: at every other time a send blocks or panics.\<close>

theorem ws_client_invariant:
  assumes "ws_reachable s" and "c = sys_client s"
  shows "(ws_state c = StateConnecting \<longrightarrow> sys_pc s \<in> {PcTicket, PcDial}) \<and>
    (sys_pc s \<in> {PcTicket, PcDial} \<longrightarrow> ws_state c \<in> {StateConnecting, StateStopped}) \<and>
    (ws_state c \<in> {StatePreparing, StateConnected} \<longrightarrow> sys_pc s \<in> {PcConnected, PcPump} \<and> ws_conn c \<noteq> None) \<and>
    (is_closed (ws_sendMessages c) \<longleftrightarrow> ws_state c = StateStopped \<and> sys_pc s \<noteq> PcIdle) \<and>
    (chan_live (ws_sendMessages c) \<longleftrightarrow> sys_pc s = PcPump \<and> ws_state c \<noteq> StateStopped)"
  using reachable_sys_ok [OF assms(1)] assms(2)
  by (cases "sys_pc s"; cases "ws_state c") (auto simp: sys_ok_def chan_ok_def)

theorem ws_client_invariant_witness:
  "\<exists>s. ws_run dialled example_start = Some (Inr s) \<and> chan_live (ws_sendMessages (sys_client s)) \<and>
    ws_conn (sys_client s) \<noteq> None"
proof -
  from dialled_run obtain s where s: "ws_run dialled example_start = Some (Inr s)" "sys_pc s = PcPump"
    "ws_state (sys_client s) = StatePreparing" by blast
  from ws_client_invariant [OF reachable_run [OF s(1) example_start_reachable] refl] s show ?thesis by auto
qed

text \<open>C16. The only ways in which a step of the client can bring the process down: \<open>Stop\<close> before the first ticket closes a nil channel; after
  \<open>Stop\<close> a goroutine sends on the closed channel or the loop finds that its state was changed; a \<open>readPump\<close> left
  over from an earlier connection changes the state of the new one before its pumps are started; a \<open>readPump\<close> left over reads from the
  connection when it is nil, after a dial that failed; and a \<open>readPump\<close> goes on reading from a connection that has failed until the library panics.
  (Steps are rounds of the goroutines: a panic of the library on writes at the same time, and \<open>Stop\<close> in the middle of a step of another
  goroutine, are not among them.)\<close>

theorem ws_client_crashes:
  assumes "ws_reachable s" and "ws_act a s = Some (Inl e)" and "e \<noteq> Blocked"
  shows "a = AStop \<and> ws_state (sys_client s) \<noteq> StateStopped \<and> ws_sendMessages (sys_client s) = NilChan \<or>
    ws_state (sys_client s) = StateStopped \<and> sys_pc s \<noteq> PcIdle \<or>
    a = ALoop LPumps \<and> e = Exited \<and> sys_starts s \<noteq> 0 \<and>
      ws_state (sys_client s) \<in> {StateDisconnected, StateConnected} \<or>
    (\<exists>n env. a = ARead n env ReadNil) \<and> e = nil_dereference \<and> sys_starts s \<noteq> 0 \<and> ws_conn (sys_client s) = None \<and>
      sys_pc s \<notin> {PcConnected, PcPump} \<or>
    (\<exists>n env. a = ARead n env ReadPanics) \<and> e = Panic ''repeated read on failed websocket connection'' \<and> sys_starts s \<noteq> 0"
proof -
  have ok: "sys_ok s" by (rule reachable_sys_ok [OF assms(1)])
  show ?thesis
  proof (cases a)
    case (ALoop x)
    with assms(2) runLoop_step_fails [OF ok, of x e] show ?thesis by auto
  next
    case AStop
    with assms(2) have "Stop (sys_client s) = Inl e" by (auto simp: andThen_Inl_iff)
    from Stop_fails [OF this] closed_stopped [OF ok] AStop show ?thesis by auto
  next
    case (ARead n env r)
    with assms(2) have n: "n < length (sys_readers s)" "r = ReadNil \<longrightarrow> ws_conn (sys_client s) = None"
      and read: "readPump_step env r (sys_readers s ! n) (sys_client s) = Inl e"
      by (auto simp: andThen_Inl_iff split: if_splits)
    from n(1) ok have "sys_starts s \<noteq> 0" by (auto simp: sys_ok_def)
    moreover have "ws_conn (sys_client s) = None \<longrightarrow> sys_pc s \<notin> {PcConnected, PcPump}" using ok by (auto simp: sys_ok_def)
    ultimately show ?thesis using readPump_step_fails [OF read] assms(3) closed_stopped [OF ok] ARead n(2)
      by (elim disjE) simp_all
  qed (use assms(2,3) closed_stopped [OF ok] in \<open>auto simp: andThen_Inl_iff split: if_splits
      dest: SendWebsocketMessage_fails addEventChannel_fails removeEventChannel_fails\<close>)
qed

theorem ws_client_crashes_witness:
  "\<exists>s e. ws_run no_ticket example_start = Some (Inr s) \<and> ws_act AStop s = Some (Inl (Panic e)) \<and>
    ws_sendMessages (sys_client s) = NilChan"
proof -
  from no_ticket_run obtain s where s: "ws_run no_ticket example_start = Some (Inr s)"
    "ws_state (sys_client s) = StateDisconnected" "ws_sendMessages (sys_client s) = NilChan" by blast
  then have "ws_act AStop s = Some (Inl (Panic ''close of nil channel''))" by (simp add: Stop_def)
  from ws_client_crashes [OF reachable_run [OF s(1) example_start_reachable] this] this s show ?thesis by auto
qed

text \<open>The last two ways happen: a ping fails, the client pauses, the next dial fails, and the \<open>readPump\<close> of the first connection reads from nil, or
  goes on reading from the first connection.\<close>

theorem failed_dial_crashes:
  "ws_run (dialled @ map ALoop [LWritePing (failing_ping err), LWake, LCheck, LConnect, LTicket (Inr t), LDial (Inl err)] @
      [ARead 0 example_reads ReadNil]) example_start = Some (Inl nil_dereference)"
  by (simp add: dialled_def example_start_def ws_init_def NewWSClient_def transitionState_def requireState_def setState_def goto_def
      connect_begin_def setLastError_def dial_begin_def dial_end_def after_write_def failing_ping_def onDisconnect_def Let_def
      readPump_step_def readMessage_def)

text \<open>C17. The client reconnects: from every reachable state in which it pauses and is not stopped, the loop gets to its
  pumps with a fresh channel when the server gives a ticket and takes the connection, and the server's introduction
  then makes the client connected, with its greeting as the first message on its way.\<close>

theorem ws_client_reconnects:
  assumes "ws_reachable s" and "sys_pc s = PcSleep" and "ws_state (sys_client s) \<noteq> StateStopped"
    and "rc_decode env b no_message = (None, \<lparr>i_MessageType = ''introduction'', i_Data = x\<rparr>)"
    and "env_introduction (rc_handlers env) x = Inr d"
  shows "\<exists>s'. ws_run (map ALoop [LWake, LCheck, LConnect, LTicket (Inr t), LDial (Inr k), LPumps] @
      [ARead (length (sys_readers s)) env (ReadText b)]) s = Some (Inr s') \<and>
    ws_state (sys_client s') = StateConnected \<and> ws_conn (sys_client s') = Some k \<and> sys_taken s' = 0 \<and>
    (\<exists>hello. ws_sendMessages (sys_client s') =
      OpenChan True [\<lparr>o_MessageType = ''hello'', o_Data = DHello hello\<rparr>])"
proof -
  have st: "ws_state (sys_client s) = StateDisconnected"
    using reachable_sys_ok [OF assms(1)] assms(2,3) by (auto simp: sys_ok_def)
  obtain s1 where s1: "ws_run (map ALoop [LWake, LCheck, LConnect, LTicket (Inr t), LDial (Inr k), LPumps]) s =
      Some (Inr s1)"
    and rd: "sys_readers s1 = sys_readers s @ [no_message]" and c: "ws_state (sys_client s1) = StatePreparing"
      "ws_conn (sys_client s1) = Some k" "ws_sendMessages (sys_client s1) = OpenChan True []" "sys_taken s1 = 0"
    using assms(2) st
    by (simp add: transitionState_def requireState_def setState_def goto_def connect_begin_def setLastError_def
        dial_begin_def dial_end_def)
  have "readPump_step env (ReadText b) no_message (sys_client s1) =
      andThen (handleMessage (rc_handlers env) \<lparr>i_MessageType = ''introduction'', i_Data = x\<rparr> (sys_client s1))
        (\<lambda>(effs, err, c1). Inr (effs, True, \<lparr>i_MessageType = ''introduction'', i_Data = x\<rparr>, c1))"
    by (simp add: readPump_step_def readMessage_def assms(4))
  moreover have "handleMessage (rc_handlers env) \<lparr>i_MessageType = ''introduction'', i_Data = x\<rparr> (sys_client s1) =
      andThen (onIntroduction (env_osInfo (rc_handlers env)) (env_pid (rc_handlers env)) d (sys_client s1))
        (\<lambda>c1. Inr ([], None, c1))"
    by (simp add: handleMessage_def decoded_def assms(5))
  ultimately obtain s2 where act: "ws_act (ARead (length (sys_readers s)) env (ReadText b)) s1 = Some (Inr s2)"
    and "ws_state (sys_client s2) = StateConnected" and "ws_conn (sys_client s2) = Some k" and "sys_taken s2 = 0"
    and "\<exists>hello. ws_sendMessages (sys_client s2) =
      OpenChan True [\<lparr>o_MessageType = ''hello'', o_Data = DHello hello\<rparr>]"
    using rd c by (auto simp: onIntroduction_def Let_def ws_send_def setState_def nth_append)
  with ws_run_snoc [OF s1, of "ARead (length (sys_readers s)) env (ReadText b)"] show ?thesis
    by (intro exI [of _ s2]) simp
qed

theorem ws_client_reconnects_witness:
  "\<exists>s s'. ws_run no_ticket example_start = Some (Inr s) \<and>
    ws_run (map ALoop [LWake, LCheck, LConnect, LTicket (Inr ''t''), LDial (Inr 4), LPumps] @
      [ARead (length (sys_readers s)) example_reads (ReadText ''introduction'')]) s = Some (Inr s') \<and>
    ws_state (sys_client s') = StateConnected"
proof -
  from no_ticket_run obtain s where s: "ws_run no_ticket example_start = Some (Inr s)" "sys_pc s = PcSleep"
    "ws_state (sys_client s) = StateDisconnected" by blast
  then have "ws_state (sys_client s) \<noteq> StateStopped" by simp
  moreover have "rc_decode example_reads ''introduction'' no_message =
      (None, \<lparr>i_MessageType = ''introduction'', i_Data = []\<rparr>)" by (simp add: example_reads_def)
  moreover have "env_introduction (rc_handlers example_reads) [] =
      Inr \<lparr>intro_ServerVersion = ''1'', intro_Authentication = ''ok'', intro_AppId = ''a''\<rparr>"
    by (simp add: example_reads_def example_handlers_def)
  ultimately show ?thesis
    using ws_client_reconnects [OF reachable_run [OF s(1) example_start_reachable] s(2)] s(1) by blast
qed

text \<open>C28. Stopping is final, and it does not close the connection: after \<open>Stop\<close> no step of the system changes the state again, and
  none closes a connection; \<open>writePump\<close> leaves its loop because the channel is closed, but \<open>onDisconnect\<close> then
  finds a stopped client and does nothing.\<close>

theorem ws_stopped_for_ever:
  assumes "ws_reachable s" and "ws_state (sys_client s) = StateStopped" and "sys_pc s \<noteq> PcIdle"
    and "ws_step s s'"
  shows "ws_state (sys_client s') = StateStopped \<and> sys_pc s' \<noteq> PcIdle \<and>
    ws_closedConns (sys_client s') = ws_closedConns (sys_client s)"
proof -
  obtain a where act: "ws_act a s = Some (Inr s')" using assms(4) by (rule ws_stepE)
  have disc: "onDisconnect (sys_client s) = sys_client s" using assms(2) by (simp add: onDisconnect_def)
  have handled: "ws_state c = StateStopped \<and> ws_closedConns c = ws_closedConns (sys_client s)"
    if "client_handled (sys_client s) c" for c
    using that assms(2) by (auto simp: client_handled_def)
  show ?thesis
  proof (cases a)
    case (ALoop x)
    with act assms(2,3) disc show ?thesis
      by (cases x)
        (auto simp: goto_def connect_begin_def dial_begin_def dial_end_def after_write_def Let_def andThen_Inr_iff
          split: if_splits sum.splits prod.splits)
  next
    case (ARead n env r)
    with act obtain effs looping rm c where
      read: "readPump_step env r (sys_readers s ! n) (sys_client s) = Inr (effs, looping, rm, c)"
      and "sys_client s' = c" "sys_pc s' = sys_pc s"
      by (auto simp: andThen_Inr_iff split: if_splits)
    moreover from read have "client_handled (sys_client s) c"
      by (cases rule: readPump_step_cases) (auto simp: disc intro: client_same_handled handleMessage_handled)
    ultimately show ?thesis using assms(3) handled by auto
  next
    case AStop
    with act assms(2,3) show ?thesis by (auto simp: Stop_def with_client_def)
  qed (use act assms(3) in \<open>auto simp: andThen_Inr_iff with_client_def dest!: SendWebsocketMessage_same
      addEventChannel_same removeEventChannel_same client_same_handled handled\<close>)
qed

theorem ws_stopped_for_ever_witness:
  "\<exists>s s'. ws_run (dialled @ [AStop]) example_start = Some (Inr s) \<and>
    ws_step s s' \<and> sys_pc s' = PcSleep \<and> ws_state (sys_client s') = StateStopped \<and> ws_closedConns (sys_client s') = []"
proof -
  from dialled_run obtain s1 where s1: "ws_run dialled example_start = Some (Inr s1)" "sys_pc s1 = PcPump"
    "ws_state (sys_client s1) = StatePreparing" "ws_sendMessages (sys_client s1) = OpenChan True []"
    "sys_taken s1 = 0" "ws_closedConns (sys_client s1) = []" by blast
  let ?s = "with_client s1 ((sys_client s1)\<lparr>ws_state := StateStopped, ws_sendMessages := ClosedChan []\<rparr>)"
  have stop: "ws_run (dialled @ [AStop]) example_start = Some (Inr ?s)"
    using ws_run_snoc [OF s1(1), of AStop] s1 by (simp add: Stop_def)
  have "ws_act (ALoop LWriteClosed) ?s = Some (Inr (after_write ([], False) ?s))"
    using s1 by (simp add: with_client_def)
  then have step: "ws_step ?s (after_write ([], False) ?s)" by (rule ws_step.intros)
  have "ws_reachable ?s" by (rule reachable_run [OF stop example_start_reachable])
  from ws_stopped_for_ever [OF this _ _ step] stop step s1 show ?thesis
    by (intro exI [of _ ?s] exI [of _ "after_write ([], False) ?s"]) (simp add: with_client_def after_write_def)
qed

text \<open>C25. The loop of a stopped client ends: in \<open>writePump\<close>, once the messages that were handed over are taken, it sees the closed
  channel, and after its pause \<open>runLoop\<close> returns. While it is connecting it cannot: its next change of state is fatal.\<close>

theorem ws_stop_ends_loop:
  assumes "ws_reachable s" and "ws_state (sys_client s) = StateStopped" and "sys_pc s \<noteq> PcIdle"
    and "sys_taken s = length (chan_log (ws_sendMessages (sys_client s)))"
  shows "(sys_pc s = PcPump \<longrightarrow> (\<exists>s'. ws_run (map ALoop [LWriteClosed, LWake, LCheck]) s = Some (Inr s') \<and> sys_pc s' = PcDone)) \<and>
    (sys_pc s = PcSleep \<longrightarrow> (\<exists>s'. ws_run (map ALoop [LWake, LCheck]) s = Some (Inr s') \<and> sys_pc s' = PcDone)) \<and>
    (sys_pc s = PcTop \<longrightarrow> (\<exists>s'. ws_run [ALoop LCheck] s = Some (Inr s') \<and> sys_pc s' = PcDone)) \<and>
    (sys_pc s = PcConnect \<longrightarrow> ws_act (ALoop LConnect) s = Some (Inl Exited)) \<and>
    (sys_pc s = PcTicket \<longrightarrow> ws_act (ALoop (LTicket t)) s = Some (Inl Exited)) \<and>
    (sys_pc s = PcDial \<longrightarrow> ws_act (ALoop (LDial d)) s = Some (Inl Exited)) \<and>
    (sys_pc s = PcConnected \<longrightarrow> ws_act (ALoop LPumps) s = Some (Inl Exited))"
proof -
  have "is_closed (ws_sendMessages (sys_client s))"
    using reachable_sys_ok [OF assms(1)] assms(2,3) by (simp add: sys_ok_def chan_ok_def)
  moreover have "onDisconnect (sys_client s) = sys_client s" using assms(2) by (simp add: onDisconnect_def)
  ultimately show ?thesis using assms(2,4)
    by (auto simp: goto_def after_write_def connect_begin_def transitionState_def requireState_def dial_begin_def
        dial_end_def split: sum.splits)
qed

theorem ws_stop_ends_loop_witness:
  "\<exists>s s'. ws_run (dialled @ [AStop]) example_start = Some (Inr s) \<and>
    ws_run (map ALoop [LWriteClosed, LWake, LCheck]) s = Some (Inr s') \<and> sys_pc s' = PcDone"
proof -
  from dialled_run obtain s1 where s1: "ws_run dialled example_start = Some (Inr s1)" "sys_pc s1 = PcPump"
    "ws_state (sys_client s1) = StatePreparing" "ws_sendMessages (sys_client s1) = OpenChan True []"
    "sys_taken s1 = 0" by blast
  let ?s = "with_client s1 ((sys_client s1)\<lparr>ws_state := StateStopped, ws_sendMessages := ClosedChan []\<rparr>)"
  have stop: "ws_run (dialled @ [AStop]) example_start = Some (Inr ?s)"
    using ws_run_snoc [OF s1(1), of AStop] s1 by (simp add: Stop_def)
  have "ws_reachable ?s" by (rule reachable_run [OF stop example_start_reachable])
  from ws_stop_ends_loop [OF this] stop s1 show ?thesis by (simp add: with_client_def)
qed

text \<open>C27. \<open>readPump\<close> handles the messages the server sends in their order and skips what is not a message (binary frames,
  malformed texts). When then a read fails with a close frame whose code is none of 1001 (going away) and 1006 (abnormal closure), the pump ends and
  the client is disconnected. With any other error (these two codes, a connection that is reset) the pump goes on, and handles what the last
  text left in its message variable once more. The assumption on the decoder says that every message gives both of its fields.\<close>

theorem readPump_in_order:
  assumes "complete_messages env" and "\<forall>r \<in> set rs. r = ReadBinary \<or> (\<exists>b. r = ReadText b)"
    and "handle_all (rc_handlers env) (concat (map (message_of env) rs)) c = Inr (effs, c')"
    and "rm' = fold (read_into env) rs rm"
  shows "(rc_unexpected env e \<longrightarrow> readPump env (rs @ [ReadFailed e]) rm c = Inr (effs, False, rm', onDisconnect c')) \<and>
    (\<not> rc_unexpected env e \<longrightarrow> readPump env (rs @ [ReadFailed e]) rm c =
      andThen (handleMessage (rc_handlers env) rm' c') (\<lambda>(effs2, err, c2). Inr (effs @ effs2, True, rm', c2)))"
  using readPump_handles [OF assms(1-3), of "ReadFailed e" rm] assms(4)
  by (cases "handleMessage (rc_handlers env) rm' c'") (auto simp: readPump_step_def readMessage_def)

theorem readPump_in_order_witness:
  "\<exists>rm'. readPump (example_reads\<lparr>rc_unexpected := \<lambda>e. e = ErrText ''close 1000''\<rparr>)
      [ReadText ''tasks'', ReadBinary, ReadText ''logs_sent'', ReadFailed (ErrText ''close 1000'')] no_message
      (NewWSClient 1 example_options) =
    Inr ([CallOnTasks 7 []], False, rm', onDisconnect (NewWSClient 1 example_options)) \<and>
    readPump (example_reads\<lparr>rc_unexpected := \<lambda>e. e = ErrText ''close 1000''\<rparr>)
      [ReadText ''tasks'', ReadBinary, ReadText ''logs_sent'', ReadFailed (ErrText ''close 1001'')] no_message
      (NewWSClient 1 example_options) =
    Inr ([CallOnTasks 7 []], True, rm', NewWSClient 1 example_options)"
proof -
  let ?env = "example_reads\<lparr>rc_unexpected := \<lambda>e. e = ErrText ''close 1000''\<rparr>"
  let ?c = "NewWSClient 1 example_options"
  let ?rs = "[ReadText ''tasks'', ReadBinary, ReadText ''logs_sent'']"
  let ?rm = "\<lparr>i_MessageType = ''logs_sent'', i_Data = []\<rparr>"
  have complete: "complete_messages ?env" by (simp add: complete_messages_def example_reads_def)
  have handled: "handle_all (rc_handlers ?env) (concat (map (message_of ?env) ?rs)) ?c = Inr ([CallOnTasks 7 []], ?c)"
    by (simp add: message_of_def example_reads_def handleMessage_def decoded_def example_handlers_def call_back_def
        NewWSClient_def example_options_def)
  have rm: "?rm = fold (read_into ?env) ?rs no_message" by (simp add: example_reads_def)
  have frames: "\<forall>r \<in> set ?rs. r = ReadBinary \<or> (\<exists>b. r = ReadText b)" by simp
  have again: "handleMessage (rc_handlers ?env) ?rm ?c = Inr ([], None, ?c)" by (simp add: handleMessage_def)
  show ?thesis
    using readPump_in_order [OF complete frames handled rm, of "ErrText ''close 1000''"]
      readPump_in_order [OF complete frames handled rm, of "ErrText ''close 1001''"] again
    by (intro exI [of _ ?rm]) (simp del: readPump.simps)
qed

text \<open>An error of the connection that is not such a close frame (a reset, an end without a close frame, a read on a connection that
  \<open>onDisconnect\<close> closed) does not end \<open>readPump\<close>: every failed read handles the last message again. When that was a list of tasks, the
  callback runs again for each failed read, until the library panics, which ends the process.\<close>

theorem readPump_repeats_last_message:
  assumes "\<not> rc_unexpected env e" and "i_MessageType rm = ''tasks''"
    and "env_tasks (rc_handlers env) (i_Data rm) = Inr tasks" and "opt_OnTasks (ws_opts c) = Some f"
  shows "readPump env (replicate n (ReadFailed e)) rm c = Inr (replicate n (CallOnTasks f tasks), True, rm, c) \<and>
    readPump env (replicate n (ReadFailed e) @ [ReadPanics]) rm c = Inl (Panic ''repeated read on failed websocket connection'')"
proof (induction n)
  case 0
  show ?case by (simp add: readPump_step_def readMessage_def)
next
  case (Suc n)
  have "readPump_step env (ReadFailed e) rm c = Inr ([CallOnTasks f tasks], True, rm, c)"
    using assms by (simp add: readPump_step_def readMessage_def handleMessage_def decoded_def call_back_def)
  with Suc show ?case by simp
qed

theorem readPump_repeats_last_message_witness:
  "readPump example_reads (replicate 999 (ReadFailed (ErrText ''reset''))) \<lparr>i_MessageType = ''tasks'', i_Data = []\<rparr>
      (NewWSClient 1 example_options) =
    Inr (replicate 999 (CallOnTasks 7 []), True, \<lparr>i_MessageType = ''tasks'', i_Data = []\<rparr>, NewWSClient 1 example_options)"
proof -
  let ?rm = "\<lparr>i_MessageType = ''tasks'', i_Data = []\<rparr>"
  have "\<not> rc_unexpected example_reads (ErrText ''reset'')" "i_MessageType ?rm = ''tasks''"
    "env_tasks (rc_handlers example_reads) (i_Data ?rm) = Inr []" "opt_OnTasks (ws_opts (NewWSClient 1 example_options)) = Some 7"
    by (simp_all add: example_reads_def example_handlers_def NewWSClient_def example_options_def)
  from readPump_repeats_last_message [OF this, of 999] show ?thesis by blast
qed

text \<open>C26. \<open>writePump\<close> never reorders, duplicates or invents: what is on the wire is a subsequence of the messages it was given, and all of
  them when no operation fails and the channel stays open. An error of \<open>Write\<close>, a failed ping and the end of the
  channel end the pump.\<close>

theorem writePump_in_order:
  "subseq (fst (writePump xs)) (concat (map (\<lambda>(env, x). received x) xs)) \<and>
    ((\<forall>(env, x) \<in> set xs. all_fine env \<and> x \<noteq> ChannelClosed) \<longrightarrow>
       writePump xs = (concat (map (\<lambda>(env, x). received x) xs), True)) \<and>
    ((\<exists>(env, x) \<in> set xs. x = ChannelClosed \<or> x = PingTick \<and> wr_Ping env \<noteq> None \<or>
        x = Received m \<and> wr_NextWriter env = None \<and> wr_Marshal env m = None \<and> wr_Write env \<noteq> None) \<longrightarrow>
       \<not> snd (writePump xs))"
proof (intro conjI impI)
  show "subseq (fst (writePump xs)) (concat (map (\<lambda>(env, x). received x) xs))"
    using writePump_subseq [of xs "fst (writePump xs)" "snd (writePump xs)"] by simp
next
  assume "\<forall>(env, x) \<in> set xs. all_fine env \<and> x \<noteq> ChannelClosed"
  then show "writePump xs = (concat (map (\<lambda>(env, x). received x) xs), True)" by (rule writePump_all_fine)
next
  assume "\<exists>(env, x) \<in> set xs. x = ChannelClosed \<or> x = PingTick \<and> wr_Ping env \<noteq> None \<or>
        x = Received m \<and> wr_NextWriter env = None \<and> wr_Marshal env m = None \<and> wr_Write env \<noteq> None"
  then have "\<exists>(env, x) \<in> set xs. \<not> snd (writePump_step env x)"
    by (rule bexE) (auto intro!: bexI)
  then show "\<not> snd (writePump xs)" by (auto simp: writePump_goes_on)
qed

theorem writePump_in_order_witness:
  "subseq (fst (writePump [(\<lparr>wr_NextWriter = Some (ErrText ''x''), wr_unexpected = \<lambda>_. False, wr_Marshal = \<lambda>_. None,
      wr_Write = None, wr_Ping = None\<rparr>, Received (msg_subscribe ''login''))])) [msg_subscribe ''login'']"
  using writePump_in_order [of "[(\<lparr>wr_NextWriter = Some (ErrText ''x''), wr_unexpected = \<lambda>_. False, wr_Marshal = \<lambda>_. None,
      wr_Write = None, wr_Ping = None\<rparr>, Received (msg_subscribe ''login''))]"] by simp

end
