(* ===== verification/Agent_Start.thy ===== *)
theory Agent_Start
  imports App_Scheduler Config_Files Rest_Client WS_Lifecycle
begin

text \<open>
  \<open>scheduler.go\<close>: making, starting and stopping the \<open>ApplicationScheduler\<close>, on the models of the configuration file, the WebSocket client and the
  agent's own schedulers. The goroutine that \<open>StartAsync\<close> starts is the system of \<open>WS_Lifecycle\<close>; here its client is
  the one that was just made. The method values passed as callbacks are numbers.
\<close>

section \<open>Definitions\<close>

record ('g, 'j, 'n) agent =
  ag_app :: "('g, 'j, 'n) child composite_scheduler app_scheduler"
  ag_client :: "rest_client option"
  ag_wsc :: "ws_client option"
  ag_configPath :: string
  ag_InstanceID :: uuid

text \<open>\<open>se_connection\<close> is \<open>uuid.NewSHA1\<close> with the text \<open>connection_id\<close>.\<close>

record start_env =
  se_codec :: "executor_config codec"
  se_io :: file_env
  se_uuids :: uuid_env
  se_fresh :: uuid
  se_connection :: "uuid \<Rightarrow> uuid"
  se_onTask :: func
  se_onTasks :: func
  se_onTaskRemoved :: func
  se_onConnected :: func
  se_onTrigger :: func
  se_taskTrigger :: func

definition NewApplicationScheduler ::
  "start_env \<Rightarrow> string \<Rightarrow> rest_client option \<Rightarrow> bool \<Rightarrow> disk \<Rightarrow> ('g, 'j, 'n) agent \<times> disk" where
  "NewApplicationScheduler se configPath client hasDB d =
     (case getOrSetInstanceID (se_uuids se) (se_io se) configPath (se_fresh se) d of
        (u, d1) \<Rightarrow>
          (\<lparr>ag_app = \<lparr>app_taskScheduler = None, app_Tasks = ec_Tasks (ecf_Value (NewSchedulerConfig configPath)),
               app_written = [], app_hasDB = hasDB, app_sequences = []\<rparr>,
            ag_client = client, ag_wsc = None, ag_configPath = configPath, ag_InstanceID = u\<rparr>, d1))"

definition getConnectionID :: "start_env \<Rightarrow> ('g, 'j, 'n) agent \<Rightarrow> uuid" where
  "getConnectionID se e = se_connection se (ag_InstanceID e)"

definition agent_ops ::
  "('g, 'j, 'n) agent_env \<Rightarrow> (('g, 'j, 'n) child composite_scheduler, ws_client) triggers_ops" where
  "agent_ops env = Composite_ops (Child_ops env)"

definition createExecutor ::
  "start_env \<Rightarrow> ('g, 'j, 'n) agent_env \<Rightarrow> 'g \<Rightarrow> goerror + 'n \<Rightarrow> ('g, 'j, 'n) agent
   \<Rightarrow> (goerror option \<times> ('g, 'j, 'n) agent) outcome" where
  "createExecutor se env g watcher e =
     (case ag_client e of
        None \<Rightarrow> Inl (Panic ''Telephonist client is not set'')
      | Some client \<Rightarrow>
          (case agent_composite g watcher of
             Inl err \<Rightarrow> Inr (Some err, e)
           | Inr triggerExecutor \<Rightarrow>
               andThen (NewTaskScheduler (agent_ops env) (se_taskTrigger se) (Some triggerExecutor)) (\<lambda>ts.
                 Inr (None, e\<lparr>ag_app := (ag_app e)
                   \<lparr>app_taskScheduler := Some (TS_SetCallback (Some (se_onTrigger se)) ts)\<rparr>\<rparr>))))"

definition App_Start ::
  "start_env \<Rightarrow> ('g, 'j, 'n) agent_env \<Rightarrow> 'g \<Rightarrow> goerror + 'n \<Rightarrow> ('g, 'j, 'n) agent \<Rightarrow> disk
   \<Rightarrow> (goerror option \<times> ('g, 'j, 'n) agent \<times> disk) outcome" where
  "App_Start se env g watcher e d =
     (case app_taskScheduler (ag_app e) of
        Some ts \<Rightarrow> Inr (None, e, d)
      | None \<Rightarrow>
          (case LoadOrWrite (se_codec se) (se_io se) d
              \<lparr>ecf_file = ag_configPath e, ecf_Value = \<lparr>ec_Tasks = app_Tasks (ag_app e)\<rparr>\<rparr> of
             (err, f, d1) \<Rightarrow>
               (let e1 = e\<lparr>ag_app := (ag_app e)\<lparr>app_Tasks := ec_Tasks (ecf_Value f)\<rparr>\<rparr>
                in case err of
                     Some er \<Rightarrow> Inr (Some (ChainError ''failed to load executor config'' er), e1, d1)
                   | None \<Rightarrow>
                       (case ag_client e1 of
                          None \<Rightarrow> Inl (Panic ''client is nil'')
                        | Some client \<Rightarrow>
                            (let w = NewWSClient (se_fresh se)
                                   \<lparr>opt_CompatibilityKey = [], opt_InstanceID = ag_InstanceID e1, opt_MachineID = [],
                                    opt_ConnectionID = getConnectionID se e1, opt_OnTask = Some (se_onTask se),
                                    opt_OnTasks = Some (se_onTasks se), opt_OnTaskRemoved = Some (se_onTaskRemoved se),
                                    opt_OnConnected = Some (se_onConnected se)\<rparr>
                             in andThen (createExecutor se env g watcher (e1\<lparr>ag_wsc := Some w\<rparr>)) (\<lambda>(err2, e2).
                                  case err2 of
                                    Some er \<Rightarrow> Inr (Some (ChainError ''failed to create an executor'' er), e2, d1)
                                  | None \<Rightarrow>
                                      (case app_taskScheduler (ag_app e2) of
                                         None \<Rightarrow> Inl nil_dereference
                                       | Some ts \<Rightarrow>
                                           andThen (TS_Start (agent_ops env) (ts, w)) (\<lambda>(err3, ts1, w1).
                                             Inr (map_option (ChainError ''failed to start executor'') err3,
                                               e2\<lparr>ag_app := (ag_app e2)\<lparr>app_taskScheduler := Some ts1\<rparr>,
                                                  ag_wsc := Some w1\<rparr>, d1)))))))))"

section \<open>Lemmas\<close>

text \<open>An agent whose schedulers run: the three children, and the state of the event scheduler's queue.\<close>

definition agent_running ::
  "('g, 'j, 'n) child composite_scheduler app_scheduler \<Rightarrow> ('g, 'j) cron_scheduler \<Rightarrow> event_scheduler
   \<Rightarrow> 'n fs_scheduler \<Rightarrow> bool" where
  "agent_running a c v f \<longleftrightarrow>
     (\<exists>ts. app_taskScheduler a = Some ts \<and> co_isRunning (ts_triggersScheduler ts) \<and>
       co_childSchedulers (ts_triggersScheduler ts) = [CronChild c, EventChild v, FSChild f])"

lemma agent_ops_simps [simp]:
  "op_Start (agent_ops env) = Composite_Start (Child_ops env)"
  "op_Stop (agent_ops env) = Composite_Stop (Child_ops env)"
  "op_SetCallback (agent_ops env) = Composite_SetCallback (Child_ops env)"
  by (simp_all add: agent_ops_def)

text \<open>Stopping the agent comes down to the queue of the event scheduler, then to the client.\<close>

lemma App_Stop_running:
  assumes "agent_running a c v f" and "ev_queue v = Some q"
    and "UnsubscribeAll (ae_pick env q) q w = Inr w1"
  shows "\<exists>a'. App_Stop (agent_ops env) (a, w) = andThen (Stop w1) (\<lambda>w2. Inr (a', w2))"
proof -
  obtain ts where ts: "app_taskScheduler a = Some ts" "co_isRunning (ts_triggersScheduler ts)"
      "co_childSchedulers (ts_triggersScheduler ts) = [CronChild c, EventChild v, FSChild f]"
    using assms(1) by (auto simp: agent_running_def)
  with assms(2,3) show ?thesis
    by (auto simp: App_Stop_def TS_Stop_def Composite_Stop_def as_child_only_def Cron_Stop_def Event_Stop_def FS_Stop_def)
qed

lemma App_Stop_stuck:
  assumes "agent_running a c v f" and "ev_queue v = Some q"
    and "UnsubscribeAll (ae_pick env q) q w = Inl x"
  shows "App_Stop (agent_ops env) (a, w) = Inl x"
  using assms
  by (auto simp: agent_running_def App_Stop_def TS_Stop_def Composite_Stop_def as_child_only_def Cron_Stop_def
      Event_Stop_def)

text \<open>Starting with a configuration file that is there.\<close>

lemma App_Start_runs:
  assumes "app_taskScheduler (ag_app e) = None" and "ag_client e = Some cl"
    and "no_io_errors (se_io se)" and "fmlookup d (ag_configPath e) = Some content"
    and "cd_Decode (se_codec se) content \<lparr>ec_Tasks = app_Tasks (ag_app e)\<rparr> = (None, \<lparr>ec_Tasks = tasks\<rparr>)" and "se_connection se (ag_InstanceID e) \<noteq> 0"
  shows "\<exists>e' ts w c v f. App_Start se env g (Inr n) e d = Inr (None, e', d) \<and> app_Tasks (ag_app e') = tasks \<and>
    ag_wsc e' = Some w \<and> ws_ConnectionID w = se_connection se (ag_InstanceID e) \<and> ws_state w = StateStopped \<and>
    app_taskScheduler (ag_app e') = Some ts \<and> ts_tasks ts = fmempty \<and> ts_triggerTasks ts = fmempty \<and>
    ts_callback ts = Some (se_onTrigger se) \<and>
    app_hasDB (ag_app e') = app_hasDB (ag_app e) \<and>
    agent_running (ag_app e') c v f \<and> (\<exists>q. ev_queue v = Some q \<and> q_subscribed q = fmempty)"
proof -
  obtain comp :: "('a, 'b, 'c) child composite_scheduler" where comp: "agent_composite g (Inr n) = Inr comp"
    by (simp add: agent_composite_eq)
  let ?w = "NewWSClient (se_fresh se) \<lparr>opt_CompatibilityKey = [], opt_InstanceID = ag_InstanceID e, opt_MachineID = [],
      opt_ConnectionID = se_connection se (ag_InstanceID e), opt_OnTask = Some (se_onTask se),
      opt_OnTasks = Some (se_onTasks se), opt_OnTaskRemoved = Some (se_onTaskRemoved se),
      opt_OnConnected = Some (se_onConnected se)\<rparr>"
  have load: "LoadOrWrite (se_codec se) (se_io se) d
      \<lparr>ecf_file = ag_configPath e, ecf_Value = \<lparr>ec_Tasks = app_Tasks (ag_app e)\<rparr>\<rparr> =
      (None, \<lparr>ecf_file = ag_configPath e, ecf_Value = \<lparr>ec_Tasks = tasks\<rparr>\<rparr>, d)"
    using assms(3-5) by (simp add: LoadOrWrite_def ecf_Load_def Load_def read_file_def no_io_errors_def IsNotExist_def)
  from agent_start_callback [OF comp, of env "Some (se_taskTrigger se)" ?w] obtain e1 c v f where
    start: "Composite_Start (Child_ops env) (Composite_SetCallback (Child_ops env) (Some (se_taskTrigger se)) comp, ?w) =
      Inr (None, e1, ?w)" and run: "co_isRunning e1"
    and kids: "co_childSchedulers e1 = [CronChild c, EventChild v, FSChild f]" by blast
  have queue: "\<exists>q. ev_queue v = Some q \<and> q_subscribed q = fmempty"
  proof -
    from start comp kids have "v = (NewTelephonistScheduler\<lparr>ev_callback := Some (se_taskTrigger se),
        ev_queue := Some (NewQueue (ae_mkchan env ?w))\<rparr>)"
      by (auto simp: agent_composite_eq NewCompositeTriggersScheduler_def NewTelephonistScheduler_def
          Composite_SetCallback_def Event_SetCallback_def FS_SetCallback_def Composite_Start_def as_child_def
          Cron_Start_def Event_Start_def FS_Start_def)
    then show ?thesis by (simp add: NewQueue_def)
  qed
  show ?thesis
    using assms(1,2,6) load comp start run kids queue
    by (auto simp: App_Start_def createExecutor_def getConnectionID_def NewTaskScheduler_def TS_Start_def Let_def
        TS_SetCallback_def agent_running_def NewWSClient_def)
qed

section \<open>Examples\<close>

text \<open>A disk whose configuration file holds one task.\<close>

definition example_tasks :: "(uuid, defined_task) fmap" where
  "example_tasks = fmupd 1 (example_task 1 [login]) fmempty"

definition example_start_env :: start_env where
  "example_start_env =
     \<lparr>se_codec = \<lparr>cd_Encode = \<lambda>v. Inr [], cd_Decode = \<lambda>b v. (None, \<lparr>ec_Tasks = example_tasks\<rparr>)\<rparr>, se_io = example_io,
      se_uuids = example_uuids, se_fresh = 7, se_connection = \<lambda>u. u + 1, se_onTask = 1, se_onTasks = 2,
      se_onTaskRemoved = 3, se_onConnected = 4, se_onTrigger = 5, se_taskTrigger = 6\<rparr>"

definition example_agent_env :: "(nat list, nat, string list) agent_env" where
  "example_agent_env = \<lparr>ae_gocron = counting_gocron, ae_fsnotify = list_watcher, ae_mkchan = \<lambda>_. 9,
     ae_pick = \<lambda>q. sorted_list_of_fset (fmdom (q_subscribed q))\<rparr>"

definition example_agent :: "(nat list, nat, string list) agent" where
  "example_agent = fst (NewApplicationScheduler example_start_env ''c'' (Some example_rest) False fmempty)"

lemma example_agent_fields [simp]:
  "app_taskScheduler (ag_app example_agent) = None" "ag_client example_agent = Some example_rest"
  "ag_configPath example_agent = ''c''"
  by (simp_all add: example_agent_def NewApplicationScheduler_def split: prod.split)

lemma example_connection: "se_connection example_start_env (ag_InstanceID example_agent) \<noteq> 0"
  by (simp add: example_agent_def NewApplicationScheduler_def example_start_env_def getOrSetInstanceID_def Let_def
      read_file_def example_io_def IsNotExist_def ENOENT_def)

definition example_events :: "event_queue \<Rightarrow> event_scheduler" where
  "example_events q = NewTelephonistScheduler\<lparr>ev_queue := Some q\<rparr>"

definition example_fs :: "string list fs_scheduler" where
  "example_fs = (case NewFSTriggersScheduler (Inr []) of Inr f \<Rightarrow> f)"

definition example_app_running ::
  "event_queue \<Rightarrow> (nat list, nat, string list) child composite_scheduler app_scheduler" where
  "example_app_running q =
     \<lparr>app_taskScheduler = Some \<lparr>ts_triggersScheduler = (NewCompositeTriggersScheduler
        [CronChild (NewCronTriggersScheduler []), EventChild (example_events q), FSChild example_fs])
          \<lparr>co_isRunning := True\<rparr>,
        ts_tasks = fmempty, ts_callback = None, ts_triggerTasks = fmempty\<rparr>,
      app_Tasks = fmempty, app_written = [], app_hasDB = False, app_sequences = []\<rparr>"

lemma example_app_is_running:
  "agent_running (example_app_running q) (NewCronTriggersScheduler []) (example_events q) example_fs"
  by (simp add: agent_running_def example_app_running_def NewCompositeTriggersScheduler_def)

lemma example_events_queue [simp]: "ev_queue (example_events q) = Some q"
  by (simp add: example_events_def)

section \<open>Properties\<close>

text \<open>Starting the agent: when the configuration file can be read and the watcher made, \<open>Start\<close> succeeds, the client has a
  connection identifier that only depends on the instance, the three schedulers run, and the tasks of the file are in
  memory. None of these tasks is scheduled: until the server has sent its list, no trigger fires.\<close>

theorem App_Start_success:
  assumes "app_taskScheduler (ag_app e) = None" and "ag_client e = Some cl"
    and "no_io_errors (se_io se)" and "fmlookup d (ag_configPath e) = Some content"
    and "cd_Decode (se_codec se) content \<lparr>ec_Tasks = app_Tasks (ag_app e)\<rparr> = (None, \<lparr>ec_Tasks = tasks\<rparr>)" and "se_connection se (ag_InstanceID e) \<noteq> 0"
  shows "\<exists>e' ts w c v f. App_Start se env g (Inr n) e d = Inr (None, e', d) \<and> app_Tasks (ag_app e') = tasks \<and>
    ag_wsc e' = Some w \<and> ws_ConnectionID w = se_connection se (ag_InstanceID e) \<and> ws_state w = StateStopped \<and>
    app_taskScheduler (ag_app e') = Some ts \<and> ts_tasks ts = fmempty \<and> ts_triggerTasks ts = fmempty \<and>
    ts_callback ts = Some (se_onTrigger se) \<and>
    app_hasDB (ag_app e') = app_hasDB (ag_app e) \<and>
    agent_running (ag_app e') c v f \<and> (\<exists>q. ev_queue v = Some q \<and> q_subscribed q = fmempty)"
  using App_Start_runs [OF assms] .

theorem App_Start_success_witness:
  "\<exists>e' w. App_Start example_start_env example_agent_env [] (Inr []) example_agent (fmupd ''c'' ''[]'' fmempty) =
      Inr (None, e', fmupd ''c'' ''[]'' fmempty) \<and> app_Tasks (ag_app e') = example_tasks \<and> ag_wsc e' = Some w"
proof -
  have "se_connection example_start_env (ag_InstanceID example_agent) \<noteq> 0" by (rule example_connection)
  moreover have "no_io_errors (se_io example_start_env)"
    using example_io_fine by (simp add: example_start_env_def)
  moreover have "cd_Decode (se_codec example_start_env) ''[]'' \<lparr>ec_Tasks = app_Tasks (ag_app example_agent)\<rparr> = (None, \<lparr>ec_Tasks = example_tasks\<rparr>)"
    by (simp add: example_start_env_def)
  ultimately show ?thesis
    using App_Start_success [of example_agent example_rest example_start_env "fmupd ''c'' ''[]'' fmempty" "''[]''"
        example_tasks example_agent_env "[]" "[]"]
    by auto
qed

text \<open>C32. Stopping a running agent that follows no event: with a channel that is open, connected or not, \<open>Stop\<close> returns and the client is
  stopped; when the server never gave a ticket there is no channel yet, and the shutdown ends in a panic.\<close>

theorem App_Stop_outcomes:
  assumes "agent_running a c v f" and "ev_queue v = Some q" and "ae_pick env q = []"
    and "ws_state w \<noteq> StateStopped"
  shows "(\<forall>b xs. ws_sendMessages w = OpenChan b xs \<longrightarrow>
      (\<exists>a' w'. App_Stop (agent_ops env) (a, w) = Inr (a', w') \<and> ws_state w' = StateStopped \<and>
         ws_sendMessages w' = ClosedChan xs)) \<and>
    (ws_sendMessages w = NilChan \<longrightarrow> App_Stop (agent_ops env) (a, w) = Inl (Panic ''close of nil channel''))"
proof -
  have "UnsubscribeAll (ae_pick env q) q w = Inr w" using assms(3) by (simp add: UnsubscribeAll_def)
  from App_Stop_running [OF assms(1,2) this] obtain a' where
    "App_Stop (agent_ops env) (a, w) = andThen (Stop w) (\<lambda>w2. Inr (a', w2))" by blast
  with assms(4) show ?thesis by (auto simp: Stop_def)
qed

theorem App_Stop_outcomes_witness:
  "App_Stop (agent_ops example_agent_env) (example_app_running (NewQueue 9),
      (NewWSClient 1 example_options)\<lparr>ws_state := StateDisconnected\<rparr>) = Inl (Panic ''close of nil channel'')"
proof -
  have "ae_pick example_agent_env (NewQueue 9) = []"
    by (simp add: example_agent_env_def NewQueue_def sorted_list_of_fset.rep_eq)
  from App_Stop_outcomes [OF example_app_is_running example_events_queue this] show ?thesis
    by (simp add: NewWSClient_def)
qed

text \<open>Stopping an agent that follows an event while nothing receives from the client's channel (the connection is lost
  and the client pauses before the next attempt) never returns: the message that ends the subscription cannot be sent.\<close>

theorem App_Stop_disconnected_blocks:
  assumes "agent_running a c v f" and "ev_queue v = Some q" and "ae_pick env q = event # rest"
    and "fmlookup (q_subscribed q) event = Some i"
    and "fmlookup (ws_eventChannels w) event = Some (fmupd i ch fmempty)"
    and "ws_sendMessages w = OpenChan False xs"
  shows "App_Stop (agent_ops env) (a, w) = Inl Blocked"
proof -
  have "mlen (fmdrop i (fmupd i ch fmempty)) = 0" by (simp add: mlen_0_iff)
  then have "UnsubscribeAll (ae_pick env q) q w = Inl Blocked"
    using assms(3-6) by (simp add: UnsubscribeAll_def removeEventChannel_def Let_def ws_send_def)
  with assms(1,2) show ?thesis by (rule App_Stop_stuck)
qed

theorem App_Stop_disconnected_blocks_witness:
  "App_Stop (agent_ops example_agent_env) (example_app_running ((NewQueue 9)\<lparr>q_subscribed := fmupd ''login'' 1 fmempty\<rparr>),
      (NewWSClient 1 example_options)\<lparr>ws_eventChannels := fmupd ''login'' (fmupd 1 9 fmempty) fmempty,
        ws_sendMessages := OpenChan False []\<rparr>) = Inl Blocked"
proof -
  let ?q = "(NewQueue 9)\<lparr>q_subscribed := fmupd ''login'' 1 fmempty\<rparr>"
  have "ae_pick example_agent_env ?q = ''login'' # []"
    by (simp add: example_agent_env_def sorted_list_of_fset.rep_eq)
  from App_Stop_disconnected_blocks [OF example_app_is_running example_events_queue this] show ?thesis by simp
qed

end
