(* ===== verification/Agent_Runs.thy ===== *)
theory Agent_Runs
  imports Agent_Start
begin

text \<open>
  Running a task against the server: \<open>executeTask\<close> of \<open>scheduler.go\<close> on the model of the REST client, which supplies what
  \<open>CreateSequence\<close> and \<open>FinishSequence\<close> answer.
\<close>

section \<open>Definitions\<close>

text \<open>The request of \<open>executeTask\<close>.\<close>

definition sequence_request :: "uuid \<Rightarrow> task_triggered_event \<Rightarrow> create_sequence_request" where
  "sequence_request connectionID event =
     \<lparr>csr_CustomName = None, csr_Description = None, csr_Meta = fmempty, csr_TaskID = task_ID (tte_Task event),
      csr_ConnectionID = connectionID,
      csr_TriggeredBy =
        \<lparr>tb_TriggerType = trigger_Name (te_Trigger (tte_TriggerEvent event)),
         tb_TriggerBody = trigger_Body (te_Trigger (tte_TriggerEvent event)),
         tb_Extra = te_Params (tte_TriggerEvent event)\<rparr>\<rparr>"

definition rest_server ::
  "string gorequest \<Rightarrow> validator \<Rightarrow> rest_client \<Rightarrow> uuid \<Rightarrow> string \<Rightarrow> (uuid \<Rightarrow> string) \<Rightarrow> task_triggered_event
   \<Rightarrow> server_env" where
  "rest_server http validate c connectionID internalID uuid_String event =
     \<lparr>sv_CreateSequence = CreateSequence http validate c (sequence_request connectionID event),
      sv_FinishSequence = (\<lambda>sequenceID errString.
        case FinishSequence http c sequenceID \<lparr>fsr_Error = errString, fsr_IsSkipped = False\<rparr> of
          Inl err \<Rightarrow> Some err
        | Inr d \<Rightarrow> None),
      sv_internalID = internalID, sv_uuid_String = uuid_String\<rparr>"

definition run_task ::
  "string gorequest \<Rightarrow> validator \<Rightarrow> rest_client \<Rightarrow> string \<Rightarrow> (uuid \<Rightarrow> string) \<Rightarrow> os_env
   \<Rightarrow> ((string, goval) fmap \<Rightarrow> string list) \<Rightarrow> func \<Rightarrow> task_triggered_event
   \<Rightarrow> 'c app_scheduler \<times> ws_client \<Rightarrow> (goerror option \<times> 'c app_scheduler \<times> ws_client) outcome" where
  "run_task http validate c internalID uuid_String os pickP sendLogs event aw =
     executeTask (rest_server http validate c (ws_ConnectionID (snd aw)) internalID uuid_String event) os pickP
       sendLogs event aw"

section \<open>Examples\<close>

definition answering :: "int \<Rightarrow> string gorequest" where
  "answering status = (\<lambda>rq. \<lparr>rp_response = Some \<lparr>rs_StatusCode = status, rs_Status = ''status'', rs_Body = Inr ''{}''\<rparr>,
     rp_value = ''s1'', rp_errs = []\<rparr>)"

text \<open>A server that creates sequences and refuses to finish them.\<close>

definition refusing_finish :: "string gorequest" where
  "refusing_finish = (\<lambda>rq. case rq_Data rq of Some (PFinish f) \<Rightarrow> answering 500 rq | _ \<Rightarrow> answering 200 rq)"

section \<open>Properties\<close>

text \<open>C31. When the server does not create the sequence, running a task brings the whole agent down: the request is refused by the
  validator, or fails, or is answered with a status of 300 or more (the key is wrong, the task is unknown, the server
  is overloaded), \<open>CreateSequence\<close> returns a nil pointer with the error, and \<open>executeTask\<close> reads through it.\<close>

theorem run_task_refused_crashes:
  assumes "rq = authorized c ''POST'' ''sequences'' (Some (PSequence (sequence_request (ws_ConnectionID w) event)))"
    and "validate (PSequence (sequence_request (ws_ConnectionID w) event)) \<noteq> None \<or> rp_errs (http rq) \<noteq> [] \<or>
      (\<exists>resp. rp_response (http rq) = Some resp \<and> rs_StatusCode resp \<ge> 300)"
  shows "run_task http validate c internalID uuid_String os pickP cb event (a, w) = Inl nil_dereference"
proof -
  have "\<exists>err. CreateSequence http validate c (sequence_request (ws_ConnectionID w) event) = Inl err"
    using assms by (auto simp: CreateSequence_def httpPost_def Let_def split: option.split)
  then obtain err where "sv_CreateSequence (rest_server http validate c (ws_ConnectionID w) internalID uuid_String event) =
      Inl err" by (auto simp: rest_server_def)
  then show ?thesis unfolding run_task_def snd_conv by (rule executeTask_offline_crashes)
qed

theorem run_task_refused_crashes_witness:
  "run_task (answering 503) (\<lambda>_. None) example_rest ''i1'' (\<lambda>_. ''u'') example_os pick_params 3 example_run
    (example_app, example_client) = Inl nil_dereference"
  by (rule run_task_refused_crashes [OF refl]) (simp add: answering_def)

text \<open>Nothing looks at the answer to the last request of a task: when the server refuses to finish the sequence (any status,
  with a body that decodes), \<open>executeTask\<close> returns nil and nothing is tried again.\<close>

theorem run_task_finish_ignored:
  assumes "CreateSequence http validate c (sequence_request (ws_ConnectionID w) event) = Inr sid"
    and "\<forall>rq. rp_errs (http rq) = []"
    and "run_task http validate c internalID uuid_String os pickP cb event (a, w) = Inr (err, a', w')"
  shows "err = None"
proof -
  have "sv_FinishSequence (rest_server http validate c (ws_ConnectionID w) internalID uuid_String event) s e = None" for s e
    using assms(2) by (simp add: rest_server_def FinishSequence_def Let_def)
  moreover have "sv_CreateSequence (rest_server http validate c (ws_ConnectionID w) internalID uuid_String event) = Inr sid"
    using assms(1) by (simp add: rest_server_def)
  ultimately show ?thesis
    using assms(3) by (auto simp: run_task_def executeTask_def Let_def andThen_Inr_iff)
qed

theorem run_task_finish_ignored_witness:
  "\<exists>a' w'. run_task refusing_finish (\<lambda>_. None) example_rest ''i1'' (\<lambda>_. ''u'') example_os pick_params 3 example_run
      (example_app, example_client) = Inr (None, a', w')"
proof -
  have created: "CreateSequence refusing_finish (\<lambda>_. None) example_rest
      (sequence_request (ws_ConnectionID example_client) example_run) = Inr ''s1''"
    by (simp add: CreateSequence_def httpPost_def refusing_finish_def answering_def authorized_def Let_def)
  then have seq: "sv_CreateSequence (rest_server refusing_finish (\<lambda>_. None) example_rest (ws_ConnectionID example_client)
      ''i1'' (\<lambda>_. ''u'') example_run) = Inr ''s1''" by (simp add: rest_server_def)
  from executeTask_runs [OF seq example_run_fine, of 3 example_app] obtain err a' w' where
    run: "run_task refusing_finish (\<lambda>_. None) example_rest ''i1'' (\<lambda>_. ''u'') example_os pick_params 3 example_run
      (example_app, example_client) = Inr (err, a', w')" by (auto simp: run_task_def)
  have "\<forall>rq. rp_errs (refusing_finish rq) = []" by (simp add: refusing_finish_def answering_def split: option.split payload.split)
  from run_task_finish_ignored [OF created this run] run show ?thesis by blast
qed

end
