(* ===== verification/Agent_Plan.thy ===== *)
theory Agent_Plan
  imports Agent_Runs "HOL-Library.Multiset"
begin

text \<open>
  What the agent should have scheduled, as a plan that only depends on the messages of the server: the last version of every
  task it was sent, and the triggers that an update took away. \<open>Agent_Flow\<close> shows that the schedulers, the queue and
  the client together carry out the plan. The plan also says what the code does not do: a task that
  the server removes stays in the plan, and a trigger that was taken away cannot come back.
\<close>

section \<open>Definitions\<close>

record plan =
  pl_tasks :: "(uuid, defined_task) fmap"
  pl_gone :: "u64 fset"

definition no_plan :: plan where
  "no_plan = \<lparr>pl_tasks = fmempty, pl_gone = {||}\<rparr>"

definition trigger_ids :: "defined_task \<Rightarrow> u64 fset" where
  "trigger_ids task = fset_of_list (map trigger_id (task_Triggers task))"

definition old_triggers :: "uuid \<Rightarrow> plan \<Rightarrow> u64 fset" where
  "old_triggers k pl = (case fmlookup (pl_tasks pl) k of None \<Rightarrow> {||} | Some task \<Rightarrow> trigger_ids task)"

text \<open>A new version of a task: the triggers that it no longer has are gone.\<close>

definition plan_task :: "defined_task \<Rightarrow> plan \<Rightarrow> plan" where
  "plan_task task pl =
     \<lparr>pl_tasks = fmupd (task_ID task) task (pl_tasks pl),
      pl_gone = pl_gone pl |\<union>| (old_triggers (task_ID task) pl |-| trigger_ids task)\<rparr>"

definition plan_list :: "defined_task list \<Rightarrow> plan \<Rightarrow> plan" where
  "plan_list tasks pl = fold plan_task (filter CanExecute tasks) pl"

text \<open>Only a list is filtered by what the executor can run; a single task is not, and a removal changes nothing.\<close>

definition plan_message :: "ws_env \<Rightarrow> i_raw_message \<Rightarrow> plan \<Rightarrow> plan" where
  "plan_message env m pl =
     (if i_MessageType m = ''tasks'' then
        (case env_tasks env (i_Data m) of Inl err \<Rightarrow> pl | Inr tasks \<Rightarrow> plan_list tasks pl)
      else if i_MessageType m = ''task_updated'' then
        (case env_task env (i_Data m) of Inl err \<Rightarrow> pl | Inr task \<Rightarrow> plan_task task pl)
      else pl)"

text \<open>The configuration, on the other hand, follows removals as well.\<close>

definition config_message ::
  "ws_env \<Rightarrow> i_raw_message \<Rightarrow> (uuid, defined_task) fmap \<Rightarrow> (uuid, defined_task) fmap" where
  "config_message env m cfg =
     (if i_MessageType m = ''tasks'' then
        (case env_tasks env (i_Data m) of Inl err \<Rightarrow> cfg | Inr tasks \<Rightarrow> getTasksMap tasks)
      else if i_MessageType m = ''task_updated'' then
        (case env_task env (i_Data m) of Inl err \<Rightarrow> cfg | Inr task \<Rightarrow> fmupd (task_ID task) task cfg)
      else if i_MessageType m = ''task_removed'' then
        (case env_uuid env (i_Data m) of Inl err \<Rightarrow> cfg | Inr k \<Rightarrow> fmdrop k cfg)
      else cfg)"

subsection \<open>The plan read\<close>

definition planned :: "plan \<Rightarrow> (defined_task \<times> task_trigger) set" where
  "planned pl = {(task, t). fmlookup (pl_tasks pl) (task_ID task) = Some task \<and> t \<in> set (task_Triggers task)}"

definition on_event :: "string \<Rightarrow> task_trigger \<Rightarrow> bool" where
  "on_event key t \<longleftrightarrow> trigger_Name t = TRIGGER_EVENT \<and> Trigger_MustString t = Inr key"

definition plan_events :: "plan \<Rightarrow> string set" where
  "plan_events pl = {key. \<exists>(task, t) \<in> planned pl. on_event key t}"

text \<open>
  Which tasks and messages the results are about: every trigger is of a known type and can be decoded, its identifier is used by
  no other task and no other trigger, and it was never taken away. Where \<open>neat\<close> is true, the paths of triggers on files are
  moreover written in their normal form.
\<close>

definition known_trigger :: "bool \<Rightarrow> task_trigger \<Rightarrow> bool" where
  "known_trigger neat t \<longleftrightarrow> trigger_Name t \<in> {TRIGGER_CRON, TRIGGER_EVENT, TRIGGER_FSNOTIFY} \<and> decodable t \<and>
     (neat \<and> trigger_Name t = TRIGGER_FSNOTIFY \<longrightarrow> (\<forall>path. Trigger_MustString t = Inr path \<longrightarrow> normalizePath path = path))"

definition admits :: "bool \<Rightarrow> plan \<Rightarrow> defined_task \<Rightarrow> bool" where
  "admits neat pl task \<longleftrightarrow>
     (\<forall>t \<in> set (task_Triggers task). known_trigger neat t \<and> trigger_id t |\<notin>| pl_gone pl) \<and>
     distinct (map trigger_id (task_Triggers task)) \<and>
     (\<forall>(a, u) \<in> planned pl. \<forall>t \<in> set (task_Triggers task). trigger_id u = trigger_id t \<longrightarrow>
        u = t \<and> task_ID a = task_ID task)"

definition admits_list :: "bool \<Rightarrow> plan \<Rightarrow> defined_task list \<Rightarrow> bool" where
  "admits_list neat pl tasks \<longleftrightarrow>
     distinct (map task_ID tasks) \<and> (\<forall>task \<in> set (filter CanExecute tasks). admits neat pl task) \<and>
     (\<forall>a \<in> set (filter CanExecute tasks). \<forall>b \<in> set (filter CanExecute tasks). a \<noteq> b \<longrightarrow>
        trigger_ids a |\<inter>| trigger_ids b = {||})"

definition admits_message :: "bool \<Rightarrow> ws_env \<Rightarrow> i_raw_message \<Rightarrow> plan \<Rightarrow> bool" where
  "admits_message neat env m pl \<longleftrightarrow>
     (i_MessageType m = ''tasks'' \<longrightarrow> (\<forall>tasks. env_tasks env (i_Data m) = Inr tasks \<longrightarrow> admits_list neat pl tasks)) \<and>
     (i_MessageType m = ''task_updated'' \<longrightarrow> (\<forall>task. env_task env (i_Data m) = Inr task \<longrightarrow> admits neat pl task))"

text \<open>How many triggers a message can schedule.\<close>

definition message_triggers :: "ws_env \<Rightarrow> i_raw_message \<Rightarrow> nat" where
  "message_triggers env m =
     (if i_MessageType m = ''tasks'' then
        (case env_tasks env (i_Data m) of Inl err \<Rightarrow> 0
         | Inr tasks \<Rightarrow> sum_list (map (\<lambda>task. length (task_Triggers task)) (filter CanExecute tasks)))
      else if i_MessageType m = ''task_updated'' then
        (case env_task env (i_Data m) of Inl err \<Rightarrow> 0 | Inr task \<Rightarrow> length (task_Triggers task))
      else 0)"

fun admits_messages :: "bool \<Rightarrow> (ws_env \<times> i_raw_message) list \<Rightarrow> plan \<Rightarrow> bool" where
  "admits_messages neat [] pl \<longleftrightarrow> True"
| "admits_messages neat ((env, m) # ms) pl \<longleftrightarrow> admits_message neat env m pl \<and> admits_messages neat ms (plan_message env m pl)"

definition plan_messages :: "(ws_env \<times> i_raw_message) list \<Rightarrow> plan \<Rightarrow> plan" where
  "plan_messages ms pl = fold (\<lambda>(env, m). plan_message env m) ms pl"

definition config_messages ::
  "(ws_env \<times> i_raw_message) list \<Rightarrow> (uuid, defined_task) fmap \<Rightarrow> (uuid, defined_task) fmap" where
  "config_messages ms cfg = fold (\<lambda>(env, m). config_message env m) ms cfg"

section \<open>Lemmas\<close>

text \<open>Tasks are filed under their identifiers.\<close>

definition plan_ok :: "plan \<Rightarrow> bool" where
  "plan_ok pl \<longleftrightarrow> (\<forall>k task. fmlookup (pl_tasks pl) k = Some task \<longrightarrow> task_ID task = k)"

lemma no_plan_simps [simp]: "plan_ok no_plan" "planned no_plan = {}" "pl_gone no_plan = {||}"
  by (simp_all add: no_plan_def plan_ok_def planned_def)

lemma plan_ok_task: "plan_ok pl \<Longrightarrow> plan_ok (plan_task task pl)"
  by (auto simp: plan_ok_def plan_task_def)

lemma plan_ok_fold: "plan_ok pl \<Longrightarrow> plan_ok (fold plan_task tasks pl)"
  by (induction tasks arbitrary: pl) (auto simp: plan_ok_task)

lemma plan_ok_message: "plan_ok pl \<Longrightarrow> plan_ok (plan_message env m pl)"
  by (auto simp: plan_message_def plan_list_def plan_ok_task plan_ok_fold split: sum.split)

lemma trigger_ids_iff: "i |\<in>| trigger_ids task \<longleftrightarrow> i \<in> trigger_id ` set (task_Triggers task)"
  unfolding trigger_ids_def fset_of_list_elem by simp

lemma old_triggers_iff:
  "plan_ok pl \<Longrightarrow> i |\<in>| old_triggers k pl \<longleftrightarrow> (\<exists>(a, u) \<in> planned pl. task_ID a = k \<and> trigger_id u = i)"
proof (cases "fmlookup (pl_tasks pl) k")
  case None
  assume "plan_ok pl"
  with None show ?thesis by (auto simp: old_triggers_def planned_def)
next
  case (Some task)
  assume "plan_ok pl"
  with Some have "task_ID task = k" by (simp add: plan_ok_def)
  with Some show ?thesis by (auto simp: old_triggers_def planned_def trigger_ids_iff)
qed

text \<open>What a new version of a task does to the plan, read as pairs.\<close>

lemma planned_task:
  "planned (plan_task task pl) = {task} \<times> set (task_Triggers task) \<union> {p \<in> planned pl. task_ID (fst p) \<noteq> task_ID task}"
  by (auto simp: planned_def plan_task_def split: if_splits)

lemma gone_task:
  "plan_ok pl \<Longrightarrow> fset (pl_gone (plan_task task pl)) = fset (pl_gone pl) \<union>
    (trigger_id ` snd ` {p \<in> planned pl. task_ID (fst p) = task_ID task} - trigger_id ` set (task_Triggers task))"
  using old_triggers_iff [of pl _ "task_ID task"] by (fastforce simp: plan_task_def trigger_ids_iff image_iff)

text \<open>Different tasks can be taken into the plan in any order.\<close>

lemma plan_task_commute:
  "task_ID a \<noteq> task_ID b \<Longrightarrow> plan_task a \<circ> plan_task b = plan_task b \<circ> plan_task a"
  by (rule ext) (auto simp: plan_task_def old_triggers_def fmupd_reorder_neq)

lemma plan_fold_mset:
  assumes "distinct (map task_ID xs)" and "mset xs = mset ys"
  shows "fold plan_task xs = fold plan_task ys"
proof (rule fold_multiset_equiv)
  fix a b assume "a \<in> set xs" "b \<in> set xs"
  then have "a = b \<or> task_ID a \<noteq> task_ID b" using assms(1) by (auto simp: distinct_map inj_on_def)
  then show "plan_task a \<circ> plan_task b = plan_task b \<circ> plan_task a" using plan_task_commute by blast
qed (rule assms(2))

lemma admits_after:
  assumes "plan_ok pl" and "admits neat pl b" and "task_ID a \<noteq> task_ID b" and "trigger_ids a |\<inter>| trigger_ids b = {||}"
  shows "admits neat (plan_task a pl) b"
proof -
  have apart: "trigger_id t \<noteq> trigger_id u" if "t \<in> set (task_Triggers a)" "u \<in> set (task_Triggers b)" for t u
    using assms(4) that by (metis fempty_iff finterI image_eqI trigger_ids_iff)
  have "trigger_id t |\<notin>| pl_gone (plan_task a pl)" if t: "t \<in> set (task_Triggers b)" for t
    using assms(2,3) t by (auto simp: gone_task [OF assms(1)] admits_def)
  then show ?thesis
    using assms(2) apart unfolding admits_def planned_task by (fastforce)
qed

end
