(* ===== verification/Agent_Children.thy ===== *)
theory Agent_Children
  imports Agent_Plan
begin

text \<open>
  The composite of the agent carries out a set of pairs of tasks and triggers: \<open>agent_carries\<close> says what its three children, the event
  queue and the WebSocket client then hold. Scheduling a trigger puts a pair in, unscheduling takes it out.
\<close>

section \<open>Pairs\<close>

text \<open>No identifier belongs to two pairs, and none that was taken away to any.\<close>

definition separate_pairs :: "(defined_task \<times> task_trigger) set \<Rightarrow> u64 set \<Rightarrow> bool" where
  "separate_pairs P D \<longleftrightarrow>
     (\<forall>a t b u. (a, t) \<in> P \<longrightarrow> (b, u) \<in> P \<longrightarrow> trigger_id t = trigger_id u \<longrightarrow> a = b \<and> t = u) \<and>
     (\<forall>a t. (a, t) \<in> P \<longrightarrow> trigger_id t \<notin> D)"

text \<open>
  A set of pairs with one trigger put in, in the place of the pair with its identifier; and with one identifier taken out.
\<close>

definition with_pair ::
  "defined_task \<Rightarrow> task_trigger \<Rightarrow> (defined_task \<times> task_trigger) set \<Rightarrow> (defined_task \<times> task_trigger) set" where
  "with_pair task t P = insert (task, t) {p \<in> P. trigger_id (snd p) \<noteq> trigger_id t}"

definition without_ids ::
  "u64 set \<Rightarrow> (defined_task \<times> task_trigger) set \<Rightarrow> (defined_task \<times> task_trigger) set" where
  "without_ids X P = {p \<in> P. trigger_id (snd p) \<notin> X}"

lemma with_pair_iff: "(a, u) \<in> with_pair task t P \<longleftrightarrow> a = task \<and> u = t \<or> (a, u) \<in> P \<and> trigger_id u \<noteq> trigger_id t"
  by (simp add: with_pair_def)

lemma without_ids_iff: "(a, u) \<in> without_ids X P \<longleftrightarrow> (a, u) \<in> P \<and> trigger_id u \<notin> X"
  by (simp add: without_ids_def)

text \<open>The trigger is new, or the task had it before.\<close>

definition fits :: "defined_task \<Rightarrow> task_trigger \<Rightarrow> (defined_task \<times> task_trigger) set \<Rightarrow> u64 set \<Rightarrow> bool" where
  "fits task t P D \<longleftrightarrow> trigger_id t \<notin> D \<and>
     (\<forall>a u. (a, u) \<in> P \<longrightarrow> trigger_id u = trigger_id t \<longrightarrow> u = t \<and> task_ID a = task_ID task)"

lemma separate_with_pair: "separate_pairs P D \<Longrightarrow> fits task t P D \<Longrightarrow> separate_pairs (with_pair task t P) D"
  unfolding separate_pairs_def with_pair_iff fits_def by metis

lemma separate_without: "separate_pairs P D \<Longrightarrow> separate_pairs (without_ids X P) (D \<union> X)"
  unfolding separate_pairs_def without_ids_iff by blast

lemma separate_pairsD:
  assumes "separate_pairs P D"
  shows "(a, t) \<in> P \<Longrightarrow> (b, u) \<in> P \<Longrightarrow> trigger_id t = trigger_id u \<Longrightarrow> a = b \<and> t = u"
    and "(a, t) \<in> P \<Longrightarrow> trigger_id t \<notin> D"
  using assms unfolding separate_pairs_def by blast+

section \<open>The children\<close>

text \<open>A trigger that its scheduler takes in every state of \<open>gocron\<close> and of \<open>fsnotify\<close>.\<close>

definition never_refused :: "('g, 'j, 'n) agent_env \<Rightarrow> task_trigger \<Rightarrow> bool" where
  "never_refused env t \<longleftrightarrow>
     (trigger_Name t = TRIGGER_CRON \<longrightarrow> (\<forall>expr g err g'. Trigger_MustString t = Inr expr \<longrightarrow>
        gc_Do (ae_gocron env) expr (trigger_id t) t g \<noteq> (Inl err, g'))) \<and>
     (trigger_Name t = TRIGGER_FSNOTIFY \<longrightarrow> (\<forall>path n err n'. Trigger_MustString t = Inr path \<longrightarrow>
        fsn_Add (ae_fsnotify env) (normalizePath path) n \<noteq> (Some err, n')))"

lemma never_refused_event: "trigger_Name t = TRIGGER_EVENT \<Longrightarrow> never_refused env t"
  by (simp add: never_refused_def trigger_types)

subsection \<open>The event scheduler\<close>

text \<open>
  The queue of the event scheduler is the only one that is registered with the client, and the client is on a connection and calls
  the agent back.
\<close>

definition agent_client :: "start_env \<Rightarrow> event_scheduler \<Rightarrow> ws_client \<Rightarrow> bool" where
  "agent_client se v w \<longleftrightarrow>
     (\<exists>q. ev_queue v = Some q \<and> (\<forall>k i ch. ws_registered w k i = Some ch \<longrightarrow> ch = q_Channel q)) \<and>
     opt_OnTask (ws_opts w) = Some (se_onTask se) \<and> opt_OnTasks (ws_opts w) = Some (se_onTasks se) \<and>
     opt_OnTaskRemoved (ws_opts w) = Some (se_onTaskRemoved se) \<and> ws_state w \<in> {StatePreparing, StateConnected}"

definition event_carries ::
  "start_env \<Rightarrow> (defined_task \<times> task_trigger) set \<Rightarrow> event_scheduler \<Rightarrow> ws_client \<Rightarrow> bool" where
  "event_carries se P v w \<longleftrightarrow> event_ok v w \<and> event_rdy v \<and> agent_client se v w \<and> ev_callback v = Some (se_taskTrigger se) \<and>
     (\<forall>i t. fmlookup (ev_triggers v) i = Some t \<longleftrightarrow>
        (\<exists>a. (a, t) \<in> P \<and> trigger_Name t = TRIGGER_EVENT \<and> trigger_id t = i))"

lemma agent_client_simps [simp]:
  "agent_client se (v\<lparr>ev_triggers := x\<rparr>) w \<longleftrightarrow> agent_client se v w"
  "agent_client se (v\<lparr>ev_eventTriggers := y\<rparr>) w \<longleftrightarrow> agent_client se v w"
  "agent_client se (v\<lparr>ev_subscriptionsCounters := z\<rparr>) w \<longleftrightarrow> agent_client se v w"
  by (simp_all add: agent_client_def)

lemma addEventChannel_opts: "addEventChannel ev ch w = Inr (b, w') \<Longrightarrow> ws_opts w' = ws_opts w \<and> ws_state w' = ws_state w"
  by (auto simp: addEventChannel_def Let_def ws_send_def andThen_Inr_iff split: option.splits)

lemma removeEventChannel_opts: "removeEventChannel ev i w = Inr w' \<Longrightarrow> ws_opts w' = ws_opts w \<and> ws_state w' = ws_state w"
  by (auto simp: removeEventChannel_def Let_def ws_send_def andThen_Inr_iff split: option.splits if_splits)

lemma Event_ScheduleByID_frame:
  assumes "Event_ScheduleByID i t (e, w) = Inr (r, e', w')"
  shows "ev_callback e' = ev_callback e \<and>
    ws_eventChannelsSeq w' \<in> {ws_eventChannelsSeq w, ws_eventChannelsSeq w + 1} \<and> (agent_client se e w \<longrightarrow> agent_client se e' w')"
proof (rule Event_ScheduleByID_guard [OF assms])
  fix ev assume ev: "trigger_Name t = TRIGGER_EVENT" "Trigger_MustString t = Inr ev"
  have "agent_client se (e1\<lparr>ev_queue := Some q'\<rparr>) w1"
    if "Subcribe ev q w = Inr (b, q', w1)" "ev_queue e = Some q" "agent_client se e w" for e1 q b q' w1
    using that
    by (auto simp: Subcribe_def Let_def andThen_Inr_iff agent_client_def addEventChannel_registered addEventChannel_opts split: if_splits)
  then show ?thesis
    using assms unfolding Event_ScheduleByID_eq [OF ev]
    by (auto simp: Let_def andThen_Inr_iff agent_client_def dest: Subcribe_seq split: option.splits)
qed

lemma Unsubscribe_frame:
  assumes "Unsubscribe ev q w = Inr (b, q', w')"
  shows "ws_eventChannelsSeq w' = ws_eventChannelsSeq w \<and> q_Channel q' = q_Channel q \<and>
    ws_opts w' = ws_opts w \<and> ws_state w' = ws_state w \<and>
    (\<forall>k i ch. ws_registered w' k i = Some ch \<longrightarrow> ws_registered w k i = Some ch)"
  using assms
  by (auto simp: Unsubscribe_def andThen_Inr_iff removeEventChannel_registered removeEventChannel_opts split: option.splits if_splits)

lemma Event_Unschedule_frame:
  assumes "Event_Unschedule i (e, w) = Inr (u, e', w')"
  shows "ev_callback e' = ev_callback e \<and> ws_eventChannelsSeq w' = ws_eventChannelsSeq w \<and>
    (agent_client se e w \<longrightarrow> agent_client se e' w')"
proof -
  have "ws_eventChannelsSeq w1 = ws_eventChannelsSeq w \<and>
      (agent_client se e w \<longrightarrow> agent_client se (e1\<lparr>ev_queue := Some q1\<rparr>) w1)"
    if "Unsubscribe ev q w = Inr (b, q1, w1)" "ev_queue e = Some q" for ev q b q1 w1 and e1 :: event_scheduler
    using Unsubscribe_frame [OF that(1)] that(2) by (simp add: agent_client_def) blast
  then show ?thesis
    using assms
    by (auto simp: Event_Unschedule_def Let_def andThen_Inr_iff split: option.splits if_splits)
qed

lemma event_carries_triggers:
  assumes "event_carries se P v w" and "\<And>t. trigger_Name t = TRIGGER_EVENT \<Longrightarrow> (\<exists>a. (a, t) \<in> P') \<longleftrightarrow> (\<exists>a. (a, t) \<in> P)"
  shows "event_carries se P' v w"
proof -
  have "(\<exists>a. (a, t) \<in> P' \<and> trigger_Name t = TRIGGER_EVENT \<and> trigger_id t = i) \<longleftrightarrow>
      (\<exists>a. (a, t) \<in> P \<and> trigger_Name t = TRIGGER_EVENT \<and> trigger_id t = i)" for i t
    using assms(2) [of t] by auto
  with assms(1) show ?thesis unfolding event_carries_def by blast
qed

lemma event_carries_schedule:
  assumes "event_carries se P v w" and "ws_live w" and "ws_room w" and "decodable t" and "trigger_Name t = TRIGGER_EVENT"
    and fresh: "\<forall>a u. (a, u) \<in> P \<longrightarrow> trigger_id u \<noteq> trigger_id t"
  shows "\<exists>v' w'. Event_ScheduleByID (trigger_id t) t (v, w) = Inr (Inr (trigger_id t), v', w') \<and>
    event_carries se (with_pair task t P) v' w' \<and> ws_live w' \<and>
    ws_eventChannelsSeq w' \<in> {ws_eventChannelsSeq w, ws_eventChannelsSeq w + 1}"
proof -
  let ?i = "trigger_id t"
  have event: "event_ok v w" "event_rdy v" "agent_client se v w" "ev_callback v = Some (se_taskTrigger se)"
    and books: "fmlookup (ev_triggers v) i = Some u \<longleftrightarrow>
      (\<exists>a. (a, u) \<in> P \<and> trigger_Name u = TRIGGER_EVENT \<and> trigger_id u = i)" for i u
    using assms(1) by (simp_all add: event_carries_def)
  have "Event_CanSchedule v (trigger_Name t)" using assms(5) by (simp add: Event_CanSchedule_def)
  from Event_ScheduleByID_returns [OF event(2) assms(2) this assms(4)] obtain r v' w' where
    run: "Event_ScheduleByID ?i t (v, w) = Inr (r, v', w')" and rdy: "event_rdy v'" "ws_live w'" by blast
  have r: "r = Inr ?i" and trig: "ev_triggers v' = fmupd ?i t (ev_triggers v)"
    using Event_ScheduleByID_cases [OF run] by auto
  have "?i \<notin> event_ids v" using books fresh by (fastforce simp: event_ids_def fmlookup_dom'_iff)
  from event_ok_schedule [OF event(1) assms(3) this run] have "event_ok v' w'" .
  moreover have "fmlookup (ev_triggers v') i = Some u \<longleftrightarrow>
      (\<exists>a. (a, u) \<in> with_pair task t P \<and> trigger_Name u = TRIGGER_EVENT \<and> trigger_id u = i)" for i u
    using books [of i u] assms(5) fresh by (auto simp: trig with_pair_iff)
  ultimately show ?thesis
    using Event_ScheduleByID_frame [OF run] rdy event(3,4) run r by (auto simp: event_carries_def)
qed

lemma event_carries_unschedule:
  assumes "event_carries se P v w" and "ws_live w"
  shows "\<exists>u v' w'. Event_Unschedule i (v, w) = Inr (u, v', w') \<and> event_carries se (without_ids {i} P) v' w' \<and> ws_live w' \<and>
    ws_eventChannelsSeq w' = ws_eventChannelsSeq w"
proof -
  have event: "event_ok v w" "event_rdy v" "agent_client se v w" "ev_callback v = Some (se_taskTrigger se)"
    and books: "fmlookup (ev_triggers v) j = Some u \<longleftrightarrow>
      (\<exists>a. (a, u) \<in> P \<and> trigger_Name u = TRIGGER_EVENT \<and> trigger_id u = j)" for j u
    using assms(1) by (simp_all add: event_carries_def)
  from Event_Unschedule_returns [OF event(2) assms(2), of i] obtain u v' w' where
    run: "Event_Unschedule i (v, w) = Inr (u, v', w')" and rdy: "event_rdy v'" "ws_live w'" by blast
  have trig: "ev_triggers v' = fmdrop i (ev_triggers v)" using Event_Unschedule_cases [OF run] by simp
  have "fmlookup (ev_triggers v') j = Some u \<longleftrightarrow>
      (\<exists>a. (a, u) \<in> without_ids {i} P \<and> trigger_Name u = TRIGGER_EVENT \<and> trigger_id u = j)" for j u
    using books [of j u] by (auto simp: trig without_ids_iff)
  with event_ok_unschedule [OF event(1) run] Event_Unschedule_frame [OF run] rdy event(3,4) run show ?thesis
    by (auto simp: event_carries_def)
qed

subsection \<open>The cron scheduler\<close>

text \<open>\<open>ids\<close> is the table of the composite: a trigger that its scheduler refused is not in it.\<close>

definition cron_carries ::
  "start_env \<Rightarrow> (defined_task \<times> task_trigger) set \<Rightarrow> (u64, nat) fmap \<Rightarrow> ('g, 'j) cron_scheduler \<Rightarrow> bool" where
  "cron_carries se P ids c \<longleftrightarrow> cron_callback c = Some (se_taskTrigger se) \<and>
     (\<forall>a t. (a, t) \<in> P \<longrightarrow> trigger_Name t = TRIGGER_CRON \<longrightarrow> fmlookup ids (trigger_id t) \<noteq> None \<longrightarrow>
        fmlookup (cron_jobs c) (trigger_id t) \<noteq> None)"

lemma cron_carries_schedule:
  assumes "cron_carries se P ids c" and "decodable t" and "trigger_Name t = TRIGGER_CRON" and "fmlookup ids (trigger_id t) = None"
  shows "\<exists>r c'. Cron_ScheduleByID (ae_gocron env) (trigger_id t) t (c, w) = Inr (r, c', w) \<and>
    (r = Inr (trigger_id t) \<and> cron_carries se (with_pair task t P) (fmupd (trigger_id t) 0 ids) c' \<or>
     (\<exists>err. r = Inl err) \<and> \<not> never_refused env t \<and> cron_carries se (with_pair task t P) ids c')"
proof -
  obtain expr where expr: "Trigger_MustString t = Inr expr" using decodable_MustString [OF assms(2)] by blast
  obtain r g where "gc_Do (ae_gocron env) expr (trigger_id t) t (cron_cronScheduler c) = (r, g)" by fastforce
  with assms(1,3,4) expr show ?thesis
    by (cases r) (auto simp: Cron_ScheduleByID_def cron_carries_def with_pair_iff never_refused_def)
qed

lemma cron_carries_unschedule:
  assumes "cron_carries se P ids c"
  shows "\<exists>u c'. Cron_Unschedule gc i (c, w) = Inr (u, c', w) \<and> cron_carries se (without_ids X P) ids c'"
  using assms by (cases "fmlookup (cron_jobs c) i") (auto simp: Cron_Unschedule_def cron_carries_def without_ids_iff)

lemma cron_carries_put:
  assumes "cron_carries se P ids c" and "trigger_Name t \<noteq> TRIGGER_CRON"
  shows "cron_carries se (with_pair task t P) ids c"
    and "cron_carries se (with_pair task t P) (fmupd (trigger_id t) n ids) c"
  using assms by (auto simp: cron_carries_def with_pair_iff)

lemma cron_carries_out: "cron_carries se P ids c \<Longrightarrow> cron_carries se (without_ids X P) ids c"
  by (auto simp: cron_carries_def without_ids_iff)

subsection \<open>The file system scheduler\<close>

text \<open>
  The triggers that are filed under a path are the ones of the pairs with that path. This needs paths in their normal form: \<open>neat\<close>.
\<close>

definition watches ::
  "(defined_task \<times> task_trigger) set \<Rightarrow> (u64, nat) fmap \<Rightarrow> string \<Rightarrow> u64 \<Rightarrow> task_trigger \<Rightarrow> bool" where
  "watches P ids p i t \<longleftrightarrow>
     (\<exists>a. (a, t) \<in> P) \<and> trigger_Name t = TRIGGER_FSNOTIFY \<and> trigger_id t = i \<and> fmlookup ids i \<noteq> None \<and>
     Trigger_MustString t = Inr p"

definition fs_tables :: "(defined_task \<times> task_trigger) set \<Rightarrow> (u64, nat) fmap \<Rightarrow> 'n fs_scheduler \<Rightarrow> bool" where
  "fs_tables P ids f \<longleftrightarrow>
     (\<forall>p. fmlookup (fs_pathTriggers f) p \<noteq> Some fmempty) \<and>
     (\<forall>p i t. fmlookup (nested (fs_pathTriggers f) p) i = Some t \<longleftrightarrow> watches P ids p i t) \<and>
     (\<forall>p i t. watches P ids p i t \<longrightarrow> fmlookup (fs_triggers f) i = Some t)"

definition fs_carries ::
  "start_env \<Rightarrow> bool \<Rightarrow> (defined_task \<times> task_trigger) set \<Rightarrow> (u64, nat) fmap \<Rightarrow> 'n fs_scheduler \<Rightarrow> bool" where
  "fs_carries se neat P ids f \<longleftrightarrow>
     fs_rdy f \<and> fs_callback f = Some (se_taskTrigger se) \<and> (neat \<longrightarrow> fs_tables P ids f)"

lemma fs_tablesD:
  assumes "fs_tables P ids f"
  shows "fmlookup (fs_pathTriggers f) p \<noteq> Some fmempty"
    and "fmlookup (nested (fs_pathTriggers f) p) i = Some t \<longleftrightarrow> watches P ids p i t"
    and "watches P ids p i t \<Longrightarrow> fmlookup (fs_triggers f) i = Some t"
  using assms by (simp_all add: fs_tables_def)

lemma fs_carries_watches:
  "fs_carries se neat P ids f \<Longrightarrow> (\<And>p i t. watches P' ids' p i t \<longleftrightarrow> watches P ids p i t) \<Longrightarrow> fs_carries se neat P' ids' f"
  by (simp add: fs_carries_def fs_tables_def)

lemma watches_put:
  assumes "trigger_Name t = TRIGGER_FSNOTIFY" and "Trigger_MustString t = Inr path" and "fmlookup ids (trigger_id t) = None"
  shows "watches (with_pair task t P) (fmupd (trigger_id t) n ids) p j u \<longleftrightarrow>
      p = path \<and> j = trigger_id t \<and> u = t \<or> watches P ids p j u"
    and "watches (with_pair task t P) ids p j u \<longleftrightarrow> watches P ids p j u"
  using assms by (auto simp: watches_def with_pair_iff)

lemma watches_out: "watches (without_ids X P) ids p j u \<longleftrightarrow> watches P ids p j u \<and> j \<notin> X"
  by (auto simp: watches_def without_ids_iff)

lemma fs_tables_schedule:
  assumes "fs_tables P ids f" and "trigger_Name t = TRIGGER_FSNOTIFY" and "fmlookup ids (trigger_id t) = None"
    and path: "Trigger_MustString t = Inr path" "normalizePath path = path"
    and run: "FS_ScheduleByID fsn (trigger_id t) t (f, w) = Inr (r, f', w')"
  shows "case r of Inl err \<Rightarrow> fs_tables (with_pair task t P) ids f'
    | Inr j \<Rightarrow> fs_tables (with_pair task t P) (fmupd (trigger_id t) 2 ids) f'"
proof (rule FS_ScheduleByID_cases [OF run])
  let ?i = "trigger_id t"
  note f = fs_tablesD [OF assms(1)] and put = watches_put [OF assms(2) path(1) assms(3)]
  have none: "\<not> watches P ids p ?i u" for p u using assms(3) by (simp add: watches_def)
  fix s assume s: "Trigger_MustString t = Inr s" and w': "w' = w"
    and r: "case r of
      Inl err \<Rightarrow> fs_pathTriggers f' = fs_pathTriggers f \<and> fs_triggers f' = fs_triggers f \<and>
        fmlookup (fs_pathTriggers f) (normalizePath s) = None \<and>
        fsn_Add fsn (normalizePath s) (fs_watcher f) = (Some err, fs_watcher f')
    | Inr j \<Rightarrow> j = ?i \<and> fs_triggers f' = fmupd ?i t (fs_triggers f) \<and>
        fs_pathTriggers f' = fmupd (normalizePath s)
          (fmupd ?i t (nested (fs_pathTriggers f) (normalizePath s))) (fs_pathTriggers f) \<and>
        (if fmlookup (fs_pathTriggers f) (normalizePath s) = None
         then fsn_Add fsn (normalizePath s) (fs_watcher f) = (None, fs_watcher f')
         else fs_watcher f' = fs_watcher f)"
  have norm: "normalizePath s = path" using s path by simp
  show ?thesis
  proof (cases r)
    case (Inl err)
    with r f show ?thesis by (simp add: fs_tables_def put(2))
  next
    case (Inr j)
    with r f none norm show ?thesis by (auto simp: fs_tables_def put(1) nested_upd)
  qed
qed

lemma fs_carries_schedule:
  assumes "fs_carries se neat P ids f" and "known_trigger neat t" and "trigger_Name t = TRIGGER_FSNOTIFY"
    and "fmlookup ids (trigger_id t) = None"
  shows "\<exists>r f'. FS_ScheduleByID (ae_fsnotify env) (trigger_id t) t (f, w) = Inr (r, f', w) \<and>
    (r = Inr (trigger_id t) \<and> fs_carries se neat (with_pair task t P) (fmupd (trigger_id t) 2 ids) f' \<or>
     (\<exists>err. r = Inl err) \<and> \<not> never_refused env t \<and> fs_carries se neat (with_pair task t P) ids f')"
proof -
  let ?i = "trigger_id t"
  have dec: "decodable t" and f: "fs_rdy f" using assms(1,2) by (simp_all add: known_trigger_def fs_carries_def)
  obtain path where path: "Trigger_MustString t = Inr path" using decodable_MustString [OF dec] by blast
  have "FS_CanSchedule f (trigger_Name t)" using assms(3) by (simp add: FS_CanSchedule_def)
  from FS_ScheduleByID_returns [OF f this dec, of "ae_fsnotify env" ?i w] obtain r f' w' where
    run: "FS_ScheduleByID (ae_fsnotify env) ?i t (f, w) = Inr (r, f', w')" and rdy: "fs_rdy f'" by blast
  have cb: "fs_callback f' = fs_callback f"
    using run path assms(3) by (auto simp: FS_ScheduleByID_def Let_def split: option.splits prod.splits)
  have w': "w' = w" by (rule FS_ScheduleByID_cases [OF run])
  have j: "j = ?i" if "r = Inr j" for j using FS_ScheduleByID_ok [OF run [unfolded that]] by simp
  have "normalizePath path = path" if neat using assms(2,3) path that by (simp add: known_trigger_def)
  then have "neat \<longrightarrow> (case r of Inl err \<Rightarrow> fs_tables (with_pair task t P) ids f'
      | Inr j \<Rightarrow> fs_tables (with_pair task t P) (fmupd ?i 2 ids) f')"
    using fs_tables_schedule [OF _ assms(3,4) path _ run] assms(1) by (auto simp: fs_carries_def)
  moreover have "\<not> never_refused env t" if "r = Inl err" for err
    by (rule FS_ScheduleByID_cases [OF run]) (use that assms(3) in \<open>auto simp: never_refused_def\<close>)
  ultimately show ?thesis using run w' j rdy cb assms(1) by (cases r) (auto simp: fs_carries_def)
qed

lemma fs_tables_unschedule:
  assumes "fs_tables P ids f" and "(a, t) \<in> P" and "decodable t" and "trigger_Name t = TRIGGER_FSNOTIFY"
    and "fmlookup ids (trigger_id t) \<noteq> None" and "separate_pairs P D"
  shows "\<exists>u f'. FS_Unschedule fsn (trigger_id t) (f, w) = Inr (u, f', w) \<and> fs_callback f' = fs_callback f \<and>
    fs_triggers f' = fs_triggers f \<and> fs_tables (without_ids {trigger_id t} P) ids f'"
proof -
  let ?i = "trigger_id t"
  note f = fs_tablesD [OF assms(1)]
  obtain path where path: "Trigger_MustString t = Inr path" using decodable_MustString [OF assms(3)] by blast
  with assms(2,4,5) have wt: "watches P ids path ?i t" by (auto simp: watches_def)
  from f(2) [THEN iffD2, OF this] obtain m where m: "fmlookup (fs_pathTriggers f) path = Some m" "fmlookup m ?i = Some t"
    by (cases "fmlookup (fs_pathTriggers f) path") auto
  from FS_Unschedule_found [OF f(3) [OF wt] path m(1), of fsn w] obtain err f' where
    run: "FS_Unschedule fsn ?i (f, w) = Inr ((err, True), f', w)" and trig: "fs_triggers f' = fs_triggers f"
    and pt: "fs_pathTriggers f' = (if mlen m = 1 then fmdrop path (fs_pathTriggers f)
      else fmupd path (fmdrop ?i m) (fs_pathTriggers f))" by blast
  have cb: "fs_callback f' = fs_callback f"
    using run path f(3) [OF wt] m(1) by (auto simp: FS_Unschedule_def Let_def split: option.splits prod.splits if_splits)
  have one: "fmdrop ?i m = fmempty" if "mlen m = 1"
  proof -
    have "mlen (fmdrop ?i m) = 0" using that m(2) by (simp add: fmdomI)
    then show ?thesis by (simp only: mlen_0_iff)
  qed
  have only: "watches P ids p ?i u \<longleftrightarrow> p = path \<and> u = t" for p u
  proof
    assume "watches P ids p ?i u"
    then obtain b where u: "(b, u) \<in> P" "trigger_id t = trigger_id u" "Trigger_MustString u = Inr p" by (auto simp: watches_def)
    with separate_pairsD(1) [OF assms(6,2) u(1,2)] path show "p = path \<and> u = t" by simp
  qed (use wt in simp)
  have "fmlookup (fs_pathTriggers f') p \<noteq> Some fmempty" for p
  proof (cases "mlen m = 1")
    case False
    moreover have "?i |\<in>| fmdom m" using m(2) by (rule fmdomI)
    moreover from this have "mlen m \<noteq> 0" by (auto simp: mlen_0_iff)
    ultimately have "mlen (fmdrop ?i m) \<noteq> 0" by simp
    then have "fmdrop ?i m \<noteq> fmempty" by (metis mlen_empty)
    with False show ?thesis using f(1) by (simp add: pt)
  qed (use f(1) in \<open>simp add: pt\<close>)
  moreover have "fmlookup (nested (fs_pathTriggers f') p) j = Some u \<longleftrightarrow> watches (without_ids {?i} P) ids p j u" for p j u
  proof -
    have "fmlookup (nested (fs_pathTriggers f') p) j =
        (if p = path \<and> j = ?i then None else fmlookup (nested (fs_pathTriggers f) p) j)"
    proof (cases "mlen m = 1")
      case True
      then have "fmlookup m j = None" if "j \<noteq> ?i" for j using that one by (metis fmempty_lookup fmlookup_drop)
      with True m(1) show ?thesis by (auto simp: pt nested_drop)
    qed (use m(1) in \<open>auto simp: pt nested_upd\<close>)
    then show ?thesis using f(2) [of p j u] only [of p u] by (auto simp: watches_out)
  qed
  ultimately have "fs_tables (without_ids {?i} P) ids f'"
    using f(3) trig unfolding fs_tables_def watches_out by auto
  with run cb trig show ?thesis by blast
qed

lemma fs_carries_unschedule:
  assumes "fs_carries se neat P ids f" and "(a, t) \<in> P" and "decodable t" and "trigger_Name t = TRIGGER_FSNOTIFY"
    and "fmlookup ids (trigger_id t) \<noteq> None" and "separate_pairs P D"
  shows "\<exists>u f'. FS_Unschedule fsn (trigger_id t) (f, w) = Inr (u, f', w) \<and> fs_carries se neat (without_ids {trigger_id t} P) ids f'"
proof (cases neat)
  case True
  with assms(1) have "fs_tables P ids f" by (simp add: fs_carries_def)
  from fs_tables_unschedule [OF this assms(2-6), of fsn w] assms(1) show ?thesis
    by (auto simp: fs_carries_def fs_rdy_def)
next
  case False
  from assms(1) have rdy: "fs_rdy f" by (simp add: fs_carries_def)
  from FS_Unschedule_returns [OF rdy, of fsn "trigger_id t" w] obtain u f' w' where
    run: "FS_Unschedule fsn (trigger_id t) (f, w) = Inr (u, f', w')" "fs_rdy f'" by blast
  have "w' = w \<and> fs_callback f' = fs_callback f" using run(1)
    by (auto simp: FS_Unschedule_def andThen_Inr_iff Let_def split: option.splits prod.splits if_splits)
  with run False assms(1) show ?thesis by (auto simp: fs_carries_def)
qed

lemma fs_carries_put:
  assumes "fs_carries se neat P ids f" and "trigger_Name t \<noteq> TRIGGER_FSNOTIFY" and "fits task t P D"
  shows "fs_carries se neat (with_pair task t P) ids f"
    and "fs_carries se neat (with_pair task t P) (fmupd (trigger_id t) n ids) f"
  by (rule fs_carries_watches [OF assms(1)], use assms(2,3) in \<open>auto simp: watches_def with_pair_iff fits_def\<close>)+

lemma fs_carries_out:
  assumes "fs_carries se neat P ids f" and "\<And>a t. (a, t) \<in> P \<Longrightarrow> trigger_id t \<in> X \<Longrightarrow>
    trigger_Name t \<noteq> TRIGGER_FSNOTIFY \<or> fmlookup ids (trigger_id t) = None"
  shows "fs_carries se neat (without_ids X P) ids f"
  by (rule fs_carries_watches [OF assms(1)]) (use assms(2) in \<open>auto simp: watches_def without_ids_iff\<close>)

section \<open>The composite\<close>

text \<open>
  The table of the composite: every identifier in it belongs to a pair or was taken away, and the child it names is the one for the
  type of the trigger. A trigger on an event is always in it.
\<close>

definition child_index :: "task_trigger \<Rightarrow> nat" where
  "child_index t = (if trigger_Name t = TRIGGER_CRON then 0 else if trigger_Name t = TRIGGER_EVENT then 1 else 2)"

definition ids_carries :: "('g, 'j, 'n) agent_env \<Rightarrow> bool \<Rightarrow> (defined_task \<times> task_trigger) set \<Rightarrow> u64 set \<Rightarrow> (u64, nat) fmap \<Rightarrow> bool" where
  "ids_carries env neat P D ids \<longleftrightarrow>
     (\<forall>i. fmlookup ids i \<noteq> None \<longrightarrow> i \<in> D \<or> (\<exists>a t. (a, t) \<in> P \<and> trigger_id t = i)) \<and>
     (\<forall>a t. (a, t) \<in> P \<longrightarrow> known_trigger neat t \<and> fmlookup ids (trigger_id t) \<in> {None, Some (child_index t)} \<and>
        (never_refused env t \<longrightarrow> fmlookup ids (trigger_id t) \<noteq> None))"

definition agent_carries ::
  "start_env \<Rightarrow> ('g, 'j, 'n) agent_env \<Rightarrow> bool \<Rightarrow> (defined_task \<times> task_trigger) set \<Rightarrow> u64 set \<Rightarrow> ('g, 'j, 'n) child composite_scheduler \<Rightarrow> ws_client \<Rightarrow> bool" where
  "agent_carries se env neat P D e w \<longleftrightarrow> ids_carries env neat P D (co_ids e) \<and>
     (\<exists>c v f. co_childSchedulers e = [CronChild c, EventChild v, FSChild f] \<and> cron_carries se P (co_ids e) c \<and>
        event_carries se P v w \<and> fs_carries se neat P (co_ids e) f)"

lemma agent_carriesD:
  assumes "agent_carries se env neat P D e w"
  obtains c v f where "co_childSchedulers e = [CronChild c, EventChild v, FSChild f]" and "cron_carries se P (co_ids e) c"
    and "event_carries se P v w" and "fs_carries se neat P (co_ids e) f" and "ids_carries env neat P D (co_ids e)"
  using assms unfolding agent_carries_def by blast

lemma agent_carriesI:
  assumes "co_childSchedulers e = [CronChild c, EventChild v, FSChild f]" and "cron_carries se P (co_ids e) c"
    and "event_carries se P v w" and "fs_carries se neat P (co_ids e) f" and "ids_carries env neat P D (co_ids e)"
  shows "agent_carries se env neat P D e w"
  using assms unfolding agent_carries_def by blast

lemma ids_carriesD:
  assumes "ids_carries env neat P D ids"
  shows "fmlookup ids i \<noteq> None \<Longrightarrow> i \<in> D \<or> (\<exists>a t. (a, t) \<in> P \<and> trigger_id t = i)"
    and "(a, t) \<in> P \<Longrightarrow> known_trigger neat t"
    and "(a, t) \<in> P \<Longrightarrow> fmlookup ids (trigger_id t) = Some n \<Longrightarrow> n = child_index t"
    and "(a, t) \<in> P \<Longrightarrow> never_refused env t \<Longrightarrow> fmlookup ids (trigger_id t) \<noteq> None"
  using assms unfolding ids_carries_def by fastforce+

lemma ids_carries_put:
  assumes "ids_carries env neat P D ids" and "known_trigger neat t" and "fits task t P D"
    and "ids' = fmupd (trigger_id t) (child_index t) ids \<or> \<not> never_refused env t \<and> ids' = ids"
  shows "ids_carries env neat (with_pair task t P) D ids'"
  unfolding ids_carries_def
proof (intro conjI allI impI)
  note ids = ids_carriesD [OF assms(1)]
  fix i assume i: "fmlookup ids' i \<noteq> None"
  show "i \<in> D \<or> (\<exists>a u. (a, u) \<in> with_pair task t P \<and> trigger_id u = i)"
  proof (cases "i = trigger_id t")
    case False
    with i assms(4) have "fmlookup ids i \<noteq> None" by auto
    with ids(1) False show ?thesis unfolding with_pair_iff by blast
  qed (auto simp: with_pair_iff)
next
  note ids = ids_carriesD [OF assms(1)]
  fix a u assume u: "(a, u) \<in> with_pair task t P"
  then show "known_trigger neat u" using assms(2) ids(2) by (auto simp: with_pair_iff)
  show "fmlookup ids' (trigger_id u) \<noteq> None" if "never_refused env u"
    using that u assms(4) ids(4) [of a u] by (auto simp: with_pair_iff)
  have "n = child_index u" if n: "fmlookup ids' (trigger_id u) = Some n" for n
  proof (cases "trigger_id u = trigger_id t")
    case False
    with n assms(4) have "fmlookup ids (trigger_id u) = Some n" by auto
    with u False ids(3) show ?thesis by (auto simp: with_pair_iff)
  next
    case True
    with u have "u = t" by (auto simp: with_pair_iff)
    moreover have "n = child_index t" if old: "fmlookup ids (trigger_id t) = Some n"
    proof -
      obtain b v where "(b, v) \<in> P" "trigger_id v = trigger_id t"
        using ids(1) [of "trigger_id t"] old assms(3) unfolding fits_def by blast
      with assms(3) have "(b, t) \<in> P" unfolding fits_def by blast
      from ids(3) [OF this old] show ?thesis .
    qed
    ultimately show ?thesis using n assms(4) by auto
  qed
  then show "fmlookup ids' (trigger_id u) \<in> {None, Some (child_index u)}" by (cases "fmlookup ids' (trigger_id u)") auto
qed

lemma ids_carries_out: "ids_carries env neat P D ids \<Longrightarrow> ids_carries env neat (without_ids X P) (D \<union> X) ids"
  unfolding ids_carries_def without_ids_iff by blast

lemma first_child_agent:
  "first_child (Child_ops env) TRIGGER_CRON [CronChild c, EventChild v, FSChild f] = Some 0"
  "first_child (Child_ops env) TRIGGER_EVENT [CronChild c, EventChild v, FSChild f] = Some 1"
  "first_child (Child_ops env) TRIGGER_FSNOTIFY [CronChild c, EventChild v, FSChild f] = Some 2"
  by (simp_all add: Cron_CanSchedule_def Event_CanSchedule_def FS_CanSchedule_def trigger_types)

text \<open>The children only depend on the triggers of the pairs.\<close>

lemma agent_carries_triggers:
  assumes "agent_carries se env neat P D e w" and "\<And>t. (\<exists>a. (a, t) \<in> P') \<longleftrightarrow> (\<exists>a. (a, t) \<in> P)"
  shows "agent_carries se env neat P' D e w"
proof (rule agent_carriesD [OF assms(1)])
  fix c v f
  assume kids: "co_childSchedulers e = [CronChild c, EventChild v, FSChild f]" and cron: "cron_carries se P (co_ids e) c"
    and event: "event_carries se P v w" and files: "fs_carries se neat P (co_ids e) f" and ids: "ids_carries env neat P D (co_ids e)"
  have "ids_carries env neat P' D (co_ids e)" using ids assms(2) unfolding ids_carries_def by metis
  moreover have "cron_carries se P' (co_ids e) c" using cron assms(2) unfolding cron_carries_def by metis
  moreover have "fs_carries se neat P' (co_ids e) f"
    by (rule fs_carries_watches [OF files]) (simp add: watches_def assms(2))
  ultimately show ?thesis using event_carries_triggers [OF event, of P'] assms(2) kids by (intro agent_carriesI) auto
qed

text \<open>A trigger that is not in the table is scheduled by the child for its type, which may refuse it.\<close>

lemma event_carries_other:
  assumes "event_carries se P v w" and "trigger_Name t \<noteq> TRIGGER_EVENT" and "fits task t P D"
  shows "event_carries se (with_pair task t P) v w"
  by (rule event_carries_triggers [OF assms(1)]) (use assms(2,3) in \<open>auto simp: with_pair_iff fits_def\<close>)

lemma agent_carries_schedule:
  assumes "agent_carries se env neat P D e w" and "ws_live w" and "ws_room w" and "known_trigger neat t" and "fits task t P D"
    and "fmlookup (co_ids e) (trigger_id t) = None"
  shows "\<exists>r e' w'. Composite_ScheduleByID (Child_ops env) (trigger_id t) t (e, w) = Inr (r, e', w') \<and>
    agent_carries se env neat (with_pair task t P) D e' w' \<and> ws_live w' \<and>
    ws_eventChannelsSeq w' \<in> {ws_eventChannelsSeq w, ws_eventChannelsSeq w + 1} \<and>
    (r = Inr (trigger_id t) \<and> co_ids e' = fmupd (trigger_id t) (child_index t) (co_ids e) \<or>
     (\<exists>err. r = Inl err) \<and> \<not> never_refused env t \<and> co_ids e' = co_ids e)"
proof (rule agent_carriesD [OF assms(1)])
  fix c v f
  let ?i = "trigger_id t"
  assume kids: "co_childSchedulers e = [CronChild c, EventChild v, FSChild f]" and cron: "cron_carries se P (co_ids e) c"
    and event: "event_carries se P v w" and files: "fs_carries se neat P (co_ids e) f" and ids: "ids_carries env neat P D (co_ids e)"
  have dec: "decodable t" and name: "trigger_Name t \<in> {TRIGGER_CRON, TRIGGER_EVENT, TRIGGER_FSNOTIFY}"
    using assms(4) by (simp_all add: known_trigger_def)
  note put = ids_carries_put [OF ids assms(4,5)]
  consider (cron) "trigger_Name t = TRIGGER_CRON" | (event) "trigger_Name t = TRIGGER_EVENT" | (files) "trigger_Name t = TRIGGER_FSNOTIFY"
    using name by blast
  then show ?thesis
  proof cases
    case cron
    note other = event_carries_other [OF event _ assms(5)] fs_carries_put [OF files _ assms(5)]
    from cron_carries_schedule [OF \<open>cron_carries se P (co_ids e) c\<close> dec cron assms(6), of env w task] obtain r c' where
      run: "Cron_ScheduleByID (ae_gocron env) ?i t (c, w) = Inr (r, c', w)"
      and c': "r = Inr ?i \<and> cron_carries se (with_pair task t P) (fmupd ?i 0 (co_ids e)) c' \<or>
        (\<exists>err. r = Inl err) \<and> \<not> never_refused env t \<and> cron_carries se (with_pair task t P) (co_ids e) c'" by blast
    let ?ids = "case r of Inl err \<Rightarrow> co_ids e | Inr j \<Rightarrow> fmupd ?i 0 (co_ids e)"
    let ?e = "e\<lparr>co_childSchedulers := [CronChild c', EventChild v, FSChild f], co_ids := ?ids\<rparr>"
    have ci: "child_index t = 0" using cron by (simp add: child_index_def)
    have "Composite_ScheduleByID (Child_ops env) ?i t (e, w) = Inr (r, ?e, w)"
      using run c' kids cron
      by (auto simp: Composite_ScheduleByID_def first_child_agent as_child_def simp del: first_child.simps)
    moreover have "agent_carries se env neat (with_pair task t P) D ?e w"
      by (rule agent_carriesI [of _ c' v f])
        (use c' put other cron ci in \<open>auto simp: trigger_types\<close>)
    ultimately show ?thesis using assms(2) c' ci by (intro exI [of _ r] exI [of _ ?e] exI [of _ w]) auto
  next
    case event
    have fresh: "\<forall>a u. (a, u) \<in> P \<longrightarrow> trigger_id u \<noteq> ?i"
    proof (intro allI impI notI)
      fix a u assume u: "(a, u) \<in> P" "trigger_id u = ?i"
      with assms(5) have "(a, t) \<in> P" unfolding fits_def by blast
      from ids_carriesD(4) [OF ids this never_refused_event [OF event]] assms(6) show False by simp
    qed
    from event_carries_schedule [where task = task, OF \<open>event_carries se P v w\<close> assms(2,3) dec event fresh] obtain v' w' where
      run: "Event_ScheduleByID ?i t (v, w) = Inr (Inr ?i, v', w')" and v': "event_carries se (with_pair task t P) v' w'"
      and w': "ws_live w'" "ws_eventChannelsSeq w' \<in> {ws_eventChannelsSeq w, ws_eventChannelsSeq w + 1}" by blast
    let ?e = "e\<lparr>co_childSchedulers := [CronChild c, EventChild v', FSChild f], co_ids := fmupd ?i 1 (co_ids e)\<rparr>"
    have ci: "child_index t = 1" using event by (simp add: child_index_def trigger_types)
    have other: "trigger_Name t \<noteq> TRIGGER_CRON" "trigger_Name t \<noteq> TRIGGER_FSNOTIFY" using event by (simp_all add: trigger_types)
    have "Composite_ScheduleByID (Child_ops env) ?i t (e, w) = Inr (Inr ?i, ?e, w')"
      using run kids event
      by (simp add: Composite_ScheduleByID_def first_child_agent as_child_def del: first_child.simps)
    moreover have "agent_carries se env neat (with_pair task t P) D ?e w'"
      by (rule agent_carriesI [of _ c v' f])
        (use v' put ci cron_carries_put [OF cron other(1)] fs_carries_put [OF files other(2) assms(5)] in auto)
    ultimately show ?thesis using w' ci by (intro exI [of _ "Inr ?i"] exI [of _ ?e] exI [of _ w']) simp
  next
    case files
    have other: "trigger_Name t \<noteq> TRIGGER_CRON" "trigger_Name t \<noteq> TRIGGER_EVENT" using files by (simp_all add: trigger_types)
    from fs_carries_schedule [OF \<open>fs_carries se neat P (co_ids e) f\<close> assms(4) files assms(6), of env w task] obtain r f' where
      run: "FS_ScheduleByID (ae_fsnotify env) ?i t (f, w) = Inr (r, f', w)"
      and f': "r = Inr ?i \<and> fs_carries se neat (with_pair task t P) (fmupd ?i 2 (co_ids e)) f' \<or>
        (\<exists>err. r = Inl err) \<and> \<not> never_refused env t \<and> fs_carries se neat (with_pair task t P) (co_ids e) f'" by blast
    let ?ids = "case r of Inl err \<Rightarrow> co_ids e | Inr j \<Rightarrow> fmupd ?i 2 (co_ids e)"
    let ?e = "e\<lparr>co_childSchedulers := [CronChild c, EventChild v, FSChild f'], co_ids := ?ids\<rparr>"
    have ci: "child_index t = 2" using other by (simp add: child_index_def)
    have "Composite_ScheduleByID (Child_ops env) ?i t (e, w) = Inr (r, ?e, w)"
      using run f' kids files
      by (auto simp: Composite_ScheduleByID_def first_child_agent as_child_def simp del: first_child.simps)
    moreover have "agent_carries se env neat (with_pair task t P) D ?e w"
      by (rule agent_carriesI [of _ c v f'])
        (use f' put ci other cron_carries_put [OF cron other(1)] event_carries_other [OF event other(2) assms(5)] in auto)
    ultimately show ?thesis using assms(2) f' ci other by (intro exI [of _ r] exI [of _ ?e] exI [of _ w]) auto
  qed
qed

text \<open>The trigger of a pair that is in the table is unscheduled by its child.\<close>

lemma agent_carries_unschedule:
  assumes "agent_carries se env neat P D e w" and "ws_live w" and "(a, t) \<in> P" and "fmlookup (co_ids e) (trigger_id t) \<noteq> None"
    and "separate_pairs P D"
  shows "\<exists>u e' w'. Composite_Unschedule (Child_ops env) (trigger_id t) (e, w) = Inr (u, e', w') \<and>
    agent_carries se env neat (without_ids {trigger_id t} P) (insert (trigger_id t) D) e' w' \<and> ws_live w' \<and>
    ws_eventChannelsSeq w' = ws_eventChannelsSeq w \<and> co_ids e' = co_ids e"
proof (rule agent_carriesD [OF assms(1)])
  fix c v f
  let ?i = "trigger_id t"
  let ?P = "without_ids {?i} P"
  assume kids: "co_childSchedulers e = [CronChild c, EventChild v, FSChild f]" and cron: "cron_carries se P (co_ids e) c"
    and event: "event_carries se P v w" and files: "fs_carries se neat P (co_ids e) f" and ids: "ids_carries env neat P D (co_ids e)"
  have co: "fmlookup (co_ids e) ?i = Some (child_index t)" using assms(4) ids_carriesD(3) [OF ids assms(3)] by auto
  have known: "known_trigger neat t" by (rule ids_carriesD(2) [OF ids assms(3)])
  have out: "ids_carries env neat ?P (insert ?i D) (co_ids e)" using ids_carries_out [OF ids, of "{?i}"] by simp
  have sole: "u = t" if "(b, u) \<in> P" "trigger_id u = ?i" for b u using separate_pairsD(1) [OF assms(5) that(1) assms(3) that(2)] by simp
  have other_event: "event_carries se ?P v w" if "trigger_Name t \<noteq> TRIGGER_EVENT"
    by (rule event_carries_triggers [OF event]) (use sole that in \<open>auto simp: without_ids_iff\<close>)
  have other_files: "fs_carries se neat ?P (co_ids e) f" if "trigger_Name t \<noteq> TRIGGER_FSNOTIFY"
    by (rule fs_carries_out [OF files]) (use sole that in auto)
  have dec: "decodable t" and "trigger_Name t \<in> {TRIGGER_CRON, TRIGGER_EVENT, TRIGGER_FSNOTIFY}"
    using known by (simp_all add: known_trigger_def)
  then consider (cron) "trigger_Name t = TRIGGER_CRON" | (event) "trigger_Name t = TRIGGER_EVENT" | (files) "trigger_Name t = TRIGGER_FSNOTIFY"
    by blast
  then show ?thesis
  proof cases
    case cron
    from cron_carries_unschedule [OF \<open>cron_carries se P (co_ids e) c\<close>, of "ae_gocron env" ?i w "{?i}"] obtain u c' where
      run: "Cron_Unschedule (ae_gocron env) ?i (c, w) = Inr (u, c', w)" and c': "cron_carries se ?P (co_ids e) c'" by blast
    let ?e = "e\<lparr>co_childSchedulers := [CronChild c', EventChild v, FSChild f]\<rparr>"
    have "Composite_Unschedule (Child_ops env) ?i (e, w) = Inr (u, ?e, w)"
      using run kids co cron by (simp add: Composite_Unschedule_def as_child_def child_index_def)
    moreover have "agent_carries se env neat ?P (insert ?i D) ?e w"
      by (rule agent_carriesI [of _ c' v f]) (use c' out other_event other_files cron in \<open>simp_all add: trigger_types\<close>)
    ultimately show ?thesis using assms(2) by (intro exI [of _ u] exI [of _ ?e] exI [of _ w]) simp
  next
    case event
    from event_carries_unschedule [OF \<open>event_carries se P v w\<close> assms(2), of ?i] obtain u v' w' where
      run: "Event_Unschedule ?i (v, w) = Inr (u, v', w')" and v': "event_carries se ?P v' w'"
      and w': "ws_live w'" "ws_eventChannelsSeq w' = ws_eventChannelsSeq w" by blast
    let ?e = "e\<lparr>co_childSchedulers := [CronChild c, EventChild v', FSChild f]\<rparr>"
    have "Composite_Unschedule (Child_ops env) ?i (e, w) = Inr (u, ?e, w')"
      using run kids co event by (simp add: Composite_Unschedule_def as_child_def child_index_def trigger_types)
    moreover have "agent_carries se env neat ?P (insert ?i D) ?e w'"
      by (rule agent_carriesI [of _ c v' f])
        (use v' out cron_carries_out [OF cron] other_files event in \<open>simp_all add: trigger_types\<close>)
    ultimately show ?thesis using w' by (intro exI [of _ u] exI [of _ ?e] exI [of _ w']) simp
  next
    case files
    from fs_carries_unschedule [OF \<open>fs_carries se neat P (co_ids e) f\<close> assms(3) dec files assms(4,5), of "ae_fsnotify env" w]
    obtain u f' where run: "FS_Unschedule (ae_fsnotify env) ?i (f, w) = Inr (u, f', w)"
      and f': "fs_carries se neat ?P (co_ids e) f'" by blast
    let ?e = "e\<lparr>co_childSchedulers := [CronChild c, EventChild v, FSChild f']\<rparr>"
    have "Composite_Unschedule (Child_ops env) ?i (e, w) = Inr (u, ?e, w)"
      using run kids co files by (simp add: Composite_Unschedule_def as_child_def child_index_def trigger_types)
    moreover have "agent_carries se env neat ?P (insert ?i D) ?e w"
      by (rule agent_carriesI [of _ c v f'])
        (use f' out cron_carries_out [OF cron] other_event files in \<open>simp_all add: trigger_types\<close>)
    ultimately show ?thesis using assms(2) by (intro exI [of _ u] exI [of _ ?e] exI [of _ w]) simp
  qed
qed

text \<open>Pairs that are not in the table can be forgotten.\<close>

lemma agent_carries_forget:
  assumes "agent_carries se env neat P D e w"
    and "\<And>a t. (a, t) \<in> P \<Longrightarrow> trigger_id t \<in> Y \<Longrightarrow> fmlookup (co_ids e) (trigger_id t) = None"
  shows "agent_carries se env neat (without_ids Y P) (D \<union> Y) e w"
proof (rule agent_carriesD [OF assms(1)])
  fix c v f
  assume kids: "co_childSchedulers e = [CronChild c, EventChild v, FSChild f]" and cron: "cron_carries se P (co_ids e) c"
    and event: "event_carries se P v w" and files: "fs_carries se neat P (co_ids e) f" and ids: "ids_carries env neat P D (co_ids e)"
  have "trigger_id t \<notin> Y" if "(a, t) \<in> P" "trigger_Name t = TRIGGER_EVENT" for a t
    using ids_carriesD(4) [OF ids that(1) never_refused_event [OF that(2)]] assms(2) [OF that(1)] by auto
  then have "event_carries se (without_ids Y P) v w"
    by (intro event_carries_triggers [OF event]) (auto simp: without_ids_iff)
  moreover have "fs_carries se neat (without_ids Y P) (co_ids e) f" by (rule fs_carries_out [OF files]) (rule disjI2, rule assms(2))
  ultimately show ?thesis using kids cron_carries_out [OF cron] ids_carries_out [OF ids] by (intro agent_carriesI) auto
qed

end
