(* ===== verification/Agent_Schedules.thy ===== *)
theory Agent_Schedules
  imports Agent_Children
begin

text \<open>
  The agent's task scheduler carries out a set of pairs of tasks and triggers: \<open>flow_state\<close> says what it holds on a composite that
  carries out the same pairs (\<open>Agent_Children\<close>), and \<open>updateTrigger\<close> puts a trigger of a task in.
\<close>

section \<open>The state\<close>

text \<open>
  The books of the task scheduler: it knows every task, it has scheduled what it has for a reason, every trigger on an event, and
  what it has scheduled is registered for exactly its task.
\<close>

definition ts_carries :: "('g, 'j, 'n) agent_env \<Rightarrow> (defined_task \<times> task_trigger) set \<Rightarrow> u64 set \<Rightarrow> 'c task_scheduler \<Rightarrow> bool" where
  "ts_carries env P D ts \<longleftrightarrow>
     (\<forall>a t. (a, t) \<in> P \<longrightarrow> fmlookup (ts_tasks ts) (task_ID a) \<noteq> None) \<and>
     (\<forall>k i. fmlookup (ts_scheduled ts k) i \<noteq> None \<longrightarrow> i \<in> D \<or> (\<exists>a t. (a, t) \<in> P \<and> task_ID a = k \<and> trigger_id t = i)) \<and>
     (\<forall>a t. (a, t) \<in> P \<longrightarrow> never_refused env t \<longrightarrow>
        fmlookup (ts_scheduled ts (task_ID a)) (trigger_id t) \<noteq> None) \<and>
     (\<forall>a t. (a, t) \<in> P \<longrightarrow> fmlookup (ts_scheduled ts (task_ID a)) (trigger_id t) \<noteq> None \<longrightarrow>
        fmlookup (ts_triggerTasks ts) (trigger_id t) = Some (fmupd (task_ID a) a fmempty)) \<and>
     (\<forall>i. fmlookup (ts_triggerTasks ts) i \<noteq> None \<longrightarrow>
        (\<exists>a t. (a, t) \<in> P \<and> trigger_id t = i \<and> fmlookup (ts_scheduled ts (task_ID a)) i \<noteq> None))"

text \<open>The composite has the triggers that the task scheduler has.\<close>

definition books_agree :: "(defined_task \<times> task_trigger) set \<Rightarrow> (u64, nat) fmap \<Rightarrow> 'c task_scheduler \<Rightarrow> bool" where
  "books_agree P ids ts \<longleftrightarrow> (\<forall>a t. (a, t) \<in> P \<longrightarrow>
     (fmlookup ids (trigger_id t) = None \<longleftrightarrow> fmlookup (ts_scheduled ts (task_ID a)) (trigger_id t) = None))"

text \<open>\<open>room\<close>: how many more triggers can be scheduled before the identifiers of the event channels wrap around.\<close>

definition flow_state ::
  "start_env \<Rightarrow> ('g, 'j, 'n) agent_env \<Rightarrow> bool \<Rightarrow> (defined_task \<times> task_trigger) set \<Rightarrow> u64 set \<Rightarrow> nat
   \<Rightarrow> ('g, 'j, 'n) child composite_scheduler task_scheduler \<times> ws_client \<Rightarrow> bool" where
  "flow_state se env neat P D room tw \<longleftrightarrow>
     (case tw of (ts, w) \<Rightarrow>
        ws_live w \<and> unat (ws_eventChannelsSeq w) + room < 2 ^ 32 \<and> ts_callback ts = Some (se_onTrigger se) \<and>
        separate_pairs P D \<and> ts_carries env P D ts \<and> agent_carries se env neat P D (ts_triggersScheduler ts) w \<and>
        books_agree P (co_ids (ts_triggersScheduler ts)) ts)"

section \<open>One trigger\<close>

lemma flow_room:
  assumes "unat (ws_eventChannelsSeq w) + Suc room < 2 ^ 32"
  shows "ws_room w"
proof -
  have "unat (- 1 :: u32) = 2 ^ 32 - 1" by (simp add: unsigned_minus_1_eq_mask mask_eq_exp_minus_1)
  with assms show ?thesis by (auto simp: ws_room_def)
qed

lemma flow_stateD:
  assumes "flow_state se env neat P D room (ts, w)"
  shows "ws_live w" and "unat (ws_eventChannelsSeq w) + room < 2 ^ 32" and "ts_callback ts = Some (se_onTrigger se)"
    and "separate_pairs P D" and "ts_carries env P D ts" and "agent_carries se env neat P D (ts_triggersScheduler ts) w"
    and "books_agree P (co_ids (ts_triggersScheduler ts)) ts"
  using assms by (simp_all add: flow_state_def)

lemma ts_carriesD:
  assumes "ts_carries env P D ts"
  shows "(a, t) \<in> P \<Longrightarrow> fmlookup (ts_tasks ts) (task_ID a) \<noteq> None"
    and "fmlookup (ts_scheduled ts k) i \<noteq> None \<Longrightarrow> i \<in> D \<or> (\<exists>a t. (a, t) \<in> P \<and> task_ID a = k \<and> trigger_id t = i)"
    and "(a, t) \<in> P \<Longrightarrow> never_refused env t \<Longrightarrow> fmlookup (ts_scheduled ts (task_ID a)) (trigger_id t) \<noteq> None"
    and "(a, t) \<in> P \<Longrightarrow> fmlookup (ts_scheduled ts (task_ID a)) (trigger_id t) \<noteq> None \<Longrightarrow>
      fmlookup (ts_triggerTasks ts) (trigger_id t) = Some (fmupd (task_ID a) a fmempty)"
    and "fmlookup (ts_triggerTasks ts) i \<noteq> None \<Longrightarrow>
      \<exists>a t. (a, t) \<in> P \<and> trigger_id t = i \<and> fmlookup (ts_scheduled ts (task_ID a)) i \<noteq> None"
  using assms unfolding ts_carries_def by blast+

text \<open>The task scheduler after it has recorded a trigger that was not scheduled, and after it has registered a new version for one that was.\<close>

definition recorded ::
  "defined_task \<Rightarrow> scheduled_task \<Rightarrow> task_trigger \<Rightarrow> 'c \<Rightarrow> 'c task_scheduler \<Rightarrow> 'c task_scheduler" where
  "recorded task st t sched ts = ts\<lparr>ts_triggersScheduler := sched,
     ts_tasks := fmupd (task_ID task) (st\<lparr>st_ScheduledTriggers :=
       fmupd (trigger_id t) \<lparr>st_Trigger = t, st_SchedulingError = None\<rparr> (st_ScheduledTriggers st)\<rparr>) (ts_tasks ts),
     ts_triggerTasks := fmupd (trigger_id t) (fmupd (task_ID task) task fmempty) (ts_triggerTasks ts)\<rparr>"

definition registered_again :: "defined_task \<Rightarrow> task_trigger \<Rightarrow> 'c task_scheduler \<Rightarrow> 'c task_scheduler" where
  "registered_again task t ts =
     ts\<lparr>ts_triggerTasks := fmupd (trigger_id t) (fmupd (task_ID task) task fmempty) (ts_triggerTasks ts)\<rparr>"

lemma recorded_simps [simp]:
  "ts_triggersScheduler (recorded task st t sched ts) = sched" "ts_callback (recorded task st t sched ts) = ts_callback ts"
  "ts_triggerTasks (recorded task st t sched ts) = fmupd (trigger_id t) (fmupd (task_ID task) task fmempty) (ts_triggerTasks ts)"
  "fmlookup (ts_tasks (recorded task st t sched ts)) k = None \<longleftrightarrow> k \<noteq> task_ID task \<and> fmlookup (ts_tasks ts) k = None"
  by (simp_all add: recorded_def)

lemma recorded_scheduled:
  "fmlookup (ts_tasks ts) (task_ID task) = Some st \<Longrightarrow>
    fmlookup (ts_scheduled (recorded task st t sched ts) k) i =
      (if k = task_ID task \<and> i = trigger_id t then Some \<lparr>st_Trigger = t, st_SchedulingError = None\<rparr>
       else fmlookup (ts_scheduled ts k) i)"
  by (cases "k = task_ID task") (simp_all add: ts_scheduled_def recorded_def)

lemma registered_again_simps [simp]:
  "ts_triggersScheduler (registered_again task t ts) = ts_triggersScheduler ts"
  "ts_callback (registered_again task t ts) = ts_callback ts" "ts_tasks (registered_again task t ts) = ts_tasks ts"
  "ts_scheduled (registered_again task t ts) = ts_scheduled ts"
  "ts_triggerTasks (registered_again task t ts) = fmupd (trigger_id t) (fmupd (task_ID task) task fmempty) (ts_triggerTasks ts)"
  by (simp_all add: registered_again_def ts_scheduled_def fun_eq_iff)

text \<open>The rule by which the books of the next state are shown in order.\<close>

lemma ts_carriesI:
  assumes "\<And>a t. (a, t) \<in> P \<Longrightarrow> fmlookup (ts_tasks ts) (task_ID a) \<noteq> None"
    and "\<And>k i. fmlookup (ts_scheduled ts k) i \<noteq> None \<Longrightarrow> i \<in> D \<or> (\<exists>a t. (a, t) \<in> P \<and> task_ID a = k \<and> trigger_id t = i)"
    and "\<And>a t. (a, t) \<in> P \<Longrightarrow> never_refused env t \<Longrightarrow> fmlookup (ts_scheduled ts (task_ID a)) (trigger_id t) \<noteq> None"
    and "\<And>a t. (a, t) \<in> P \<Longrightarrow> fmlookup (ts_scheduled ts (task_ID a)) (trigger_id t) \<noteq> None \<Longrightarrow>
      fmlookup (ts_triggerTasks ts) (trigger_id t) = Some (fmupd (task_ID a) a fmempty)"
    and "\<And>i. fmlookup (ts_triggerTasks ts) i \<noteq> None \<Longrightarrow>
      \<exists>a t. (a, t) \<in> P \<and> trigger_id t = i \<and> fmlookup (ts_scheduled ts (task_ID a)) i \<noteq> None"
  shows "ts_carries env P D ts"
  using assms unfolding ts_carries_def by blast

lemma ts_carries_recorded:
  assumes "ts_carries env P D ts" and "fmlookup (ts_tasks ts) (task_ID task) = Some st" and "fits task t P D"
  shows "ts_carries env (with_pair task t P) D (recorded task st t sched ts)"
proof (rule ts_carriesI)
  note P = ts_carriesD [OF assms(1)] and rec = recorded_scheduled [OF assms(2)]
  have same: "task_ID a = task_ID task" if "(a, u) \<in> P" "trigger_id u = trigger_id t" for a u
    using assms(3) that by (auto simp: fits_def)
  show "fmlookup (ts_tasks (recorded task st t sched ts)) (task_ID a) \<noteq> None" if "(a, u) \<in> with_pair task t P" for a u
    using that P(1) [of a u] by (auto simp: with_pair_iff)
  show "i \<in> D \<or> (\<exists>a u. (a, u) \<in> with_pair task t P \<and> task_ID a = k \<and> trigger_id u = i)"
    if "fmlookup (ts_scheduled (recorded task st t sched ts) k) i \<noteq> None" for k i
  proof (cases "i = trigger_id t")
    case True
    with that P(2) [of k i] same have "k = task_ID task \<or> i \<in> D" by (auto simp: rec split: if_splits)
    with True show ?thesis by (auto simp: with_pair_iff)
  next
    case False
    with that P(2) [of k i] show ?thesis by (auto simp: rec with_pair_iff split: if_splits)
  qed
  show "fmlookup (ts_scheduled (recorded task st t sched ts) (task_ID a)) (trigger_id u) \<noteq> None"
    if "(a, u) \<in> with_pair task t P" "never_refused env u" for a u
    using that P(3) [of a u] by (auto simp: rec with_pair_iff)
  show "fmlookup (ts_triggerTasks (recorded task st t sched ts)) (trigger_id u) = Some (fmupd (task_ID a) a fmempty)"
    if "(a, u) \<in> with_pair task t P" "fmlookup (ts_scheduled (recorded task st t sched ts) (task_ID a)) (trigger_id u) \<noteq> None" for a u
    using that P(4) [of a u] by (auto simp: rec with_pair_iff)
  show "\<exists>a u. (a, u) \<in> with_pair task t P \<and> trigger_id u = i \<and>
      fmlookup (ts_scheduled (recorded task st t sched ts) (task_ID a)) i \<noteq> None"
    if "fmlookup (ts_triggerTasks (recorded task st t sched ts)) i \<noteq> None" for i
  proof (cases "i = trigger_id t")
    case True
    then show ?thesis by (intro exI [of _ task] exI [of _ t]) (simp add: rec with_pair_iff)
  next
    case False
    with that P(5) [of i] show ?thesis by (fastforce simp: rec with_pair_iff)
  qed
qed

lemma ts_carries_failed:
  assumes "ts_carries env P D ts" and "fmlookup (ts_tasks ts) (task_ID task) \<noteq> None" and "fits task t P D"
    and "\<not> never_refused env t" and "fmlookup (ts_scheduled ts (task_ID task)) (trigger_id t) = None"
  shows "ts_carries env (with_pair task t P) D (ts\<lparr>ts_triggersScheduler := sched\<rparr>)"
proof -
  note P = ts_carriesD [OF assms(1)]
  let ?ts = "ts\<lparr>ts_triggersScheduler := sched\<rparr>"
  have [simp]: "ts_scheduled ?ts = ts_scheduled ts" by (simp add: ts_scheduled_def fun_eq_iff)
  have same: "task_ID a = task_ID task" if "(a, u) \<in> P" "trigger_id u = trigger_id t" for a u
    using assms(3) that by (auto simp: fits_def)
  show ?thesis
  proof (rule ts_carriesI)
    show "i \<in> D \<or> (\<exists>a u. (a, u) \<in> with_pair task t P \<and> task_ID a = k \<and> trigger_id u = i)"
      if "fmlookup (ts_scheduled ?ts k) i \<noteq> None" for k i
      using that P(2) [of k i] same assms(5) by (fastforce simp: with_pair_iff)
    show "\<exists>a u. (a, u) \<in> with_pair task t P \<and> trigger_id u = i \<and> fmlookup (ts_scheduled ?ts (task_ID a)) i \<noteq> None"
      if "fmlookup (ts_triggerTasks ?ts) i \<noteq> None" for i
      using that P(5) [of i] same assms(5) by (fastforce simp: with_pair_iff)
  qed (use P(1,3,4) assms(2,4,5) in \<open>auto simp: with_pair_iff\<close>)
qed

lemma ts_carries_again:
  assumes "ts_carries env P D ts" and "(b, t) \<in> P" and "task_ID b = task_ID task" and "separate_pairs P D"
    and "fmlookup (ts_scheduled ts (task_ID task)) (trigger_id t) \<noteq> None"
  shows "ts_carries env (with_pair task t P) D (registered_again task t ts)"
proof (rule ts_carriesI)
  note P = ts_carriesD [OF assms(1)] and sep = separate_pairsD(1) [OF assms(4,2)]
  show "fmlookup (ts_tasks (registered_again task t ts)) (task_ID a) \<noteq> None" if "(a, u) \<in> with_pair task t P" for a u
    using that P(1) [of a u] P(1) [OF assms(2)] assms(3) by (auto simp: with_pair_iff)
  show "i \<in> D \<or> (\<exists>a u. (a, u) \<in> with_pair task t P \<and> task_ID a = k \<and> trigger_id u = i)"
    if "fmlookup (ts_scheduled (registered_again task t ts) k) i \<noteq> None" for k i
  proof (cases "i = trigger_id t")
    case True
    then have "i \<in> D \<or> k = task_ID task" using that P(2) [of k i] sep assms(3) by fastforce
    with True show ?thesis by (auto simp: with_pair_iff)
  next
    case False
    with that P(2) [of k i] show ?thesis by (auto simp: with_pair_iff)
  qed
  show "fmlookup (ts_scheduled (registered_again task t ts) (task_ID a)) (trigger_id u) \<noteq> None"
    if "(a, u) \<in> with_pair task t P" "never_refused env u" for a u
    using that P(3) [of a u] assms(5) by (auto simp: with_pair_iff)
  show "fmlookup (ts_triggerTasks (registered_again task t ts)) (trigger_id u) = Some (fmupd (task_ID a) a fmempty)"
    if "(a, u) \<in> with_pair task t P" "fmlookup (ts_scheduled (registered_again task t ts) (task_ID a)) (trigger_id u) \<noteq> None" for a u
    using that P(4) [of a u] by (auto simp: with_pair_iff)
  show "\<exists>a u. (a, u) \<in> with_pair task t P \<and> trigger_id u = i \<and>
      fmlookup (ts_scheduled (registered_again task t ts) (task_ID a)) i \<noteq> None"
    if "fmlookup (ts_triggerTasks (registered_again task t ts)) i \<noteq> None" for i
  proof (cases "i = trigger_id t")
    case True
    then show ?thesis using assms(5) by (intro exI [of _ task] exI [of _ t]) (simp add: with_pair_iff)
  next
    case False
    with that P(5) [of i] show ?thesis by (fastforce simp: with_pair_iff)
  qed
qed

text \<open>
  What \<open>updateTrigger\<close> leaves: the next state, with the same task under its identifier and the result telling whether the trigger is scheduled.
\<close>

definition trigger_updated ::
  "defined_task \<Rightarrow> task_trigger \<Rightarrow> 'c task_scheduler \<Rightarrow> goerror + u64 \<Rightarrow> 'c task_scheduler \<Rightarrow> bool" where
  "trigger_updated task t ts r ts' \<longleftrightarrow>
     (\<exists>st'. fmlookup (ts_tasks ts') (task_ID task) = Some st' \<and> st_DefinedTask st' = task) \<and>
     (\<forall>i. r = Inr i \<longrightarrow> i = trigger_id t) \<and>
     (fmlookup (ts_scheduled ts' (task_ID task)) (trigger_id t) \<noteq> None \<longrightarrow> r = Inr (trigger_id t)) \<and>
     (\<forall>j. j \<noteq> trigger_id t \<longrightarrow>
        fmlookup (ts_scheduled ts' (task_ID task)) j = fmlookup (ts_scheduled ts (task_ID task)) j)"

lemma flow_update_known:
  assumes "flow_state se env neat P D (Suc room) (ts, w)" and "fmlookup (ts_tasks ts) (task_ID task) = Some st"
    and "st_DefinedTask st = task" and "fits task t P D" and "fmlookup (ts_scheduled ts (task_ID task)) (trigger_id t) \<noteq> None"
  shows "updateTrigger (agent_ops env) (task_ID task) t (ts, w) = Inr (Inr (trigger_id t), registered_again task t ts, w)"
    and "flow_state se env neat (with_pair task t P) D room (registered_again task t ts, w)"
proof -
  note flow = flow_stateD [OF assms(1)] and books = ts_carriesD [OF flow_stateD(5) [OF assms(1)]]
  obtain b u where "(b, u) \<in> P" "task_ID b = task_ID task" "trigger_id u = trigger_id t"
    using books(2) [OF assms(5)] assms(4) unfolding fits_def by blast
  with assms(4) have b: "(b, t) \<in> P" "task_ID b = task_ID task" unfolding fits_def by blast+
  have "fmlookup (ts_triggerTasks ts) (trigger_id t) = Some (fmupd (task_ID task) b fmempty)"
    using books(4) [OF b(1)] assms(5) b(2) by simp
  then show "updateTrigger (agent_ops env) (task_ID task) t (ts, w) = Inr (Inr (trigger_id t), registered_again task t ts, w)"
    using assms(2,3,5) by (auto simp: updateTrigger_def Let_def ts_scheduled_def registered_again_def)
  have "(\<exists>a. (a, u) \<in> with_pair task t P) \<longleftrightarrow> (\<exists>a. (a, u) \<in> P)" for u
    using b(1) separate_pairsD(1) [OF flow(4) b(1)] by (fastforce simp: with_pair_iff)
  note carries = agent_carries_triggers [OF flow(6) this]
  have "books_agree (with_pair task t P) (co_ids (ts_triggersScheduler ts)) (registered_again task t ts)"
    using flow(7) b unfolding books_agree_def with_pair_iff by (metis registered_again_simps(4))
  with carries show "flow_state se env neat (with_pair task t P) D room (registered_again task t ts, w)"
    using flow(1-4) ts_carries_again [OF flow(5) b flow(4) assms(5)] separate_with_pair [OF flow(4) assms(4)]
    by (simp add: flow_state_def)
qed

text \<open>The books still agree.\<close>

lemma books_agree_recorded:
  assumes "books_agree P ids ts" and "fmlookup (ts_tasks ts) (task_ID task) = Some st" and "fits task t P D"
  shows "books_agree (with_pair task t P) (fmupd (trigger_id t) n ids) (recorded task st t sched ts)"
  using assms(1,3) unfolding books_agree_def with_pair_iff recorded_scheduled [OF assms(2)] by auto

lemma books_agree_failed:
  assumes "books_agree P ids ts" and "fmlookup ids (trigger_id t) = None"
    and "fmlookup (ts_scheduled ts (task_ID task)) (trigger_id t) = None" and "ts_tasks ts' = ts_tasks ts"
  shows "books_agree (with_pair task t P) ids ts'"
  using assms unfolding books_agree_def with_pair_iff by (auto simp: ts_scheduled_def)

lemma flow_fresh:
  assumes "flow_state se env neat P D room (ts, w)" and "fits task t P D"
    and "fmlookup (ts_scheduled ts (task_ID task)) (trigger_id t) = None"
  shows "fmlookup (co_ids (ts_triggersScheduler ts)) (trigger_id t) = None"
proof (rule agent_carriesD [OF flow_stateD(6) [OF assms(1)]])
  let ?ids = "co_ids (ts_triggersScheduler ts)"
  assume ids: "ids_carries env neat P D ?ids"
  show ?thesis
  proof (rule ccontr)
    assume some: "fmlookup ?ids (trigger_id t) \<noteq> None"
    with ids_carriesD(1) [OF ids some] assms(2) obtain a where "(a, t) \<in> P" "task_ID a = task_ID task"
      unfolding fits_def by blast
    with some assms(3) flow_stateD(7) [OF assms(1)] show False unfolding books_agree_def by metis
  qed
qed

lemma flow_update_new:
  assumes "flow_state se env neat P D (Suc room) (ts, w)" and "fmlookup (ts_tasks ts) (task_ID task) = Some st"
    and "st_DefinedTask st = task" and "fits task t P D" and "fmlookup (ts_scheduled ts (task_ID task)) (trigger_id t) = None"
    and "known_trigger neat t"
  shows "\<exists>r sched w'. let ts' = (case r of Inl err \<Rightarrow> ts\<lparr>ts_triggersScheduler := sched\<rparr> | Inr i \<Rightarrow> recorded task st t sched ts) in
    updateTrigger (agent_ops env) (task_ID task) t (ts, w) = Inr (r, ts', w') \<and> (\<forall>i. r = Inr i \<longrightarrow> i = trigger_id t) \<and>
    flow_state se env neat (with_pair task t P) D room (ts', w')"
proof -
  note flow = flow_stateD [OF assms(1)] and none = flow_fresh [OF assms(1,4,5)]
  from agent_carries_schedule [OF flow(6,1) flow_room [OF flow(2)] assms(6,4) none] obtain r sched w' where
    run: "Composite_ScheduleByID (Child_ops env) (trigger_id t) t (ts_triggersScheduler ts, w) = Inr (r, sched, w')"
    and sched: "agent_carries se env neat (with_pair task t P) D sched w'" "ws_live w'"
    and seq: "ws_eventChannelsSeq w' \<in> {ws_eventChannelsSeq w, ws_eventChannelsSeq w + 1}"
    and r: "r = Inr (trigger_id t) \<and> co_ids sched = fmupd (trigger_id t) (child_index t) (co_ids (ts_triggersScheduler ts)) \<or>
      (\<exists>err. r = Inl err) \<and> \<not> never_refused env t \<and> co_ids sched = co_ids (ts_triggersScheduler ts)" by blast
  have room: "unat (ws_eventChannelsSeq w') + room < 2 ^ 32"
    using seq flow(2) unat_add_1_le [of "ws_eventChannelsSeq w"] by auto
  note apart = separate_with_pair [OF flow(4) assms(4)]
  show ?thesis
  proof (cases r)
    case (Inl err)
    let ?ts = "ts\<lparr>ts_triggersScheduler := sched\<rparr>"
    have "ts_carries env (with_pair task t P) D ?ts"
      by (rule ts_carries_failed [OF flow(5) _ assms(4) _ assms(5)]) (use assms(2) r Inl in auto)
    moreover have "books_agree (with_pair task t P) (co_ids sched) ?ts"
      by (rule books_agree_failed [where ts = ts]) (use flow(7) none assms(5) r Inl in auto)
    ultimately have "flow_state se env neat (with_pair task t P) D room (?ts, w')"
      using sched flow(3) room apart by (simp add: flow_state_def)
    then show ?thesis using run assms(2,3,5) Inl
      by (intro exI [of _ "Inl (ChainError ''failed to schedule trigger'' err)"] exI [of _ sched] exI [of _ w'])
        (simp add: updateTrigger_def agent_ops_def Let_def ts_scheduled_def)
  next
    case (Inr i)
    let ?ts = "recorded task st t sched ts"
    have "books_agree (with_pair task t P) (co_ids sched) ?ts"
      using books_agree_recorded [OF flow(7) assms(2,4)] r Inr by auto
    then have "flow_state se env neat (with_pair task t P) D room (?ts, w')"
      using sched flow(3) room apart ts_carries_recorded [OF flow(5) assms(2,4)] by (simp add: flow_state_def)
    then show ?thesis using run assms(2,3,5) r Inr
      by (intro exI [of _ "Inr (trigger_id t)"] exI [of _ sched] exI [of _ w'])
        (simp add: updateTrigger_def agent_ops_def Let_def ts_scheduled_def recorded_def)
  qed
qed

lemma flow_updateTrigger:
  assumes "flow_state se env neat P D (Suc room) (ts, w)" and "fmlookup (ts_tasks ts) (task_ID task) = Some st"
    and "st_DefinedTask st = task" and "fits task t P D" and "known_trigger neat t"
  shows "\<exists>r ts' w'. updateTrigger (agent_ops env) (task_ID task) t (ts, w) = Inr (r, ts', w') \<and>
    flow_state se env neat (with_pair task t P) D room (ts', w') \<and> trigger_updated task t ts r ts'"
proof (cases "fmlookup (ts_scheduled ts (task_ID task)) (trigger_id t) = None")
  case False
  then show ?thesis
    using flow_update_known(1) [OF assms(1-4)] flow_update_known(2) [OF assms(1-4)] assms(2,3)
    by (intro exI [of _ "Inr (trigger_id t)"] exI [of _ "registered_again task t ts"] exI [of _ w]) (simp add: trigger_updated_def)
next
  case True
  have rec: "trigger_updated task t ts (Inr (trigger_id t)) (recorded task st t sched ts)" for sched
    using recorded_scheduled [OF assms(2)] assms(3) by (simp add: trigger_updated_def) (simp add: recorded_def)
  have failed: "trigger_updated task t ts (Inl err) (ts\<lparr>ts_triggersScheduler := sched\<rparr>)" for sched err
    using True assms(2,3) by (simp add: trigger_updated_def ts_scheduled_def)
  from flow_update_new [OF assms(1-4) True assms(5)] obtain r sched w' where
    "let ts' = (case r of Inl err \<Rightarrow> ts\<lparr>ts_triggersScheduler := sched\<rparr> | Inr i \<Rightarrow> recorded task st t sched ts) in
      updateTrigger (agent_ops env) (task_ID task) t (ts, w) = Inr (r, ts', w') \<and> (\<forall>i. r = Inr i \<longrightarrow> i = trigger_id t) \<and>
      flow_state se env neat (with_pair task t P) D room (ts', w')" by blast
  then show ?thesis using rec failed by (cases r) (auto simp: Let_def)
qed

end
