(* ===== verification/Agent_Updates.thy ===== *)
theory Agent_Updates
  imports Agent_Schedules
begin

text \<open>
  What a new version of a task does to the state of \<open>Agent_Schedules\<close>: the two loops of \<open>Schedule\<close> put the triggers of the
  version in and take the ones that it does not have out, which is exactly the step \<open>plan_task\<close> of the plan.
\<close>

section \<open>The first loop\<close>

lemma fits_with_pair:
  "fits task u P D \<Longrightarrow> trigger_id u \<noteq> trigger_id t \<Longrightarrow> fits task u (with_pair task t P) D"
  unfolding fits_def with_pair_iff by auto

lemma without_with_pair:
  "trigger_id t \<notin> trigger_id ` set triggers \<Longrightarrow>
    {task} \<times> set triggers \<union> without_ids (trigger_id ` set triggers) (with_pair task t P) =
    {task} \<times> set (t # triggers) \<union> without_ids (trigger_id ` set (t # triggers)) P"
  by (auto simp: without_ids_def with_pair_def)

lemma flow_update_triggers:
  assumes "flow_state se env neat P D (length triggers + room) (ts, w)" and "fmlookup (ts_tasks ts) (task_ID task) = Some st"
    and "st_DefinedTask st = task" and "\<forall>t \<in> set triggers. known_trigger neat t \<and> fits task t P D"
    and "distinct (map trigger_id triggers)"
  shows "\<exists>new ts' w'. mfold (update_trigger_step (agent_ops env) (task_ID task)) triggers (m, ts, w) = Inr (new, ts', w') \<and>
    flow_state se env neat ({task} \<times> set triggers \<union> without_ids (trigger_id ` set triggers) P) D room (ts', w') \<and>
    fmlookup (ts_tasks ts') (task_ID task) \<noteq> None \<and>
    (\<forall>j. j \<notin> trigger_id ` set triggers \<longrightarrow>
      fmlookup (ts_scheduled ts' (task_ID task)) j = fmlookup (ts_scheduled ts (task_ID task)) j) \<and>
    (\<forall>i. fmlookup (ts_scheduled ts' (task_ID task)) i \<noteq> None \<longrightarrow>
      (fmlookup new i = None \<longleftrightarrow> i \<notin> trigger_id ` set triggers \<and> fmlookup m i = None))"
  using assms
proof (induction triggers arbitrary: P ts w st m)
  case Nil
  then show ?case by (simp add: without_ids_def)
next
  case (Cons t triggers)
  let ?k = "task_ID task"
  have "flow_state se env neat P D (Suc (length triggers + room)) (ts, w)" "fits task t P D" "known_trigger neat t"
    using Cons.prems(1,4) by simp_all
  from flow_updateTrigger [OF this(1) Cons.prems(2,3) this(2,3)] obtain r ts1 w1 where
    step: "updateTrigger (agent_ops env) ?k t (ts, w) = Inr (r, ts1, w1)"
    and flow: "flow_state se env neat (with_pair task t P) D (length triggers + room) (ts1, w1)"
    and upd: "trigger_updated task t ts r ts1" by blast
  obtain st1 where st1: "fmlookup (ts_tasks ts1) ?k = Some st1" "st_DefinedTask st1 = task"
    using upd unfolding trigger_updated_def by blast
  let ?m = "case r of Inl err \<Rightarrow> m | Inr i \<Rightarrow> fmupd i t m"
  have one: "update_trigger_step (agent_ops env) ?k t (m, ts, w) = Inr (?m, ts1, w1)"
    using step by (auto simp: update_trigger_step_iff)
  have apart: "trigger_id t \<notin> trigger_id ` set triggers" and dist: "distinct (map trigger_id triggers)"
    using Cons.prems(5) by auto
  have fit: "\<forall>u \<in> set triggers. known_trigger neat u \<and> fits task u (with_pair task t P) D"
  proof
    fix u assume u: "u \<in> set triggers"
    with apart have "trigger_id u \<noteq> trigger_id t" by (metis imageI)
    with u Cons.prems(4) show "known_trigger neat u \<and> fits task u (with_pair task t P) D" by (simp add: fits_with_pair)
  qed
  from Cons.IH [OF flow st1 fit dist, of ?m] obtain new ts' w' where
    rest: "mfold (update_trigger_step (agent_ops env) ?k) triggers (?m, ts1, w1) = Inr (new, ts', w')"
      "flow_state se env neat ({task} \<times> set triggers \<union> without_ids (trigger_id ` set triggers) (with_pair task t P)) D room (ts', w')"
      "fmlookup (ts_tasks ts') ?k \<noteq> None"
    and keep: "\<forall>j. j \<notin> trigger_id ` set triggers \<longrightarrow> fmlookup (ts_scheduled ts' ?k) j = fmlookup (ts_scheduled ts1 ?k) j"
    and new: "\<forall>i. fmlookup (ts_scheduled ts' ?k) i \<noteq> None \<longrightarrow>
      (fmlookup new i = None \<longleftrightarrow> i \<notin> trigger_id ` set triggers \<and> fmlookup ?m i = None)" by blast
  have m: "fmlookup ?m i = None \<longleftrightarrow> i \<noteq> trigger_id t \<and> fmlookup m i = None" if "fmlookup (ts_scheduled ts' ?k) i \<noteq> None" for i
    using that keep apart upd by (cases r) (auto simp: trigger_updated_def)
  have "\<forall>i. fmlookup (ts_scheduled ts' ?k) i \<noteq> None \<longrightarrow>
      (fmlookup new i = None \<longleftrightarrow> i \<notin> trigger_id ` set (t # triggers) \<and> fmlookup m i = None)"
    using new m by auto
  moreover have "\<forall>j. j \<notin> trigger_id ` set (t # triggers) \<longrightarrow>
      fmlookup (ts_scheduled ts' ?k) j = fmlookup (ts_scheduled ts ?k) j"
  proof (intro allI impI)
    fix j assume "j \<notin> trigger_id ` set (t # triggers)"
    then have "j \<noteq> trigger_id t" "j \<notin> trigger_id ` set triggers" by auto
    then show "fmlookup (ts_scheduled ts' ?k) j = fmlookup (ts_scheduled ts ?k) j"
      using keep upd unfolding trigger_updated_def by metis
  qed
  ultimately show ?case
    using one rest unfolding without_with_pair [OF apart] by (intro exI [of _ new] exI [of _ ts'] exI [of _ w']) simp
qed

section \<open>The second loop\<close>

lemma ts_carries_dropped:
  assumes "ts_carries env P D ts"
  shows "ts_carries env (without_ids {i} P) (insert i D)
    (ts\<lparr>ts_triggerTasks := fmdrop i (ts_triggerTasks ts), ts_triggersScheduler := sched\<rparr>)" (is "ts_carries _ _ _ ?ts")
proof -
  note P = ts_carriesD [OF assms]
  have [simp]: "ts_scheduled ?ts = ts_scheduled ts" by (simp add: ts_scheduled_def fun_eq_iff)
  show ?thesis
  proof (rule ts_carriesI)
    show "j \<in> insert i D \<or> (\<exists>a t. (a, t) \<in> without_ids {i} P \<and> task_ID a = k \<and> trigger_id t = j)"
      if "fmlookup (ts_scheduled ?ts k) j \<noteq> None" for k j
      using that P(2) [of k j] by (auto simp: without_ids_iff)
    show "\<exists>a t. (a, t) \<in> without_ids {i} P \<and> trigger_id t = j \<and> fmlookup (ts_scheduled ?ts (task_ID a)) j \<noteq> None"
      if "fmlookup (ts_triggerTasks ?ts) j \<noteq> None" for j
      using that P(5) [of j] by (auto simp: without_ids_iff split: if_splits)
  qed (use P(1,3,4) in \<open>auto simp: without_ids_iff\<close>)
qed

lemma books_agree_out:
  "books_agree P ids ts \<Longrightarrow> ts_tasks ts' = ts_tasks ts \<Longrightarrow> books_agree (without_ids X P) ids ts'"
  by (auto simp: books_agree_def without_ids_iff ts_scheduled_def)

text \<open>A trigger that the task has scheduled: it is unregistered, or was before.\<close>

lemma flow_removeTrigger:
  assumes "flow_state se env neat P D room (ts, w)" and "fmlookup (ts_scheduled ts k) i \<noteq> None"
  shows "\<exists>ts' w'. removeTrigger (agent_ops env) k i (ts, w) = Inr (ts', w') \<and>
    flow_state se env neat (without_ids {i} P) (insert i D) room (ts', w') \<and> ts_tasks ts' = ts_tasks ts"
proof -
  note flow = flow_stateD [OF assms(1)]
  note books = ts_carriesD [OF flow(5)] and sep = separate_pairsD [OF flow(4)]
  from books(2) [OF assms(2)] show ?thesis
  proof (elim disjE exE conjE)
    assume i: "i \<in> D"
    with books(5) [of i] sep(2) have "fmlookup (ts_triggerTasks ts) i = None" by blast
    moreover have "without_ids {i} P = P" "insert i D = D" using i sep(2) by (auto simp: without_ids_def)
    ultimately show ?thesis using assms(1) by (intro exI [of _ ts] exI [of _ w]) (simp add: removeTrigger_def)
  next
    fix a t assume pair: "(a, t) \<in> P" "task_ID a = k" "trigger_id t = i"
    have "fmlookup (co_ids (ts_triggersScheduler ts)) (trigger_id t) \<noteq> None"
      using flow(7) pair assms(2) unfolding books_agree_def by metis
    from agent_carries_unschedule [OF flow(6,1) pair(1) this flow(4)] obtain u sched w' where
      run: "Composite_Unschedule (Child_ops env) i (ts_triggersScheduler ts, w) = Inr (u, sched, w')"
      and carries: "agent_carries se env neat (without_ids {i} P) (insert i D) sched w'"
      and w': "ws_live w'" "ws_eventChannelsSeq w' = ws_eventChannelsSeq w" "co_ids sched = co_ids (ts_triggersScheduler ts)"
      unfolding pair(3) by blast
    let ?ts = "ts\<lparr>ts_triggerTasks := fmdrop i (ts_triggerTasks ts), ts_triggersScheduler := sched\<rparr>"
    have "fmlookup (ts_triggerTasks ts) i = Some (fmupd k a fmempty)" using books(4) [OF pair(1)] assms(2) pair(2,3) by simp
    then have "removeTrigger (agent_ops env) k i (ts, w) = Inr (?ts, w')"
      using run by (simp add: removeTrigger_def agent_ops_def Let_def mlen_def)
    moreover have "flow_state se env neat (without_ids {i} P) (insert i D) room (?ts, w')"
      using flow(2,3) w' carries ts_carries_dropped [OF flow(5), of i sched] separate_without [OF flow(4), of "{i}"]
        books_agree_out [OF flow(7), of ?ts "{i}"] by (simp add: flow_state_def)
    ultimately show ?thesis by (intro exI [of _ ?ts] exI [of _ w']) simp
  qed
qed

lemma without_ids_Un: "without_ids X (without_ids Y P) = without_ids (X \<union> Y) P"
  by (auto simp: without_ids_def)

lemma flow_remove_triggers:
  assumes "flow_state se env neat P D room (ts, w)" and "\<forall>i \<in> set is. fmlookup (ts_scheduled ts k) i \<noteq> None"
  shows "\<exists>ts' w'. mfold (\<lambda>i ew. if fmlookup new i = None then removeTrigger (agent_ops env) k i ew else Inr ew) is (ts, w) =
      Inr (ts', w') \<and>
    flow_state se env neat (without_ids {i \<in> set is. fmlookup new i = None} P) (D \<union> {i \<in> set is. fmlookup new i = None}) room (ts', w') \<and>
    ts_tasks ts' = ts_tasks ts"
  using assms
proof (induction "is" arbitrary: P D ts w)
  case Nil
  then show ?case by (simp add: without_ids_def)
next
  case (Cons i "is")
  show ?case
  proof (cases "fmlookup new i")
    case None
    from flow_removeTrigger [OF Cons.prems(1), of k i] Cons.prems(2) obtain ts1 w1 where
      run: "removeTrigger (agent_ops env) k i (ts, w) = Inr (ts1, w1)"
      and flow: "flow_state se env neat (without_ids {i} P) (insert i D) room (ts1, w1)" and tasks: "ts_tasks ts1 = ts_tasks ts" by auto
    have "ts_scheduled ts1 = ts_scheduled ts" using tasks by (simp add: ts_scheduled_def fun_eq_iff)
    with Cons.IH [OF flow] Cons.prems(2) obtain ts' w' where rest:
      "mfold (\<lambda>i ew. if fmlookup new i = None then removeTrigger (agent_ops env) k i ew else Inr ew) is (ts1, w1) = Inr (ts', w')"
      "flow_state se env neat (without_ids {i \<in> set is. fmlookup new i = None} (without_ids {i} P))
        (insert i D \<union> {i \<in> set is. fmlookup new i = None}) room (ts', w')" "ts_tasks ts' = ts_tasks ts1" by auto
    have "{j \<in> set (i # is). fmlookup new j = None} = {i \<in> set is. fmlookup new i = None} \<union> {i}" using None by auto
    with rest run None tasks show ?thesis
      by (intro exI [of _ ts'] exI [of _ w']) (simp add: without_ids_Un insert_commute)
  next
    case (Some u)
    then have "{j \<in> set (i # is). fmlookup new j = None} = {i \<in> set is. fmlookup new i = None}" by auto
    with Cons.IH [OF Cons.prems(1)] Cons.prems(2) Some show ?thesis by simp
  qed
qed

text \<open>Pairs whose trigger could not be scheduled can be forgotten.\<close>

lemma flow_forget:
  assumes "flow_state se env neat P D room (ts, w)"
    and "\<And>a t. (a, t) \<in> P \<Longrightarrow> trigger_id t \<in> Y \<Longrightarrow> fmlookup (ts_scheduled ts (task_ID a)) (trigger_id t) = None"
  shows "flow_state se env neat (without_ids Y P) (D \<union> Y) room (ts, w)"
proof -
  note flow = flow_stateD [OF assms(1)]
  note books = ts_carriesD [OF flow(5)]
  have "ts_carries env (without_ids Y P) (D \<union> Y) ts"
  proof (rule ts_carriesI)
    show "i \<in> D \<union> Y \<or> (\<exists>a t. (a, t) \<in> without_ids Y P \<and> task_ID a = k \<and> trigger_id t = i)"
      if "fmlookup (ts_scheduled ts k) i \<noteq> None" for k i using books(2) [OF that] by (auto simp: without_ids_iff)
    show "\<exists>a t. (a, t) \<in> without_ids Y P \<and> trigger_id t = i \<and> fmlookup (ts_scheduled ts (task_ID a)) i \<noteq> None"
      if i: "fmlookup (ts_triggerTasks ts) i \<noteq> None" for i
    proof -
      obtain a t where at: "(a, t) \<in> P" "trigger_id t = i" "fmlookup (ts_scheduled ts (task_ID a)) i \<noteq> None"
        using books(5) [OF i] by blast
      with assms(2) [OF at(1)] have "trigger_id t \<notin> Y" by auto
      with at show ?thesis unfolding without_ids_iff by blast
    qed
  qed (use books(1,3,4) in \<open>auto simp: without_ids_iff\<close>)
  moreover have "agent_carries se env neat (without_ids Y P) (D \<union> Y) (ts_triggersScheduler ts) w"
    by (rule agent_carries_forget [OF flow(6)]) (use assms(2) flow(7) in \<open>auto simp: books_agree_def\<close>)
  moreover have "books_agree (without_ids Y P) (co_ids (ts_triggersScheduler ts)) ts" by (rule books_agree_out [OF flow(7) refl])
  ultimately show ?thesis using flow(1-3) separate_without [OF flow(4), of Y] by (simp add: flow_state_def)
qed

section \<open>A version of a task\<close>

lemma flow_same_scheduled:
  assumes "flow_state se env neat P D room (ts, w)" and "\<And>k. ts_scheduled (ts\<lparr>ts_tasks := tasks\<rparr>) k = ts_scheduled ts k"
    and "fmdom' (ts_tasks ts) \<subseteq> fmdom' tasks"
  shows "flow_state se env neat P D room (ts\<lparr>ts_tasks := tasks\<rparr>, w)"
proof -
  have "ts_scheduled (ts\<lparr>ts_tasks := tasks\<rparr>) = ts_scheduled ts" using assms(2) by (rule ext)
  moreover have "fmlookup tasks k \<noteq> None" if "fmlookup (ts_tasks ts) k \<noteq> None" for k
    using that assms(3) by (metis fmdom'_notD fmdom'_notI subsetD)
  ultimately show ?thesis using assms(1) by (simp add: flow_state_def ts_carries_def books_agree_def)
qed

text \<open>The pairs after both loops, with the old ones that were never scheduled forgotten.\<close>

lemma version_pairs:
  assumes "separate_pairs P D" and "\<forall>t \<in> set triggers. fits task t P D"
    and "Y = trigger_id ` snd ` {p \<in> P. task_ID (fst p) = task_ID task} - trigger_id ` set triggers" and "X \<subseteq> D \<union> Y"
  shows "without_ids Y (without_ids X ({task} \<times> set triggers \<union> without_ids (trigger_id ` set triggers) P)) =
      {task} \<times> set triggers \<union> {p \<in> P. task_ID (fst p) \<noteq> task_ID task}"
    and "D \<union> X \<union> Y = D \<union> Y"
proof -
  let ?T = "trigger_id ` set triggers"
  have new: "i \<notin> D" "i \<notin> Y" if "i \<in> ?T" for i using that assms(2,3) by (auto simp: fits_def)
  have gone: "trigger_id (snd p) \<notin> D" if "p \<in> P" for p using that separate_pairsD(2) [OF assms(1), of "fst p" "snd p"] by simp
  have old: "task_ID (fst p) = task_ID task" if "p \<in> P" "trigger_id (snd p) \<in> ?T" for p
    using that assms(2) unfolding fits_def by (metis imageE prod.collapse)
  have mine: "trigger_id (snd p) \<in> Y \<longleftrightarrow> task_ID (fst p) = task_ID task \<and> trigger_id (snd p) \<notin> ?T" if p: "p \<in> P" for p
  proof
    assume "trigger_id (snd p) \<in> Y"
    then obtain q where q: "q \<in> P" "task_ID (fst q) = task_ID task" "trigger_id (snd p) = trigger_id (snd q)"
      and "trigger_id (snd p) \<notin> ?T" unfolding assms(3) by blast
    moreover have "p = q" using separate_pairsD(1) [OF assms(1), of "fst p" "snd p" "fst q" "snd q"] p q by (simp add: prod_eq_iff)
    ultimately show "task_ID (fst p) = task_ID task \<and> trigger_id (snd p) \<notin> ?T" by simp
  qed (use p in \<open>auto simp: assms(3)\<close>)
  show "without_ids Y (without_ids X ({task} \<times> set triggers \<union> without_ids ?T P)) =
      {task} \<times> set triggers \<union> {p \<in> P. task_ID (fst p) \<noteq> task_ID task}" (is "?L = ?R")
  proof (rule set_eqI)
    fix p
    have "p \<in> ?L \<longleftrightarrow> trigger_id (snd p) \<notin> Y \<and> trigger_id (snd p) \<notin> X \<and>
        (p \<in> {task} \<times> set triggers \<or> p \<in> P \<and> trigger_id (snd p) \<notin> ?T)" by (auto simp: without_ids_def)
    also have "\<dots> \<longleftrightarrow> p \<in> {task} \<times> set triggers \<or> p \<in> P \<and> trigger_id (snd p) \<notin> ?T \<and> trigger_id (snd p) \<notin> Y"
      using new gone [of p] assms(4) by (auto simp: mem_Times_iff)
    also have "\<dots> \<longleftrightarrow> p \<in> ?R" using mine [of p] old [of p] by auto
    finally show "p \<in> ?L \<longleftrightarrow> p \<in> ?R" .
  qed
  show "D \<union> X \<union> Y = D \<union> Y" using assms(4) by blast
qed

lemma flow_Schedule:
  assumes "flow_state se env neat P D (length (task_Triggers task) + room) (ts, w)"
    and "\<forall>t \<in> set (task_Triggers task). known_trigger neat t \<and> fits task t P D"
    and "distinct (map trigger_id (task_Triggers task))" and "\<forall>m. range_order m (pick m)"
  shows "\<exists>ts' w'. TS_Schedule (agent_ops env) pick task (ts, w) = Inr (None, ts', w') \<and>
    flow_state se env neat ({task} \<times> set (task_Triggers task) \<union> {p \<in> P. task_ID (fst p) \<noteq> task_ID task})
      (D \<union> (trigger_id ` snd ` {p \<in> P. task_ID (fst p) = task_ID task} - trigger_id ` set (task_Triggers task))) room (ts', w')"
proof -
  let ?k = "task_ID task" and ?T = "trigger_id ` set (task_Triggers task)"
  let ?st = "case fmlookup (ts_tasks ts) ?k of None \<Rightarrow> \<lparr>st_DefinedTask = task, st_ScheduledTriggers = fmempty\<rparr>
    | Some t \<Rightarrow> t\<lparr>st_DefinedTask := task\<rparr>"
  let ?ts = "ts\<lparr>ts_tasks := fmupd ?k ?st (ts_tasks ts)\<rparr>"
  note sep = flow_stateD(4) [OF assms(1)]
  have fits: "\<forall>t \<in> set (task_Triggers task). fits task t P D" using assms(2) by blast
  have "ts_scheduled ?ts k = ts_scheduled ts k" for k
    by (cases "fmlookup (ts_tasks ts) ?k") (auto simp: ts_scheduled_def)
  then have flow: "flow_state se env neat P D (length (task_Triggers task) + room) (?ts, w)"
    by (rule flow_same_scheduled [OF assms(1)]) auto
  have st: "fmlookup (ts_tasks ?ts) ?k = Some ?st" "st_DefinedTask ?st = task"
    by (simp_all split: option.split)
  from flow_update_triggers [where m = fmempty, OF flow st assms(2,3)] obtain new ts1 w1 where
    loop: "update_triggers (agent_ops env) ?k (task_Triggers task) (?ts, w) = Inr (new, ts1, w1)"
    and flow1: "flow_state se env neat ({task} \<times> set (task_Triggers task) \<union> without_ids ?T P) D room (ts1, w1)"
    and st1: "fmlookup (ts_tasks ts1) ?k \<noteq> None"
    and new: "\<forall>i. fmlookup (ts_scheduled ts1 ?k) i \<noteq> None \<longrightarrow> (fmlookup new i = None \<longleftrightarrow> i \<notin> ?T)"
    unfolding update_triggers_def by auto
  show ?thesis
  proof (cases "fmlookup (ts_tasks ts) ?k")
    case None
    then have none: "task_ID a \<noteq> ?k" if "(a, t) \<in> P" for a t
      using ts_carriesD(1) [OF flow_stateD(5) [OF assms(1)] that] by auto
    then have gone: "D \<union> (trigger_id ` snd ` {p \<in> P. task_ID (fst p) = ?k} - ?T) = D" by auto
    have "without_ids ?T P = {p \<in> P. task_ID (fst p) \<noteq> ?k}"
      using none fits by (fastforce simp: without_ids_def fits_def)
    with flow1 loop None show ?thesis unfolding gone by (simp add: TS_Schedule_def Let_def)
  next
    case (Some t)
    let ?old = "ts_scheduled ts1 ?k"
    have old: "case_option fmempty st_ScheduledTriggers (fmlookup (ts_tasks ts1) ?k) = ?old" by (simp add: ts_scheduled_def)
    have order: "range_order ?old (pick ?old)" using assms(4) by blast
    then have scheduled: "\<forall>i \<in> set (pick ?old). fmlookup ?old i \<noteq> None" by (simp add: range_order_lookup)
    let ?X = "{i \<in> set (pick ?old). fmlookup new i = None}"
    let ?Y = "trigger_id ` snd ` {p \<in> P. task_ID (fst p) = ?k} - ?T"
    from flow_remove_triggers [OF flow1 scheduled, of new] obtain ts2 w2 where
      loop2: "mfold (\<lambda>i ew. if fmlookup new i = None then removeTrigger (agent_ops env) ?k i ew else Inr ew) (pick ?old) (ts1, w1) =
        Inr (ts2, w2)"
      and flow2: "flow_state se env neat (without_ids ?X ({task} \<times> set (task_Triggers task) \<union> without_ids ?T P)) (D \<union> ?X) room (ts2, w2)"
      and ts2: "ts_tasks ts2 = ts_tasks ts1" by blast
    have X: "?X \<subseteq> D \<union> ?Y"
    proof
      fix i assume i: "i \<in> ?X"
      then have sched: "fmlookup ?old i \<noteq> None" and "i \<notin> ?T" using scheduled new by auto
      with ts_carriesD(2) [OF flow_stateD(5) [OF flow1] sched] show "i \<in> D \<union> ?Y"
        unfolding without_ids_def by force
    qed
    have unscheduled: "fmlookup (ts_scheduled ts2 (task_ID a)) (trigger_id u) = None"
      if "(a, u) \<in> without_ids ?X ({task} \<times> set (task_Triggers task) \<union> without_ids ?T P)" and "trigger_id u \<in> ?Y" for a u
    proof -
      from that have u: "(a, u) \<in> P" "trigger_id u \<notin> ?X" "trigger_id u \<notin> ?T" by (auto simp: without_ids_def)
      from that(2) obtain b v where "(b, v) \<in> P" "task_ID b = ?k" "trigger_id v = trigger_id u" by force
      with separate_pairsD(1) [OF sep u(1)] have a: "task_ID a = ?k" by metis
      have "fmlookup ?old (trigger_id u) = None"
        using u(2,3) new range_order_lookup [OF order, of "trigger_id u"] by blast
      with a ts2 show ?thesis by (simp add: ts_scheduled_def)
    qed
    note forgotten = flow_forget [where Y = ?Y, OF flow2 unscheduled]
    have "flow_state se env neat ({task} \<times> set (task_Triggers task) \<union> {p \<in> P. task_ID (fst p) \<noteq> ?k}) (D \<union> ?Y) room (ts2, w2)"
      using forgotten unfolding version_pairs [OF sep fits refl X] .
    moreover have "TS_Schedule (agent_ops env) pick task (ts, w) = Inr (None, ts2, w2)"
      using loop loop2 Some by (simp add: TS_Schedule_def Let_def old)
    ultimately show ?thesis by blast
  qed
qed

text \<open>The same over the plan.\<close>

lemma admits_fits:
  assumes "admits neat pl task" and "t \<in> set (task_Triggers task)"
  shows "known_trigger neat t \<and> fits task t (planned pl) (fset (pl_gone pl))"
  using assms unfolding admits_def fits_def by auto

lemma flow_plan_task:
  assumes "flow_state se env neat (planned pl) (fset (pl_gone pl)) (length (task_Triggers task) + room) (ts, w)"
    and "plan_ok pl" and "admits neat pl task" and "\<forall>m. range_order m (pick m)"
  shows "\<exists>ts' w'. TS_Schedule (agent_ops env) pick task (ts, w) = Inr (None, ts', w') \<and>
    flow_state se env neat (planned (plan_task task pl)) (fset (pl_gone (plan_task task pl))) room (ts', w')"
  unfolding planned_task gone_task [OF assms(2)]
proof (rule flow_Schedule [OF assms(1) _ _ assms(4)])
  show "distinct (map trigger_id (task_Triggers task))" using assms(3) by (simp add: admits_def)
qed (simp add: admits_fits [OF assms(3)])

end
