(* ===== verification/Agent_Messages.thy ===== *)
theory Agent_Messages
  imports Agent_Updates
begin

text \<open>
  The agent and the messages of the server: a message is handled by the WebSocket client, whose callbacks are the methods of the
  application scheduler that \<open>Start\<close> passed to it (\<open>agent_message\<close>), and one message after another moves the agent along
  its plan (\<open>agent_messages\<close>).
\<close>

section \<open>Definitions\<close>

text \<open>
  What a callback of the WebSocket client does in the agent: the method values are told apart by their numbers. A
  delivery goes to the goroutine \<open>drain\<close>.
\<close>

definition agent_effect ::
  "start_env \<Rightarrow> ('c, ws_client) triggers_ops \<Rightarrow> pick_triggers \<Rightarrow> pick_tasks \<Rightarrow> ws_effect
   \<Rightarrow> 'c app_scheduler \<times> ws_client \<Rightarrow> ('c app_scheduler \<times> ws_client) outcome" where
  "agent_effect se ops pick pickT eff aw =
     (case eff of
        CallOnTasks f tasks \<Rightarrow> if f = se_onTasks se then onTasks ops pick pickT tasks aw else Inr aw
      | CallOnTask f task \<Rightarrow> if f = se_onTask se then onTask ops pick task aw else Inr aw
      | CallOnTaskRemoved f i \<Rightarrow>
          if f = se_onTaskRemoved se then Inr (onTaskRemoved i (fst aw), snd aw) else Inr aw
      | CallOnConnected f \<Rightarrow> Inr aw
      | Deliver ch x \<Rightarrow> Inr aw)"

definition agent_message ::
  "start_env \<Rightarrow> ('c, ws_client) triggers_ops \<Rightarrow> pick_triggers \<Rightarrow> pick_tasks \<Rightarrow> ws_env \<Rightarrow> i_raw_message
   \<Rightarrow> 'c app_scheduler \<times> ws_client \<Rightarrow> (ws_effect list \<times> 'c app_scheduler \<times> ws_client) outcome" where
  "agent_message se ops pick pickT env m aw =
     andThen (handleMessage env m (snd aw)) (\<lambda>(effs, err, w1).
       andThen (mfold (agent_effect se ops pick pickT) effs (fst aw, w1)) (\<lambda>aw1. Inr (effs, aw1)))"

text \<open>
  The messages of one connection, in order, each with the decoders and the surroundings of its handler. \<open>pickE\<close> and \<open>pickC\<close> are the
  orders in which \<open>range\<close> visits the events and the channels of an event, at the moment of the message.
\<close>

type_synonym pick_events = "(string, (u32, chan_id) fmap) fmap \<Rightarrow> string list"
type_synonym pick_channels = "(u32, chan_id) fmap \<Rightarrow> u32 list"

definition at_client :: "pick_events \<Rightarrow> pick_channels \<Rightarrow> ws_client \<Rightarrow> ws_env \<Rightarrow> ws_env" where
  "at_client pickE pickC w env =
     env\<lparr>env_event_order := pickE (ws_eventChannels w),
         env_channel_order := \<lambda>key. pickC (nested (ws_eventChannels w) key)\<rparr>"

fun agent_messages ::
  "start_env \<Rightarrow> ('c, ws_client) triggers_ops \<Rightarrow> pick_triggers \<Rightarrow> pick_tasks \<Rightarrow> pick_events \<Rightarrow> pick_channels
   \<Rightarrow> (ws_env \<times> i_raw_message) list \<Rightarrow> 'c app_scheduler \<times> ws_client
   \<Rightarrow> (ws_effect list \<times> 'c app_scheduler \<times> ws_client) outcome" where
  "agent_messages se ops pick pickT pickE pickC [] aw = Inr ([], aw)"
| "agent_messages se ops pick pickT pickE pickC ((env, m) # ms) aw =
     andThen (agent_message se ops pick pickT (at_client pickE pickC (snd aw) env) m aw) (\<lambda>(effs, aw1).
       andThen (agent_messages se ops pick pickT pickE pickC ms aw1) (\<lambda>(effs2, aw2). Inr (effs @ effs2, aw2)))"

section \<open>Messages that schedule nothing\<close>

text \<open>The state does not depend on more of the client than its channels and what the server knows.\<close>

lemma flow_world:
  assumes "flow_state se aenv neat P D room (ts, w)" and "ws_live w'" and "ws_eventChannels w' = ws_eventChannels w"
    and "ws_eventChannelsSeq w' = ws_eventChannelsSeq w" and "ws_opts w' = ws_opts w"
    and "server_subscriptions w' = server_subscriptions w" and "ws_state w' \<in> {StatePreparing, StateConnected}"
  shows "flow_state se aenv neat P D room (ts, w')"
proof -
  have reg: "ws_registered w' = ws_registered w" using assms(3) by (simp add: ws_registered_def fun_eq_iff)
  have "queue_ok q w' \<longleftrightarrow> queue_ok q w" for q
    by (simp add: queue_ok_def ws_channels_ok_def ws_reg.linked_def ws_reg.synced_def reg assms(3,4,6))
  then have ok: "event_ok v w' \<longleftrightarrow> event_ok v w" for v by (simp add: event_ok_def)
  have client: "agent_client se v w'" if "agent_client se v w" for v
    using that assms(7) by (simp add: agent_client_def reg assms(5))
  have "agent_carries se aenv neat P D (ts_triggersScheduler ts) w'"
    by (rule agent_carriesD [OF flow_stateD(6) [OF assms(1)]], rule agent_carriesI)
      (auto simp: event_carries_def ok client)
  with assms(1,2,4) show ?thesis by (simp add: flow_state_def)
qed

lemma flow_connected: "flow_state se aenv neat P D room (ts, w) \<Longrightarrow> ws_state w \<in> {StatePreparing, StateConnected}"
  using agent_carriesD [OF flow_stateD(6)] unfolding event_carries_def agent_client_def by metis

lemma flow_registered:
  assumes "flow_state se aenv neat P D room (ts, w)"
  shows "server_subscriptions w = fmdom' (ws_eventChannels w)"
proof -
  obtain v where "event_ok v w" using agent_carriesD [OF flow_stateD(6) [OF assms]] unfolding event_carries_def by metis
  then have ok: "ws_channels_ok w" and "ws_reg.synced w" by (auto simp: event_ok_def queue_ok_def)
  then have "server_subscriptions w = {key. \<exists>i ch. ws_registered w key i = Some ch}" by (simp add: ws_reg.synced_def)
  also have "\<dots> = fmdom' (ws_eventChannels w)"
  proof (rule set_eqI)
    fix key
    have "fmlookup (ws_eventChannels w) key \<noteq> Some fmempty" using ok by (simp add: ws_channels_ok_def)
    then show "key \<in> {key. \<exists>i ch. ws_registered w key i = Some ch} \<longleftrightarrow> key \<in> fmdom' (ws_eventChannels w)"
      by (cases "fmlookup (ws_eventChannels w) key") (auto simp: ws_registered_def fmap_nonempty_iff fmlookup_dom'_iff)
  qed
  finally show ?thesis .
qed

text \<open>The callbacks that only the goroutines of the agent see.\<close>

definition quiet :: "ws_effect \<Rightarrow> bool" where
  "quiet eff \<longleftrightarrow> (case eff of CallOnConnected f \<Rightarrow> True | Deliver ch x \<Rightarrow> True | _ \<Rightarrow> False)"

lemma quiet_effects:
  assumes "handleMessage env m w = Inr (effs, err, w')" and "\<forall>eff \<in> set effs. quiet eff"
  shows "agent_message se ops pick pickT env m (a, w) = Inr (effs, a, w')"
proof -
  have "mfold (agent_effect se ops pick pickT) effs (a, w') = Inr (a, w')"
    using assms(2) by (intro mfold_id) (auto simp: agent_effect_def quiet_def split: ws_effect.splits)
  with assms(1) show ?thesis by (simp add: agent_message_def)
qed

lemma onNewEvent_quiet: "eff \<in> set (onNewEvent order accepts d w) \<Longrightarrow> quiet eff"
  by (auto simp: onNewEvent_def quiet_def split: option.splits if_splits)

lemma flow_send:
  assumes "flow_state se aenv neat P D room (ts, w)" and "server_step m (server_subscriptions w) = server_subscriptions w"
  shows "\<exists>w'. ws_send m w = Inr w' \<and> flow_state se aenv neat P D room (ts, w')"
proof -
  obtain w' where run: "ws_send m w = Inr w'" using flow_stateD(1) [OF assms(1)] ws_send_returns unfolding ws_live_def by blast
  moreover have "ws_opts w' = ws_opts w" "ws_state w' = ws_state w" using run by (auto simp: ws_send_def andThen_Inr_iff)
  ultimately have "flow_state se aenv neat P D room (ts, w')"
    using assms(2) ws_send_live [OF run] ws_send_server [OF run] flow_connected [OF assms(1)] by (intro flow_world [OF assms(1)]) (simp_all add: ws_live_def)
  with run show ?thesis by blast
qed

lemma flow_greetings:
  assumes "flow_state se aenv neat P D room (ts, w)" and "range_order (ws_eventChannels w) order"
  shows "\<exists>effs w'. onGreetings order w = Inr (effs, w') \<and> (\<forall>eff \<in> set effs. quiet eff) \<and> flow_state se aenv neat P D room (ts, w')"
proof -
  have "server_step (msg_set_subscriptions order) (server_subscriptions w) = server_subscriptions w"
    using range_order_set [OF assms(2)] flow_registered [OF assms(1)] by simp
  from flow_send [OF assms(1) this] obtain w' where
    "ws_send (msg_set_subscriptions order) w = Inr w'" and "flow_state se aenv neat P D room (ts, w')" by blast
  then show ?thesis by (auto simp: onGreetings_def call_back_def quiet_def split: option.split)
qed

lemma flow_introduction:
  assumes "flow_state se aenv neat P D room (ts, w)"
  shows "\<exists>w'. onIntroduction os pid d w = Inr w' \<and> flow_state se aenv neat P D room (ts, w')"
proof (cases "ws_state w = StatePreparing")
  case True
  let ?w = "setState StateConnected w"
  have flow: "flow_state se aenv neat P D room (ts, ?w)"
    by (rule flow_world [OF assms])
      (use flow_stateD(1) [OF assms] in \<open>simp_all add: setState_def ws_live_def server_subscriptions_def\<close>)
  have "server_step \<lparr>o_MessageType = ''hello'', o_Data = DHello h\<rparr> subs = subs" for h subs by (simp add: server_step_def)
  with True show ?thesis unfolding onIntroduction_def Let_def by (simp add: flow_send [OF flow])
qed (use assms in \<open>simp add: onIntroduction_def\<close>)

lemma flow_other_message:
  assumes "flow_state se aenv neat P D room (ts, w)" and "range_order (ws_eventChannels w) (env_event_order env)"
    and "i_MessageType m \<notin> {''tasks'', ''task_updated'', ''task_removed''}"
  shows "\<exists>effs w'. agent_message se ops pick pickT env m (a, w) = Inr (effs, a, w') \<and> flow_state se aenv neat P D room (ts, w')"
proof -
  have "\<exists>effs err w'. handleMessage env m w = Inr (effs, err, w') \<and> (\<forall>eff \<in> set effs. quiet eff) \<and> flow_state se aenv neat P D room (ts, w')"
  proof (cases "i_MessageType m = ''introduction''")
    case True
    show ?thesis
    proof (cases "env_introduction env (i_Data m)")
      case (Inr d)
      from flow_introduction [OF assms(1)] obtain w' where
        "onIntroduction (env_osInfo env) (env_pid env) d w = Inr w'" "flow_state se aenv neat P D room (ts, w')" by blast
      with True Inr show ?thesis by (simp add: handleMessage_def decoded_def)
    qed (use True assms(1) in \<open>simp add: handleMessage_def decoded_def\<close>)
  next
    case False
    show ?thesis
    proof (cases "i_MessageType m = ''greetings''")
      case True
      with flow_greetings [OF assms(1,2)] show ?thesis by (auto simp: handleMessage_def)
    next
      case greet: False
      with assms(1,3) False show ?thesis
        by (auto simp: handleMessage_def decoded_def dest: onNewEvent_quiet split: sum.split)
    qed
  qed
  then show ?thesis using quiet_effects by blast
qed

section \<open>Messages with tasks\<close>

text \<open>
  The agent carries out a plan: its task scheduler and its client are in the state of the plan's pairs.
\<close>

definition follows ::
  "start_env \<Rightarrow> ('g, 'j, 'n) agent_env \<Rightarrow> bool \<Rightarrow> plan \<Rightarrow> nat \<Rightarrow> ('g, 'j, 'n) child composite_scheduler app_scheduler \<times> ws_client \<Rightarrow> bool" where
  "follows se aenv neat pl room aw \<longleftrightarrow> plan_ok pl \<and>
     (\<exists>ts. app_taskScheduler (fst aw) = Some ts \<and> flow_state se aenv neat (planned pl) (fset (pl_gone pl)) room (ts, snd aw))"

lemma flow_less_room: "flow_state se aenv neat P D n tw \<Longrightarrow> m \<le> n \<Longrightarrow> flow_state se aenv neat P D m tw"
  by (auto simp: flow_state_def split: prod.splits)

lemma follows_less_room: "follows se aenv neat pl n aw \<Longrightarrow> m \<le> n \<Longrightarrow> follows se aenv neat pl m aw"
  using flow_less_room by (fastforce simp: follows_def)

lemma follows_same:
  "follows se aenv neat pl room (a, w) \<Longrightarrow> app_taskScheduler a' = app_taskScheduler a \<Longrightarrow> follows se aenv neat pl room (a', w)"
  by (simp add: follows_def)

lemma follows_onTask:
  assumes "follows se aenv neat pl (length (task_Triggers task) + room) (a, w)" and "admits neat pl task" and "\<forall>m. range_order m (pick m)"
  shows "\<exists>a' w'. onTask (agent_ops aenv) pick task (a, w) = Inr (a', w') \<and> follows se aenv neat (plan_task task pl) room (a', w') \<and>
    app_Tasks a' = fmupd (task_ID task) task (app_Tasks a)"
proof -
  obtain ts where ts: "app_taskScheduler a = Some ts" and ok: "plan_ok pl"
    and flow: "flow_state se aenv neat (planned pl) (fset (pl_gone pl)) (length (task_Triggers task) + room) (ts, w)"
    using assms(1) by (auto simp: follows_def)
  from flow_plan_task [OF flow ok assms(2,3)] obtain ts' w' where
    "TS_Schedule (agent_ops aenv) pick task (ts, w) = Inr (None, ts', w')"
    and "flow_state se aenv neat (planned (plan_task task pl)) (fset (pl_gone (plan_task task pl))) room (ts', w')" by blast
  with ts plan_ok_task [OF ok] show ?thesis by (simp add: onTask_def follows_def config_Write_def)
qed

definition list_triggers :: "defined_task list \<Rightarrow> nat" where
  "list_triggers tasks = sum_list (map (\<lambda>task. length (task_Triggers task)) tasks)"

lemma follows_onTask_loop:
  assumes "follows se aenv neat pl (list_triggers tasks + room) (a, w)" and "distinct (map task_ID tasks)"
    and "\<forall>task \<in> set tasks. admits neat pl task"
    and "\<forall>a \<in> set tasks. \<forall>b \<in> set tasks. a \<noteq> b \<longrightarrow> trigger_ids a |\<inter>| trigger_ids b = {||}" and "\<forall>m. range_order m (pick m)"
  shows "\<exists>a' w'. mfold (onTask (agent_ops aenv) pick) tasks (a, w) = Inr (a', w') \<and>
    follows se aenv neat (fold plan_task tasks pl) room (a', w')"
  using assms(1-4)
proof (induction tasks arbitrary: pl a w)
  case Nil
  then show ?case by (simp add: list_triggers_def)
next
  case (Cons task tasks)
  have now: "follows se aenv neat pl (length (task_Triggers task) + (list_triggers tasks + room)) (a, w)" "admits neat pl task"
    using Cons.prems(1,3) by (simp_all add: list_triggers_def add.assoc)
  from follows_onTask [OF this assms(5)] obtain a1 w1 where
    one: "onTask (agent_ops aenv) pick task (a, w) = Inr (a1, w1)"
    and next1: "follows se aenv neat (plan_task task pl) (list_triggers tasks + room) (a1, w1)" by blast
  have ok: "plan_ok pl" using now(1) by (simp add: follows_def)
  have "\<forall>b \<in> set tasks. admits neat (plan_task task pl) b"
  proof
    fix b assume b: "b \<in> set tasks"
    with Cons.prems(2) have "task_ID task \<noteq> task_ID b" by auto
    moreover from this b Cons.prems(4) have "trigger_ids task |\<inter>| trigger_ids b = {||}" by auto
    ultimately show "admits neat (plan_task task pl) b" using Cons.prems(3) b by (intro admits_after [OF ok]) simp_all
  qed
  with Cons.IH [OF next1] Cons.prems(2,4) one show ?case by simp
qed

text \<open>The loop over the keys of a map is one over its values.\<close>

lemma mfold_lookup:
  "mfold (\<lambda>k s. case fmlookup m k of None \<Rightarrow> Inr s | Some t \<Rightarrow> if \<not> P t then Inr s else f t s) ks s =
    mfold f (filter P (List.map_filter (fmlookup m) ks)) s"
proof (induction ks arbitrary: s)
  case (Cons k ks)
  then show ?case by (cases "fmlookup m k") (simp_all add: List.map_filter_simps andThen_def split: sum.split)
qed (simp add: List.map_filter_simps)

lemma set_map_filter: "set (List.map_filter f xs) = {y. \<exists>x \<in> set xs. f x = Some y}"
  by (induction xs) (auto split: option.splits)

lemma getTasksMap_lookup:
  assumes "distinct (map task_ID tasks)"
  shows "fmlookup (getTasksMap tasks) k = Some t \<longleftrightarrow> t \<in> set tasks \<and> task_ID t = k"
proof -
  have "fmlookup (fold (\<lambda>task m. fmupd (task_ID task) task m) tasks m) k = Some t \<longleftrightarrow>
      (t \<in> set tasks \<and> task_ID t = k) \<or> (fmlookup m k = Some t \<and> k \<notin> task_ID ` set tasks)" for m
    using assms
  proof (induction tasks arbitrary: m)
    case (Cons a tasks)
    then show ?case by (auto simp: image_iff)
  qed simp
  then show ?thesis by (simp add: getTasksMap_def)
qed

lemma map_filter_IDs:
  assumes "\<And>k. k \<in> set ks \<Longrightarrow> \<exists>t. fmlookup m k = Some t \<and> task_ID t = k"
  shows "map task_ID (List.map_filter (fmlookup m) ks) = ks"
  using assms
proof (induction ks)
  case (Cons k ks)
  then obtain t where "fmlookup m k = Some t" "task_ID t = k" by auto
  with Cons show ?case by (simp add: List.map_filter_simps)
qed (simp add: List.map_filter_simps)

text \<open>\<open>range\<close> visits the tasks of the list, in some order.\<close>

lemma visited_mset:
  assumes "distinct (map task_ID tasks)" and "range_order (getTasksMap tasks) ks"
  shows "mset (List.map_filter (fmlookup (getTasksMap tasks)) ks) = mset tasks"
proof -
  let ?L = "List.map_filter (fmlookup (getTasksMap tasks)) ks"
  note look = getTasksMap_lookup [OF assms(1)]
  have "map task_ID ?L = ks"
    by (rule map_filter_IDs) (use range_order_lookup [OF assms(2)] look in fastforce)
  with range_order_distinct [OF assms(2)] have "distinct ?L" by (metis distinct_map)
  moreover have "distinct tasks" using assms(1) by (simp add: distinct_map)
  moreover have "set ?L = set tasks" using range_order_lookup [OF assms(2)] look by (auto simp: set_map_filter)
  ultimately show ?thesis by (simp add: set_eq_iff_mset_eq_distinct)
qed

lemma list_triggers_mset: "mset xs = mset ys \<Longrightarrow> list_triggers xs = list_triggers ys"
  unfolding list_triggers_def by (metis mset_map sum_mset_sum_list)

lemma follows_onTasks:
  assumes "follows se aenv neat pl (list_triggers (filter CanExecute tasks) + room) (a, w)" and "admits_list neat pl tasks"
    and "\<forall>m. range_order m (pick m)" and "\<forall>m. range_order m (pickT m)"
  shows "\<exists>a' w'. onTasks (agent_ops aenv) pick pickT tasks (a, w) = Inr (a', w') \<and> follows se aenv neat (plan_list tasks pl) room (a', w') \<and>
    app_Tasks a' = getTasksMap tasks"
proof -
  let ?m = "getTasksMap tasks"
  let ?L = "filter CanExecute (List.map_filter (fmlookup ?m) (pickT ?m))"
  have dist: "distinct (map task_ID tasks)" using assms(2) by (simp add: admits_list_def)
  have "mset (List.map_filter (fmlookup ?m) (pickT ?m)) = mset tasks"
    using assms(4) by (intro visited_mset [OF dist]) blast
  then have L: "mset ?L = mset (filter CanExecute tasks)" by simp
  from mset_eq_setD [OF L] have set: "set ?L = set (filter CanExecute tasks)" .
  have same: "fold plan_task ?L = fold plan_task (filter CanExecute tasks)"
    by (rule sym, rule plan_fold_mset [OF _ L [symmetric]]) (rule distinct_map_filter [OF dist])
  have "mset (map task_ID ?L) = mset (map task_ID (filter CanExecute tasks))" using L by (simp only: mset_map)
  from mset_eq_imp_distinct_iff [OF this] have distL: "distinct (map task_ID ?L)"
    using distinct_map_filter [OF dist, of CanExecute] by blast
  have adm: "\<forall>task \<in> set ?L. admits neat pl task"
    and apart: "\<forall>a \<in> set ?L. \<forall>b \<in> set ?L. a \<noteq> b \<longrightarrow> trigger_ids a |\<inter>| trigger_ids b = {||}"
    using assms(2) unfolding set admits_list_def by blast+
  have "follows se aenv neat pl (list_triggers ?L + room) (a, w)" using assms(1) list_triggers_mset [OF L] by simp
  from follows_onTask_loop [OF this distL adm apart assms(3)] obtain a2 w' where
    loop: "mfold (onTask (agent_ops aenv) pick) ?L (a, w) = Inr (a2, w')"
    and a2: "follows se aenv neat (plan_list tasks pl) room (a2, w')" unfolding same plan_list_def by blast
  have "mfold (\<lambda>k aw1. case fmlookup ?m k of None \<Rightarrow> Inr aw1
      | Some task \<Rightarrow> if \<not> CanExecute task then Inr aw1 else onTask (agent_ops aenv) pick task aw1) (pickT ?m) (a, w) = Inr (a2, w')"
    using loop unfolding mfold_lookup .
  then show ?thesis using a2
    by (simp add: onTasks_def Let_def config_Write_def follows_def removed_loop_scheduler)
qed

section \<open>Any message, any sequence of messages\<close>

lemma follows_callbacks:
  assumes "follows se aenv neat pl room (a, w)"
  shows "opt_OnTask (ws_opts w) = Some (se_onTask se)" and "opt_OnTasks (ws_opts w) = Some (se_onTasks se)"
    and "opt_OnTaskRemoved (ws_opts w) = Some (se_onTaskRemoved se)"
proof -
  obtain ts where "app_taskScheduler a = Some ts" and flow: "flow_state se aenv neat (planned pl) (fset (pl_gone pl)) room (ts, w)"
    using assms by (auto simp: follows_def)
  from agent_carriesD [OF flow_stateD(6) [OF flow]] obtain v where "agent_client se v w" unfolding event_carries_def by metis
  then show "opt_OnTask (ws_opts w) = Some (se_onTask se)" "opt_OnTasks (ws_opts w) = Some (se_onTasks se)"
    "opt_OnTaskRemoved (ws_opts w) = Some (se_onTaskRemoved se)" by (simp_all add: agent_client_def)
qed

lemma follows_tasks:
  assumes "follows se aenv neat pl (message_triggers env m + room) (a, w)" and "admits_message neat env m pl"
    and "\<forall>m. range_order m (pick m)" and "\<forall>m. range_order m (pickT m)" and "i_MessageType m = ''tasks''"
  shows "\<exists>effs a' w'. agent_message se (agent_ops aenv) pick pickT env m (a, w) = Inr (effs, a', w') \<and>
    follows se aenv neat (plan_message env m pl) room (a', w') \<and> app_Tasks a' = config_message env m (app_Tasks a)"
proof (cases "env_tasks env (i_Data m)")
  case (Inl err)
  with assms(1,5) show ?thesis
    by (simp add: agent_message_def handleMessage_def decoded_def plan_message_def config_message_def message_triggers_def)
next
  case (Inr tasks)
  have "follows se aenv neat pl (list_triggers (filter CanExecute tasks) + room) (a, w)" "admits_list neat pl tasks"
    using assms(1,2,5) Inr by (simp_all add: message_triggers_def list_triggers_def admits_message_def)
  from follows_onTasks [OF this assms(3,4)] obtain a' w' where
    "onTasks (agent_ops aenv) pick pickT tasks (a, w) = Inr (a', w')" "follows se aenv neat (plan_list tasks pl) room (a', w')"
    "app_Tasks a' = getTasksMap tasks" by blast
  with assms(5) Inr follows_callbacks(2) [OF assms(1)] show ?thesis
    by (simp add: agent_message_def agent_effect_def handleMessage_def decoded_def call_back_def plan_message_def config_message_def)
qed

lemma follows_task:
  assumes "follows se aenv neat pl (message_triggers env m + room) (a, w)" and "admits_message neat env m pl"
    and "\<forall>m. range_order m (pick m)" and "i_MessageType m = ''task_updated''"
  shows "\<exists>effs a' w'. agent_message se (agent_ops aenv) pick pickT env m (a, w) = Inr (effs, a', w') \<and>
    follows se aenv neat (plan_message env m pl) room (a', w') \<and> app_Tasks a' = config_message env m (app_Tasks a)"
proof (cases "env_task env (i_Data m)")
  case (Inl err)
  with assms(1,4) show ?thesis
    by (simp add: agent_message_def handleMessage_def decoded_def plan_message_def config_message_def message_triggers_def)
next
  case (Inr task)
  have "follows se aenv neat pl (length (task_Triggers task) + room) (a, w)" "admits neat pl task"
    using assms(1,2,4) Inr by (simp_all add: message_triggers_def admits_message_def)
  from follows_onTask [OF this assms(3)] obtain a' w' where
    "onTask (agent_ops aenv) pick task (a, w) = Inr (a', w')" "follows se aenv neat (plan_task task pl) room (a', w')"
    "app_Tasks a' = fmupd (task_ID task) task (app_Tasks a)" by blast
  with assms(4) Inr follows_callbacks(1) [OF assms(1)] show ?thesis
    by (simp add: agent_message_def agent_effect_def handleMessage_def decoded_def call_back_def plan_message_def config_message_def)
qed

lemma onTaskRemoved_Tasks: "app_Tasks (onTaskRemoved k a) = fmdrop k (app_Tasks a)"
  by (cases "fmlookup (app_Tasks a) k") (auto simp: onTaskRemoved_def config_Write_def fmdrop_idle fmlookup_dom_iff)

lemma follows_removed:
  assumes "follows se aenv neat pl room (a, w)" and "i_MessageType m = ''task_removed''"
  shows "\<exists>effs a' w'. agent_message se ops pick pickT env m (a, w) = Inr (effs, a', w') \<and>
    follows se aenv neat (plan_message env m pl) room (a', w') \<and> app_Tasks a' = config_message env m (app_Tasks a)"
proof (cases "env_uuid env (i_Data m)")
  case (Inl err)
  with assms show ?thesis
    by (simp add: agent_message_def handleMessage_def decoded_def plan_message_def config_message_def)
next
  case (Inr k)
  have "follows se aenv neat pl room (onTaskRemoved k a, w)" by (rule follows_same [OF assms(1)]) simp
  with assms(2) Inr follows_callbacks(3) [OF assms(1)] show ?thesis
    by (simp add: agent_message_def agent_effect_def handleMessage_def decoded_def call_back_def plan_message_def config_message_def
        onTaskRemoved_Tasks)
qed

lemma follows_message:
  assumes "follows se aenv neat pl (message_triggers env m + room) (a, w)" and "admits_message neat env m pl"
    and "\<forall>m. range_order m (pick m)" and "\<forall>m. range_order m (pickT m)"
    and "range_order (ws_eventChannels w) (env_event_order env)"
  shows "\<exists>effs a' w'. agent_message se (agent_ops aenv) pick pickT env m (a, w) = Inr (effs, a', w') \<and>
    follows se aenv neat (plan_message env m pl) room (a', w') \<and> app_Tasks a' = config_message env m (app_Tasks a)"
proof -
  consider "i_MessageType m = ''tasks''" | "i_MessageType m = ''task_updated''" | "i_MessageType m = ''task_removed''"
    | "i_MessageType m \<notin> {''tasks'', ''task_updated'', ''task_removed''}" by blast
  then show ?thesis
  proof cases
    case 1
    then show ?thesis by (rule follows_tasks [OF assms(1-4)])
  next
    case 2
    then show ?thesis by (rule follows_task [OF assms(1-3)])
  next
    case 3
    from follows_removed [OF follows_less_room [OF assms(1)] 3, of room "agent_ops aenv" pick pickT env] show ?thesis by simp
  next
    case 4
    then have same: "plan_message env m pl = pl" "message_triggers env m = 0" "config_message env m (app_Tasks a) = app_Tasks a"
      by (simp_all add: plan_message_def config_message_def message_triggers_def)
    from assms(1) obtain ts where ts: "plan_ok pl" "app_taskScheduler a = Some ts"
      "flow_state se aenv neat (planned pl) (fset (pl_gone pl)) room (ts, w)" by (auto simp: follows_def same)
    from flow_other_message [OF ts(3) assms(5) 4, of "agent_ops aenv" pick pickT a] ts show ?thesis
      unfolding same by (auto simp: follows_def)
  qed
qed

lemma at_client_same:
  "plan_message (at_client pickE pickC w env) m = plan_message env m"
  "config_message (at_client pickE pickC w env) m = config_message env m"
  "message_triggers (at_client pickE pickC w env) m = message_triggers env m"
  "admits_message neat (at_client pickE pickC w env) m = admits_message neat env m"
  by (simp_all add: at_client_def plan_message_def config_message_def message_triggers_def admits_message_def fun_eq_iff)

lemma plan_messages_simps [simp]:
  "plan_messages [] pl = pl" "plan_messages ((env, m) # ms) pl = plan_messages ms (plan_message env m pl)"
  "config_messages [] cfg = cfg" "config_messages ((env, m) # ms) cfg = config_messages ms (config_message env m cfg)"
  by (simp_all add: plan_messages_def config_messages_def)

definition messages_triggers :: "(ws_env \<times> i_raw_message) list \<Rightarrow> nat" where
  "messages_triggers ms = sum_list (map (\<lambda>(env, m). message_triggers env m) ms)"

lemma follows_messages:
  assumes "follows se aenv neat pl (messages_triggers ms + room) (a, w)" and "admits_messages neat ms pl"
    and "\<forall>m. range_order m (pick m)" and "\<forall>m. range_order m (pickT m)" and "\<forall>m. range_order m (pickE m)"
  shows "\<exists>effs a' w'. agent_messages se (agent_ops aenv) pick pickT pickE pickC ms (a, w) = Inr (effs, a', w') \<and>
    follows se aenv neat (plan_messages ms pl) room (a', w') \<and> app_Tasks a' = config_messages ms (app_Tasks a)"
  using assms(1,2)
proof (induction ms arbitrary: pl a w)
  case Nil
  then show ?case by (simp add: messages_triggers_def)
next
  case (Cons em ms)
  obtain env m where em: "em = (env, m)" by (cases em)
  let ?env = "at_client pickE pickC w env"
  have now: "follows se aenv neat pl (message_triggers ?env m + (messages_triggers ms + room)) (a, w)" "admits_message neat ?env m pl"
    using Cons.prems em by (simp_all add: messages_triggers_def at_client_same add.assoc)
  have "range_order (ws_eventChannels w) (env_event_order ?env)" using assms(5) by (simp add: at_client_def)
  from follows_message [OF now assms(3,4) this] obtain effs a1 w1 where
    one: "agent_message se (agent_ops aenv) pick pickT ?env m (a, w) = Inr (effs, a1, w1)"
    and a1: "follows se aenv neat (plan_message env m pl) (messages_triggers ms + room) (a1, w1)"
      "app_Tasks a1 = config_message env m (app_Tasks a)" by (auto simp: at_client_same)
  have "admits_messages neat ms (plan_message env m pl)" using Cons.prems(2) em by simp
  from Cons.IH [OF a1(1) this] obtain effs2 a' w' where
    "agent_messages se (agent_ops aenv) pick pickT pickE pickC ms (a1, w1) = Inr (effs2, a', w')"
    "follows se aenv neat (plan_messages ms (plan_message env m pl)) room (a', w')" "app_Tasks a' = config_messages ms (app_Tasks a1)" by blast
  with one em a1(2) show ?case by simp
qed

end
