(* ===== verification/Agent_Sessions.thy ===== *)
theory Agent_Sessions
  imports Agent_Messages
begin

text \<open>
  The agent over several connections: what it has scheduled survives the loss of a connection, and when the next one is made, the
  introduction and the greetings of the server bring the server's list of subscriptions back to what the agent needs.
\<close>

section \<open>Definitions\<close>

text \<open>
  A connection that is lost and made again: \<open>onDisconnect\<close>, attempts of \<open>runLoop\<close> that fail, one that succeeds, after which \<open>writePump\<close>
  receives from the new channel, and the messages that then arrive. An attempt is the answer to the request for a
  ticket and the result of dialling.
\<close>

type_synonym attempt = "(goerror list + string) \<times> (goerror + nat)"

record ws_connection =
  wc_failed :: "attempt list"
  wc_ticket :: string
  wc_conn :: nat
  wc_messages :: "(ws_env \<times> i_raw_message) list"

definition try_connect :: "attempt \<Rightarrow> ws_client \<Rightarrow> ws_client outcome" where
  "try_connect x w = andThen (connect (fst x) (\<lambda>_. snd x) w) (\<lambda>(err, w1). Inr (setLastError err w1))"

definition reconnect :: "ws_connection \<Rightarrow> ws_client \<Rightarrow> ws_client outcome" where
  "reconnect c w =
     andThen (mfold try_connect (wc_failed c @ [(Inr (wc_ticket c), Inr (wc_conn c))]) (onDisconnect w)) (\<lambda>w1.
       Inr (w1\<lparr>ws_sendMessages := receiving True (ws_sendMessages w1)\<rparr>))"

fun agent_session ::
  "start_env \<Rightarrow> ('c, ws_client) triggers_ops \<Rightarrow> pick_triggers \<Rightarrow> pick_tasks \<Rightarrow> pick_events \<Rightarrow> pick_channels
   \<Rightarrow> ws_connection list \<Rightarrow> 'c app_scheduler \<times> ws_client \<Rightarrow> ('c app_scheduler \<times> ws_client) outcome" where
  "agent_session se ops pick pickT pickE pickC [] aw = Inr aw"
| "agent_session se ops pick pickT pickE pickC (c # cs) aw =
     andThen (reconnect c (snd aw)) (\<lambda>w1.
       andThen (agent_messages se ops pick pickT pickE pickC (wc_messages c) (fst aw, w1)) (\<lambda>(effs, aw2).
         agent_session se ops pick pickT pickE pickC cs aw2))"

text \<open>A server that keeps to the protocol introduces itself and greets before it sends anything else.\<close>

fun opens :: "(ws_env \<times> i_raw_message) list \<Rightarrow> bool" where
  "opens ((e1, m1) # (e2, m2) # ms) \<longleftrightarrow>
     i_MessageType m1 = ''introduction'' \<and> (\<exists>d. env_introduction e1 (i_Data m1) = Inr d) \<and> i_MessageType m2 = ''greetings''"
| "opens ms \<longleftrightarrow> False"

fun_cases opensE: "opens ms"

definition connection_ok :: "ws_connection \<Rightarrow> bool" where
  "connection_ok c \<longleftrightarrow> (\<forall>x \<in> set (wc_failed c). isl (fst x) \<or> isl (snd x)) \<and> opens (wc_messages c)"

definition session_messages :: "ws_connection list \<Rightarrow> (ws_env \<times> i_raw_message) list" where
  "session_messages cs = concat (map wc_messages cs)"

text \<open>The life of an agent: the messages of its first connection, then the connections that follow.\<close>

definition agent_life ::
  "start_env \<Rightarrow> ('c, ws_client) triggers_ops \<Rightarrow> pick_triggers \<Rightarrow> pick_tasks \<Rightarrow> pick_events \<Rightarrow> pick_channels
   \<Rightarrow> (ws_env \<times> i_raw_message) list \<Rightarrow> ws_connection list
   \<Rightarrow> 'c app_scheduler \<times> ws_client \<Rightarrow> ('c app_scheduler \<times> ws_client) outcome" where
  "agent_life se ops pick pickT pickE pickC ms cs aw =
     andThen (agent_messages se ops pick pickT pickE pickC ms aw) (\<lambda>(effs, aw1).
       agent_session se ops pick pickT pickE pickC cs aw1)"

definition life_messages :: "(ws_env \<times> i_raw_message) list \<Rightarrow> ws_connection list \<Rightarrow> (ws_env \<times> i_raw_message) list" where
  "life_messages ms cs = ms @ session_messages cs"

section \<open>Lemmas\<close>

text \<open>What survives the loss of a connection.\<close>

definition same_registry :: "ws_client \<Rightarrow> ws_client \<Rightarrow> bool" where
  "same_registry w w' \<longleftrightarrow> ws_eventChannels w' = ws_eventChannels w \<and> ws_eventChannelsSeq w' = ws_eventChannelsSeq w \<and>
     ws_opts w' = ws_opts w"

lemmas connect_defs = try_connect_def connect_def connect_begin_def connect_ticket_def connectWithTicket_def transitionState_def
  requireState_def setState_def setLastError_def Let_def same_registry_def

lemma try_connect_fails:
  assumes "ws_state w = StateDisconnected" and "isl (fst x) \<or> isl (snd x)"
  shows "\<exists>w'. try_connect x w = Inr w' \<and> ws_state w' = StateDisconnected \<and> same_registry w w'"
  using assms by (cases x; cases "fst x"; cases "snd x") (auto simp: connect_defs)

lemma try_connect_succeeds:
  assumes "ws_state w = StateDisconnected"
  shows "\<exists>w'. try_connect (Inr t, Inr k) w = Inr w' \<and> ws_state w' = StatePreparing \<and> ws_sendMessages w' = OpenChan False [] \<and>
    same_registry w w'"
  using assms by (simp add: connect_defs)

lemma attempts_fail:
  assumes "ws_state w = StateDisconnected" and "\<forall>x \<in> set xs. isl (fst x) \<or> isl (snd x)"
  shows "\<exists>w'. mfold try_connect xs w = Inr w' \<and> ws_state w' = StateDisconnected \<and> same_registry w w'"
  using assms
proof (induction xs arbitrary: w)
  case Nil
  then show ?case by (simp add: same_registry_def)
next
  case (Cons x xs)
  from try_connect_fails [OF Cons.prems(1), of x] Cons.prems(2) obtain w1 where
    one: "try_connect x w = Inr w1" "ws_state w1 = StateDisconnected" "same_registry w w1" by auto
  with Cons.IH [OF one(2)] Cons.prems(2) show ?case by (auto simp: same_registry_def)
qed

lemma reconnect_returns:
  assumes "ws_state w \<in> {StatePreparing, StateConnected}" and "\<forall>x \<in> set (wc_failed c). isl (fst x) \<or> isl (snd x)"
  shows "\<exists>w'. reconnect c w = Inr w' \<and> ws_state w' = StatePreparing \<and> ws_sendMessages w' = OpenChan True [] \<and> same_registry w w'"
proof -
  have "ws_state (onDisconnect w) = StateDisconnected" "same_registry w (onDisconnect w)"
    using assms(1) by (auto simp: onDisconnect_def setState_def same_registry_def)
  moreover from attempts_fail [OF this(1) assms(2)] obtain w1 where
    w1: "mfold try_connect (wc_failed c) (onDisconnect w) = Inr w1" "ws_state w1 = StateDisconnected"
      "same_registry (onDisconnect w) w1" by blast
  moreover obtain w2 where "try_connect (Inr (wc_ticket c), Inr (wc_conn c)) w1 = Inr w2" "ws_state w2 = StatePreparing"
    "ws_sendMessages w2 = OpenChan False []" "same_registry w1 w2" using try_connect_succeeds [OF w1(2)] by blast
  ultimately show ?thesis by (simp add: reconnect_def mfold_append same_registry_def)
qed

text \<open>The introduction and the greetings restore what the server knows.\<close>

lemma open_introduction:
  assumes "ws_state w = StatePreparing" and "ws_sendMessages w = OpenChan True []"
    and "i_MessageType m = ''introduction''" and "env_introduction env (i_Data m) = Inr d"
  shows "\<exists>w' h. agent_message se ops pick pickT env m (a, w) = Inr ([], a, w') \<and> ws_state w' = StateConnected \<and>
    ws_sendMessages w' = OpenChan True [\<lparr>o_MessageType = ''hello'', o_Data = DHello h\<rparr>] \<and> same_registry w w'"
  using assms
  by (simp add: agent_message_def handleMessage_def decoded_def onIntroduction_def Let_def setState_def ws_send_def same_registry_def)

lemma open_greetings:
  assumes "ws_sendMessages w = OpenChan True [\<lparr>o_MessageType = ''hello'', o_Data = DHello h\<rparr>]" and "ws_state w = StateConnected"
    and "i_MessageType m = ''greetings''"
  shows "\<exists>effs w'. agent_message se ops pick pickT env m (a, w) = Inr (effs, a, w') \<and> ws_state w' = StateConnected \<and>
    server_subscriptions w' = set (env_event_order env) \<and> ws_live w' \<and> same_registry w w'"
proof -
  let ?effs = "call_back CallOnConnected (opt_OnConnected (ws_opts w))"
  let ?w = "w\<lparr>ws_sendMessages := OpenChan True [\<lparr>o_MessageType = ''hello'', o_Data = DHello h\<rparr>,
      msg_set_subscriptions (env_event_order env)]\<rparr>"
  have "handleMessage env m w = Inr (?effs, None, ?w)"
    using assms by (simp add: handleMessage_def onGreetings_def ws_send_def)
  moreover have "\<forall>eff \<in> set ?effs. quiet eff" by (auto simp: call_back_def quiet_def split: option.split)
  ultimately have "agent_message se ops pick pickT env m (a, w) = Inr (?effs, a, ?w)" by (rule quiet_effects)
  with assms(2) show ?thesis by (simp add: server_subscriptions_def ws_live_def same_registry_def)
qed

lemma follows_reconnected:
  assumes "follows se aenv neat pl (messages_triggers (wc_messages c) + room) (a, w)" and "connection_ok c"
    and "admits_messages neat (wc_messages c) pl"
    and "\<forall>m. range_order m (pick m)" and "\<forall>m. range_order m (pickT m)" and "\<forall>m. range_order m (pickE m)"
  shows "\<exists>w1 effs a' w'. reconnect c w = Inr w1 \<and>
    agent_messages se (agent_ops aenv) pick pickT pickE pickC (wc_messages c) (a, w1) = Inr (effs, a', w') \<and>
    follows se aenv neat (plan_messages (wc_messages c) pl) room (a', w') \<and> app_Tasks a' = config_messages (wc_messages c) (app_Tasks a)"
proof -
  obtain ts where ts: "app_taskScheduler a = Some ts" "plan_ok pl"
    and flow: "flow_state se aenv neat (planned pl) (fset (pl_gone pl)) (messages_triggers (wc_messages c) + room) (ts, w)"
    using assms(1) by (auto simp: follows_def)
  obtain e1 m1 e2 m2 ms where ms: "wc_messages c = (e1, m1) # (e2, m2) # ms"
    using assms(2) by (auto simp: connection_ok_def elim!: opensE)
  then have intro: "i_MessageType m1 = ''introduction''" and greet: "i_MessageType m2 = ''greetings''"
    using assms(2) by (auto simp: connection_ok_def)
  obtain d where d: "env_introduction e1 (i_Data m1) = Inr d" using assms(2) ms by (auto simp: connection_ok_def)
  from reconnect_returns [OF flow_connected [OF flow], of c] assms(2) obtain w1 where
    w1: "reconnect c w = Inr w1" "ws_state w1 = StatePreparing" "ws_sendMessages w1 = OpenChan True []" "same_registry w w1"
    by (auto simp: connection_ok_def)
  have "env_introduction (at_client pickE pickC w1 e1) (i_Data m1) = Inr d" using d by (simp add: at_client_def)
  from open_introduction [OF w1(2,3) intro this, of se "agent_ops aenv" pick pickT a] obtain w2 h where
    w2: "agent_message se (agent_ops aenv) pick pickT (at_client pickE pickC w1 e1) m1 (a, w1) = Inr ([], a, w2)"
      "ws_state w2 = StateConnected" "ws_sendMessages w2 = OpenChan True [\<lparr>o_MessageType = ''hello'', o_Data = DHello h\<rparr>]"
      "same_registry w1 w2" by blast
  from open_greetings [OF w2(3,2) greet, of se "agent_ops aenv" pick pickT "at_client pickE pickC w2 e2" a] obtain effs w3 where
    w3: "agent_message se (agent_ops aenv) pick pickT (at_client pickE pickC w2 e2) m2 (a, w2) = Inr (effs, a, w3)"
      "ws_state w3 = StateConnected" "server_subscriptions w3 = set (pickE (ws_eventChannels w2))" "ws_live w3"
      "same_registry w2 w3" by (auto simp: at_client_def)
  have same: "same_registry w w3" "ws_eventChannels w2 = ws_eventChannels w"
    using w1(4) w2(4) w3(5) by (simp_all add: same_registry_def)
  have "server_subscriptions w3 = server_subscriptions w"
    unfolding w3(3) same(2) flow_registered [OF flow] using assms(6) by (intro range_order_set) blast
  with same(1) w3(2,4) have "flow_state se aenv neat (planned pl) (fset (pl_gone pl)) (messages_triggers (wc_messages c) + room) (ts, w3)"
    by (intro flow_world [OF flow]) (simp_all add: same_registry_def)
  moreover have skip: "plan_message e1 m1 pl = pl" "plan_message e2 m2 pl = pl" "message_triggers e1 m1 = 0" "message_triggers e2 m2 = 0"
    "config_message e1 m1 cfg = cfg" "config_message e2 m2 cfg = cfg" for cfg
    using intro greet by (simp_all add: plan_message_def message_triggers_def config_message_def)
  ultimately have "follows se aenv neat pl (messages_triggers ms + room) (a, w3)"
    using ts by (simp add: follows_def ms messages_triggers_def)
  moreover have "admits_messages neat ms pl" using assms(3) skip by (simp add: ms)
  ultimately obtain effs' a' w' where rest: "agent_messages se (agent_ops aenv) pick pickT pickE pickC ms (a, w3) = Inr (effs', a', w')"
    "follows se aenv neat (plan_messages ms pl) room (a', w')" "app_Tasks a' = config_messages ms (app_Tasks a)"
    using follows_messages [OF _ _ assms(4-6)] by blast
  then show ?thesis using w1(1) w2(1) w3(1) by (simp add: ms skip)
qed

lemma messages_append:
  "plan_messages (ms @ ns) pl = plan_messages ns (plan_messages ms pl)"
  "config_messages (ms @ ns) cfg = config_messages ns (config_messages ms cfg)"
  "messages_triggers (ms @ ns) = messages_triggers ms + messages_triggers ns"
  "admits_messages neat (ms @ ns) pl \<longleftrightarrow> admits_messages neat ms pl \<and> admits_messages neat ns (plan_messages ms pl)"
proof -
  show "admits_messages neat (ms @ ns) pl \<longleftrightarrow> admits_messages neat ms pl \<and> admits_messages neat ns (plan_messages ms pl)"
    by (induction ms arbitrary: pl) auto
qed (simp_all add: plan_messages_def config_messages_def messages_triggers_def)

lemma follows_session:
  assumes "follows se aenv neat pl (messages_triggers (session_messages cs) + room) (a, w)" and "admits_messages neat (session_messages cs) pl"
    and "\<forall>c \<in> set cs. connection_ok c"
    and "\<forall>m. range_order m (pick m)" and "\<forall>m. range_order m (pickT m)" and "\<forall>m. range_order m (pickE m)"
  shows "\<exists>a' w'. agent_session se (agent_ops aenv) pick pickT pickE pickC cs (a, w) = Inr (a', w') \<and>
    follows se aenv neat (plan_messages (session_messages cs) pl) room (a', w') \<and>
    app_Tasks a' = config_messages (session_messages cs) (app_Tasks a)"
  using assms(1-3)
proof (induction cs arbitrary: pl a w)
  case Nil
  then show ?case by (simp add: session_messages_def messages_triggers_def)
next
  case (Cons c cs)
  have split: "session_messages (c # cs) = wc_messages c @ session_messages cs" by (simp add: session_messages_def)
  have now: "follows se aenv neat pl (messages_triggers (wc_messages c) + (messages_triggers (session_messages cs) + room)) (a, w)"
    "connection_ok c" "admits_messages neat (wc_messages c) pl"
    and later: "admits_messages neat (session_messages cs) (plan_messages (wc_messages c) pl)" "\<forall>c \<in> set cs. connection_ok c"
    using Cons.prems by (simp_all add: split messages_append add.assoc)
  from follows_reconnected [OF now assms(4-6), of pickC] obtain w1 effs a1 w2 where
    one: "reconnect c w = Inr w1" "agent_messages se (agent_ops aenv) pick pickT pickE pickC (wc_messages c) (a, w1) = Inr (effs, a1, w2)"
    and a1: "follows se aenv neat (plan_messages (wc_messages c) pl) (messages_triggers (session_messages cs) + room) (a1, w2)"
      "app_Tasks a1 = config_messages (wc_messages c) (app_Tasks a)" by blast
  from Cons.IH [OF a1(1) later] one a1(2) show ?case by (auto simp: split messages_append)
qed

lemma follows_life:
  assumes "follows se aenv neat pl (messages_triggers (life_messages ms cs) + room) (a, w)" and "admits_messages neat (life_messages ms cs) pl"
    and "\<forall>c \<in> set cs. connection_ok c"
    and "\<forall>m. range_order m (pick m)" and "\<forall>m. range_order m (pickT m)" and "\<forall>m. range_order m (pickE m)"
  shows "\<exists>a' w'. agent_life se (agent_ops aenv) pick pickT pickE pickC ms cs (a, w) = Inr (a', w') \<and>
    follows se aenv neat (plan_messages (life_messages ms cs) pl) room (a', w') \<and>
    app_Tasks a' = config_messages (life_messages ms cs) (app_Tasks a)"
proof -
  have first: "follows se aenv neat pl (messages_triggers ms + (messages_triggers (session_messages cs) + room)) (a, w)" "admits_messages neat ms pl"
    and later: "admits_messages neat (session_messages cs) (plan_messages ms pl)"
    using assms(1,2) by (simp_all add: life_messages_def messages_append add.assoc)
  from follows_messages [OF first assms(4-6), of pickC] obtain effs a1 w1 where
    one: "agent_messages se (agent_ops aenv) pick pickT pickE pickC ms (a, w) = Inr (effs, a1, w1)"
    and a1: "follows se aenv neat (plan_messages ms pl) (messages_triggers (session_messages cs) + room) (a1, w1)"
      "app_Tasks a1 = config_messages ms (app_Tasks a)" by blast
  from follows_session [OF a1(1) later assms(3-6), of pickC] one a1(2) show ?thesis
    by (auto simp: agent_life_def life_messages_def messages_append)
qed

end
