(* ===== verification/Agent_Fires.thy ===== *)
theory Agent_Fires
  imports Agent_Sessions
begin

text \<open>
  From a trigger to the runs of tasks, across the components: the callbacks that \<open>createExecutor\<close> and \<open>NewTaskScheduler\<close>
  installed lead from a call of a trigger scheduler to the runs it starts (\<open>agent_fired\<close>). The calls come from an event in
  the queue (\<open>agent_drain\<close>), from a job of \<open>gocron\<close> (\<open>agent_cron_job\<close>) and from a change of a file (\<open>agent_file_event\<close>).
\<close>

section \<open>Definitions\<close>

fun cron_child :: "('g, 'j, 'n) child list \<Rightarrow> ('g, 'j) cron_scheduler option" where
  "cron_child [] = None"
| "cron_child (CronChild c # cs) = Some c"
| "cron_child (c # cs) = cron_child cs"

fun event_child :: "('g, 'j, 'n) child list \<Rightarrow> event_scheduler option" where
  "event_child [] = None"
| "event_child (EventChild v # cs) = Some v"
| "event_child (c # cs) = event_child cs"

fun fs_child :: "('g, 'j, 'n) child list \<Rightarrow> 'n fs_scheduler option" where
  "fs_child [] = None"
| "fs_child (FSChild f # cs) = Some f"
| "fs_child (c # cs) = fs_child cs"

definition agent_children :: "('g, 'j, 'n) child composite_scheduler app_scheduler \<Rightarrow> ('g, 'j, 'n) child list" where
  "agent_children a = (case app_taskScheduler a of None \<Rightarrow> [] | Some ts \<Rightarrow> co_childSchedulers (ts_triggersScheduler ts))"

text \<open>
  The runs that calls of the callback of the trigger schedulers start: for each of them the calls of the task scheduler's \<open>onTrigger\<close>, for
  each of them the one of the application scheduler's. \<open>order\<close> is the order of the tasks of a trigger.
\<close>

definition agent_fired ::
  "start_env \<Rightarrow> int \<Rightarrow> (u64 \<Rightarrow> uuid list) \<Rightarrow> calls \<Rightarrow> 'c app_scheduler \<Rightarrow> task_triggered_event list" where
  "agent_fired se now order calls a =
     (case app_taskScheduler a of
        None \<Rightarrow> []
      | Some ts \<Rightarrow>
          (let fired = concat (map (\<lambda>(cb, te).
                 if cb = se_taskTrigger se then TS_onTrigger now (order (te_TriggerID te)) te ts else []) calls)
           in List.map_filter (\<lambda>(cb, r). if cb = se_onTrigger se then App_onTrigger r else None) fired))"

text \<open>An event that \<open>drain\<close> takes from the queue; \<open>idsOf\<close> is the order of the triggers of the event.\<close>

definition agent_drain ::
  "start_env \<Rightarrow> int \<Rightarrow> (string \<Rightarrow> u64 list) \<Rightarrow> (u64 \<Rightarrow> uuid list) \<Rightarrow> event
   \<Rightarrow> ('g, 'j, 'n) child composite_scheduler app_scheduler \<Rightarrow> task_triggered_event list" where
  "agent_drain se now idsOf order x a =
     (case event_child (agent_children a) of
        None \<Rightarrow> []
      | Some v \<Rightarrow> agent_fired se now order (fst (Event_drain_step idsOf (Some x) v)) a)"

text \<open>A job that the cron scheduler has added for a trigger, run by \<open>gocron\<close>.\<close>

definition agent_cron_job ::
  "start_env \<Rightarrow> int \<Rightarrow> (u64 \<Rightarrow> uuid list) \<Rightarrow> u64 \<Rightarrow> task_trigger
   \<Rightarrow> ('g, 'j, 'n) child composite_scheduler app_scheduler \<Rightarrow> task_triggered_event list" where
  "agent_cron_job se now order i t a =
     (case cron_child (agent_children a) of
        None \<Rightarrow> []
      | Some c \<Rightarrow> agent_fired se now order (Cron_trigger i t c) a)"

text \<open>A change of the file \<open>name\<close> that the watcher reports; \<open>paths\<close> and \<open>idsOf\<close> are the orders of the watched paths and of their triggers.\<close>

definition agent_file_event ::
  "start_env \<Rightarrow> int \<Rightarrow> goerror + string \<Rightarrow> string list \<Rightarrow> (string \<Rightarrow> u64 list) \<Rightarrow> (u64 \<Rightarrow> uuid list) \<Rightarrow> string \<Rightarrow> string
   \<Rightarrow> ('g, 'j, 'n) child composite_scheduler app_scheduler \<Rightarrow> task_triggered_event list" where
  "agent_file_event se now wd paths idsOf order name op a =
     (case fs_child (agent_children a) of
        None \<Rightarrow> []
      | Some f \<Rightarrow> agent_fired se now order (dispatchEvent wd paths idsOf name op f) a)"

text \<open>
  The agent has scheduled a trigger of a task: it is on the books of the task scheduler. A trigger on an event always is; a cron expression
  or a path may have been refused.
\<close>

definition agent_has :: "'c app_scheduler \<Rightarrow> defined_task \<Rightarrow> task_trigger \<Rightarrow> bool" where
  "agent_has a task t \<longleftrightarrow>
     (case app_taskScheduler a of
        None \<Rightarrow> False
      | Some ts \<Rightarrow> fmlookup (ts_scheduled ts (task_ID task)) (trigger_id t) \<noteq> None)"

definition task_orders :: "(u64 \<Rightarrow> uuid list) \<Rightarrow> 'c app_scheduler \<Rightarrow> bool" where
  "task_orders order a \<longleftrightarrow> (\<forall>ts i. app_taskScheduler a = Some ts \<longrightarrow> range_order (ts_registered ts i) (order i))"

section \<open>What a call starts\<close>

text \<open>The run of a task that a call with the identifier of one of its triggers starts.\<close>

definition starts ::
  "(defined_task \<times> task_trigger) set \<Rightarrow> 'c app_scheduler \<Rightarrow> triggered_event \<Rightarrow> defined_task \<Rightarrow> bool" where
  "starts P a te task \<longleftrightarrow>
     (\<exists>t. (task, t) \<in> P \<and> trigger_id t = te_TriggerID te \<and> CanExecute task \<and> agent_has a task t)"

lemma map_filter_append: "List.map_filter g (as @ bs) = List.map_filter g as @ List.map_filter g bs"
  by (induction as) (auto split: option.split)

lemma agent_fired_Nil [simp]: "agent_fired se now order [] a = []"
  by (cases "app_taskScheduler a") (simp_all add: agent_fired_def)

lemma agent_fired_Cons:
  "agent_fired se now order (call # calls) a = agent_fired se now order [call] a @ agent_fired se now order calls a"
  by (cases "app_taskScheduler a") (simp_all add: agent_fired_def map_filter_append)

lemma fired_one:
  assumes "flow_state se env neat P D room (ts, w)" and "app_taskScheduler a = Some ts" and "task_orders order a"
  shows "if \<exists>task. starts P a te task
    then \<exists>r. agent_fired se now order [(se_taskTrigger se, te)] a = [r] \<and> tte_TriggerEvent r = te \<and> starts P a te (tte_Task r)
    else agent_fired se now order [(se_taskTrigger se, te)] a = []"
proof -
  note flow = flow_stateD [OF assms(1)] and books = ts_carriesD [OF flow_stateD(5) [OF assms(1)]]
  let ?i = "te_TriggerID te"
  have has: "agent_has a task t \<longleftrightarrow> fmlookup (ts_scheduled ts (task_ID task)) (trigger_id t) \<noteq> None" for task t
    by (simp add: agent_has_def assms(2))
  show ?thesis
  proof (cases "fmlookup (ts_triggerTasks ts) ?i")
    case None
    have "\<not> starts P a te task" for task
    proof
      assume "starts P a te task"
      then obtain t where "(task, t) \<in> P" "trigger_id t = ?i" "agent_has a task t" unfolding starts_def by blast
      with books(4) [of task t] None show False by (simp add: has)
    qed
    moreover have "agent_fired se now order [(se_taskTrigger se, te)] a = []"
      using None flow(3) by (simp add: agent_fired_def assms(2) TS_onTrigger_def)
    ultimately show ?thesis by simp
  next
    case (Some m)
    with books(5) [of ?i] obtain task t where task: "(task, t) \<in> P" "trigger_id t = ?i" "agent_has a task t" unfolding has by auto
    then have reg: "fmlookup (ts_triggerTasks ts) ?i = Some (fmupd (task_ID task) task fmempty)" using books(4) [of task t] by (simp add: has)
    have "range_order (ts_registered ts ?i) (order ?i)" using assms(2,3) by (simp add: task_orders_def)
    with reg have "range_order (fmupd (task_ID task) task fmempty) (order ?i)" by (simp add: ts_registered_def)
    then have "order ?i = [task_ID task]" by (rule range_order_single)
    with reg flow(3) have run: "TS_onTrigger now (order ?i) te ts = [(se_onTrigger se, \<lparr>tte_TriggerEvent = te, tte_Task = task,
      tte_Params = fmupd ''TASK_ID'' (VUUID (task_ID task)) (fmupd ''TASK_NAME'' (VString (task_Name task))
        (fmupd ''TRIGGERED_AT'' (VInt64 now) fmempty))\<rparr>)]" by (simp add: TS_onTrigger_def Let_def)
    have "b = task" if "starts P a te b" for b
      using that separate_pairsD(1) [OF flow(4) _ task(1)] task(2) unfolding starts_def by metis
    moreover have "starts P a te task \<longleftrightarrow> CanExecute task" using task calculation unfolding starts_def by blast
    ultimately show ?thesis using run by (auto simp: agent_fired_def assms(2) App_onTrigger_def)
  qed
qed

text \<open>The runs of a list of calls are those of the calls that start one, in their order.\<close>

lemma fired_runs:
  assumes "flow_state se env neat P D room (ts, w)" and "app_taskScheduler a = Some ts" and "task_orders order a"
    and "\<forall>call \<in> set calls. fst call = se_taskTrigger se"
  shows "map tte_TriggerEvent (agent_fired se now order calls a) = filter (\<lambda>te. \<exists>task. starts P a te task) (map snd calls)"
    and "\<forall>r \<in> set (agent_fired se now order calls a). starts P a (tte_TriggerEvent r) (tte_Task r)"
proof -
  have "map tte_TriggerEvent (agent_fired se now order calls a) = filter (\<lambda>te. \<exists>task. starts P a te task) (map snd calls) \<and>
      (\<forall>r \<in> set (agent_fired se now order calls a). starts P a (tte_TriggerEvent r) (tte_Task r))"
    using assms(4)
  proof (induction calls)
    case (Cons call calls)
    obtain te where call: "call = (se_taskTrigger se, te)" using Cons.prems by (cases call) simp
    note step = agent_fired_Cons [of se now order "(se_taskTrigger se, te)" calls a]
    from Cons.IH Cons.prems fired_one [OF assms(1-3), of te now] show ?case
      unfolding call step by (auto split: if_splits)
  qed simp
  then show "map tte_TriggerEvent (agent_fired se now order calls a) = filter (\<lambda>te. \<exists>task. starts P a te task) (map snd calls)"
    and "\<forall>r \<in> set (agent_fired se now order calls a). starts P a (tte_TriggerEvent r) (tte_Task r)" by blast+
qed

text \<open>
  Calls whose triggers are pairs with the identifiers of the calls, each identifier once, start exactly the runs of the pairs, each once.
\<close>

lemma fired_pairs:
  assumes "flow_state se env neat P D room (ts, w)" and "app_taskScheduler a = Some ts" and "task_orders order a"
    and "\<forall>call \<in> set calls. fst call = se_taskTrigger se" and "distinct (map (te_TriggerID \<circ> snd) calls)"
    and "\<And>te. te \<in> snd ` set calls \<Longrightarrow> \<exists>task. (task, te_Trigger te) \<in> P \<and> trigger_id (te_Trigger te) = te_TriggerID te"
  shows "distinct (map (\<lambda>r. te_TriggerID (tte_TriggerEvent r)) (agent_fired se now order calls a)) \<and>
    (\<lambda>r. (tte_Task r, te_Trigger (tte_TriggerEvent r))) ` set (agent_fired se now order calls a) =
      {(task, t). (task, t) \<in> P \<and> CanExecute task \<and> agent_has a task t \<and> t \<in> te_Trigger ` snd ` set calls}"
proof -
  let ?rs = "agent_fired se now order calls a"
  note runs = fired_runs [OF assms(1-4), of now] and sep = separate_pairsD(1) [OF flow_stateD(4) [OF assms(1)]]
  have "map (\<lambda>r. te_TriggerID (tte_TriggerEvent r)) ?rs = map te_TriggerID (map tte_TriggerEvent ?rs)" by simp
  also have "\<dots> = map te_TriggerID (filter (\<lambda>te. \<exists>task. starts P a te task) (map snd calls))" by (simp only: runs(1))
  finally have ids: "distinct (map (\<lambda>r. te_TriggerID (tte_TriggerEvent r)) ?rs)"
    using assms(5) distinct_map_filter [of te_TriggerID "map snd calls"] by simp
  have sound: "(tte_Task r, te_Trigger (tte_TriggerEvent r)) \<in> P \<and> CanExecute (tte_Task r) \<and>
      agent_has a (tte_Task r) (te_Trigger (tte_TriggerEvent r)) \<and> tte_TriggerEvent r \<in> snd ` set calls" if r: "r \<in> set ?rs" for r
  proof -
    let ?te = "tte_TriggerEvent r"
    have te: "?te \<in> snd ` set calls" using r arg_cong [where f = set, OF runs(1)] by auto
    obtain t where t: "(tte_Task r, t) \<in> P" "trigger_id t = te_TriggerID ?te" "CanExecute (tte_Task r)" "agent_has a (tte_Task r) t"
      using runs(2) r unfolding starts_def by blast
    obtain b where b: "(b, te_Trigger ?te) \<in> P" "trigger_id (te_Trigger ?te) = te_TriggerID ?te" using assms(6) [OF te] by blast
    with t sep [OF b(1) t(1)] te show ?thesis by simp
  qed
  have "(task, t) \<in> (\<lambda>r. (tte_Task r, te_Trigger (tte_TriggerEvent r))) ` set ?rs"
    if p: "(task, t) \<in> P" "CanExecute task" "agent_has a task t" "t \<in> te_Trigger ` snd ` set calls" for task t
  proof -
    obtain te where te: "te \<in> snd ` set calls" "t = te_Trigger te" using p(4) by blast
    with assms(6) [OF te(1)] p(1-3) have "starts P a te task" by (auto simp: starts_def)
    with te(1) have "te \<in> set (map tte_TriggerEvent ?rs)" unfolding runs(1) by auto
    then obtain r where r: "r \<in> set ?rs" "tte_TriggerEvent r = te" by auto
    with sound [OF r(1)] te(2) p(1) sep [of "tte_Task r" t task t] have "tte_Task r = task" by simp
    with r te(2) show ?thesis by force
  qed
  then have "{(task, t). (task, t) \<in> P \<and> CanExecute task \<and> agent_has a task t \<and> t \<in> te_Trigger ` snd ` set calls} \<subseteq>
      (\<lambda>r. (tte_Task r, te_Trigger (tte_TriggerEvent r))) ` set ?rs" by blast
  moreover have "(\<lambda>r. (tte_Task r, te_Trigger (tte_TriggerEvent r))) ` set ?rs \<subseteq>
      {(task, t). (task, t) \<in> P \<and> CanExecute task \<and> agent_has a task t \<and> t \<in> te_Trigger ` snd ` set calls}" using sound by blast
  ultimately show ?thesis using ids by (intro conjI subset_antisym)
qed

section \<open>The sources of the calls\<close>

lemma flow_children:
  assumes "flow_state se env neat P D room (ts, w)" and "app_taskScheduler a = Some ts"
  obtains c v f where "agent_children a = [CronChild c, EventChild v, FSChild f]"
    and "cron_carries se P (co_ids (ts_triggersScheduler ts)) c" and "event_carries se P v w"
    and "fs_carries se neat P (co_ids (ts_triggersScheduler ts)) f"
  by (rule agent_carriesD [OF flow_stateD(6) [OF assms(1)]], rule that) (simp_all add: agent_children_def assms(2))

text \<open>A job of \<open>gocron\<close>, whatever trigger it was added for.\<close>

lemma flow_cron_job:
  assumes "flow_state se env neat P D room (ts, w)" and "app_taskScheduler a = Some ts" and "task_orders order a"
  shows "map tte_TriggerEvent (agent_cron_job se now order i t a) =
      filter (\<lambda>te. \<exists>task. starts P a te task) [\<lparr>te_TriggerID = i, te_Trigger = t, te_Params = fmempty\<rparr>]"
    and "\<forall>r \<in> set (agent_cron_job se now order i t a). starts P a (tte_TriggerEvent r) (tte_Task r)"
proof -
  obtain c v f where kids: "agent_children a = [CronChild c, EventChild v, FSChild f]" and "cron_callback c = Some (se_taskTrigger se)"
    using flow_children [OF assms(1,2)] unfolding cron_carries_def by metis
  then have "agent_cron_job se now order i t a =
      agent_fired se now order [(se_taskTrigger se, \<lparr>te_TriggerID = i, te_Trigger = t, te_Params = fmempty\<rparr>)] a"
    by (simp add: agent_cron_job_def Cron_trigger_def)
  with fired_runs [OF assms, of "[(se_taskTrigger se, \<lparr>te_TriggerID = i, te_Trigger = t, te_Params = fmempty\<rparr>)]" now]
  show "map tte_TriggerEvent (agent_cron_job se now order i t a) =
      filter (\<lambda>te. \<exists>task. starts P a te task) [\<lparr>te_TriggerID = i, te_Trigger = t, te_Params = fmempty\<rparr>]"
    and "\<forall>r \<in> set (agent_cron_job se now order i t a). starts P a (tte_TriggerEvent r) (tte_Task r)" by simp_all
qed

text \<open>An event in the queue.\<close>

lemma flow_event_has:
  assumes "flow_state se env neat P D room (ts, w)" and "app_taskScheduler a = Some ts" and "(task, t) \<in> P" and "trigger_Name t = TRIGGER_EVENT"
  shows "agent_has a task t"
  using ts_carriesD(3) [OF flow_stateD(5) [OF assms(1)] assms(3) never_refused_event [OF assms(4)]] by (simp add: agent_has_def assms(2))

lemma flow_drain:
  assumes "flow_state se env neat P D room (ts, w)" and "app_taskScheduler a = Some ts" and "task_orders order a"
    and "\<And>v. event_child (agent_children a) = Some v \<Longrightarrow>
      range_order (nested (ev_eventTriggers v) (event_EventKey x)) (idsOf (event_EventKey x))"
  shows "distinct (map (\<lambda>r. te_TriggerID (tte_TriggerEvent r)) (agent_drain se now idsOf order x a)) \<and>
    (\<lambda>r. (tte_Task r, te_Trigger (tte_TriggerEvent r))) ` set (agent_drain se now idsOf order x a) =
      {(task, t). (task, t) \<in> P \<and> CanExecute task \<and> on_event (event_EventKey x) t}"
proof -
  let ?key = "event_EventKey x"
  obtain c v f where kids: "agent_children a = [CronChild c, EventChild v, FSChild f]" and v: "event_carries se P v w"
    using flow_children [OF assms(1,2)] by metis
  let ?m = "nested (ev_eventTriggers v) ?key"
  have cb: "ev_callback v = Some (se_taskTrigger se)" and ok: "event_ok v w"
    and trig: "\<And>i t. fmlookup (ev_triggers v) i = Some t \<longleftrightarrow>
      (\<exists>task. (task, t) \<in> P \<and> trigger_Name t = TRIGGER_EVENT \<and> trigger_id t = i)"
    using v unfolding event_carries_def by blast+
  have books: "fmlookup ?m i = Some t \<longleftrightarrow> (\<exists>task. (task, t) \<in> P \<and> on_event ?key t \<and> trigger_id t = i)" for i t
    using ok event_books_simps(3) [of v ?key i t] trig [of i t] by (auto simp: event_ok_def on_event_def)
  have ids: "range_order ?m (idsOf ?key)" using assms(4) kids by simp
  let ?te = "\<lambda>i. \<lparr>te_TriggerID = i, te_Trigger = the (fmlookup ?m i),
      te_Params = fmupd ''EVENT_ID'' (VString (event_ID x)) fmempty\<rparr>"
  let ?calls = "map (\<lambda>i. (se_taskTrigger se, ?te i)) (idsOf ?key)"
  have "fst (Event_drain_step idsOf (Some x) v) = ?calls"
    using cb range_order_length [OF ids]
    by (cases "fmlookup (ev_eventTriggers v) ?key") (simp_all add: Event_drain_step_def)
  then have run: "agent_drain se now idsOf order x a = agent_fired se now order ?calls a" by (simp add: agent_drain_def kids)
  have pair: "\<exists>task. (task, the (fmlookup ?m i)) \<in> P \<and> on_event ?key (the (fmlookup ?m i)) \<and> trigger_id (the (fmlookup ?m i)) = i"
    if i: "i \<in> set (idsOf ?key)" for i
  proof -
    obtain t where t: "fmlookup ?m i = Some t" using i range_order_lookup [OF ids, of i] by auto
    with books [of i t] show ?thesis by simp
  qed
  have "te_Trigger ` snd ` set ?calls = {t. \<exists>task. (task, t) \<in> P \<and> on_event ?key t}"
  proof (intro set_eqI iffI)
    fix t assume "t \<in> {t. \<exists>task. (task, t) \<in> P \<and> on_event ?key t}"
    then have "fmlookup ?m (trigger_id t) = Some t" using books by blast
    moreover from this have "trigger_id t \<in> set (idsOf ?key)" using range_order_lookup [OF ids] by auto
    ultimately show "t \<in> te_Trigger ` snd ` set ?calls" by force
  qed (use pair in auto)
  moreover have "agent_has a task t" if "(task, t) \<in> P" "on_event ?key t" for task t
    using that flow_event_has [OF assms(1,2)] by (simp add: on_event_def)
  ultimately have "{(task, t). (task, t) \<in> P \<and> CanExecute task \<and> agent_has a task t \<and> t \<in> te_Trigger ` snd ` set ?calls} =
      {(task, t). (task, t) \<in> P \<and> CanExecute task \<and> on_event ?key t}" by auto
  with fired_pairs [OF assms(1-3), of ?calls now] pair range_order_distinct [OF ids] show ?thesis
    unfolding run by (fastforce simp: o_def)
qed

text \<open>A change of a file.\<close>

definition on_file :: "string \<Rightarrow> task_trigger \<Rightarrow> bool" where
  "on_file path t \<longleftrightarrow> trigger_Name t = TRIGGER_FSNOTIFY \<and> (\<exists>root. Trigger_MustString t = Inr root \<and> matchesPath root path)"

definition file_orders :: "string list \<Rightarrow> (string \<Rightarrow> u64 list) \<Rightarrow> ('g, 'j, 'n) child composite_scheduler app_scheduler \<Rightarrow> bool" where
  "file_orders paths idsOf a \<longleftrightarrow>
     (\<forall>f. fs_child (agent_children a) = Some f \<longrightarrow> range_order (fs_pathTriggers f) paths \<and>
        (\<forall>p. range_order (nested (fs_pathTriggers f) p) (idsOf p)))"

lemma distinct_concat_map:
  assumes "distinct xs" and "\<And>x. x \<in> set xs \<Longrightarrow> distinct (f x)"
    and "\<And>x y z. x \<in> set xs \<Longrightarrow> y \<in> set xs \<Longrightarrow> z \<in> set (f x) \<Longrightarrow> z \<in> set (f y) \<Longrightarrow> x = y"
  shows "distinct (concat (map f xs))"
  using assms
proof (induction xs)
  case (Cons x xs)
  have "set (f x) \<inter> set (concat (map f xs)) = {}"
  proof (rule ccontr)
    assume "set (f x) \<inter> set (concat (map f xs)) \<noteq> {}"
    then obtain y z where z: "y \<in> set xs" "z \<in> set (f x)" "z \<in> set (f y)" by auto
    from Cons.prems(3) [OF _ _ z(2,3)] z(1) have "x = y" by simp
    with z(1) Cons.prems(1) show False by simp
  qed
  moreover have "distinct (concat (map f xs))" using Cons.prems by (intro Cons.IH) auto
  ultimately show ?case using Cons.prems(2) [of x] by simp
qed simp

lemma flow_file_event:
  assumes "flow_state se env True P D room (ts, w)" and "app_taskScheduler a = Some ts" and "task_orders order a"
    and "file_orders paths idsOf a" and "filepath_Abs wd name = Inr path"
  shows "distinct (map (\<lambda>r. te_TriggerID (tte_TriggerEvent r)) (agent_file_event se now wd paths idsOf order name op a)) \<and>
    (\<lambda>r. (tte_Task r, te_Trigger (tte_TriggerEvent r))) ` set (agent_file_event se now wd paths idsOf order name op a) =
      {(task, t). (task, t) \<in> P \<and> CanExecute task \<and> agent_has a task t \<and> on_file path t}"
proof -
  let ?ids = "co_ids (ts_triggersScheduler ts)"
  note sep = separate_pairsD(1) [OF flow_stateD(4) [OF assms(1)]]
  obtain c v f where kids: "agent_children a = [CronChild c, EventChild v, FSChild f]" and f: "fs_carries se True P ?ids f"
    using flow_children [OF assms(1,2)] by metis
  then have cb: "fs_callback f = Some (se_taskTrigger se)" and tables: "fs_tables P ?ids f" by (simp_all add: fs_carries_def)
  have paths: "range_order (fs_pathTriggers f) paths" and ids: "range_order (nested (fs_pathTriggers f) p) (idsOf p)" for p
    using assms(4) kids by (simp_all add: file_orders_def)
  note books = fs_tablesD(2) [OF tables]
  have has: "agent_has a task t \<longleftrightarrow> fmlookup ?ids (trigger_id t) \<noteq> None" if "(task, t) \<in> P" for task t
    using flow_stateD(7) [OF assms(1)] that by (auto simp: books_agree_def agent_has_def assms(2))
  let ?te = "\<lambda>root i. \<lparr>te_TriggerID = i, te_Trigger = the (fmlookup (nested (fs_pathTriggers f) root) i),
      te_Params = fmupd ''FILEPATH'' (VString path) (fmupd ''FSNOTIFY_OP'' (VString op) fmempty)\<rparr>"
  let ?of = "\<lambda>root. if matchesPath root path then idsOf root else []"
  let ?calls = "concat (map (\<lambda>root. map (\<lambda>i. (se_taskTrigger se, ?te root i)) (?of root)) paths)"
  have "dispatchEvent wd paths idsOf name op f = ?calls"
    unfolding dispatchEvent_def cb assms(5) by (simp add: Let_def if_distrib cong: if_cong)
  then have run: "agent_file_event se now wd paths idsOf order name op a = agent_fired se now order ?calls a"
    by (simp add: agent_file_event_def kids)
  have pair: "watches P ?ids root i (the (fmlookup (nested (fs_pathTriggers f) root) i))" if i: "i \<in> set (idsOf root)" for root i
  proof -
    obtain t where t: "fmlookup (nested (fs_pathTriggers f) root) i = Some t" using i range_order_lookup [OF ids, of i root] by auto
    with books [of root i t] show ?thesis by simp
  qed
  have "distinct (concat (map ?of paths))"
  proof (rule distinct_concat_map)
    show "distinct (?of root)" for root using range_order_distinct [OF ids] by simp
    fix p q i assume "i \<in> set (?of p)" "i \<in> set (?of q)"
    then have "i \<in> set (idsOf p)" "i \<in> set (idsOf q)" by (auto split: if_splits)
    from pair [OF this(1)] pair [OF this(2)] show "p = q"
      unfolding watches_def using sep by (metis sum.inject(2))
  qed (rule range_order_distinct [OF paths])
  moreover have "map (te_TriggerID \<circ> snd) ?calls = concat (map ?of paths)"
    by (simp add: map_concat o_def cong: map_cong)
  ultimately have dist: "distinct (map (te_TriggerID \<circ> snd) ?calls)" by simp
  have triggers: "t \<in> te_Trigger ` snd ` set ?calls \<longleftrightarrow> on_file path t"
    if t: "(task, t) \<in> P" "agent_has a task t" for task t
  proof
    assume "t \<in> te_Trigger ` snd ` set ?calls"
    then obtain root i where "i \<in> set (idsOf root)" "matchesPath root path" "t = the (fmlookup (nested (fs_pathTriggers f) root) i)"
      by (auto split: if_splits)
    with pair [of i root] show "on_file path t" by (auto simp: watches_def on_file_def)
  next
    assume "on_file path t"
    then obtain root where root: "trigger_Name t = TRIGGER_FSNOTIFY" "Trigger_MustString t = Inr root" "matchesPath root path"
      by (auto simp: on_file_def)
    with t has [OF t(1)] have "watches P ?ids root (trigger_id t) t" by (auto simp: watches_def)
    with books have look: "fmlookup (nested (fs_pathTriggers f) root) (trigger_id t) = Some t" by blast
    then have "trigger_id t \<in> set (idsOf root)" using range_order_lookup [OF ids] by auto
    moreover have "root \<in> set paths"
      using look range_order_lookup [OF paths] by (cases "fmlookup (fs_pathTriggers f) root") auto
    moreover have "te_Trigger (?te root (trigger_id t)) = t" using look by simp
    ultimately show "t \<in> te_Trigger ` snd ` set ?calls" using root(3) by force
  qed
  have "{(task, t). (task, t) \<in> P \<and> CanExecute task \<and> agent_has a task t \<and> t \<in> te_Trigger ` snd ` set ?calls} =
      {(task, t). (task, t) \<in> P \<and> CanExecute task \<and> agent_has a task t \<and> on_file path t}" using triggers by blast
  moreover have "\<exists>task. (task, te_Trigger te) \<in> P \<and> trigger_id (te_Trigger te) = te_TriggerID te" if "te \<in> snd ` set ?calls" for te
    using that pair by (fastforce simp: watches_def split: if_splits)
  moreover have "\<forall>call \<in> set ?calls. fst call = se_taskTrigger se" by auto
  ultimately show ?thesis using fired_pairs [OF assms(1-3) _ dist, of now] unfolding run by simp
qed

end
