(* ===== verification/Agent_Flow.thy ===== *)
theory Agent_Flow
  imports Agent_Fires
begin

text \<open>
  From the messages of the server to the runs of tasks, across the components: on the state that \<open>Start\<close> leaves, the messages of
  any number of connections, in any number and any order, leave the agent subscribed to the events of its plan, and an event then runs
  the tasks of the plan.
\<close>

section \<open>What the agent has subscribed to\<close>

lemma flow_subscribed:
  assumes "event_ok v w" and "ev_queue v = Some q"
    and "\<And>i t. fmlookup (ev_triggers v) i = Some t \<longleftrightarrow>
      (\<exists>task. (task, t) \<in> P \<and> trigger_Name t = TRIGGER_EVENT \<and> trigger_id t = i)"
  shows "fmlookup (q_subscribed q) key \<noteq> None \<longleftrightarrow>
    (\<exists>(task, t) \<in> P. on_event key t)"
proof -
  have books: "event_books v" and dom: "fmdom' (q_subscribed q) = fmdom' (ev_eventTriggers v)"
    using assms(1,2) by (auto simp: event_ok_def)
  have "fmlookup (q_subscribed q) key \<noteq> None \<longleftrightarrow> fmlookup (ev_eventTriggers v) key \<noteq> None"
    using dom by (metis fmlookup_dom'_iff not_None_eq)
  also have "\<dots> \<longleftrightarrow> nested (ev_eventTriggers v) key \<noteq> fmempty"
    using event_books_simps(1) [OF books, of key] by (cases "fmlookup (ev_eventTriggers v) key") auto
  also have "\<dots> \<longleftrightarrow> (\<exists>i t. fmlookup (ev_triggers v) i = Some t \<and> Trigger_MustString t = Inr key)"
    using event_books_simps(3) [OF books, of key] by (simp add: fmap_nonempty_iff)
  also have "\<dots> \<longleftrightarrow> (\<exists>(task, t) \<in> P. on_event key t)"
    unfolding assms(3) on_event_def by blast
  finally show ?thesis .
qed

lemma sole_channels:
  assumes "queue_ok q w" and "\<forall>k i ch. ws_registered w k i = Some ch \<longrightarrow> ch = q_Channel q"
  shows "nested (ws_eventChannels w) key =
    (case fmlookup (q_subscribed q) key of None \<Rightarrow> fmempty | Some i \<Rightarrow> fmupd i (q_Channel q) fmempty)"
proof (rule fmap_ext)
  fix i
  have "ws_registered w key i = Some (q_Channel q) \<longleftrightarrow> fmlookup (q_subscribed q) key = Some i"
    using assms(1) by (simp add: queue_ok_def ws_reg.linked_def)
  moreover have "ws_registered w key i = None \<or> ws_registered w key i = Some (q_Channel q)"
    using assms(2) by (cases "ws_registered w key i") auto
  ultimately show "fmlookup (nested (ws_eventChannels w) key) i =
      fmlookup (case fmlookup (q_subscribed q) key of None \<Rightarrow> fmempty | Some i \<Rightarrow> fmupd i (q_Channel q) fmempty) i"
    by (auto simp: ws_registered_def split: option.split)
qed

lemma flow_queue:
  assumes "flow_state se env neat P D room (ts, w)"
  obtains v q where "event_ok v w" and "ev_queue v = Some q" and "queue_ok q w"
    and "\<forall>k i ch. ws_registered w k i = Some ch \<longrightarrow> ch = q_Channel q"
    and "\<And>i t. fmlookup (ev_triggers v) i = Some t \<longleftrightarrow>
      (\<exists>task. (task, t) \<in> P \<and> trigger_Name t = TRIGGER_EVENT \<and> trigger_id t = i)"
proof (rule agent_carriesD [OF flow_stateD(6) [OF assms]])
  fix v
  assume v: "event_carries se P v w"
  then obtain q where "ev_queue v = Some q" "queue_ok q w" "\<forall>k i ch. ws_registered w k i = Some ch \<longrightarrow> ch = q_Channel q"
    by (auto simp: event_carries_def event_ok_def agent_client_def)
  with v show thesis by (intro that) (auto simp: event_carries_def)
qed

lemma flow_server:
  assumes "flow_state se env neat P D room (ts, w)"
  shows "server_subscriptions w = {key. \<exists>(task, t) \<in> P. on_event key t}"
proof (rule flow_queue [OF assms])
  fix v q
  assume ok: "event_ok v w" and q: "ev_queue v = Some q" "queue_ok q w"
      "\<forall>k i ch. ws_registered w k i = Some ch \<longrightarrow> ch = q_Channel q"
    and books: "\<And>i t. fmlookup (ev_triggers v) i = Some t \<longleftrightarrow>
      (\<exists>task. (task, t) \<in> P \<and> trigger_Name t = TRIGGER_EVENT \<and> trigger_id t = i)"
  have "server_subscriptions w = {key. \<exists>i ch. ws_registered w key i = Some ch}"
    using q(2) by (simp add: queue_ok_def ws_reg.synced_def)
  also have "\<dots> = {key. fmlookup (q_subscribed q) key \<noteq> None}"
    by (auto simp: ws_registered_def sole_channels [OF q(2,3)] split: option.splits)
  finally show ?thesis using flow_subscribed [OF ok q(1) books] by simp
qed

lemma flow_event_message:
  assumes "flow_state se env neat P D room (ts, w)" and "env_event henv b = Inr x"
    and "range_order (nested (ws_eventChannels w) (event_EventKey x)) (env_channel_order henv (event_EventKey x))"
    and "\<forall>i. env_accepts henv i"
  shows "\<exists>ch. handleMessage henv \<lparr>i_MessageType = ''new_event'', i_Data = b\<rparr> w =
    Inr (if event_EventKey x \<in> server_subscriptions w then [Deliver ch x] else [], None, w)"
proof (rule flow_queue [OF assms(1)])
  fix q
  let ?key = "event_EventKey x"
  assume q: "queue_ok q w" "\<forall>k i ch. ws_registered w k i = Some ch \<longrightarrow> ch = q_Channel q"
  note chans = sole_channels [OF q, of ?key]
  have server: "?key \<in> server_subscriptions w \<longleftrightarrow> fmlookup (q_subscribed q) ?key \<noteq> None"
    using q(1) chans by (auto simp: queue_ok_def ws_reg.synced_def ws_registered_def split: option.splits)
  have "onNewEvent (env_channel_order henv ?key) (env_accepts henv) x w =
      (if ?key \<in> server_subscriptions w then [Deliver (q_Channel q) x] else [])"
  proof (cases "fmlookup (q_subscribed q) ?key")
    case None
    with chans range_order_length [OF assms(3)] have "env_channel_order henv ?key = []" by simp
    with None server show ?thesis by (simp add: onNewEvent_def split: option.split)
  next
    case (Some i)
    with chans assms(3) have "env_channel_order henv ?key = [i]" by (simp add: range_order_single)
    moreover from Some chans have "fmlookup (ws_eventChannels w) ?key = Some (fmupd i (q_Channel q) fmempty)"
      by (cases "fmlookup (ws_eventChannels w) ?key") (auto dest: arg_cong [where f = "\<lambda>m. fmlookup m i"])
    ultimately show ?thesis using Some server assms(4) by (simp add: onNewEvent_def)
  qed
  then show ?thesis using assms(2) by (auto simp: handleMessage_def decoded_def)
qed

section \<open>The agent after \<open>Start\<close>\<close>

lemma agent_started:
  assumes "agent_composite g (Inr n) = Inr sched"
  shows "\<exists>e1 c f. Composite_Start (Child_ops env) (Composite_SetCallback (Child_ops env) (Some cb) sched, w) = Inr (None, e1, w) \<and>
    co_childSchedulers e1 = [CronChild c, EventChild (NewTelephonistScheduler
      \<lparr>ev_callback := Some cb, ev_queue := Some (NewQueue (ae_mkchan env w))\<rparr>), FSChild f] \<and> cron_callback c = Some cb \<and>
    fs_callback f = Some cb \<and> fs_pathTriggers f = fmempty \<and> fs_triggers f = fmempty \<and> co_ids e1 = fmempty"
  using assms
  by (auto simp: NewFSTriggersScheduler_def Cron_SetCallback_def agent_composite_eq NewCompositeTriggersScheduler_def NewTelephonistScheduler_def Composite_SetCallback_def
      Event_SetCallback_def FS_SetCallback_def Composite_Start_def as_child_def Cron_Start_def Event_Start_def FS_Start_def
      fs_rdy_def)

lemma fresh_event_ok:
  assumes "ws_eventChannels w = fmempty" and "server_subscriptions w = {}"
    and "v = NewTelephonistScheduler\<lparr>ev_callback := cb, ev_queue := Some (NewQueue ch)\<rparr>"
    and "opt_OnTask (ws_opts w) = Some (se_onTask se)" and "opt_OnTasks (ws_opts w) = Some (se_onTasks se)"
    and "opt_OnTaskRemoved (ws_opts w) = Some (se_onTaskRemoved se)" and "ws_state w \<in> {StatePreparing, StateConnected}"
  shows "event_ok v w \<and> event_rdy v \<and> agent_client se v w"
  using assms
  by (auto simp: event_ok_def event_books_def event_rdy_def agent_client_def queue_ok_def ws_channels_ok_def ws_registered_def
      ws_reg.linked_def ws_reg.synced_def NewQueue_def NewTelephonistScheduler_def)

lemma empty_ts_carries:
  "ts_carries env {} D \<lparr>ts_triggersScheduler = e, ts_tasks = fmempty, ts_callback = cb, ts_triggerTasks = fmempty\<rparr>"
  by (simp add: ts_carries_def ts_scheduled_def)

text \<open>
  The agent after \<open>Start\<close>, with a client on a connection that carries no subscription yet.
\<close>

definition just_started ::
  "start_env \<Rightarrow> ('g, 'j, 'n) agent_env \<Rightarrow> ('g, 'j, 'n) child composite_scheduler app_scheduler \<Rightarrow> ws_client \<Rightarrow> bool" where
  "just_started se env a w \<longleftrightarrow>
     (\<exists>g n e d e' d' w0. App_Start se env g (Inr n) e d = Inr (None, e', d') \<and> app_taskScheduler (ag_app e) = None \<and>
        a = ag_app e' \<and> ag_wsc e' = Some w0 \<and> ws_opts w = ws_opts w0) \<and>
     ws_live w \<and> ws_state w \<in> {StatePreparing, StateConnected} \<and> ws_eventChannels w = fmempty \<and> server_subscriptions w = {}"

lemma just_startedI:
  assumes "App_Start se env g (Inr n) e d = Inr (None, e', d')" and "app_taskScheduler (ag_app e) = None"
    and "ag_wsc e' = Some w0" and "ws_opts w = ws_opts w0" and "ws_live w" and "ws_eventChannels w = fmempty"
    and "server_subscriptions w = {}" and "ws_state w \<in> {StatePreparing, StateConnected}"
  shows "just_started se env (ag_app e') w"
  unfolding just_started_def using assms by blast


lemma App_Start_follows:
  assumes "App_Start se env g (Inr n) e d = Inr (None, e', d')" and "app_taskScheduler (ag_app e) = None"
    and "ag_wsc e' = Some w0" and "ws_opts w = ws_opts w0" and "ws_live w" and "ws_eventChannels w = fmempty"
    and "server_subscriptions w = {}" and "unat (ws_eventChannelsSeq w) + room < 2 ^ 32"
    and "ws_state w \<in> {StatePreparing, StateConnected}"
  shows "follows se env neat no_plan room (ag_app e', w)"
proof -
  obtain sched :: "('a, 'b, 'c) child composite_scheduler" where sched: "agent_composite g (Inr n) = Inr sched"
    by (simp add: agent_composite_eq)
  obtain err f d1 where load: "LoadOrWrite (se_codec se) (se_io se) d
      \<lparr>ecf_file = ag_configPath e, ecf_Value = \<lparr>ec_Tasks = app_Tasks (ag_app e)\<rparr>\<rparr> = (err, f, d1)" by (rule prod_cases3)
  have err: "err = None" using assms(1,2) load by (cases err) (simp_all add: App_Start_def Let_def)
  obtain cl where cl: "ag_client e = Some cl"
    using assms(1,2) load err by (cases "ag_client e") (simp_all add: App_Start_def Let_def)
  let ?w = "NewWSClient (se_fresh se) \<lparr>opt_CompatibilityKey = [], opt_InstanceID = ag_InstanceID e, opt_MachineID = [],
      opt_ConnectionID = se_connection se (ag_InstanceID e), opt_OnTask = Some (se_onTask se),
      opt_OnTasks = Some (se_onTasks se), opt_OnTaskRemoved = Some (se_onTaskRemoved se),
      opt_OnConnected = Some (se_onConnected se)\<rparr>"
  from agent_started [OF sched, of env "se_taskTrigger se" ?w] obtain e1 c fs where
    start: "Composite_Start (Child_ops env) (Composite_SetCallback (Child_ops env) (Some (se_taskTrigger se)) sched, ?w) =
      Inr (None, e1, ?w)"
    and kids: "co_childSchedulers e1 = [CronChild c, EventChild (NewTelephonistScheduler
      \<lparr>ev_callback := Some (se_taskTrigger se), ev_queue := Some (NewQueue (ae_mkchan env ?w))\<rparr>), FSChild fs]"
    and fs: "cron_callback c = Some (se_taskTrigger se)" "fs_callback fs = Some (se_taskTrigger se)"
      "fs_pathTriggers fs = fmempty" "fs_triggers fs = fmempty" "co_ids e1 = fmempty" by blast
  let ?ts = "\<lparr>ts_triggersScheduler = e1, ts_tasks = fmempty, ts_callback = Some (se_onTrigger se), ts_triggerTasks = fmempty\<rparr>"
  have result: "app_taskScheduler (ag_app e') = Some ?ts" "ag_wsc e' = Some ?w"
    using assms(1,2) load err cl sched start
    by (auto simp: App_Start_def createExecutor_def getConnectionID_def NewTaskScheduler_def TS_Start_def Let_def TS_SetCallback_def)
  with assms(3,4) have opts: "opt_OnTask (ws_opts w) = Some (se_onTask se)" "opt_OnTasks (ws_opts w) = Some (se_onTasks se)"
    "opt_OnTaskRemoved (ws_opts w) = Some (se_onTaskRemoved se)" by (auto simp: NewWSClient_def)
  have "cron_carries se {} (co_ids e1) c" "fs_carries se neat {} (co_ids e1) fs" "ids_carries env neat {} {} (co_ids e1)"
    using fs by (simp_all add: cron_carries_def fs_carries_def fs_tables_def watches_def fs_rdy_def ids_carries_def)
  then have "agent_carries se env neat {} {} e1 w"
    using fresh_event_ok [where cb = "Some (se_taskTrigger se)" and ch = "ae_mkchan env ?w", OF assms(6,7) refl opts assms(9)]
    by (intro agent_carriesI [OF kids]) (simp_all add: event_carries_def NewTelephonistScheduler_def)
  with assms(5,8) have "flow_state se env neat {} {} room (?ts, w)"
    by (simp add: flow_state_def empty_ts_carries separate_pairs_def books_agree_def)
  with result(1) show ?thesis by (simp add: follows_def)
qed

lemma just_started_follows:
  assumes "just_started se env a w" and "unat (ws_eventChannelsSeq w) + room < 2 ^ 32"
  shows "follows se env neat no_plan room (a, w)"
  using assms unfolding just_started_def by (auto intro: App_Start_follows)

section \<open>What the agent does for a plan\<close>

lemma follows_server:
  assumes "follows se env neat pl room (a, w)"
  shows "server_subscriptions w = plan_events pl"
  using assms flow_server unfolding follows_def plan_events_def by force

text \<open>The orders in which an event walks over the maps of the agent.\<close>

definition drain_orders ::
  "(string \<Rightarrow> u64 list) \<Rightarrow> (u64 \<Rightarrow> uuid list) \<Rightarrow> string \<Rightarrow> ('g, 'j, 'n) child composite_scheduler app_scheduler \<Rightarrow> bool" where
  "drain_orders idsOf order key a \<longleftrightarrow> task_orders order a \<and>
     (\<forall>v. event_child (agent_children a) = Some v \<longrightarrow> range_order (nested (ev_eventTriggers v) key) (idsOf key))"

lemma task_orders_exist: "\<exists>order. task_orders order a"
proof (cases "app_taskScheduler a")
  case (Some ts)
  have "task_orders (\<lambda>i. sorted_list_of_fset (fmdom (ts_registered ts i))) a"
    using Some by (simp add: task_orders_def sorted_range_order)
  then show ?thesis by blast
qed (simp add: task_orders_def)

lemma drain_orders_exist: "\<exists>idsOf order. drain_orders idsOf order key a"
proof -
  obtain order where "task_orders order a" using task_orders_exist by blast
  then have "drain_orders (\<lambda>key. case event_child (agent_children a) of None \<Rightarrow> []
    | Some v \<Rightarrow> sorted_list_of_fset (fmdom (nested (ev_eventTriggers v) key))) order key a"
    by (simp add: drain_orders_def sorted_range_order)
  then show ?thesis by blast
qed

lemma follows_drain:
  assumes "follows se env neat pl room (a, w)" and "drain_orders idsOf order (event_EventKey x) a"
  shows "distinct (map (\<lambda>r. te_TriggerID (tte_TriggerEvent r)) (agent_drain se now idsOf order x a)) \<and>
    (\<lambda>r. (tte_Task r, te_Trigger (tte_TriggerEvent r))) ` set (agent_drain se now idsOf order x a) =
      {(task, t). (task, t) \<in> planned pl \<and> CanExecute task \<and> on_event (event_EventKey x) t}"
proof -
  obtain ts where ts: "app_taskScheduler a = Some ts" and flow: "flow_state se env neat (planned pl) (fset (pl_gone pl)) room (ts, w)"
    using assms(1) by (auto simp: follows_def)
  show ?thesis using assms(2) by (intro flow_drain [OF flow ts]) (simp_all add: drain_orders_def)
qed

lemma follows_event:
  assumes "follows se env neat pl room (a, w)" and "env_event henv b = Inr x" and "\<forall>m. range_order m (pickC m)"
    and "\<forall>i. env_accepts henv i"
  shows "\<exists>ch. agent_message se ops pick pickT (at_client pickE pickC w henv) \<lparr>i_MessageType = ''new_event'', i_Data = b\<rparr> (a, w) =
    Inr (if event_EventKey x \<in> plan_events pl then [Deliver ch x] else [], a, w)"
proof -
  let ?env = "at_client pickE pickC w henv"
  obtain ts where "app_taskScheduler a = Some ts" and flow: "flow_state se env neat (planned pl) (fset (pl_gone pl)) room (ts, w)"
    using assms(1) by (auto simp: follows_def)
  have "env_event ?env b = Inr x" "range_order (nested (ws_eventChannels w) (event_EventKey x)) (env_channel_order ?env (event_EventKey x))"
    "\<forall>i. env_accepts ?env i" using assms(2-4) by (simp_all add: at_client_def)
  from flow_event_message [OF flow this] obtain ch where run:
    "handleMessage ?env \<lparr>i_MessageType = ''new_event'', i_Data = b\<rparr> w =
      Inr (if event_EventKey x \<in> plan_events pl then [Deliver ch x] else [], None, w)"
    unfolding follows_server [OF assms(1)] by blast
  have "\<forall>eff \<in> set (if event_EventKey x \<in> plan_events pl then [Deliver ch x] else []). quiet eff" by (simp add: quiet_def)
  from quiet_effects [OF run this] show ?thesis by blast
qed

section \<open>Examples\<close>

text \<open>
  The server greets, sends two tasks, of which the agent cannot execute the second, and then a new version of the first, which runs
  on the event \<open>signup\<close> and no longer on \<open>login\<close>.
\<close>

abbreviation signup :: task_trigger where "signup \<equiv> event_trigger ''signup''"

definition flow_tasks :: "defined_task list" where
  "flow_tasks = [example_task 1 [login],
     (example_task 2 [event_trigger ''logout''])\<lparr>task_Body := \<lparr>body_Value = [], body_Type = ''other''\<rparr>\<rparr>]"

definition flow_handlers :: ws_env where
  "flow_handlers = example_handlers\<lparr>env_tasks := \<lambda>_. Inr flow_tasks, env_task := \<lambda>_. Inr (example_task 1 [signup]),
     env_event := \<lambda>_. Inr \<lparr>event_ID = ''e1'', event_AppID = [], event_EventKey = ''signup'', event_EventType = [], event_RelatedTask = [],
       event_PublisherIP = [], event_SequenceID = []\<rparr>\<rparr>"

definition flow_messages :: "(ws_env \<times> i_raw_message) list" where
  "flow_messages = map (\<lambda>t. (flow_handlers, \<lparr>i_MessageType = t, i_Data = []\<rparr>)) [''greetings'', ''tasks'', ''task_updated'']"

text \<open>Then the connection is lost; a first attempt to make it again gets no ticket, the second succeeds.\<close>

definition flow_connection :: ws_connection where
  "flow_connection = \<lparr>wc_failed = [(Inl [ErrText ''down''], Inr 0)], wc_ticket = ''t'', wc_conn = 5,
     wc_messages = map (\<lambda>t. (flow_handlers, \<lparr>i_MessageType = t, i_Data = []\<rparr>)) [''introduction'', ''greetings'']\<rparr>"

lemma flow_handlers_fields [simp]:
  "env_tasks flow_handlers b = Inr flow_tasks" "env_task flow_handlers b = Inr (example_task 1 [signup])"
  "env_accepts flow_handlers i"
  by (simp_all add: flow_handlers_def example_handlers_def)

lemma plain_words [simp]: "plain ''logout''" "plain ''signup''"
  by (simp_all add: plain_def between_def dquote_def backslash_def)

lemma known_event_trigger: "plain s \<Longrightarrow> known_trigger neat (event_trigger s)"
  by (simp add: known_trigger_def decodable_def event_trigger_def json_string_quoted trigger_types)

lemma login_signup: "trigger_id login \<noteq> trigger_id signup"
  by code_simp

lemma flow_executable: "filter CanExecute flow_tasks = [example_task 1 [login]]"
  by (simp add: flow_tasks_def example_task_def CanExecute_def TASK_TYPE_EXEC_def TASK_TYPE_SCRIPT_def)

lemma flow_life: "life_messages flow_messages [flow_connection] =
    map (\<lambda>t. (flow_handlers, \<lparr>i_MessageType = t, i_Data = []\<rparr>))
      [''greetings'', ''tasks'', ''task_updated'', ''introduction'', ''greetings'']"
  by (simp add: life_messages_def session_messages_def flow_messages_def flow_connection_def)

lemma flow_plan: "plan_messages (life_messages flow_messages [flow_connection]) no_plan =
    plan_task (example_task 1 [signup]) (plan_task (example_task 1 [login]) no_plan)"
  by (simp add: flow_life plan_message_def plan_list_def flow_executable)

lemma flow_connection_ok: "\<forall>c \<in> set [flow_connection]. connection_ok c"
  by (simp add: connection_ok_def flow_connection_def flow_handlers_def example_handlers_def)

lemma flow_planned: "planned (plan_messages (life_messages flow_messages [flow_connection]) no_plan) = {(example_task 1 [signup], signup)}"
  unfolding flow_plan planned_task by auto

lemma admits_one_event:
  "plain s \<Longrightarrow> trigger_id (event_trigger s) |\<notin>| pl_gone pl \<Longrightarrow>
    \<forall>(a, u) \<in> planned pl. trigger_id u \<noteq> trigger_id (event_trigger s) \<Longrightarrow> admits neat pl (example_task k [event_trigger s])"
  by (auto simp: admits_def known_event_trigger)

lemma flow_admitted: "admits_messages neat (life_messages flow_messages [flow_connection]) no_plan"
proof -
  have "admits neat no_plan (example_task 1 [login])" by (rule admits_one_event) simp_all
  moreover have "distinct (map task_ID flow_tasks)" by (simp add: flow_tasks_def)
  ultimately have tasks: "admits_list neat no_plan flow_tasks" by (simp add: admits_list_def flow_executable)
  have "old_triggers 1 no_plan = {||}" by (simp add: old_triggers_def no_plan_def)
  then have "admits neat (plan_task (example_task 1 [login]) no_plan) (example_task 1 [signup])"
    using login_signup by (intro admits_one_event) (auto simp: planned_task, simp add: plan_task_def)
  with tasks show ?thesis
    by (simp add: flow_life admits_message_def plan_message_def plan_list_def
        flow_executable)
qed

lemma flow_triggers: "messages_triggers (life_messages flow_messages [flow_connection]) = 2"
  by (simp add: flow_life messages_triggers_def message_triggers_def flow_executable)

section \<open>Properties\<close>

text \<open>
  \<open>agent_orders\<close>: the orders in which \<open>range\<close> may visit the maps. \<open>life_ok\<close>: the messages and connections the properties are about. The
  restrictions are needed: of two tasks that share a trigger only the one that was registered last runs (\<open>TS_shared_trigger_lost\<close>), and a trigger that comes back
  after an update took it away crashes the process (\<open>TS_readd_panics\<close>).
\<close>

definition agent_orders :: "pick_triggers \<Rightarrow> pick_tasks \<Rightarrow> pick_events \<Rightarrow> pick_channels \<Rightarrow> bool" where
  "agent_orders pick pickT pickE pickC \<longleftrightarrow>
     (\<forall>m. range_order m (pick m)) \<and> (\<forall>m. range_order m (pickT m)) \<and> (\<forall>m. range_order m (pickE m)) \<and> (\<forall>m. range_order m (pickC m))"

definition life_ok :: "bool \<Rightarrow> (ws_env \<times> i_raw_message) list \<Rightarrow> ws_connection list \<Rightarrow> ws_client \<Rightarrow> bool" where
  "life_ok neat ms cs w \<longleftrightarrow>
     admits_messages neat (life_messages ms cs) no_plan \<and> (\<forall>c \<in> set cs. connection_ok c) \<and>
     unat (ws_eventChannelsSeq w) + messages_triggers (life_messages ms cs) < 2 ^ 32"

lemma life_follows:
  assumes "just_started se env a w" and "life_ok neat ms cs w" and "agent_orders pick pickT pickE pickC"
  shows "\<exists>a' w'. agent_life se (agent_ops env) pick pickT pickE pickC ms cs (a, w) = Inr (a', w') \<and>
    follows se env neat (plan_messages (life_messages ms cs) no_plan) 0 (a', w') \<and>
    app_Tasks a' = config_messages (life_messages ms cs) (app_Tasks a)"
proof (rule follows_life)
  show "follows se env neat no_plan (messages_triggers (life_messages ms cs) + 0) (a, w)"
    using assms(2) by (intro just_started_follows [OF assms(1)]) (simp add: life_ok_def)
qed (use assms(2,3) in \<open>simp_all add: life_ok_def agent_orders_def\<close>)

definition pick_events_sorted :: pick_events where
  "pick_events_sorted m = sorted_list_of_fset (fmdom m)"

definition pick_channels_sorted :: pick_channels where
  "pick_channels_sorted m = sorted_list_of_fset (fmdom m)"

lemma sorted_orders: "agent_orders pick_sorted pick_tasks_sorted pick_events_sorted pick_channels_sorted"
  by (simp add: agent_orders_def pick_sorted_def pick_tasks_sorted_def pick_events_sorted_def pick_channels_sorted_def
      sorted_range_order)

lemma started_example:
  "\<exists>a w. just_started example_start_env example_agent_env a w \<and> ws_eventChannelsSeq w = 0"
proof -
  have io: "no_io_errors (se_io example_start_env)" using example_io_fine by (simp add: example_start_env_def)
  have "cd_Decode (se_codec example_start_env) ''[]'' \<lparr>ec_Tasks = app_Tasks (ag_app example_agent)\<rparr> = (None, \<lparr>ec_Tasks = example_tasks\<rparr>)"
    by (simp add: example_start_env_def)
  from App_Start_runs [OF example_agent_fields(1,2) io _ this example_connection, of "fmupd ''c'' ''[]'' fmempty" example_agent_env "[]" "[]"]
  obtain e' w0 where "App_Start example_start_env example_agent_env [] (Inr []) example_agent (fmupd ''c'' ''[]'' fmempty) =
      Inr (None, e', fmupd ''c'' ''[]'' fmempty)" "ag_wsc e' = Some w0" by auto
  then have "just_started example_start_env example_agent_env (ag_app e') (example_client\<lparr>ws_opts := ws_opts w0\<rparr>)"
    by (rule just_startedI [OF _ example_agent_fields(1)])
      (simp_all add: ws_live_def server_subscriptions_def, simp add: example_client_def)
  moreover have "ws_eventChannelsSeq (example_client\<lparr>ws_opts := ws_opts w0\<rparr>) = 0"
    by (simp add: example_client_def NewWSClient_def)
  ultimately show ?thesis by blast
qed

lemma flow_example:
  "\<exists>a w. just_started example_start_env example_agent_env a w \<and> life_ok True flow_messages [flow_connection] w"
  using started_example flow_admitted flow_connection_ok by (fastforce simp: life_ok_def flow_triggers)



text \<open>C3. An event runs the tasks of the plan, each once, when the server kept to these rules so far (\<open>life_ok\<close>): every trigger that the server sends is of a known type and can be decoded, no two triggers
  share an identifier, no trigger is in two tasks or twice in one, none comes back after an update took it away, no list has a task twice, every later
  connection opens with an introduction and greetings and is lost only between two handlers, and fewer than \<open>2^32\<close> triggers are sent in all. Then a \<open>new_event\<close> that every
  subscriber can take is handed to the queue of the event scheduler exactly when the plan has a trigger for its key, it changes nothing else,
  and draining the queue starts exactly one run for each trigger for that key of each task of the plan that the agent can execute, in the
  version that was sent last, and no other run. (With a trigger shared by two tasks only the task registered last runs,
  \<open>TS_shared_trigger_lost\<close>.)\<close>

theorem server_event_runs_plan:
  assumes "just_started se env a w" and "life_ok neat ms cs w" and "agent_orders pick pickT pickE pickC"
    and "agent_life se (agent_ops env) pick pickT pickE pickC ms cs (a, w) = Inr (a', w')"
    and "env_event henv b = Inr x" and "\<forall>i. env_accepts henv i" and "drain_orders idsOf order (event_EventKey x) a'"
  shows "(\<exists>ch. agent_message se (agent_ops env) pick pickT (at_client pickE pickC w' henv)
      \<lparr>i_MessageType = ''new_event'', i_Data = b\<rparr> (a', w') =
      Inr (if event_EventKey x \<in> plan_events (plan_messages (life_messages ms cs) no_plan) then [Deliver ch x] else [], a', w')) \<and>
    distinct (map (\<lambda>r. te_TriggerID (tte_TriggerEvent r)) (agent_drain se now idsOf order x a')) \<and>
    (\<lambda>r. (tte_Task r, te_Trigger (tte_TriggerEvent r))) ` set (agent_drain se now idsOf order x a') =
      {(task, t). (task, t) \<in> planned (plan_messages (life_messages ms cs) no_plan) \<and> CanExecute task \<and> on_event (event_EventKey x) t}"
proof -
  have follows: "follows se env neat (plan_messages (life_messages ms cs) no_plan) 0 (a', w')"
    using life_follows [OF assms(1-3)] assms(4) by auto
  have "\<forall>m. range_order m (pickC m)" using assms(3) by (simp add: agent_orders_def)
  from follows_event [OF follows assms(5) this assms(6)] follows_drain [OF follows assms(7)] show ?thesis by blast
qed

theorem server_event_runs_plan_witness:
  "\<exists>a w a' w' ch x idsOf order. just_started example_start_env example_agent_env a w \<and>
    agent_life example_start_env (agent_ops example_agent_env) pick_sorted pick_tasks_sorted pick_events_sorted
      pick_channels_sorted flow_messages [flow_connection] (a, w) = Inr (a', w') \<and>
    agent_message example_start_env (agent_ops example_agent_env) pick_sorted pick_tasks_sorted
      (at_client pick_events_sorted pick_channels_sorted w' flow_handlers)
      \<lparr>i_MessageType = ''new_event'', i_Data = []\<rparr> (a', w') = Inr ([Deliver ch x], a', w') \<and>
    tte_Task ` set (agent_drain example_start_env 0 idsOf order x a') = {example_task 1 [signup]}"
proof -
  obtain a w where start: "just_started example_start_env example_agent_env a w" "life_ok True flow_messages [flow_connection] w"
    using flow_example by blast
  from life_follows [OF start sorted_orders] obtain a' w' where
    run: "agent_life example_start_env (agent_ops example_agent_env) pick_sorted pick_tasks_sorted pick_events_sorted
      pick_channels_sorted flow_messages [flow_connection] (a, w) = Inr (a', w')" by blast
  obtain x where x: "env_event flow_handlers [] = Inr x" "event_EventKey x = ''signup''" by (simp add: flow_handlers_def)
  obtain idsOf order where orders: "drain_orders idsOf order (event_EventKey x) a'" using drain_orders_exist by blast
  have accepts: "\<forall>i. env_accepts flow_handlers i" by simp
  let ?pl = "plan_messages (life_messages flow_messages [flow_connection]) no_plan"
  note ran = server_event_runs_plan [OF start sorted_orders run x(1) accepts orders, of 0]
  have "{(task, t). (task, t) \<in> planned ?pl \<and> CanExecute task \<and> on_event (event_EventKey x) t} = {(example_task 1 [signup], signup)}"
    by (auto simp: flow_planned on_event_def x(2) example_task_def CanExecute_def TASK_TYPE_EXEC_def)
  with ran have "fst ` (\<lambda>r. (tte_Task r, te_Trigger (tte_TriggerEvent r))) ` set (agent_drain example_start_env 0 idsOf order x a') =
      {example_task 1 [signup]}" by simp
  then have "tte_Task ` set (agent_drain example_start_env 0 idsOf order x a') = {example_task 1 [signup]}"
    by (simp add: image_image)
  moreover have "event_EventKey x \<in> plan_events ?pl" by (simp add: plan_events_def flow_planned on_event_def x(2))
  with ran obtain ch where "agent_message example_start_env (agent_ops example_agent_env) pick_sorted pick_tasks_sorted
      (at_client pick_events_sorted pick_channels_sorted w' flow_handlers)
      \<lparr>i_MessageType = ''new_event'', i_Data = []\<rparr> (a', w') = Inr ([Deliver ch x], a', w')" by auto
  ultimately show ?thesis using start(1) run by (intro exI conjI)
qed

section \<open>One list of tasks\<close>

text \<open>The two theorems for the agent that was just sent its first list, where the plan is the list itself.\<close>

definition runs_on :: "string \<Rightarrow> defined_task \<Rightarrow> bool" where
  "runs_on key task \<longleftrightarrow> (\<exists>t \<in> set (task_Triggers task). on_event key t)"

definition task_list_ok :: "bool \<Rightarrow> defined_task list \<Rightarrow> ws_client \<Rightarrow> bool" where
  "task_list_ok neat tasks w \<longleftrightarrow>
     admits_list neat no_plan tasks \<and> unat (ws_eventChannelsSeq w) + list_triggers (filter CanExecute tasks) < 2 ^ 32"

lemma planned_fold:
  "distinct (map task_ID tasks) \<Longrightarrow> planned (fold plan_task tasks pl) =
    {(task, t). task \<in> set tasks \<and> t \<in> set (task_Triggers task)} \<union> {p \<in> planned pl. task_ID (fst p) \<notin> task_ID ` set tasks}"
  by (induction tasks arbitrary: pl) (auto simp: planned_task image_iff)

lemma planned_first_list:
  assumes "admits_list neat no_plan tasks"
  shows "planned (plan_list tasks no_plan) = {(task, t). task \<in> set tasks \<and> CanExecute task \<and> t \<in> set (task_Triggers task)}"
  using assms by (auto simp: plan_list_def planned_fold admits_list_def distinct_map_filter)

lemma first_list_message:
  assumes "just_started se env a w" and "task_list_ok neat tasks w" and "env_tasks henv b = Inr tasks"
    and "\<forall>m. range_order m (pick m)" and "\<forall>m. range_order m (pickT m)"
  shows "\<exists>effs a' w'. agent_message se (agent_ops env) pick pickT henv \<lparr>i_MessageType = ''tasks'', i_Data = b\<rparr> (a, w) =
      Inr (effs, a', w') \<and> follows se env neat (plan_list tasks no_plan) 0 (a', w')"
proof -
  let ?m = "\<lparr>i_MessageType = ''tasks'', i_Data = b\<rparr>"
  have "follows se env neat no_plan (message_triggers henv ?m + 0) (a, w)" "admits_message neat henv ?m no_plan"
    using assms(2,3) just_started_follows [OF assms(1)]
    by (simp_all add: task_list_ok_def message_triggers_def list_triggers_def admits_message_def)
  from follows_tasks [OF this assms(4,5)] assms(3) show ?thesis by (simp add: plan_message_def) blast
qed

theorem server_tasks_subscribed:
  assumes "just_started se env a w" and "task_list_ok neat tasks w" and "env_tasks henv b = Inr tasks"
    and "\<forall>m. range_order m (pick m)" and "\<forall>m. range_order m (pickT m)"
  shows "\<exists>effs a' w'. agent_message se (agent_ops env) pick pickT henv \<lparr>i_MessageType = ''tasks'', i_Data = b\<rparr> (a, w) =
      Inr (effs, a', w') \<and>
    server_subscriptions w' = {key. \<exists>task \<in> set tasks. CanExecute task \<and> runs_on key task}"
proof -
  have "plan_events (plan_list tasks no_plan) = {key. \<exists>task \<in> set tasks. CanExecute task \<and> runs_on key task}"
    using planned_first_list [of neat tasks] assms(2) unfolding plan_events_def task_list_ok_def runs_on_def by fastforce
  with first_list_message [OF assms] follows_server show ?thesis by metis
qed

theorem server_event_runs_tasks:
  assumes "just_started se env a w" and "task_list_ok neat tasks w" and "env_tasks henv b = Inr tasks"
    and "\<forall>m. range_order m (pick m)" and "\<forall>m. range_order m (pickT m)"
    and "agent_message se (agent_ops env) pick pickT henv \<lparr>i_MessageType = ''tasks'', i_Data = b\<rparr> (a, w) = Inr (effs, a', w')"
    and "drain_orders idsOf order (event_EventKey x) a'"
  shows "distinct (map (\<lambda>r. te_TriggerID (tte_TriggerEvent r)) (agent_drain se now idsOf order x a')) \<and>
    (\<lambda>r. (tte_Task r, te_Trigger (tte_TriggerEvent r))) ` set (agent_drain se now idsOf order x a') =
      {(task, t). task \<in> set tasks \<and> CanExecute task \<and> t \<in> set (task_Triggers task) \<and> on_event (event_EventKey x) t}"
proof -
  have "follows se env neat (plan_list tasks no_plan) 0 (a', w')" using first_list_message [OF assms(1-5)] assms(6) by auto
  from follows_drain [OF this assms(7), of now] assms(2) show ?thesis
    by (auto simp: planned_first_list task_list_ok_def)
qed

end
