(* ===== verification/Agent_Jobs.thy ===== *)
theory Agent_Jobs
  imports Agent_Flow
begin

text \<open>
  Runs that no event of the server starts: a job of \<open>gocron\<close> and a change of a file run the tasks of the plan, after any messages on any
  connections. Unlike an event, a cron expression or a path can be refused, so both say which triggers the agent has.
\<close>

section \<open>What the agent does for a plan\<close>

lemma follows_flow:
  assumes "follows se env neat pl room (a, w)"
  obtains ts where "app_taskScheduler a = Some ts" and "flow_state se env neat (planned pl) (fset (pl_gone pl)) room (ts, w)"
  using assms by (auto simp: follows_def)

lemma follows_has:
  assumes "follows se env neat pl room (a, w)" and "(task, t) \<in> planned pl" and "never_refused env t"
  shows "agent_has a task t"
  by (rule follows_flow [OF assms(1)])
    (use assms(2,3) in \<open>auto simp: agent_has_def dest: ts_carriesD(3) [OF flow_stateD(5)]\<close>)

text \<open>Every cron trigger that the agent has is on the books of the cron scheduler.\<close>

lemma follows_cron_books:
  assumes "follows se env neat pl room (a, w)" and "(task, t) \<in> planned pl" and "agent_has a task t" and "trigger_Name t = TRIGGER_CRON"
  shows "\<exists>c. cron_child (agent_children a) = Some c \<and> trigger_id t \<in> cron_ids c"
proof (rule follows_flow [OF assms(1)])
  fix ts assume ts: "app_taskScheduler a = Some ts" and flow: "flow_state se env neat (planned pl) (fset (pl_gone pl)) room (ts, w)"
  obtain c v f where kids: "agent_children a = [CronChild c, EventChild v, FSChild f]"
    and cron: "cron_carries se (planned pl) (co_ids (ts_triggersScheduler ts)) c" using flow_children [OF flow ts] by metis
  have "fmlookup (co_ids (ts_triggersScheduler ts)) (trigger_id t) \<noteq> None"
    using assms(2,3) flow_stateD(7) [OF flow] unfolding books_agree_def agent_has_def ts by auto
  then have "fmlookup (cron_jobs c) (trigger_id t) \<noteq> None" using cron assms(2,4) unfolding cron_carries_def by blast
  then show ?thesis using kids by (auto simp: cron_ids_def fmlookup_dom'_iff)
qed

lemma follows_cron_job:
  assumes "follows se env neat pl room (a, w)" and "task_orders order a"
  shows "length (agent_cron_job se now order i t a) \<le> 1 \<and>
    (\<lambda>r. (tte_Task r, tte_TriggerEvent r)) ` set (agent_cron_job se now order i t a) =
      {(task, te). te = \<lparr>te_TriggerID = i, te_Trigger = t, te_Params = fmempty\<rparr> \<and>
        (\<exists>u. (task, u) \<in> planned pl \<and> trigger_id u = i \<and> CanExecute task \<and> agent_has a task u)}"
proof (rule follows_flow [OF assms(1)])
  fix ts assume ts: "app_taskScheduler a = Some ts" and flow: "flow_state se env neat (planned pl) (fset (pl_gone pl)) room (ts, w)"
  let ?te = "\<lparr>te_TriggerID = i, te_Trigger = t, te_Params = fmempty\<rparr>" and ?rs = "agent_cron_job se now order i t a"
  note job = flow_cron_job [OF flow ts assms(2), of now i t] and sep = separate_pairsD(1) [OF flow_stateD(4) [OF flow]]
  have starts: "starts (planned pl) a ?te task \<longleftrightarrow>
      (\<exists>u. (task, u) \<in> planned pl \<and> trigger_id u = i \<and> CanExecute task \<and> agent_has a task u)" for task
    by (simp add: starts_def)
  show ?thesis
  proof (cases "\<exists>task. starts (planned pl) a ?te task")
    case False
    with job(1) have "?rs = []" by simp
    with False starts show ?thesis by auto
  next
    case True
    with job(1) obtain r where r: "?rs = [r]" "tte_TriggerEvent r = ?te" by (auto simp: map_eq_Cons_conv)
    with job(2) have "starts (planned pl) a ?te (tte_Task r)" by simp
    then have "starts (planned pl) a ?te task \<longleftrightarrow> task = tte_Task r" for task
      unfolding starts using sep by metis
    with r starts show ?thesis by auto
  qed
qed

lemma follows_file_event:
  assumes "follows se env True pl room (a, w)" and "task_orders order a" and "file_orders paths idsOf a" and "filepath_Abs wd name = Inr path"
  shows "distinct (map (\<lambda>r. te_TriggerID (tte_TriggerEvent r)) (agent_file_event se now wd paths idsOf order name op a)) \<and>
    (\<lambda>r. (tte_Task r, te_Trigger (tte_TriggerEvent r))) ` set (agent_file_event se now wd paths idsOf order name op a) =
      {(task, t). (task, t) \<in> planned pl \<and> CanExecute task \<and> agent_has a task t \<and> on_file path t}"
  by (rule follows_flow [OF assms(1)], rule flow_file_event [OF _ _ assms(2-4)])

lemma file_orders_exist: "\<exists>paths idsOf. file_orders paths idsOf a"
proof -
  have "file_orders (case fs_child (agent_children a) of None \<Rightarrow> [] | Some f \<Rightarrow> sorted_list_of_fset (fmdom (fs_pathTriggers f)))
    (\<lambda>p. case fs_child (agent_children a) of None \<Rightarrow> [] | Some f \<Rightarrow> sorted_list_of_fset (fmdom (nested (fs_pathTriggers f) p))) a"
    by (simp add: file_orders_def sorted_range_order)
  then show ?thesis by blast
qed

section \<open>Examples\<close>

text \<open>The server sends a task that runs every day and when something under \<open>/a\<close> changes.\<close>

definition daily :: task_trigger where
  "daily = \<lparr>trigger_Name = TRIGGER_CRON, trigger_Body = quoted ''@daily'', trigger_Disabled = False\<rparr>"

definition job_task :: defined_task where
  "job_task = example_task 1 [daily, fs_trigger ''/a'']"

definition job_messages :: "(ws_env \<times> i_raw_message) list" where
  "job_messages = [(example_handlers\<lparr>env_tasks := \<lambda>_. Inr [job_task]\<rparr>, \<lparr>i_MessageType = ''tasks'', i_Data = []\<rparr>)]"

lemma daily_simps [simp]: "trigger_Name daily = TRIGGER_CRON" "Trigger_MustString daily = Inr ''@daily''"
proof -
  have "plain ''@daily''" by (simp add: plain_def between_def dquote_def backslash_def)
  then show "Trigger_MustString daily = Inr ''@daily''" by (simp add: daily_def Trigger_MustString_eq json_string_quoted)
qed (simp add: daily_def)

lemma job_ids: "trigger_id daily \<noteq> trigger_id (fs_trigger ''/a'')"
  by code_simp

lemma job_task_simps [simp]: "task_Triggers job_task = [daily, fs_trigger ''/a'']" "CanExecute job_task"
  by (simp_all add: job_task_def example_task_def CanExecute_def TASK_TYPE_EXEC_def)

lemma job_planned: "planned (plan_messages (life_messages job_messages []) no_plan) = {(job_task, daily), (job_task, fs_trigger ''/a'')}"
  by (auto simp: life_messages_def session_messages_def job_messages_def plan_messages_def plan_message_def plan_list_def planned_task)

lemma job_never_refused: "never_refused example_agent_env daily" "never_refused example_agent_env (fs_trigger ''/a'')"
  by (simp_all add: never_refused_def example_agent_env_def counting_gocron_def trigger_types)

lemma job_known: "known_trigger True daily" "known_trigger True (fs_trigger ''/a'')"
  using MustString_decodable by (simp_all add: known_trigger_def trigger_types)

lemma job_example:
  "\<exists>a w a' w'. just_started example_start_env example_agent_env a w \<and> life_ok True job_messages [] w \<and>
    agent_life example_start_env (agent_ops example_agent_env) pick_sorted pick_tasks_sorted pick_events_sorted
      pick_channels_sorted job_messages [] (a, w) = Inr (a', w')"
proof -
  obtain a w where start: "just_started example_start_env example_agent_env a w" "ws_eventChannelsSeq w = 0"
    using started_example by blast
  have "admits True no_plan job_task" using job_known job_ids by (auto simp: admits_def)
  then have "life_ok True job_messages [] w"
    using start(2) by (simp add: life_ok_def life_messages_def session_messages_def job_messages_def admits_message_def admits_list_def
        messages_triggers_def message_triggers_def)
  moreover from life_follows [OF start(1) this sorted_orders] obtain a' w' where
    "agent_life example_start_env (agent_ops example_agent_env) pick_sorted pick_tasks_sorted pick_events_sorted
      pick_channels_sorted job_messages [] (a, w) = Inr (a', w')" by (elim exE conjE)
  ultimately show ?thesis using start(1) by (intro exI conjI)
qed

section \<open>Properties\<close>

text \<open>C7. A job of \<open>gocron\<close> runs the task of the plan, in its last version, when the server kept to these rules so far (\<open>life_ok\<close>): every trigger that the server sends is of a known type and can be decoded, no two triggers
  share an identifier, no trigger is in two tasks or twice in one, none comes back after an update took it away, no list has a task twice, every later
  connection opens with an introduction and greetings and is lost only between two handlers, and fewer than \<open>2^32\<close> triggers are sent in all. Then a job
  that was added for the identifier of a trigger starts one run, of the task that has the trigger in the plan, if the agent can execute it and has
  the trigger, and no other; a job whose trigger was taken away, which may still be running, starts none. The agent has every trigger of the
  plan that its scheduler does not refuse, and every cron trigger it has is on the books of the cron scheduler. (With an expression
  shared by two tasks only the task registered last runs, \<open>TS_shared_trigger_lost\<close>.)\<close>

theorem server_cron_runs_plan:
  assumes "just_started se env a w" and "life_ok neat ms cs w" and "agent_orders pick pickT pickE pickC"
    and "agent_life se (agent_ops env) pick pickT pickE pickC ms cs (a, w) = Inr (a', w')" and "task_orders order a'"
  shows "length (agent_cron_job se now order i t a') \<le> 1 \<and>
    (\<lambda>r. (tte_Task r, tte_TriggerEvent r)) ` set (agent_cron_job se now order i t a') =
      {(task, te). te = \<lparr>te_TriggerID = i, te_Trigger = t, te_Params = fmempty\<rparr> \<and>
        (\<exists>u. (task, u) \<in> planned (plan_messages (life_messages ms cs) no_plan) \<and> trigger_id u = i \<and> CanExecute task \<and> agent_has a' task u)} \<and>
    (\<forall>(task, u) \<in> planned (plan_messages (life_messages ms cs) no_plan).
      (never_refused env u \<longrightarrow> agent_has a' task u) \<and>
      (agent_has a' task u \<and> trigger_Name u = TRIGGER_CRON \<longrightarrow>
        (\<exists>c. cron_child (agent_children a') = Some c \<and> trigger_id u \<in> cron_ids c)))"
proof -
  have follows: "follows se env neat (plan_messages (life_messages ms cs) no_plan) 0 (a', w')"
    using life_follows [OF assms(1-3)] assms(4) by auto
  note job = follows_cron_job [OF follows assms(5), of now i t]
  show ?thesis
  proof (intro conjI ballI)
    fix p assume "p \<in> planned (plan_messages (life_messages ms cs) no_plan)"
    then show "case p of (task, u) \<Rightarrow> (never_refused env u \<longrightarrow> agent_has a' task u) \<and>
        (agent_has a' task u \<and> trigger_Name u = TRIGGER_CRON \<longrightarrow>
          (\<exists>c. cron_child (agent_children a') = Some c \<and> trigger_id u \<in> cron_ids c))"
      by (cases p) (simp add: follows_has [OF follows] follows_cron_books [OF follows])
  qed (use job in simp_all)
qed

theorem server_cron_runs_plan_witness:
  "\<exists>a w a' w' order. just_started example_start_env example_agent_env a w \<and>
    agent_life example_start_env (agent_ops example_agent_env) pick_sorted pick_tasks_sorted pick_events_sorted
      pick_channels_sorted job_messages [] (a, w) = Inr (a', w') \<and>
    tte_Task ` set (agent_cron_job example_start_env 0 order (trigger_id daily) daily a') = {job_task}"
proof -
  obtain a w a' w' where life: "just_started example_start_env example_agent_env a w" "life_ok True job_messages [] w"
    and run: "agent_life example_start_env (agent_ops example_agent_env) pick_sorted pick_tasks_sorted pick_events_sorted
      pick_channels_sorted job_messages [] (a, w) = Inr (a', w')" using job_example by blast
  obtain order where orders: "task_orders order a'" using task_orders_exist by blast
  let ?rs = "agent_cron_job example_start_env 0 order (trigger_id daily) daily a'"
  note ran = server_cron_runs_plan [OF life sorted_orders run orders, of 0 "trigger_id daily" daily, unfolded job_planned]
  from ran [THEN conjunct2, THEN conjunct2] have has: "agent_has a' job_task daily"
    using job_never_refused(1) by (auto dest: bspec [of _ _ "(job_task, daily)"])
  have "(\<lambda>r. (tte_Task r, tte_TriggerEvent r)) ` set ?rs =
      {(job_task, \<lparr>te_TriggerID = trigger_id daily, te_Trigger = daily, te_Params = fmempty\<rparr>)}"
    unfolding ran [THEN conjunct2, THEN conjunct1] using has job_task_simps(2) by blast
  then have "fst ` (\<lambda>r. (tte_Task r, tte_TriggerEvent r)) ` set ?rs = {job_task}" by (simp only: image_insert image_empty fst_conv)
  then have "tte_Task ` set ?rs = {job_task}" by (simp only: image_image fst_conv)
  with life(1) run show ?thesis by blast
qed

text \<open>C6. A change of a file runs the tasks of the plan, each once, when the server kept to these rules so far (\<open>life_ok\<close>): every trigger that the server sends is of a known type and can be decoded, no two triggers
  share an identifier, no trigger is in two tasks or twice in one, none comes back after an update took it away, no list has a task twice, every later
  connection opens with an introduction and greetings and is lost only between two handlers, and fewer than \<open>2^32\<close> triggers are sent in all; and the paths of the
  triggers on files are written in their normal form. Then an event of the watcher for a file starts exactly one run for each trigger whose path is a prefix,
  as a text, of the path of the file (the file itself, a directory above it, but also \<open>/a/b\<close> for \<open>/a/bc\<close>), of each task of the plan that the agent can execute and whose trigger it has, and no other run; the agent has
  every trigger of the plan that its scheduler does not refuse. (With a path shared by two tasks only the task registered last runs,
  \<open>TS_shared_trigger_lost\<close>.)\<close>

theorem server_file_runs_plan:
  assumes "just_started se env a w" and "life_ok True ms cs w" and "agent_orders pick pickT pickE pickC"
    and "agent_life se (agent_ops env) pick pickT pickE pickC ms cs (a, w) = Inr (a', w')"
    and "task_orders order a'" and "file_orders paths idsOf a'" and "filepath_Abs wd name = Inr path"
  shows "distinct (map (\<lambda>r. te_TriggerID (tte_TriggerEvent r)) (agent_file_event se now wd paths idsOf order name op a')) \<and>
    (\<lambda>r. (tte_Task r, te_Trigger (tte_TriggerEvent r))) ` set (agent_file_event se now wd paths idsOf order name op a') =
      {(task, t). (task, t) \<in> planned (plan_messages (life_messages ms cs) no_plan) \<and> CanExecute task \<and> agent_has a' task t \<and> on_file path t} \<and>
    (\<forall>(task, t) \<in> planned (plan_messages (life_messages ms cs) no_plan). never_refused env t \<longrightarrow> agent_has a' task t)"
proof -
  have follows: "follows se env True (plan_messages (life_messages ms cs) no_plan) 0 (a', w')"
    using life_follows [OF assms(1-3)] assms(4) by auto
  note change = follows_file_event [OF follows assms(5-7), of now op]
  show ?thesis
  proof (intro conjI ballI)
    fix p assume "p \<in> planned (plan_messages (life_messages ms cs) no_plan)"
    then show "case p of (task, t) \<Rightarrow> never_refused env t \<longrightarrow> agent_has a' task t"
      by (cases p) (simp add: follows_has [OF follows])
  qed (use change in simp_all)
qed

theorem server_file_runs_plan_witness:
  "\<exists>a w a' w' paths idsOf order. just_started example_start_env example_agent_env a w \<and>
    agent_life example_start_env (agent_ops example_agent_env) pick_sorted pick_tasks_sorted pick_events_sorted
      pick_channels_sorted job_messages [] (a, w) = Inr (a', w') \<and>
    tte_Task ` set (agent_file_event example_start_env 0 (Inr ''/'') paths idsOf order ''/a/b'' ''WRITE'' a') = {job_task}"
proof -
  obtain a w a' w' where life: "just_started example_start_env example_agent_env a w" "life_ok True job_messages [] w"
    and run: "agent_life example_start_env (agent_ops example_agent_env) pick_sorted pick_tasks_sorted pick_events_sorted
      pick_channels_sorted job_messages [] (a, w) = Inr (a', w')" using job_example by blast
  obtain order paths idsOf where orders: "task_orders order a'" "file_orders paths idsOf a'"
    using task_orders_exist file_orders_exist by metis
  have path: "filepath_Abs (Inr ''/'') ''/a/b'' = Inr ''/a/b''" by code_simp
  let ?rs = "agent_file_event example_start_env 0 (Inr ''/'') paths idsOf order ''/a/b'' ''WRITE'' a'"
  note ran = server_file_runs_plan [OF life sorted_orders run orders path, of 0 "''WRITE''", unfolded job_planned]
  have on: "on_file ''/a/b'' (fs_trigger ''/a'')" "\<not> on_file ''/a/b'' daily"
    by (simp_all add: on_file_def trigger_types) (code_simp)
  have has: "agent_has a' job_task (fs_trigger ''/a'')" using ran job_never_refused(2) by blast
  have "(\<lambda>r. (tte_Task r, te_Trigger (tte_TriggerEvent r))) ` set ?rs = {(job_task, fs_trigger ''/a'')}"
    unfolding ran [THEN conjunct2, THEN conjunct1] using has on by auto
  then have "fst ` (\<lambda>r. (tte_Task r, te_Trigger (tte_TriggerEvent r))) ` set ?rs = {job_task}"
    by (simp only: image_insert image_empty fst_conv)
  then have "tte_Task ` set ?rs = {job_task}" by (simp only: image_image fst_conv)
  with life(1) run show ?thesis by blast
qed

end
