(* ===== verification/Agent_Connected.thy ===== *)
theory Agent_Connected
  imports Agent_Sessions
begin

text \<open>
  What the agent does for the messages of the server does not change the state of the connection: a relation between the worlds before and
  after that the operations of the trigger scheduler keep is kept by everything above it (the locale \<open>world_kept\<close>), and the agent's
  own scheduler leaves the state of the client alone. So an agent that was connected, or has connected again, is connected after any
  further messages.
\<close>

section \<open>A relation of worlds\<close>

locale world_kept =
  fixes ops :: "('c, 'w) triggers_ops" and kept :: "'w \<Rightarrow> 'w \<Rightarrow> bool"
  assumes refl: "kept w w"
    and trans: "kept w w1 \<Longrightarrow> kept w1 w2 \<Longrightarrow> kept w w2"
    and sched: "op_ScheduleByID ops i t (c, w) = Inr (r, c', w') \<Longrightarrow> kept w w'"
    and unsched: "op_Unschedule ops i (c, w) = Inr (u, c', w') \<Longrightarrow> kept w w'"
begin

lemma update: "updateTrigger ops k t (e, w) = Inr (r, e', w') \<Longrightarrow> kept w w'"
  by (erule updateTrigger_cases) (auto intro: refl sched)

lemma remove: "removeTrigger ops k i (e, w) = Inr (e', w') \<Longrightarrow> kept w w'"
  by (erule removeTrigger_cases) (auto intro: refl unsched)

lemma loop:
  assumes "mfold f xs (a, w) = Inr (a', w')"
    and "\<And>x a w a' w'. x \<in> set xs \<Longrightarrow> f x (a, w) = Inr (a', w') \<Longrightarrow> kept w w'"
  shows "kept w w'"
proof -
  have "kept w (snd (a', w'))"
  proof (rule mfold_invariant [where P = "\<lambda>s. kept w (snd s)", OF assms(1)])
    fix x s s' assume "x \<in> set xs" "kept w (snd s)" "f x s = Inr s'"
    then show "kept w (snd s')" using assms(2) [of x "fst s" "snd s" "fst s'" "snd s'"] trans by auto
  qed (simp add: refl)
  then show ?thesis by simp
qed

lemma updates:
  assumes "update_triggers ops k ts (e, w) = Inr (new, e', w')"
  shows "kept w w'"
proof -
  have "kept w (snd (e', w'))"
    by (rule update_triggers_invariant [where P = "\<lambda>s. kept w (snd s)", OF assms]) (auto intro: refl trans update)
  then show ?thesis by simp
qed

lemma schedule:
  assumes "TS_Schedule ops pick task (e, w) = Inr (r, e', w')"
  shows "kept w w'"
proof (cases "fmlookup (ts_tasks e) (task_ID task)")
  case None
  with assms show ?thesis by (auto simp: TS_Schedule_def Let_def andThen_Inr_iff intro: updates)
next
  case (Some t)
  with assms obtain new e2 w2 where
    "update_triggers ops (task_ID task) (task_Triggers task)
      (e\<lparr>ts_tasks := fmupd (task_ID task) (t\<lparr>st_DefinedTask := task\<rparr>) (ts_tasks e)\<rparr>, w) = Inr (new, e2, w2)"
    and rest: "\<exists>xs. mfold (\<lambda>i ew3. if fmlookup new i = None then removeTrigger ops (task_ID task) i ew3 else Inr ew3) xs (e2, w2) =
      Inr (e', w')"
    by (auto simp: TS_Schedule_def Let_def andThen_Inr_iff)
  then have "kept w w2" by (intro updates)
  moreover have "kept w2 w'" using rest by (auto elim!: loop intro: remove refl split: if_splits)
  ultimately show ?thesis by (rule trans)
qed

lemma task: "onTask ops pick tsk (a, w) = Inr (a', w') \<Longrightarrow> kept w w'"
  by (auto simp: onTask_def andThen_Inr_iff intro: schedule split: option.splits)

lemma tasks:
  assumes "onTasks ops pick pickT ts (a, w) = Inr (a', w')"
  shows "kept w w'"
proof -
  from assms obtain a2 where
    "mfold (\<lambda>k aw1. case fmlookup (getTasksMap ts) k of None \<Rightarrow> Inr aw1
       | Some task \<Rightarrow> if \<not> CanExecute task then Inr aw1 else onTask ops pick task aw1) (pickT (getTasksMap ts)) (a, w) = Inr (a2, w')"
    by (auto simp: onTasks_def Let_def andThen_Inr_iff)
  then show ?thesis by (rule loop) (auto intro: task refl split: option.splits if_splits)
qed

end

section \<open>The state of the client\<close>

lemma Subcribe_state: "Subcribe e q w = Inr (b, q', w') \<Longrightarrow> ws_state w' = ws_state w"
  by (auto simp: Subcribe_def Let_def andThen_Inr_iff client_same_def dest: addEventChannel_same split: if_splits)

lemma Unsubscribe_state: "Unsubscribe e q w = Inr (b, q', w') \<Longrightarrow> ws_state w' = ws_state w"
  by (auto simp: Unsubscribe_def andThen_Inr_iff client_same_def dest: removeEventChannel_same split: option.splits)

lemma Event_state:
  "Event_ScheduleByID i t (e, w) = Inr (r, e', w') \<Longrightarrow> ws_state w' = ws_state w"
  "Event_Unschedule i (e, w) = Inr (u, e', w') \<Longrightarrow> ws_state w' = ws_state w"
  by (auto simp: Event_ScheduleByID_def Event_Unschedule_def Let_def andThen_Inr_iff dest: Subcribe_state Unsubscribe_state
      split: option.splits if_splits)

lemma child_sched_state:
  assumes "op_ScheduleByID (Child_ops env) i t (c, w) = Inr (r, c', w')"
  shows "ws_state w' = ws_state w"
proof (cases c)
  case (CronChild s)
  with assms show ?thesis by (auto simp: as_child_Inr_iff dest: Cron_ScheduleByID_cases)
next
  case (EventChild s)
  with assms show ?thesis by (auto simp: as_child_Inr_iff dest: Event_state)
next
  case (FSChild s)
  with assms show ?thesis by (auto simp: as_child_Inr_iff elim: FS_ScheduleByID_cases)
qed

lemma child_unsched_state:
  assumes "op_Unschedule (Child_ops env) i (c, w) = Inr (u, c', w')"
  shows "ws_state w' = ws_state w"
proof (cases c)
  case (CronChild s)
  with assms show ?thesis by (auto simp: as_child_Inr_iff Cron_Unschedule_def split: option.splits)
next
  case (EventChild s)
  with assms show ?thesis by (auto simp: as_child_Inr_iff dest: Event_state)
next
  case (FSChild s)
  with assms show ?thesis
    by (auto simp: as_child_Inr_iff FS_Unschedule_def andThen_Inr_iff Let_def split: option.splits prod.splits if_splits)
qed

lemma agent_sched_state:
  assumes "op_ScheduleByID (agent_ops env) i t (a, w) = Inr (r, a', w')"
  shows "ws_state w' = ws_state w"
proof -
  from assms have "Composite_ScheduleByID (Child_ops env) i t (a, w) = Inr (r, a', w')" by (simp add: agent_ops_def)
  then show ?thesis by (auto dest!: Composite_ScheduleByID_cases dest: child_sched_state)
qed

lemma agent_unsched_state:
  assumes "op_Unschedule (agent_ops env) i (a, w) = Inr (u, a', w')"
  shows "ws_state w' = ws_state w"
proof -
  from assms have "Composite_Unschedule (Child_ops env) i (a, w) = Inr (u, a', w')" by (simp add: agent_ops_def)
  then show ?thesis by (auto dest!: Composite_Unschedule_cases dest: child_unsched_state)
qed

interpretation agent_world: world_kept "agent_ops env" "\<lambda>w w'. ws_state w' = ws_state w"
  by unfold_locales (simp_all add: agent_sched_state agent_unsched_state)

section \<open>Messages\<close>

lemma effect_state:
  assumes "agent_effect se (agent_ops env) pick pickT eff (a, w) = Inr (a', w')"
  shows "ws_state w' = ws_state w"
  using assms
  by (cases eff) (auto simp: agent_effect_def dest: agent_world.task agent_world.tasks split: if_splits)

lemma message_state:
  assumes "agent_message se (agent_ops env) pick pickT henv m (a, w) = Inr (effs, a', w')"
  shows "ws_state w' = ws_state w \<or> ws_state w = StatePreparing \<and> ws_state w' = StateConnected"
proof -
  from assms obtain err w1 where "handleMessage henv m w = Inr (effs, err, w1)"
    and loop: "mfold (agent_effect se (agent_ops env) pick pickT) effs (a, w1) = Inr (a', w')"
    by (auto simp: agent_message_def andThen_Inr_iff)
  from this(1) have "ws_state w1 = ws_state w \<or> ws_state w = StatePreparing \<and> ws_state w1 = StateConnected"
    by (auto simp: client_handled_def dest: handleMessage_handled)
  moreover have "ws_state w' = ws_state w1" by (rule agent_world.loop [OF loop]) (rule effect_state)
  ultimately show ?thesis by simp
qed

lemma first_message:
  assumes "agent_messages se ops pick pickT pickE pickC ((henv, m) # ms) (a, w) = Inr (effs, a', w')"
  obtains effs1 a1 w1 effs2 where "agent_message se ops pick pickT (at_client pickE pickC w henv) m (a, w) = Inr (effs1, a1, w1)"
    and "agent_messages se ops pick pickT pickE pickC ms (a1, w1) = Inr (effs2, a', w')"
  using assms by (auto simp: andThen_Inr_iff)

lemma messages_state:
  assumes "agent_messages se (agent_ops env) pick pickT pickE pickC ms (a, w) = Inr (effs, a', w')"
  shows "ws_state w' = ws_state w \<or> ws_state w = StatePreparing \<and> ws_state w' = StateConnected"
  using assms
proof (induction ms arbitrary: a w effs)
  case (Cons x ms)
  obtain henv m where x: "x = (henv, m)" by fastforce
  from Cons.prems(1) [unfolded x] show ?case by (rule first_message) (use Cons.IH message_state in fastforce)
qed simp

section \<open>Connections\<close>

lemma connection_connects:
  assumes "reconnect c w = Inr w1" and "connection_ok c" and "ws_state w \<in> {StatePreparing, StateConnected}"
    and "agent_messages se (agent_ops env) pick pickT pickE pickC (wc_messages c) (a, w1) = Inr (effs, a', w')"
  shows "ws_state w' = StateConnected"
proof -
  from assms(2) obtain e1 m1 e2 m2 ms d where ms: "wc_messages c = (e1, m1) # (e2, m2) # ms"
    and intro: "i_MessageType m1 = ''introduction''" "env_introduction e1 (i_Data m1) = Inr d"
    by (auto simp: connection_ok_def elim!: opensE)
  have "\<forall>x \<in> set (wc_failed c). isl (fst x) \<or> isl (snd x)" using assms(2) by (simp add: connection_ok_def)
  from reconnect_returns [OF assms(3) this] assms(1) have w1: "ws_state w1 = StatePreparing" "ws_sendMessages w1 = OpenChan True []"
    by auto
  have "env_introduction (at_client pickE pickC w1 e1) (i_Data m1) = Inr d" using intro(2) by (simp add: at_client_def)
  from open_introduction [OF w1 intro(1) this, of se "agent_ops env" pick pickT a] obtain w2 where
    "agent_message se (agent_ops env) pick pickT (at_client pickE pickC w1 e1) m1 (a, w1) = Inr ([], a, w2)"
    and w2: "ws_state w2 = StateConnected" by blast
  with assms(4) obtain effs2 where
    "agent_messages se (agent_ops env) pick pickT pickE pickC ((e2, m2) # ms) (a, w2) = Inr (effs2, a', w')"
    unfolding ms by (elim first_message) simp
  from messages_state [OF this] w2 show ?thesis by simp
qed

lemma session_connected:
  assumes "agent_session se (agent_ops env) pick pickT pickE pickC cs (a, w) = Inr (a', w')"
    and "\<forall>c \<in> set cs. connection_ok c"
    and "ws_state w \<in> {StatePreparing, StateConnected}" and "cs \<noteq> [] \<or> ws_state w = StateConnected"
  shows "ws_state w' = StateConnected"
  using assms
proof (induction cs arbitrary: a w)
  case (Cons c cs)
  from Cons.prems(1) obtain w1 effs a2 w2 where one: "reconnect c w = Inr w1"
    "agent_messages se (agent_ops env) pick pickT pickE pickC (wc_messages c) (a, w1) = Inr (effs, a2, w2)"
    and rest: "agent_session se (agent_ops env) pick pickT pickE pickC cs (a2, w2) = Inr (a', w')"
    by (auto simp: andThen_Inr_iff)
  from Cons.prems(2,3) connection_connects [OF one(1) _ _ one(2)] have "ws_state w2 = StateConnected" by simp
  with Cons.IH [OF rest] Cons.prems(2) show ?case by simp
qed simp

lemma life_connected:
  assumes "agent_life se (agent_ops env) pick pickT pickE pickC ms cs (a, w) = Inr (a', w')"
    and "\<forall>c \<in> set cs. connection_ok c"
    and "ws_state w \<in> {StatePreparing, StateConnected}" and "cs \<noteq> [] \<or> ws_state w = StateConnected"
  shows "ws_state w' = StateConnected"
proof -
  from assms(1) obtain effs a1 w1 where
    "agent_messages se (agent_ops env) pick pickT pickE pickC ms (a, w) = Inr (effs, a1, w1)"
    and rest: "agent_session se (agent_ops env) pick pickT pickE pickC cs (a1, w1) = Inr (a', w')"
    by (auto simp: agent_life_def andThen_Inr_iff)
  from messages_state [OF this(1)] assms(2-4) show ?thesis by (intro session_connected [OF rest]) auto
qed

end
