(* ===== verification/Agent_Outcome.thy ===== *)
theory Agent_Outcome
  imports Agent_Flow Agent_Connected
begin

text \<open>
  What the agent is for, from end to end: an event of the server becomes the output of a command. The runs that the event starts
  (\<open>Agent_Fires\<close>, \<open>Agent_Flow\<close>) are executed by \<open>executeTask\<close> (\<open>scheduler.go\<close>) in the state the agent is in by then.
\<close>

section \<open>Lemmas\<close>

text \<open>The parameters of a run that an event started.\<close>

lemma drain_params:
  assumes "r \<in> set (agent_drain se now idsOf order x a)"
  shows "te_Params (tte_TriggerEvent r) = fmupd ''EVENT_ID'' (VString (event_ID x)) fmempty"
    and "fmdom' (tte_Params r) = {''TASK_ID'', ''TASK_NAME'', ''TRIGGERED_AT''}"
proof -
  from assms obtain v where v: "event_child (agent_children a) = Some v"
    by (cases "event_child (agent_children a)") (auto simp: agent_drain_def)
  with assms obtain ts where ts: "app_taskScheduler a = Some ts"
    by (cases "app_taskScheduler a") (auto simp: agent_drain_def agent_fired_def)
  from assms obtain cb te where call: "(cb, te) \<in> set (fst (Event_drain_step idsOf (Some x) v))"
    and run: "r \<in> snd ` set (TS_onTrigger now (order (te_TriggerID te)) te ts)"
    by (auto simp: agent_drain_def agent_fired_def v ts Let_def List.map_filter_def App_onTrigger_def
        image_iff split: if_splits) force
  have "te_Params te = fmupd ''EVENT_ID'' (VString (event_ID x)) fmempty"
    using call by (auto simp: Event_drain_step_def split: option.splits)
  moreover have "tte_TriggerEvent r = te" "fmdom' (tte_Params r) = {''TASK_ID'', ''TASK_NAME'', ''TRIGGERED_AT''}"
    using run by (auto simp: TS_onTrigger_def Let_def split: option.splits)
  ultimately show "te_Params (tte_TriggerEvent r) = fmupd ''EVENT_ID'' (VString (event_ID x)) fmempty"
    and "fmdom' (tte_Params r) = {''TASK_ID'', ''TASK_NAME'', ''TRIGGERED_AT''}" by simp_all
qed

lemma event_run_params:
  assumes "r \<in> set (agent_drain se now idsOf order x a)"
  shows "fmlookup (execution_params uuids sid r) ''EVENT_ID'' = Some (VString (event_ID x))"
proof -
  have "fmlookup (tte_Params r) ''EVENT_ID'' = None"
    using drain_params(2) [OF assms] by (simp add: fmdom'_notD)
  then show ?thesis by (simp add: execution_params_def drain_params(1) [OF assms] fmdom_notI)
qed

section \<open>Example\<close>

text \<open>The server greets and sends one task, whose script is \<open>ls\<close>, to run on the event \<open>login\<close>; then the connection is
  lost and made again.\<close>

definition listing :: defined_task where
  "listing = (example_script ''ls'')\<lparr>task_Triggers := [login]\<rparr>"

definition login_event :: event where
  "login_event = \<lparr>event_ID = ''e2'', event_AppID = [], event_EventKey = ''login'', event_EventType = [], event_RelatedTask = [],
     event_PublisherIP = [], event_SequenceID = []\<rparr>"

definition outcome_handlers :: ws_env where
  "outcome_handlers = example_handlers\<lparr>env_tasks := \<lambda>_. Inr [listing]\<rparr>"

definition outcome_messages :: "(ws_env \<times> i_raw_message) list" where
  "outcome_messages = map (\<lambda>t. (outcome_handlers, \<lparr>i_MessageType = t, i_Data = []\<rparr>)) [''greetings'', ''tasks'']"

lemma listing_fields [simp]: "task_ID listing = 77" "task_Triggers listing = [login]"
  by (simp_all add: listing_def example_script_def)

lemma listing_runs [simp]: "CanExecute listing" "Task_MustString listing = Inr ''ls''"
  using example_run_fine(1,2) by (simp_all add: listing_def example_run_def CanExecute_def Task_MustString_def)

lemma outcome_tasks [simp]: "env_tasks outcome_handlers b = Inr [listing]"
  by (simp add: outcome_handlers_def)

lemma outcome_life: "life_messages outcome_messages [flow_connection] =
    map (\<lambda>t. (outcome_handlers, \<lparr>i_MessageType = t, i_Data = []\<rparr>)) [''greetings'', ''tasks''] @
    map (\<lambda>t. (flow_handlers, \<lparr>i_MessageType = t, i_Data = []\<rparr>)) [''introduction'', ''greetings'']"
  by (simp add: life_messages_def session_messages_def outcome_messages_def flow_connection_def)

lemma outcome_planned:
  "planned (plan_messages (life_messages outcome_messages [flow_connection]) no_plan) = {(listing, login)}"
  by (auto simp: outcome_life plan_message_def plan_list_def planned_task)

lemma outcome_admitted: "admits_messages neat (life_messages outcome_messages [flow_connection]) no_plan"
  by (simp add: outcome_life admits_message_def plan_message_def admits_list_def admits_def known_event_trigger)

lemma outcome_triggers: "messages_triggers (life_messages outcome_messages [flow_connection]) = 1"
  by (simp add: outcome_life messages_triggers_def message_triggers_def)

section \<open>Properties\<close>

text \<open>C5. An event of the server becomes the output of a command, when the server kept to these rules so far (\<open>life_ok\<close>): every trigger that the server sends is of a known type and can be decoded, no two triggers
  share an identifier, no trigger is in two tasks or twice in one, none comes back after an update took it away, no list has a task twice, every later
  connection opens with an introduction and greetings and is lost only between two handlers, and fewer than \<open>2^32\<close> triggers are sent in all; and the client is
  connected. Then for every trigger of the plan for the event's key, of a task that the agent can execute, whose script can be decoded and fits into a pipe,
  draining the event starts a run of that task which, when the server gives it a sequence, the pipes can be made, the goroutines that copy
  the output come to their end and nothing else uses the connection meanwhile, executes the script of the version that was sent last, with the
  identifiers of the event and of the sequence in its environment, queues the log records for the connection in order and under that
  sequence, reports its end, and leaves the subscriptions as they are. The records hold, of each stream, a part of what was read
  from its pipe, in order, and all that was read when no two calls of \<open>Write\<close> overlap.\<close>

theorem server_event_to_output:
  assumes "just_started se env a w" and "life_ok neat ms cs w" and "agent_orders pick pickT pickE pickC"
    and "agent_life se (agent_ops env) pick pickT pickE pickC ms cs (a, w) = Inr (a', w')"
    and "drain_orders idsOf order (event_EventKey x) a'" and "cs \<noteq> [] \<or> ws_state w = StateConnected"
    and "(task, t) \<in> planned (plan_messages (life_messages ms cs) no_plan)" and "CanExecute task"
    and "on_event (event_EventKey x) t"
    and "Task_MustString task = Inr script" and "length script < os_pipe_capacity os"
    and "os_StdinPipe os = None" and "os_StderrPipe os = None" and "os_StdoutPipe os = None"
    and "\<forall>m. range_order m (pickP m)" and "sv_CreateSequence sv = Inr sid" and "copies_end os"
  shows "\<exists>r cmd lrs a2 w2. r \<in> set (agent_drain se now idsOf order x a') \<and>
    tte_Task r = task \<and> te_Trigger (tte_TriggerEvent r) = t \<and>
    executeTask sv os pickP cb r (a', w') =
      Inr (map_option (ChainError ''failed to finish sequence'')
        (sv_FinishSequence sv sid (map_option error_string (snd (os_run os cmd)))), a2, w2) \<and>
    cmd_Stdin cmd = script @ [nl] \<and>
    ''EVENT_ID='' @ event_ID x \<in> set (cmd_Env cmd) \<and> ''TELEPHONIST_SEQUENCE_ID='' @ sid \<in> set (cmd_Env cmd) \<and>
    (\<forall>b. subseq (of_stream b (tagged (concat lrs))) (of_stream b (copied (fst (os_run os cmd))))) \<and>
    (copies_serially os \<longrightarrow> tagged (concat lrs) = copied (fst (os_run os cmd))) \<and>
    chan_log (ws_sendMessages w2) = chan_log (ws_sendMessages w') @
      map (\<lambda>lr. \<lparr>o_MessageType = ''send_log'', o_Data = DLogs \<lparr>lm_SequenceID = sid, lm_Logs = lr\<rparr>\<rparr>) lrs \<and>
    server_subscriptions w2 = plan_events (plan_messages (life_messages ms cs) no_plan)"
proof -
  let ?pl = "plan_messages (life_messages ms cs) no_plan"
  have follows: "follows se env neat ?pl 0 (a', w')" using life_follows [OF assms(1-3)] assms(4) by auto
  then have live: "chan_live (ws_sendMessages w')" by (auto simp: follows_def flow_state_def ws_live_def)
  have "\<forall>c \<in> set cs. connection_ok c" "ws_state w \<in> {StatePreparing, StateConnected}"
    using assms(1,2) by (auto simp: life_ok_def just_started_def)
  from life_connected [OF assms(4) this assms(6)] have connected: "ws_state w' = StateConnected" .
  have "(task, t) \<in> (\<lambda>r. (tte_Task r, te_Trigger (tte_TriggerEvent r))) ` set (agent_drain se now idsOf order x a')"
    using follows_drain [OF follows assms(5), of now] assms(7-9) by blast
  then obtain r where r: "r \<in> set (agent_drain se now idsOf order x a')"
    and task: "tte_Task r = task" "te_Trigger (tte_TriggerEvent r) = t" by auto
  have fine: "CanExecute (tte_Task r)" "Task_MustString (tte_Task r) = Inr script" using assms(8,10) task by simp_all
  from executeTask_runs [OF assms(16) fine assms(11,15,12-14) connected live assms(17), of cb a'] obtain cmd lrs w2 a2 where
    run: "executeTask sv os pickP cb r (a', w') =
      Inr (map_option (ChainError ''failed to finish sequence'')
        (sv_FinishSequence sv sid (map_option error_string (snd (os_run os cmd)))), a2, w2)"
    and cmd: "cmd_Stdin cmd = script @ [nl]" "''TELEPHONIST_SEQUENCE_ID='' @ sid \<in> set (cmd_Env cmd)"
    and out: "\<forall>b. subseq (of_stream b (tagged (concat lrs))) (of_stream b (copied (fst (os_run os cmd))))"
      "copies_serially os \<longrightarrow> tagged (concat lrs) = copied (fst (os_run os cmd))"
      "chan_log (ws_sendMessages w2) = chan_log (ws_sendMessages w') @
        map (\<lambda>lr. \<lparr>o_MessageType = ''send_log'', o_Data = DLogs \<lparr>lm_SequenceID = sid, lm_Logs = lr\<rparr>\<rparr>) lrs"
    and env: "\<forall>p v. fmlookup (execution_params (sv_uuid_String sv) sid r) p = Some (VString v) \<longrightarrow>
      p @ ''='' @ v \<in> set (cmd_Env cmd)"
    and subs: "server_subscriptions w2 = server_subscriptions w'" by blast
  from env event_run_params [OF r] have "''EVENT_ID'' @ ''='' @ event_ID x \<in> set (cmd_Env cmd)" by blast
  then have "''EVENT_ID='' @ event_ID x \<in> set (cmd_Env cmd)" by simp
  with r task run cmd out subs follows_server [OF follows] show ?thesis
    by (intro exI [of _ r] exI [of _ cmd] exI [of _ lrs] exI [of _ a2] exI [of _ w2] conjI) simp_all
qed

theorem server_event_to_output_witness:
  "\<exists>a w a' w' idsOf order r lrs a2 w2. just_started example_start_env example_agent_env a w \<and>
    agent_life example_start_env (agent_ops example_agent_env) pick_sorted pick_tasks_sorted pick_events_sorted
      pick_channels_sorted outcome_messages [flow_connection] (a, w) = Inr (a', w') \<and>
    r \<in> set (agent_drain example_start_env 0 idsOf order login_event a') \<and>
    executeTask example_server example_os pick_params 3 r (a', w') = Inr (None, a2, w2) \<and>
    chan_log (ws_sendMessages w2) = chan_log (ws_sendMessages w') @
      map (\<lambda>lr. \<lparr>o_MessageType = ''send_log'', o_Data = DLogs \<lparr>lm_SequenceID = ''s1'', lm_Logs = lr\<rparr>\<rparr>) lrs \<and>
    tagged (concat lrs) = [(SEVERITY_INFO, CHR ''o''), (SEVERITY_INFO, CHR ''k'')] \<and>
    server_subscriptions w2 = {''login''}"
proof -
  let ?pl = "plan_messages (life_messages outcome_messages [flow_connection]) no_plan"
  obtain a w where started: "just_started example_start_env example_agent_env a w" "ws_eventChannelsSeq w = 0"
    using started_example by blast
  have life: "life_ok True outcome_messages [flow_connection] w"
    by (simp add: life_ok_def started(2) flow_connection_ok outcome_admitted outcome_triggers)
  from life_follows [OF started(1) life sorted_orders] obtain a' w' where
    run: "agent_life example_start_env (agent_ops example_agent_env) pick_sorted pick_tasks_sorted pick_events_sorted
      pick_channels_sorted outcome_messages [flow_connection] (a, w) = Inr (a', w')" by blast
  obtain idsOf order where orders: "drain_orders idsOf order (event_EventKey login_event) a'" using drain_orders_exist by blast
  have "[flow_connection] \<noteq> [] \<or> ws_state w = StateConnected" by simp
  moreover have "(listing, login) \<in> planned ?pl" by (simp add: outcome_planned)
  moreover have "on_event (event_EventKey login_event) login" by (simp add: on_event_def login_event_def)
  moreover have "CanExecute listing" "Task_MustString listing = Inr ''ls''" using listing_runs by simp_all
  moreover have "sv_CreateSequence example_server = Inr ''s1''" by (simp add: example_server_def)
  ultimately obtain r cmd lrs a2 w2 where out: "r \<in> set (agent_drain example_start_env 0 idsOf order login_event a')"
    "executeTask example_server example_os pick_params 3 r (a', w') =
      Inr (map_option (ChainError ''failed to finish sequence'') (sv_FinishSequence example_server ''s1''
        (map_option error_string (snd (os_run example_os cmd)))), a2, w2)"
    "chan_log (ws_sendMessages w2) = chan_log (ws_sendMessages w') @
      map (\<lambda>lr. \<lparr>o_MessageType = ''send_log'', o_Data = DLogs \<lparr>lm_SequenceID = ''s1'', lm_Logs = lr\<rparr>\<rparr>) lrs"
    "copies_serially example_os \<longrightarrow> tagged (concat lrs) = copied (fst (os_run example_os cmd))" "server_subscriptions w2 = plan_events ?pl"
    using server_event_to_output [OF started(1) life sorted_orders run orders, of listing login "''ls''" example_os pick_params
        example_server "''s1''" 0 3] example_run_fine by auto
  have "executeTask example_server example_os pick_params 3 r (a', w') = Inr (None, a2, w2)"
    "tagged (concat lrs) = [(SEVERITY_INFO, CHR ''o''), (SEVERITY_INFO, CHR ''k'')]"
    using out(2,4) by (simp_all add: example_server_def example_os_copies)
  moreover have "server_subscriptions w2 = {''login''}" by (simp add: out(5) plan_events_def outcome_planned on_event_def)
  ultimately show ?thesis using started(1) run out(1,3) by (intro exI conjI)
qed

end
