(* ===== verification/Agent_Restart.thy ===== *)
theory Agent_Restart
  imports Agent_Flow
begin

text \<open>
  The agent and its files over a restart (\<open>scheduler.go\<close>, \<open>config.go\<close>): every change of the configuration during the life of the agent is
  written to the file of the tasks, and the next agent on the same folder reads it back, as the same instance.
\<close>

section \<open>Definitions\<close>

text \<open>The disk after the calls of \<open>config.Write\<close> that the agent made, in their order; it ignores their errors.\<close>

definition config_disk :: "start_env \<Rightarrow> string \<Rightarrow> (uuid, defined_task) fmap list \<Rightarrow> disk \<Rightarrow> disk" where
  "config_disk se path saved d =
     fold (\<lambda>tasks d. snd (ecf_Write (se_codec se) (se_io se) \<lparr>ecf_file = path, ecf_Value = \<lparr>ec_Tasks = tasks\<rparr>\<rparr> d)) saved d"

text \<open>What is in memory is what was written last; \<open>base\<close> is what was in memory before the first write.\<close>

definition in_step :: "(uuid, defined_task) fmap \<Rightarrow> 'c app_scheduler \<Rightarrow> bool" where
  "in_step base a \<longleftrightarrow> app_Tasks a = last (base # app_written a)"

section \<open>Lemmas\<close>

subsection \<open>Memory and file during the life of the agent\<close>

lemma in_step_Write [simp]: "in_step base (config_Write a)"
  by (simp add: in_step_def config_Write_def)

lemma in_step_onTask:
  assumes "onTask ops pick task (a, w) = Inr (a', w')"
  shows "in_step base a'"
  using assms by (auto simp: onTask_def andThen_Inr_iff split: option.splits)

lemma in_step_onTaskRemoved: "in_step base a \<Longrightarrow> in_step base (onTaskRemoved k a)"
  by (simp add: onTaskRemoved_def split: option.split)

lemma in_step_onTasks:
  assumes "onTasks ops pick pickT tasks (a, w) = Inr (a', w')"
  shows "in_step base a'"
  using assms by (auto simp: onTasks_def Let_def andThen_Inr_iff)

lemma in_step_effect:
  assumes "agent_effect se ops pick pickT eff (a, w) = Inr (a', w')" and "in_step base a"
  shows "in_step base a'"
  using assms
  by (cases eff) (auto simp: agent_effect_def intro: in_step_onTask in_step_onTasks in_step_onTaskRemoved split: if_splits)

lemma in_step_message:
  assumes "agent_message se ops pick pickT env m (a, w) = Inr (effs, a', w')" and "in_step base a"
  shows "in_step base a'"
proof -
  from assms(1) obtain w1 where "mfold (agent_effect se ops pick pickT) effs (a, w1) = Inr (a', w')"
    by (auto simp: agent_message_def andThen_Inr_iff)
  then have "in_step base (fst (a', w'))"
    by (rule mfold_invariant [where P = "\<lambda>aw. in_step base (fst aw)"]) (use assms(2) in \<open>auto intro: in_step_effect\<close>)
  then show ?thesis by simp
qed

lemma in_step_messages:
  assumes "agent_messages se ops pick pickT pickE pickC ms (a, w) = Inr (effs, a', w')" and "in_step base a"
  shows "in_step base a'"
  using assms
proof (induction ms arbitrary: a w effs)
  case (Cons x ms)
  obtain env m where x: "x = (env, m)" by fastforce
  from Cons.prems(1) obtain effs1 a1 w1 effs2 where
    "agent_message se ops pick pickT (at_client pickE pickC w env) m (a, w) = Inr (effs1, a1, w1)"
    and rest: "agent_messages se ops pick pickT pickE pickC ms (a1, w1) = Inr (effs2, a', w')"
    by (auto simp: x andThen_Inr_iff)
  from Cons.IH [OF rest in_step_message [OF this(1) Cons.prems(2)]] show ?case .
qed simp

lemma in_step_session:
  assumes "agent_session se ops pick pickT pickE pickC cs (a, w) = Inr (a', w')" and "in_step base a"
  shows "in_step base a'"
  using assms
proof (induction cs arbitrary: a w)
  case (Cons c cs)
  from Cons.prems(1) obtain w1 effs a1 w2 where
    "agent_messages se ops pick pickT pickE pickC (wc_messages c) (a, w1) = Inr (effs, a1, w2)"
    and rest: "agent_session se ops pick pickT pickE pickC cs (a1, w2) = Inr (a', w')"
    by (auto simp: andThen_Inr_iff)
  from Cons.IH [OF rest in_step_messages [OF this(1) Cons.prems(2)]] show ?case .
qed simp

lemma in_step_life:
  assumes "agent_life se ops pick pickT pickE pickC ms cs (a, w) = Inr (a', w')" and "in_step base a"
  shows "in_step base a'"
proof -
  from assms(1) obtain effs a1 w1 where
    "agent_messages se ops pick pickT pickE pickC ms (a, w) = Inr (effs, a1, w1)"
    and "agent_session se ops pick pickT pickE pickC cs (a1, w1) = Inr (a', w')"
    by (auto simp: agent_life_def andThen_Inr_iff)
  with assms(2) show ?thesis by (blast intro: in_step_messages in_step_session)
qed

subsection \<open>The disk\<close>

lemma config_disk_snoc:
  "config_disk se path (saved @ [tasks]) d =
     snd (ecf_Write (se_codec se) (se_io se) \<lparr>ecf_file = path, ecf_Value = \<lparr>ec_Tasks = tasks\<rparr>\<rparr> (config_disk se path saved d))"
  by (simp add: config_disk_def)

lemma ecf_Write_other: "q \<noteq> ecf_file f \<Longrightarrow> fmlookup (snd (ecf_Write cd io f d)) q = fmlookup d q"
  by (auto simp: ecf_Write_def config_file_Write_def Let_def split: option.split sum.split)

lemma config_disk_other: "q \<noteq> path \<Longrightarrow> fmlookup (config_disk se path saved d) q = fmlookup d q"
  by (induction saved rule: rev_induct) (simp_all add: config_disk_snoc ecf_Write_other, simp add: config_disk_def)

lemma config_disk_last:
  assumes "no_io_errors (se_io se)" and "cd_Encode (se_codec se) \<lparr>ec_Tasks = tasks\<rparr> = Inr b"
  shows "fmlookup (config_disk se path (saved @ [tasks]) d) path = Some b"
  using config_file_Write_ok [OF assms] by (simp add: config_disk_snoc ecf_Write_def)

text \<open>What \<open>Start\<close> loads, and the disk it leaves.\<close>

lemma App_Start_loads:
  assumes "App_Start se env g watcher e d = Inr (None, e', d')" and "app_taskScheduler (ag_app e) = None"
  shows "\<exists>f. LoadOrWrite (se_codec se) (se_io se) d
      \<lparr>ecf_file = ag_configPath e, ecf_Value = \<lparr>ec_Tasks = app_Tasks (ag_app e)\<rparr>\<rparr> = (None, f, d') \<and>
    app_Tasks (ag_app e') = ec_Tasks (ecf_Value f)"
proof -
  obtain err f d1 where load: "LoadOrWrite (se_codec se) (se_io se) d
      \<lparr>ecf_file = ag_configPath e, ecf_Value = \<lparr>ec_Tasks = app_Tasks (ag_app e)\<rparr>\<rparr> = (err, f, d1)" by (rule prod_cases3)
  with assms have "err = None" by (cases err) (simp_all add: App_Start_def Let_def)
  with load assms show ?thesis
    by (auto simp: App_Start_def createExecutor_def Let_def andThen_Inr_iff split: option.splits sum.splits)
qed

lemma App_Start_same:
  assumes "App_Start se env g watcher e d = Inr (None, e', d')"
  shows "ag_InstanceID e' = ag_InstanceID e" "app_written (ag_app e') = app_written (ag_app e)"
  using assms
  by (auto simp: App_Start_def createExecutor_def Let_def andThen_Inr_iff split: option.splits sum.splits prod.splits)

lemma LoadOrWrite_other:
  assumes "LoadOrWrite cd io d f = (err, f', d')" and "q \<noteq> ecf_file f"
  shows "fmlookup d' q = fmlookup d q"
proof -
  obtain e f1 where load: "ecf_Load cd io d f = (e, f1)" by fastforce
  then have "ecf_file f1 = ecf_file f" by (auto simp: ecf_Load_def split: prod.splits)
  with assms load ecf_Write_other [of q f1 cd io d] show ?thesis
    by (auto simp: LoadOrWrite_def split: prod.splits if_splits)
qed

text \<open>After a start without errors the file gives the tasks in memory, or what the decoder makes of their encoding.\<close>

lemma LoadOrWrite_file:
  assumes "LoadOrWrite cd io d \<lparr>ecf_file = p, ecf_Value = v\<rparr> = (None, f, d')" and "no_io_errors io"
    and "cd_Encode cd (ecf_Value f) = Inr b"
  shows "\<exists>content. fmlookup d' p = Some content \<and> (content = b \<or> cd_Decode cd content v = (None, ecf_Value f))"
proof -
  obtain err u where load: "Load cd io p d v = (err, u)" by fastforce
  then have f: "f = \<lparr>ecf_file = p, ecf_Value = u\<rparr>"
    using assms(1) by (auto simp: LoadOrWrite_def ecf_Load_def split: prod.splits if_splits)
  show ?thesis
  proof (cases "IsNotExist err")
    case True
    with load f assms(1) have "ecf_Write cd io f d = (None, d')"
      by (auto simp: LoadOrWrite_def ecf_Load_def split: prod.splits)
    with f assms(2,3) show ?thesis by (auto simp: ecf_Write_def config_file_Write_ok)
  next
    case False
    with load f assms(1) have "err = None" "d' = d" by (auto simp: LoadOrWrite_def ecf_Load_def)
    with load f show ?thesis
      by (cases "fmlookup d p") (auto simp: Load_def read_file_def split: option.splits)
  qed
qed

text \<open>The file of the instance.\<close>

lemma instance_saved:
  assumes "getOrSetInstanceID ue io p fresh d = (i, d')" and "no_io_errors io"
    and "\<forall>u. ue_Parse ue (ue_String ue u) = Some u"
  shows "\<exists>content. fmlookup d' (instance_id_path p) = Some content \<and> ue_Parse ue content = Some i"
  using assms
  by (cases "fmlookup d (instance_id_path p)")
    (auto simp: getOrSetInstanceID_def read_file_def no_io_errors_def Let_def IsNotExist_def ENOENT_def split: option.splits)

lemma instance_read:
  assumes "fmlookup d (instance_id_path p) = Some content" and "ue_Parse ue content = Some i" and "no_io_errors io"
  shows "getOrSetInstanceID ue io p fresh d = (i, d)"
  using assms by (simp add: getOrSetInstanceID_def read_file_def no_io_errors_def Let_def)

lemma New_fields:
  assumes "NewApplicationScheduler se p cl db d = (e, d')"
  shows "app_taskScheduler (ag_app e) = None" "ag_client e = cl" "ag_configPath e = p" "app_Tasks (ag_app e) = fmempty"
    "app_written (ag_app e) = []"
    "getOrSetInstanceID (se_uuids se) (se_io se) p (se_fresh se) d = (ag_InstanceID e, d')"
  using assms by (auto simp: NewApplicationScheduler_def NewSchedulerConfig_def split: prod.splits)

text \<open>The file of the tasks when the life of the agent is over.\<close>

lemma saved_configuration:
  assumes "NewApplicationScheduler se p (Some cl) db d0 = (e, d1)"
    and "App_Start se env g watcher e d1 = Inr (None, e', d2)"
    and "agent_life se ops pick pickT pickE pickC ms cs (ag_app e', w) = Inr (a', w')"
    and "no_io_errors (se_io se)" and "cd_Encode (se_codec se) \<lparr>ec_Tasks = app_Tasks a'\<rparr> = Inr b"
    and "cd_Decode (se_codec se) b \<lparr>ec_Tasks = fmempty\<rparr> = (None, \<lparr>ec_Tasks = tasks\<rparr>)"
  shows "\<exists>content tasks'. fmlookup (config_disk se p (app_written a') d2) p = Some content \<and>
    cd_Decode (se_codec se) content \<lparr>ec_Tasks = fmempty\<rparr> = (None, \<lparr>ec_Tasks = tasks'\<rparr>) \<and>
    (tasks' = tasks \<or> app_written a' = [] \<and> tasks' = app_Tasks a')"
proof -
  note new = New_fields [OF assms(1)]
  from App_Start_loads [OF assms(2) new(1)] obtain f where
    load: "LoadOrWrite (se_codec se) (se_io se) d1 \<lparr>ecf_file = p, ecf_Value = \<lparr>ec_Tasks = fmempty\<rparr>\<rparr> = (None, f, d2)"
    and f: "app_Tasks (ag_app e') = ec_Tasks (ecf_Value f)" by (auto simp: new)
  have "app_written (ag_app e') = []" using App_Start_same(2) [OF assms(2)] new(5) by simp
  then have step: "in_step (app_Tasks (ag_app e')) a'"
    by (intro in_step_life [OF assms(3)]) (simp add: in_step_def)
  show ?thesis
  proof (cases "app_written a'" rule: rev_cases)
    case Nil
    with step f have "ecf_Value f = \<lparr>ec_Tasks = app_Tasks a'\<rparr>" by (simp add: in_step_def)
    with LoadOrWrite_file [OF load assms(4)] assms(5,6) Nil show ?thesis by (auto simp: config_disk_def)
  next
    case (snoc xs saved)
    with step have "saved = app_Tasks a'" by (simp add: in_step_def)
    with config_disk_last [OF assms(4,5)] assms(6) snoc show ?thesis by simp
  qed
qed

section \<open>Examples\<close>

text \<open>A life in which the server greets and sends the task of the file again; the codec of \<open>example_start_env\<close> reads that task.\<close>

definition restart_messages :: "(ws_env \<times> i_raw_message) list" where
  "restart_messages = map (\<lambda>t. (flow_handlers\<lparr>env_task := \<lambda>_. Inr (example_task 1 [login])\<rparr>, \<lparr>i_MessageType = t, i_Data = []\<rparr>))
     [''greetings'', ''task_updated'']"

lemma one_connection: "life_messages ms [] = ms"
  by (simp add: life_messages_def session_messages_def)

lemma restart_ok: "ws_eventChannelsSeq w = 0 \<Longrightarrow> life_ok True restart_messages [] w"
proof -
  have "admits True no_plan (example_task 1 [login])" by (rule admits_one_event) simp_all
  then show "ws_eventChannelsSeq w = 0 \<Longrightarrow> life_ok True restart_messages [] w"
    by (simp add: life_ok_def one_connection restart_messages_def admits_message_def plan_message_def messages_triggers_def
        message_triggers_def)
qed

lemma example_instance_path: "instance_id_path ''c'' \<noteq> ''c''"
  by (simp add: instance_id_path_def path_Join_def path_Dir_def path_Clean_def has_prefix_def Let_def)

section \<open>Properties\<close>

text \<open>C11. A restart keeps the configuration: whatever the server sent during the life of an agent that was started without an error, over any number of
  connections, the agent that is made and started next on the same folder has the tasks that the decoder makes of the encoding of those
  the first one had last in memory (or, when nothing was written since the start, the very same tasks), is the same instance, and connects
  under the same connection identifier, whatever fresh identifier it would have drawn. This is under these conditions: no operation on a file fails (\<open>Write\<close> of
  the scheduler's configuration drops its error, so a failed one loses tasks), the tasks can be encoded and what comes out can be decoded (\<open>encoding/json\<close> does
  not give raw bodies back byte for byte), identifiers can be printed and parsed, the two files differ, and the connection identifier is not nil.\<close>

theorem agent_restarts:
  assumes "NewApplicationScheduler se p (Some cl) db d0 = (e :: ('g, 'j, 'n) agent, d1)"
    and "App_Start se env g (Inr n) e d1 = Inr (None, e', d2)"
    and "agent_life se ops pick pickT pickE pickC ms cs (ag_app e', w) = Inr (a', w')"
    and "no_io_errors (se_io se)" and "cd_Encode (se_codec se) \<lparr>ec_Tasks = app_Tasks a'\<rparr> = Inr b"
    and "cd_Decode (se_codec se) b \<lparr>ec_Tasks = fmempty\<rparr> = (None, \<lparr>ec_Tasks = tasks\<rparr>)"
    and "\<forall>u. ue_Parse (se_uuids se) (ue_String (se_uuids se) u) = Some u" and "instance_id_path p \<noteq> p"
    and "se_connection se (ag_InstanceID e) \<noteq> 0"
  shows "\<exists>e2 e3 w3. NewApplicationScheduler (se\<lparr>se_fresh := fresh\<rparr>) p (Some cl) db (config_disk se p (app_written a') d2) =
      (e2 :: ('g, 'j, 'n) agent, config_disk se p (app_written a') d2) \<and>
    App_Start (se\<lparr>se_fresh := fresh\<rparr>) env g (Inr n) e2 (config_disk se p (app_written a') d2) =
      Inr (None, e3, config_disk se p (app_written a') d2) \<and>
    (app_Tasks (ag_app e3) = tasks \<or> app_written a' = [] \<and> app_Tasks (ag_app e3) = app_Tasks a') \<and>
    ag_InstanceID e3 = ag_InstanceID e' \<and> ag_wsc e3 = Some w3 \<and> ws_ConnectionID w3 = se_connection se (ag_InstanceID e')"
proof -
  let ?d = "config_disk se p (app_written a') d2"
  let ?se = "se\<lparr>se_fresh := fresh\<rparr>"
  note new = New_fields [OF assms(1)]
  obtain content tasks' where on_disk: "fmlookup ?d p = Some content"
    "cd_Decode (se_codec se) content \<lparr>ec_Tasks = fmempty\<rparr> = (None, \<lparr>ec_Tasks = tasks'\<rparr>)"
    and tasks': "tasks' = tasks \<or> app_written a' = [] \<and> tasks' = app_Tasks a'"
    using saved_configuration [OF assms(1-6)] by blast
  obtain f where "LoadOrWrite (se_codec se) (se_io se) d1
      \<lparr>ecf_file = p, ecf_Value = \<lparr>ec_Tasks = app_Tasks (ag_app e)\<rparr>\<rparr> = (None, f, d2)"
    using App_Start_loads [OF assms(2) new(1)] new(3) by auto
  from LoadOrWrite_other [OF this] assms(8) have "fmlookup ?d (instance_id_path p) = fmlookup d1 (instance_id_path p)"
    by (simp add: config_disk_other)
  with instance_saved [OF new(6) assms(4,7)] obtain saved where
    "fmlookup ?d (instance_id_path p) = Some saved" "ue_Parse (se_uuids se) saved = Some (ag_InstanceID e)" by auto
  from instance_read [OF this assms(4)] obtain e2 :: "('g, 'j, 'n) agent" where
    e2: "NewApplicationScheduler ?se p (Some cl) db ?d = (e2, ?d)" "ag_InstanceID e2 = ag_InstanceID e"
    by (simp add: NewApplicationScheduler_def)
  note new2 = New_fields [OF e2(1)]
  have ready: "no_io_errors (se_io ?se)" "fmlookup ?d (ag_configPath e2) = Some content"
    "cd_Decode (se_codec ?se) content \<lparr>ec_Tasks = app_Tasks (ag_app e2)\<rparr> = (None, \<lparr>ec_Tasks = tasks'\<rparr>)"
    "se_connection ?se (ag_InstanceID e2) \<noteq> 0"
    using assms(4,9) on_disk e2(2) by (simp_all add: new2)
  from App_Start_runs [OF new2(1,2) ready, of env g n] obtain e3 w3 where
    e3: "App_Start ?se env g (Inr n) e2 ?d = Inr (None, e3, ?d)" "app_Tasks (ag_app e3) = tasks'"
      "ag_wsc e3 = Some w3" "ws_ConnectionID w3 = se_connection ?se (ag_InstanceID e2)" by blast
  with e2 tasks' App_Start_same(1) [OF e3(1)] App_Start_same(1) [OF assms(2)] show ?thesis by auto
qed

theorem agent_restarts_witness:
  "\<exists>e e' d1 w a' w' e2 e3. NewApplicationScheduler example_start_env ''c'' (Some example_rest) False (fmupd ''c'' ''[]'' fmempty) =
      (e :: (nat list, nat, string list) agent, d1) \<and>
    App_Start example_start_env example_agent_env [] (Inr []) e d1 = Inr (None, e', d1) \<and>
    agent_life example_start_env (agent_ops example_agent_env) pick_sorted pick_tasks_sorted pick_events_sorted
      pick_channels_sorted restart_messages [] (ag_app e', w) = Inr (a', w') \<and>
    App_Start (example_start_env\<lparr>se_fresh := 99\<rparr>) example_agent_env [] (Inr []) e2
      (config_disk example_start_env ''c'' (app_written a') d1) =
      Inr (None, e3, config_disk example_start_env ''c'' (app_written a') d1) \<and>
    app_Tasks (ag_app e3) = example_tasks \<and> ag_InstanceID e3 = 7"
proof -
  let ?d = "fmupd ''c'' ''[]'' fmempty"
  have io: "no_io_errors (se_io example_start_env)" using example_io_fine by (simp add: example_start_env_def)
  obtain e :: "(nat list, nat, string list) agent" and d1 where
    new: "NewApplicationScheduler example_start_env ''c'' (Some example_rest) False ?d = (e, d1)" by fastforce
  note fields = New_fields [OF new]
  have i: "ag_InstanceID e = 7" and d1: "fmlookup d1 (ag_configPath e) = Some ''[]''"
    using fields(3,6) example_instance_path
    by (auto simp: getOrSetInstanceID_def Let_def example_start_env_def read_file_def example_io_def IsNotExist_def
        ENOENT_def example_uuids_def split: if_splits)
  have conn: "se_connection example_start_env (ag_InstanceID e) \<noteq> 0" by (simp add: i example_start_env_def)
  have codec: "cd_Decode (se_codec example_start_env) b v = (None, \<lparr>ec_Tasks = example_tasks\<rparr>)"
    "cd_Encode (se_codec example_start_env) v = Inr []" for b v by (simp_all add: example_start_env_def)
  from App_Start_runs [OF fields(1,2) io d1 codec(1) conn, of example_agent_env "[]" "[]"] obtain e' w0 where
    start: "App_Start example_start_env example_agent_env [] (Inr []) e d1 = Inr (None, e', d1)"
    and e': "app_Tasks (ag_app e') = example_tasks" "ag_wsc e' = Some w0" by blast
  let ?w = "example_client\<lparr>ws_opts := ws_opts w0\<rparr>"
  have seq: "ws_eventChannelsSeq ?w = 0" by (simp add: example_client_def NewWSClient_def)
  have "just_started example_start_env example_agent_env (ag_app e') ?w"
    by (rule just_startedI [OF start fields(1) e'(2)])
      (simp_all add: ws_live_def server_subscriptions_def, simp_all add: example_client_def)
  from life_follows [OF this restart_ok [OF seq] sorted_orders] obtain a' w' where
    life: "agent_life example_start_env (agent_ops example_agent_env) pick_sorted pick_tasks_sorted pick_events_sorted
      pick_channels_sorted restart_messages [] (ag_app e', ?w) = Inr (a', w')"
    and tasks: "app_Tasks a' = config_messages (life_messages restart_messages []) (app_Tasks (ag_app e'))" by blast
  have a': "app_Tasks a' = example_tasks"
    by (simp add: tasks one_connection restart_messages_def config_message_def e'(1) example_tasks_def)
  have dec: "cd_Decode (se_codec example_start_env) [] \<lparr>ec_Tasks = fmempty\<rparr> = (None, \<lparr>ec_Tasks = app_Tasks a'\<rparr>)"
    using codec(1) a' by simp
  have uuids: "\<forall>u. ue_Parse (se_uuids example_start_env) (ue_String (se_uuids example_start_env) u) = Some u"
    by (simp add: example_start_env_def example_uuids_def)
  from agent_restarts [OF new start life io codec(2) dec uuids example_instance_path conn, of 99] obtain e2 e3 where
    "App_Start (example_start_env\<lparr>se_fresh := 99\<rparr>) example_agent_env [] (Inr []) e2
      (config_disk example_start_env ''c'' (app_written a') d1) =
      Inr (None, e3, config_disk example_start_env ''c'' (app_written a') d1)"
    "app_Tasks (ag_app e3) = example_tasks" "ag_InstanceID e3 = 7"
    using App_Start_same(1) [OF start] i a' by auto
  with new start life show ?thesis by blast
qed

end
