(* ===== verification/Task_Logs.thy ===== *)
theory Task_Logs
  imports WS_Lifecycle App_Scheduler
begin

text \<open>
  The output of tasks on its way to the server, across \<open>taskexecutor/output.go\<close>, \<open>scheduler.go\<close> and \<open>telephonist/wsclient.go\<close>:
  the output buffer flushes batches of records, the callback that \<open>executeTask\<close> makes sends each batch under the
  identifier of its sequence, and \<open>writePump\<close> writes it to the connection. Any number of tasks, callers and goroutines
  take their steps in any order; what one sequence sees of them is a projection.
\<close>

section \<open>Definitions\<close>

text \<open>The callback of \<open>executeTask\<close> as an action of the client's system. It ignores the error of \<open>SendLogs\<close>.\<close>

definition log_flush :: "string \<Rightarrow> log_record list \<Rightarrow> ws_action" where
  "log_flush sequenceID lr = ASend ''send_log'' (DLogs \<lparr>lm_SequenceID = sequenceID, lm_Logs = lr\<rparr>)"

text \<open>The batches of one sequence among messages, and among the actions of a run.\<close>

fun data_logs :: "string \<Rightarrow> o_data \<Rightarrow> log_record list list" where
  "data_logs sid (DLogs l) = (if lm_SequenceID l = sid then [lm_Logs l] else [])"
| "data_logs sid _ = []"

definition logs_of :: "string \<Rightarrow> o_raw_message list \<Rightarrow> log_record list list" where
  "logs_of sid ms = concat (map (\<lambda>m. data_logs sid (o_Data m)) ms)"

fun action_logs :: "string \<Rightarrow> ws_action \<Rightarrow> log_record list list" where
  "action_logs sid (ASend t d) = data_logs sid d"
| "action_logs sid _ = []"

definition flushed :: "string \<Rightarrow> ws_action list \<Rightarrow> log_record list list" where
  "flushed sid as = concat (map (action_logs sid) as)"

text \<open>The messages of the present channel that \<open>writePump\<close> has not taken, and all that was written or waits.\<close>

definition waiting :: "ws_sys \<Rightarrow> o_raw_message list" where
  "waiting s = drop (sys_taken s) (chan_log (ws_sendMessages (sys_client s)))"

definition history :: "ws_sys \<Rightarrow> o_raw_message list" where
  "history s = sys_wire s @ waiting s"

text \<open>
  An action that does not end the connection: no \<open>Stop\<close>, the network takes every message and every ping, and no read
  ends its pump.
\<close>

fun calm :: "ws_action \<Rightarrow> bool" where
  "calm (ALoop (LWriteMessage env)) \<longleftrightarrow> all_fine env"
| "calm (ALoop (LWritePing env)) \<longleftrightarrow> all_fine env"
| "calm (ALoop x) \<longleftrightarrow> False"
| "calm (ARead n env (ReadFailed e)) \<longleftrightarrow> \<not> rc_unexpected env e"
| "calm AStop \<longleftrightarrow> False"
| "calm a \<longleftrightarrow> True"

section \<open>Lemmas\<close>

lemma log_flush_SendLogs:
  "ws_act (log_flush sid lr) s =
     Some (andThen (SendLogs \<lparr>lm_SequenceID = sid, lm_Logs = lr\<rparr> (sys_client s)) (\<lambda>(err, c). Inr (with_client s c)))"
  by (simp add: log_flush_def SendLogs_def)

lemma logs_of_simps [simp]:
  "logs_of sid [] = []" "logs_of sid (m # ms) = data_logs sid (o_Data m) @ logs_of sid ms"
  "logs_of sid (ms @ ms') = logs_of sid ms @ logs_of sid ms'"
  by (simp_all add: logs_of_def)

lemma flushed_simps [simp]:
  "flushed sid [] = []" "flushed sid (a # as) = action_logs sid a @ flushed sid as"
  by (simp_all add: flushed_def)

lemma subseq_logs_of: "subseq ms ms' \<Longrightarrow> subseq (logs_of sid ms) (logs_of sid ms')"
  by (induction rule: list_emb.induct) (auto intro: list_emb_append_mono list_emb_append2)

subsection \<open>What the operations send\<close>

text \<open>The client got to \<open>c'\<close> by sending messages in which the logs of every sequence are the given ones.\<close>

definition sent_logs :: "(string \<Rightarrow> log_record list list) \<Rightarrow> ws_client \<Rightarrow> ws_client \<Rightarrow> bool" where
  "sent_logs ls c c' \<longleftrightarrow>
     (\<exists>ms. ws_sendMessages c' = chan_grow (ws_sendMessages c) ms \<and> (\<forall>sid. logs_of sid ms = ls sid))"

abbreviation sent_none :: "ws_client \<Rightarrow> ws_client \<Rightarrow> bool" where
  "sent_none \<equiv> sent_logs (\<lambda>sid. [])"

lemma sent_none_same [intro]: "ws_sendMessages c' = ws_sendMessages c \<Longrightarrow> sent_none c c'"
  by (auto simp: sent_logs_def intro: exI [of _ "[]"])

lemma ws_send_logs:
  "ws_send m c1 = Inr c' \<Longrightarrow> ws_sendMessages c1 = ws_sendMessages c \<Longrightarrow>
     sent_logs (\<lambda>sid. data_logs sid (o_Data m)) c c'"
  by (auto simp: sent_logs_def intro!: exI [of _ "[m]"] chan_send_grow elim!: outcome_elims)

lemma SendWebsocketMessage_logs:
  assumes "SendWebsocketMessage t d c = Inr (err, c')"
  shows "if ws_state c = StateConnected then sent_logs (\<lambda>sid. data_logs sid d) c c' else c' = c"
  using assms
  by (auto simp: SendWebsocketMessage_def andThen_Inr_iff dest: ws_send_logs split: if_splits)

lemma addEventChannel_logs: "addEventChannel e ch c = Inr (i, c') \<Longrightarrow> sent_none c c'"
  by (auto simp: addEventChannel_def Let_def andThen_Inr_iff msg_subscribe_def dest!: ws_send_logs [where c = c]
      split: option.splits)

lemma removeEventChannel_logs: "removeEventChannel e i c = Inr c' \<Longrightarrow> sent_none c c'"
  by (auto simp: removeEventChannel_def Let_def msg_unsubscribe_def dest!: ws_send_logs [where c = c]
      split: option.splits if_splits)

lemma onIntroduction_logs: "onIntroduction os pid d c = Inr c' \<Longrightarrow> sent_none c c'"
  by (auto simp: onIntroduction_def Let_def setState_def dest!: ws_send_logs [where c = c] split: if_splits)

lemma handleMessage_logs: "handleMessage env m c = Inr (effs, err, c') \<Longrightarrow> sent_none c c'"
  unfolding handleMessage_def decoded_def onGreetings_def
  by (auto simp: andThen_Inr_iff msg_set_subscriptions_def intro: onIntroduction_logs
      dest!: ws_send_logs [where c = c] split: if_splits sum.splits)

subsection \<open>One step\<close>

text \<open>A client that sends keeps what was written and lets the waiting messages grow, if its channel is open.\<close>

lemma chan_grow_log: "chan_log (chan_grow ch ms) = chan_log ch \<or> chan_log (chan_grow ch ms) = chan_log ch @ ms"
  by (cases ch) simp_all

lemma history_sent:
  assumes "sent_logs ls (sys_client s) (sys_client s')" and "sys_taken s' = sys_taken s" and "sys_wire s' = sys_wire s"
    and "sys_taken s \<le> length (chan_log (ws_sendMessages (sys_client s)))"
  shows "\<exists>ms. history s' = history s @ ms \<and> (\<forall>sid. subseq (logs_of sid ms) (ls sid)) \<and>
    (chan_live (ws_sendMessages (sys_client s)) \<longrightarrow> (\<forall>sid. logs_of sid ms = ls sid))"
proof -
  from assms(1) obtain ms where ms: "ws_sendMessages (sys_client s') = chan_grow (ws_sendMessages (sys_client s)) ms"
    and logs: "\<forall>sid. logs_of sid ms = ls sid" by (auto simp: sent_logs_def)
  show ?thesis
  proof (cases "ws_sendMessages (sys_client s)")
    case (OpenChan b xs)
    with assms ms logs show ?thesis by (intro exI [of _ ms]) (simp add: history_def waiting_def)
  qed (use assms ms in \<open>auto simp: history_def waiting_def intro: exI [of _ "[]"]\<close>)
qed

lemma history_after_write:
  "history (after_write (ms, b) s) = sys_wire s @ ms @ waiting s"
  by (simp add: history_def waiting_def after_write_def Let_def)

lemma history_loop:
  assumes "sys_ok s" and "runLoop_step x s = Some (Inr s')"
  shows "subseq (history s') (history s)"
proof (cases x)
  case (LTicket t)
  with assms show ?thesis
    by (cases t) (auto simp: andThen_Inr_iff goto_def history_def waiting_def dial_begin_def setLastError_def
        split: if_splits)
next
  case (LDial d)
  with assms show ?thesis
    by (cases d) (auto simp: andThen_Inr_iff goto_def history_def waiting_def dial_end_def setLastError_def
        split: if_splits)
next
  case (LWriteMessage env)
  let ?log = "chan_log (ws_sendMessages (sys_client s))"
  let ?m = "?log ! sys_taken s"
  obtain ms b where w: "writePump_step env (Received ?m) = (ms, b)" by fastforce
  with LWriteMessage assms(2) have taken: "sys_taken s < length ?log"
    and s': "s' = after_write (ms, b) (s\<lparr>sys_taken := sys_taken s + 1\<rparr>)"
    by (auto simp: Let_def split: if_splits)
  from writePump_step_received [OF w] have "subseq ms [?m]" by auto
  then have "subseq (ms @ drop (Suc (sys_taken s)) ?log) ([?m] @ drop (Suc (sys_taken s)) ?log)"
    by (rule list_emb_append_mono) simp
  also have "\<dots> = drop (sys_taken s) ?log" using taken by (simp add: Cons_nth_drop_Suc)
  finally show ?thesis unfolding s' history_after_write
    by (simp add: history_def waiting_def list_emb_append_mono)
next
  case LWriteClosed
  with assms show ?thesis by (auto simp: history_after_write history_def [of s] split: if_splits)
next
  case (LWritePing env)
  with assms show ?thesis by (auto simp: history_after_write history_def [of s] split: if_splits)
qed (use assms in \<open>auto simp: andThen_Inr_iff goto_def history_def waiting_def connect_begin_def split: if_splits\<close>)

lemma history_act:
  assumes "sys_ok s" and "ws_act a s = Some (Inr s')"
  shows "\<exists>ms. subseq (history s') (history s @ ms) \<and> (\<forall>sid. subseq (logs_of sid ms) (action_logs sid a))"
proof -
  have bound: "sys_taken s \<le> length (chan_log (ws_sendMessages (sys_client s)))"
    using assms(1) by (simp add: sys_ok_def)
  show ?thesis
  proof (cases a)
    case (ALoop x)
    with assms have "subseq (history s') (history s)" by (auto intro: history_loop)
    with ALoop show ?thesis by (intro exI [of _ "[]"]) simp
  next
    case (ARead n env r)
    with assms(2) obtain effs looping rm c where
      read: "readPump_step env r (sys_readers s ! n) (sys_client s) = Inr (effs, looping, rm, c)"
      and s': "sys_client s' = c" "sys_taken s' = sys_taken s" "sys_wire s' = sys_wire s"
      by (auto simp: andThen_Inr_iff split: if_splits)
    from read have "sent_none (sys_client s) c"
      by (cases rule: readPump_step_cases) (auto dest: handleMessage_logs)
    with history_sent [OF _ s'(2,3) bound] s'(1) ARead show ?thesis by fastforce
  next
    case (ASend t d)
    with assms(2) obtain err c where send: "SendWebsocketMessage t d (sys_client s) = Inr (err, c)"
      and s': "s' = with_client s c" by (auto simp: andThen_Inr_iff)
    show ?thesis
    proof (cases "ws_state (sys_client s) = StateConnected")
      case True
      with SendWebsocketMessage_logs [OF send] s'
      have "sent_logs (\<lambda>sid. data_logs sid d) (sys_client s) (sys_client s')" by (simp add: with_client_def)
      from history_sent [OF this _ _ bound] ASend s' show ?thesis by (fastforce simp: with_client_def)
    next
      case False
      with SendWebsocketMessage_logs [OF send] s' show ?thesis
        by (intro exI [of _ "[]"]) (simp add: with_client_def history_def waiting_def)
    qed
  next
    case (AAddChannel e ch)
    with assms(2) obtain i c where "addEventChannel e ch (sys_client s) = Inr (i, c)" and s': "s' = with_client s c"
      by (auto simp: andThen_Inr_iff)
    then have "sent_none (sys_client s) (sys_client s')" by (auto simp: with_client_def dest: addEventChannel_logs)
    from history_sent [OF this _ _ bound] AAddChannel s' show ?thesis by (fastforce simp: with_client_def)
  next
    case (ARemoveChannel e i)
    with assms(2) obtain c where "removeEventChannel e i (sys_client s) = Inr c" and s': "s' = with_client s c"
      by (auto simp: andThen_Inr_iff)
    then have "sent_none (sys_client s) (sys_client s')" by (auto simp: with_client_def dest: removeEventChannel_logs)
    from history_sent [OF this _ _ bound] ARemoveChannel s' show ?thesis by (fastforce simp: with_client_def)
  next
    case AStop
    with assms(2) obtain c where "Stop (sys_client s) = Inr c" and s': "s' = with_client s c"
      by (auto simp: andThen_Inr_iff)
    then have "history s' = history s"
      by (cases rule: Stop_cases) (auto simp: with_client_def history_def waiting_def)
    then show ?thesis by (intro exI [of _ "[]"]) simp
  qed
qed

lemma history_run:
  assumes "sys_ok s" and "ws_run as s = Some (Inr s')"
  shows "subseq (logs_of sid (history s')) (logs_of sid (history s) @ flushed sid as)"
  using assms
proof (induction as arbitrary: s)
  case (Cons a as)
  then obtain s1 where act: "ws_act a s = Some (Inr s1)" and run: "ws_run as s1 = Some (Inr s')"
    by (auto split: option.splits sum.splits)
  from history_act [OF Cons.prems(1) act] obtain ms where ms: "subseq (history s1) (history s @ ms)"
    "subseq (logs_of sid ms) (action_logs sid a)" by blast
  from subseq_logs_of [OF ms(1)] have "subseq (logs_of sid (history s1)) (logs_of sid (history s) @ action_logs sid a)"
    using ms(2) by (auto intro: subseq_order.order_trans list_emb_append_mono)
  then have "subseq (logs_of sid (history s1) @ flushed sid as)
      ((logs_of sid (history s) @ action_logs sid a) @ flushed sid as)"
    by (rule list_emb_append_mono) simp
  with Cons.IH [OF sys_ok_act [OF Cons.prems(1) act] run] show ?case
    by (auto intro: subseq_order.order_trans)
qed simp

subsection \<open>A connection that holds\<close>

text \<open>The client is connected and its \<open>writePump\<close> is in its loop.\<close>

definition on_line :: "ws_sys \<Rightarrow> bool" where
  "on_line s \<longleftrightarrow> sys_ok s \<and> ws_state (sys_client s) = StateConnected \<and> sys_pc s = PcPump"

lemma on_line_chan:
  assumes "on_line s"
  shows "chan_live (ws_sendMessages (sys_client s))" "sys_taken s \<le> length (chan_log (ws_sendMessages (sys_client s)))"
  using assms by (auto simp: on_line_def sys_ok_def chan_ok_def)

text \<open>What a step that sends, and nothing else, does to a client that is on line.\<close>

lemma calm_sent:
  assumes "on_line s" and "sys_ok s'" and "sys_pc s' = sys_pc s" and "sys_taken s' = sys_taken s"
    and "sys_wire s' = sys_wire s" and "sent_logs ls (sys_client s) (sys_client s')"
    and "client_handled (sys_client s) (sys_client s')"
  shows "on_line s' \<and> (\<forall>sid. logs_of sid (history s') = logs_of sid (history s) @ ls sid)"
proof -
  from history_sent [OF assms(6,4,5) on_line_chan(2) [OF assms(1)]] on_line_chan(1) [OF assms(1)] obtain ms where
    "history s' = history s @ ms" "\<forall>sid. logs_of sid ms = ls sid" by blast
  moreover have "ws_state (sys_client s') = StateConnected"
    using assms(1,7) by (auto simp: on_line_def client_handled_def)
  ultimately show ?thesis using assms(1-3) by (simp add: on_line_def)
qed

lemma calm_write:
  assumes "on_line s" and "runLoop_step (LWriteMessage env) s = Some (Inr s')" and "all_fine env"
  shows "on_line s' \<and> history s' = history s \<and> waiting s' = tl (waiting s)"
proof -
  let ?log = "chan_log (ws_sendMessages (sys_client s))"
  from assms have taken: "sys_taken s < length ?log"
    and s': "s' = s\<lparr>sys_taken := sys_taken s + 1, sys_wire := sys_wire s @ [?log ! sys_taken s]\<rparr>"
    by (auto simp: Let_def after_write_def all_fine_def split: if_splits)
  have "waiting s = ?log ! sys_taken s # waiting s'"
    using taken by (simp add: waiting_def s' Cons_nth_drop_Suc)
  moreover have "sys_ok s'"
    using sys_ok_runLoop_step [OF _ assms(2)] assms(1) unfolding on_line_def by blast
  ultimately show ?thesis using assms(1) by (simp add: on_line_def history_def s')
qed

lemma calm_act:
  assumes "on_line s" and "ws_act a s = Some (Inr s')" and "calm a"
  shows "on_line s' \<and> (\<forall>sid. logs_of sid (history s') = logs_of sid (history s) @ action_logs sid a)"
proof -
  have ok': "sys_ok s'" using assms(1,2) by (auto simp: on_line_def intro: sys_ok_act)
  note sent = calm_sent [OF assms(1) ok']
  show ?thesis
  proof (cases a)
    case (ALoop x)
    with assms(3) consider (message) env where "x = LWriteMessage env" "all_fine env"
      | (ping) env where "x = LWritePing env" "all_fine env"
      by (cases x) auto
    then show ?thesis
    proof cases
      case message
      with calm_write [OF assms(1) _ message(2)] ALoop assms(2) show ?thesis by auto
    next
      case ping
      with ALoop assms(2) have "s' = s\<lparr>sys_wire := sys_wire s\<rparr>"
        by (auto simp: after_write_def all_fine_def split: if_splits)
      with assms(1) ALoop show ?thesis by simp
    qed
  next
    case (ARead n env r)
    with assms(2) obtain effs looping rm c where
      read: "readPump_step env r (sys_readers s ! n) (sys_client s) = Inr (effs, looping, rm, c)"
      and s': "sys_client s' = c" "sys_pc s' = sys_pc s" "sys_taken s' = sys_taken s" "sys_wire s' = sys_wire s"
      by (auto simp: andThen_Inr_iff split: if_splits)
    have looping
      using read ARead assms(3)
      by (cases r) (auto simp: readPump_step_def readMessage_def andThen_Inr_iff split: if_splits prod.splits option.splits)
    with read have "sent_none (sys_client s) c \<and> client_handled (sys_client s) c"
      by (cases rule: readPump_step_cases) (auto dest: handleMessage_logs handleMessage_handled intro: client_same_handled)
    with sent [OF s'(2-4), of "\<lambda>sid. []"] s'(1) ARead show ?thesis by simp
  next
    case (ASend t d)
    with assms(1,2) obtain err where
      send: "SendWebsocketMessage t d (sys_client s) = Inr (err, sys_client s')"
      and s': "s' = with_client s (sys_client s')" by (auto simp: andThen_Inr_iff with_client_def)
    have "sent_logs (\<lambda>sid. data_logs sid d) (sys_client s) (sys_client s')"
      using SendWebsocketMessage_logs [OF send] assms(1) by (simp add: on_line_def)
    with sent [of "\<lambda>sid. data_logs sid d"] arg_cong [OF s', of sys_pc] arg_cong [OF s', of sys_taken]
      arg_cong [OF s', of sys_wire] client_same_handled [OF SendWebsocketMessage_same [OF send]] ASend
    show ?thesis by (simp add: with_client_def)
  next
    case (AAddChannel e ch)
    with assms(2) obtain i c where "addEventChannel e ch (sys_client s) = Inr (i, c)" and "s' = with_client s c"
      by (auto simp: andThen_Inr_iff)
    with sent [of "\<lambda>sid. []"] AAddChannel show ?thesis
      by (auto simp: with_client_def dest: addEventChannel_logs addEventChannel_same client_same_handled)
  next
    case (ARemoveChannel e i)
    with assms(2) obtain c where "removeEventChannel e i (sys_client s) = Inr c" and "s' = with_client s c"
      by (auto simp: andThen_Inr_iff)
    with sent [of "\<lambda>sid. []"] ARemoveChannel show ?thesis
      by (auto simp: with_client_def dest: removeEventChannel_logs removeEventChannel_same client_same_handled)
  qed (use assms(3) in simp)
qed

lemma calm_run:
  assumes "on_line s" and "ws_run as s = Some (Inr s')" and "\<forall>a \<in> set as. calm a"
  shows "on_line s' \<and> logs_of sid (history s') = logs_of sid (history s) @ flushed sid as"
  using assms
proof (induction as arbitrary: s)
  case (Cons a as)
  then obtain s1 where act: "ws_act a s = Some (Inr s1)" and run: "ws_run as s1 = Some (Inr s')"
    by (auto split: option.splits sum.splits)
  from calm_act [OF Cons.prems(1) act] Cons.prems(3) have "on_line s1"
    and "logs_of sid (history s1) = logs_of sid (history s) @ action_logs sid a" by auto
  with Cons.IH [OF _ run] Cons.prems(3) show ?case by simp
qed simp

text \<open>The pump writes what waits, one message in a round.\<close>

lemma calm_drain:
  assumes "on_line s" and "all_fine env"
  shows "\<exists>s'. ws_run (replicate (length (waiting s)) (ALoop (LWriteMessage env))) s = Some (Inr s') \<and>
    sys_wire s' = history s"
  using assms(1)
proof (induction "length (waiting s)" arbitrary: s)
  case 0
  then show ?case by (simp add: history_def)
next
  case (Suc n)
  then have "sys_taken s < length (chan_log (ws_sendMessages (sys_client s)))" by (simp add: waiting_def)
  with Suc.prems obtain s1 where step: "runLoop_step (LWriteMessage env) s = Some (Inr s1)"
    by (auto simp: on_line_def Let_def)
  from calm_write [OF Suc.prems step assms(2)] have s1: "on_line s1" "history s1 = history s"
    "waiting s1 = tl (waiting s)" by auto
  with Suc.hyps(2) have "n = length (waiting s1)" by simp
  from Suc.hyps(1) [OF this s1(1)] obtain s' where
    "ws_run (replicate (length (waiting s1)) (ALoop (LWriteMessage env))) s1 = Some (Inr s')" "sys_wire s' = history s"
    using s1(2) by auto
  moreover have "replicate (length (waiting s)) (ALoop (LWriteMessage env)) =
      ALoop (LWriteMessage env) # replicate (length (waiting s1)) (ALoop (LWriteMessage env))"
    using Suc.hyps(2) \<open>n = length (waiting s1)\<close> by (metis replicate_Suc)
  ultimately show ?case using step by (intro exI [of _ s']) simp
qed

subsection \<open>Lost logs\<close>

text \<open>
  Outside a connection a flush does nothing at all, and a new connection starts with a new channel: what waited in the
  old one is never written.
\<close>

lemma flush_off_line_lost:
  assumes "ws_state (sys_client s) \<noteq> StateConnected"
  shows "ws_act (log_flush sid lr) s = Some (Inr s)"
  using assms by (simp add: log_flush_def SendWebsocketMessage_def with_client_def)

lemma waiting_lost_at_reconnection:
  assumes "sys_pc s = PcTicket" and "ws_state (sys_client s) = StateConnecting"
  shows "\<exists>s'. ws_act (ALoop (LTicket (Inr t))) s = Some (Inr s') \<and> waiting s' = [] \<and> sys_wire s' = sys_wire s"
  using assms by (simp add: goto_def dial_begin_def waiting_def requireState_def)

section \<open>Examples\<close>

definition fine_writes :: write_env where
  "fine_writes = \<lparr>wr_NextWriter = None, wr_unexpected = \<lambda>_. False, wr_Marshal = \<lambda>_. None, wr_Write = None, wr_Ping = None\<rparr>"

definition connected_run :: "ws_action list" where
  "connected_run = dialled @ [ARead 0 example_reads (ReadText ''introduction'')]"

text \<open>A command that writes to both streams, and what its buffer flushes, among the flush of another task.\<close>

definition example_writes :: "writers_op list" where
  "example_writes = serial_ops @ Tick # FlushLocked 6 # Copied True ''c'' # replicate 5 (Wrote True 7)"

definition example_flushes :: "(string \<times> log_record list) list" where
  "example_flushes =
     [(''s1'', [\<lparr>rec_Time = 5, rec_Severity = SEVERITY_INFO, rec_Body = ''a''\<rparr>]),
      (''s2'', [\<lparr>rec_Time = 5, rec_Severity = SEVERITY_INFO, rec_Body = ''x''\<rparr>]),
      (''s1'', [\<lparr>rec_Time = 8, rec_Severity = SEVERITY_ERROR, rec_Body = ''bc''\<rparr>])]"

definition flush_actions :: "(string \<times> log_record list) list \<Rightarrow> ws_action list" where
  "flush_actions = map (\<lambda>(sid, lr). log_flush sid lr)"

lemma flush_actions_Cons: "flush_actions ((sid, lr) # xs) = log_flush sid lr # flush_actions xs"
  by (simp add: flush_actions_def)

text \<open>What \<open>executeTask\<close> sends is a run of such actions, when no other goroutine takes a step.\<close>

lemma executeTask_flushes:
  assumes "mfold (\<lambda>lr w1. andThen (SendLogs \<lparr>lm_SequenceID = sid, lm_Logs = lr\<rparr> w1) (\<lambda>(e1, w2). Inr w2)) lrs w =
      Inr w'"
  shows "ws_run (flush_actions (map (Pair sid) lrs)) (with_client s w) = Some (Inr (with_client s w'))"
  using assms
proof (induction lrs arbitrary: w)
  case Nil
  then show ?case by (simp add: flush_actions_def)
next
  case (Cons lr lrs)
  then show ?case by (auto simp: andThen_Inr_iff flush_actions_Cons log_flush_SendLogs with_client_def)
qed

lemma connected_run_on_line:
  "\<exists>s. ws_run connected_run example_start = Some (Inr s) \<and> on_line s \<and> logs_of ''s1'' (history s) = []"
proof -
  obtain s where s: "ws_run connected_run example_start = Some (Inr s)" and pc: "sys_pc s = PcPump"
    "ws_state (sys_client s) = StateConnected" "sys_wire s = []" "sys_taken s = 0"
    and log: "\<exists>h. chan_log (ws_sendMessages (sys_client s)) = [\<lparr>o_MessageType = ''hello'', o_Data = DHello h\<rparr>]"
    by (simp add: connected_run_def dialled_def example_start_def ws_init_def NewWSClient_def transitionState_def
        requireState_def setState_def goto_def connect_begin_def setLastError_def dial_begin_def dial_end_def
        readPump_step_def readMessage_def example_reads_def handleMessage_def decoded_def example_handlers_def
        onIntroduction_def Let_def ws_send_def)
  have "sys_ok s" by (rule reachable_sys_ok [OF reachable_run [OF s example_start_reachable]])
  with s pc log show ?thesis by (auto simp: on_line_def history_def waiting_def)
qed

text \<open>On line, a flush returns.\<close>

lemma log_flush_returns:
  assumes "on_line s"
  shows "\<exists>s'. ws_act (log_flush sid lr) s = Some (Inr s')"
proof -
  have "ws_state (sys_client s) = StateConnected" using assms by (simp add: on_line_def)
  moreover obtain c where "ws_send \<lparr>o_MessageType = ''send_log'', o_Data = DLogs \<lparr>lm_SequenceID = sid, lm_Logs = lr\<rparr>\<rparr>
      (sys_client s) = Inr c"
    using ws_send_returns [OF on_line_chan(1) [OF assms]] by blast
  ultimately show ?thesis by (simp add: log_flush_def SendWebsocketMessage_def)
qed

lemma flush_actions_run:
  assumes "on_line s"
  shows "\<exists>s'. ws_run (flush_actions xs) s = Some (Inr s')"
  using assms
proof (induction xs arbitrary: s)
  case (Cons x xs)
  obtain sid lr where x: "x = (sid, lr)" by fastforce
  from log_flush_returns [OF Cons.prems] obtain s1 where step: "ws_act (log_flush sid lr) s = Some (Inr s1)" by blast
  have "on_line s1" using calm_act [OF Cons.prems step] by (simp add: log_flush_def)
  with Cons.IH x step show ?case by (auto simp: flush_actions_def)
qed (simp add: flush_actions_def)

lemma flush_actions_facts:
  "\<forall>a \<in> set (flush_actions xs). calm a" "flushed sid (flush_actions xs) = map snd (filter (\<lambda>x. fst x = sid) xs)"
  by (induction xs) (auto simp: flush_actions_def log_flush_def)

lemma example_writes_run:
  "\<exists>w. writers_run example_writes (writers_start (new_buffer 0 1)) = Some (Inr w) \<and> writers_done w \<and>
     flushed ''s1'' (flush_actions example_flushes) = ob_delivered (OutputBuffer_Stop 8 9 (wr_buf w))"
  "serial example_writes (writers_start (new_buffer 0 1))"
  "copied example_writes = [(SEVERITY_INFO, CHR ''a''), (SEVERITY_ERROR, CHR ''b''), (SEVERITY_ERROR, CHR ''c'')]"
  by (simp_all add: example_writes_def serial_ops_def writers_start_def writers_done_def eval_nat_numeral OutputBuffer_Start_def
      NewOutputBuffer_def stream_buffer_def set_stream_buffer_def flush_actions_facts example_flushes_def OutputBuffer_Stop_def
      FlushRecord_def Flush_def Let_def)

section \<open>Properties\<close>

text \<open>C9. The logs of a sequence are never reordered, repeated or mixed with those of another: whatever the network, the
  other tasks, the callers and \<open>Stop\<close> do, in every interleaving and over any number of connections, the batches that
  were written for a sequence are, in their order, among those its output buffer flushed.\<close>

theorem task_logs_in_order:
  assumes "ws_run as (ws_init freshID options) = Some (Inr s)"
  shows "subseq (logs_of sid (sys_wire s)) (flushed sid as)"
proof -
  have "subseq (logs_of sid (history s)) (flushed sid as)"
    using history_run [OF sys_ok_init assms, of sid] by (simp add: history_def waiting_def ws_init_def NewWSClient_def)
  then show ?thesis unfolding history_def by (auto intro: subseq_order.order_trans list_emb_append2 simp: list_emb_append_mono)
qed

theorem task_logs_in_order_witness:
  "\<exists>s. ws_run (connected_run @ flush_actions example_flushes) (ws_init 1 example_options) = Some (Inr s) \<and>
     subseq (logs_of ''s1'' (sys_wire s)) (flushed ''s1'' (connected_run @ flush_actions example_flushes))"
proof -
  from connected_run_on_line obtain s0 where s0: "ws_run connected_run example_start = Some (Inr s0)" "on_line s0"
    by blast
  obtain s where "ws_run (flush_actions example_flushes) s0 = Some (Inr s)"
    using flush_actions_run [OF s0(2)] by blast
  with ws_run_append [OF s0(1)] have
    run: "ws_run (connected_run @ flush_actions example_flushes) (ws_init 1 example_options) = Some (Inr s)"
    by (simp add: example_start_def)
  from run task_logs_in_order [OF run] show ?thesis by blast
qed

text \<open>C8. On a connection that holds (the client is connected, no write or ping fails, no read ends its pump and nobody calls \<open>Stop\<close>), what the
  output buffer of a task hands over reaches the server: when no logs were sent under the task's sequence before, two goroutines filled the
  buffer in any interleaving of their steps with \<open>flushLoop\<close>, it was stopped, its batches are flushed among whatever other tasks and
  callers send, and the pump writes what waits, then the records on the wire for the sequence hold, of each stream, with its severity, only
  bytes that were read from its pipe, none twice and in their order; and byte for byte all that was read, across the streams in the order
  of the writes, when no call of \<open>Write\<close> began while the other goroutine was in one.\<close>

theorem task_output_reaches_server:
  assumes "ws_reachable s" and "ws_state (sys_client s) = StateConnected" and "sys_pc s = PcPump"
    and "ws_run as s = Some (Inr s')" and "\<forall>a \<in> set as. calm a" and "all_fine env"
    and "logs_of sid (history s) = []"
    and "writers_run xs (writers_start (OutputBuffer_Start t0 (NewOutputBuffer (Some cb)))) = Some (Inr w)" and "writers_done w"
    and "flushed sid as = ob_delivered (OutputBuffer_Stop t1 t2 (wr_buf w))"
  shows "\<exists>s''. ws_run (replicate (length (waiting s')) (ALoop (LWriteMessage env))) s' = Some (Inr s'') \<and>
    (\<forall>b. subseq (of_stream b (tagged (concat (logs_of sid (sys_wire s''))))) (of_stream b (copied xs))) \<and>
    (serial xs (writers_start (OutputBuffer_Start t0 (NewOutputBuffer (Some cb)))) \<longrightarrow>
      tagged (concat (logs_of sid (sys_wire s''))) = copied xs)"
proof -
  from assms(1-3) have "on_line s" by (simp add: on_line_def reachable_sys_ok)
  from calm_run [OF this assms(4,5)] assms(7) have "on_line s'" and logs: "logs_of sid (history s') = flushed sid as"
    by auto
  from calm_drain [OF this(1) assms(6)] obtain s'' where "sys_wire s'' = history s'"
    "ws_run (replicate (length (waiting s')) (ALoop (LWriteMessage env))) s' = Some (Inr s'')" by blast
  with logs assms(10) delivered_part [OF assms(8,9), of _ t1 t2] delivered_all(1) [OF assms(8,9), of t1 t2] show ?thesis
    by (intro exI [of _ s'']) simp
qed

theorem task_output_reaches_server_witness:
  "\<exists>s s' s''. ws_run connected_run example_start = Some (Inr s) \<and>
     ws_run (flush_actions example_flushes) s = Some (Inr s') \<and>
     ws_run (replicate (length (waiting s')) (ALoop (LWriteMessage fine_writes))) s' = Some (Inr s'') \<and>
     tagged (concat (logs_of ''s1'' (sys_wire s''))) =
       [(SEVERITY_INFO, CHR ''a''), (SEVERITY_ERROR, CHR ''b''), (SEVERITY_ERROR, CHR ''c'')]"
proof -
  from connected_run_on_line obtain s where s: "ws_run connected_run example_start = Some (Inr s)" "on_line s"
    "logs_of ''s1'' (history s) = []" by blast
  have reach: "ws_reachable s" by (rule reachable_run [OF s(1) example_start_reachable])
  from s(2) have st: "ws_state (sys_client s) = StateConnected" "sys_pc s = PcPump" by (simp_all add: on_line_def)
  obtain s' where run: "ws_run (flush_actions example_flushes) s = Some (Inr s')"
    using flush_actions_run [OF s(2)] by blast
  have fine: "all_fine fine_writes" by (simp add: all_fine_def fine_writes_def)
  from example_writes_run(1) obtain w where w: "writers_run example_writes (writers_start (new_buffer 0 1)) = Some (Inr w)"
    "writers_done w" "flushed ''s1'' (flush_actions example_flushes) = ob_delivered (OutputBuffer_Stop 8 9 (wr_buf w))" by blast
  from task_output_reaches_server [OF reach st run flush_actions_facts(1) fine s(3) w] example_writes_run(2,3) obtain s'' where
    "ws_run (replicate (length (waiting s')) (ALoop (LWriteMessage fine_writes))) s' = Some (Inr s'')"
    "tagged (concat (logs_of ''s1'' (sys_wire s''))) = copied example_writes" by auto
  with s(1) run example_writes_run(3) show ?thesis by (intro exI [of _ s] exI [of _ s'] exI [of _ s'']) simp
qed

end
