(* ===== verification/WS_Subscriptions.thy ===== *)
theory WS_Subscriptions
  imports WS_Lifecycle
begin

text \<open>
  \<open>telephonist/wsclient.go\<close>: the registry of event channels and the subscriptions of the server, in every interleaving of the
  goroutines of the client, over any number of connections.
\<close>

section \<open>Definitions\<close>

text \<open>The server has greeted on the present connection, and the client has answered with its whole list.\<close>

definition greeted :: "ws_client \<Rightarrow> bool" where
  "greeted c \<longleftrightarrow> (\<exists>es. msg_set_subscriptions es \<in> set (chan_log (ws_sendMessages c)))"

text \<open>
  What the program does: \<open>range\<close> visits the events of the registry, each once, and the callers of \<open>SendWebsocketMessage\<close> send logs and
  requests to synchronise (\<open>SendLogs\<close>, \<open>SendTasksSync\<close>), no subscriptions of their own.
\<close>

fun usual :: "ws_action \<Rightarrow> ws_client \<Rightarrow> bool" where
  "usual (ASend t d) c \<longleftrightarrow> (case d of DString e \<Rightarrow> False | DStrings es \<Rightarrow> False | _ \<Rightarrow> True)"
| "usual (ARead n env r) c \<longleftrightarrow> range_order (ws_eventChannels c) (env_event_order (rc_handlers env))"
| "usual _ c \<longleftrightarrow> True"

fun usual_run :: "ws_action list \<Rightarrow> ws_sys \<Rightarrow> bool" where
  "usual_run [] s \<longleftrightarrow> True"
| "usual_run (a # as) s \<longleftrightarrow> usual a (sys_client s) \<and>
     (case ws_act a s of Some (Inr s') \<Rightarrow> usual_run as s' | _ \<Rightarrow> True)"

definition in_sync :: "ws_client \<Rightarrow> bool" where
  "in_sync c \<longleftrightarrow> (greeted c \<longrightarrow> server_subscriptions c = fmdom' (ws_eventChannels c))"

section \<open>Lemmas\<close>

text \<open>Only the log of the channel and the registry matter.\<close>

lemma in_sync_same:
  assumes "in_sync c" and "chan_log (ws_sendMessages c') = chan_log (ws_sendMessages c)"
    and "ws_eventChannels c' = ws_eventChannels c"
  shows "in_sync c'"
  using assms by (simp add: in_sync_def greeted_def server_subscriptions_def)

lemma in_sync_new_channel: "chan_log (ws_sendMessages c) = [] \<Longrightarrow> in_sync c"
  by (simp add: in_sync_def greeted_def)

text \<open>A message that is sent while the events of the registry change from those of \<open>c\<close> to those of \<open>c1\<close>.\<close>

lemma in_sync_send:
  assumes "in_sync c" and "ws_sendMessages c1 = ws_sendMessages c" and "ws_send m c1 = Inr c'"
    and "\<forall>es. m \<noteq> msg_set_subscriptions es"
    and "server_step m (fmdom' (ws_eventChannels c)) = fmdom' (ws_eventChannels c1)"
  shows "in_sync c'"
proof -
  have log: "chan_log (ws_sendMessages c') = chan_log (ws_sendMessages c) @ [m]" "ws_eventChannels c' = ws_eventChannels c1"
    using assms(2,3) by (auto simp: chan_send_log elim!: outcome_elims)
  with assms(1,4,5) show ?thesis
    by (auto simp: in_sync_def greeted_def server_subscriptions_def)
qed

lemma in_sync_Send:
  assumes "in_sync c" and "SendWebsocketMessage t d c = Inr (err, c')" and "usual (ASend t d) c"
  shows "in_sync c'"
proof (cases "ws_state c = StateConnected")
  case True
  with assms(2) have send: "ws_send \<lparr>o_MessageType = t, o_Data = d\<rparr> c = Inr c'"
    by (auto simp: SendWebsocketMessage_def andThen_Inr_iff)
  from assms(1) _ send show ?thesis
    by (rule in_sync_send) (use assms(3) in \<open>auto simp: msg_set_subscriptions_def server_step_def split: o_data.splits\<close>)
qed (use assms in \<open>simp add: SendWebsocketMessage_def\<close>)

lemma in_sync_add:
  assumes "in_sync c" and "addEventChannel e ch c = Inr (i, c')"
  shows "in_sync c'"
proof (cases "fmlookup (ws_eventChannels c) e")
  case None
  let ?c1 = "c\<lparr>ws_eventChannelsSeq := ws_eventChannelsSeq c + 1,
    ws_eventChannels := fmupd e (fmupd (ws_eventChannelsSeq c + 1) ch fmempty) (ws_eventChannels c)\<rparr>"
  have send: "ws_send (msg_subscribe e) ?c1 = Inr c'"
    using assms(2) None by (auto simp: addEventChannel_def Let_def andThen_Inr_iff)
  from assms(1) _ send show ?thesis
    by (rule in_sync_send) (simp_all add: msg_subscribe_def msg_set_subscriptions_def server_step_def)
next
  case (Some channels)
  with assms(2) have "ws_sendMessages c' = ws_sendMessages c"
    and "ws_eventChannels c' = fmupd e (fmupd i ch channels) (ws_eventChannels c)"
    by (auto simp: addEventChannel_def Let_def)
  moreover have "insert e (fmdom' (ws_eventChannels c)) = fmdom' (ws_eventChannels c)"
    using Some by (auto intro: fmdom'I)
  ultimately show ?thesis using assms(1) by (simp add: in_sync_def greeted_def server_subscriptions_def)
qed

lemma in_sync_remove:
  assumes "in_sync c" and "removeEventChannel e i c = Inr c'"
  shows "in_sync c'"
proof (cases "fmlookup (ws_eventChannels c) e")
  case None
  with assms show ?thesis by (simp add: removeEventChannel_def)
next
  case (Some channels)
  show ?thesis
  proof (cases "mlen (fmdrop i channels) = 0")
    case True
    with assms(2) Some have send: "ws_send (msg_unsubscribe e) (c\<lparr>ws_eventChannels := fmdrop e (ws_eventChannels c)\<rparr>) = Inr c'"
      by (auto simp: removeEventChannel_def Let_def)
    from assms(1) _ send show ?thesis
      by (rule in_sync_send) (simp_all add: msg_unsubscribe_def msg_set_subscriptions_def server_step_def)
  next
    case False
    with assms(2) Some have "ws_sendMessages c' = ws_sendMessages c"
      and "ws_eventChannels c' = fmupd e (fmdrop i channels) (ws_eventChannels c)"
      by (auto simp: removeEventChannel_def Let_def)
    moreover have "insert e (fmdom' (ws_eventChannels c)) = fmdom' (ws_eventChannels c)"
      using Some by (auto intro: fmdom'I)
    ultimately show ?thesis using assms(1) by (simp add: in_sync_def greeted_def server_subscriptions_def)
  qed
qed

lemma in_sync_introduction:
  assumes "in_sync c" and "onIntroduction os pid d c = Inr c'"
  shows "in_sync c'"
proof (cases "ws_state c = StatePreparing")
  case True
  with assms(2) obtain h where send: "ws_send \<lparr>o_MessageType = ''hello'', o_Data = DHello h\<rparr> (setState StateConnected c) = Inr c'"
    by (auto simp: onIntroduction_def Let_def)
  from assms(1) _ send show ?thesis
    by (rule in_sync_send) (simp_all add: setState_def msg_set_subscriptions_def server_step_def)
qed (use assms in \<open>simp add: onIntroduction_def\<close>)

lemma in_sync_greetings:
  assumes "onGreetings order c = Inr (effs, c')" and "range_order (ws_eventChannels c) order"
  shows "in_sync c'"
proof -
  from assms(1) have send: "ws_send (msg_set_subscriptions order) c = Inr c'"
    by (auto simp: onGreetings_def andThen_Inr_iff)
  then have "server_subscriptions c' = set order" "ws_eventChannels c' = ws_eventChannels c"
    by (simp_all add: ws_send_server server_step_def msg_set_subscriptions_def)
  with range_order_set [OF assms(2)] show ?thesis by (simp add: in_sync_def)
qed

lemma in_sync_handle:
  assumes "in_sync c" and "handleMessage env m c = Inr (effs, err, c')"
    and "range_order (ws_eventChannels c) (env_event_order env)"
  shows "in_sync c'"
  using assms unfolding handleMessage_def decoded_def
  by (auto simp: andThen_Inr_iff intro: in_sync_introduction in_sync_greetings split: if_splits sum.splits)

lemma in_sync_loop:
  assumes "in_sync (sys_client s)" and "runLoop_step x s = Some (Inr s')"
  shows "in_sync (sys_client s')"
proof (cases x)
  case (LTicket t)
  with assms show ?thesis
    by (cases t) (auto simp: goto_def andThen_Inr_iff dial_begin_def setLastError_def
        intro: in_sync_same in_sync_new_channel split: if_splits)
next
  case (LDial d)
  with assms show ?thesis
    by (cases d) (auto simp: goto_def andThen_Inr_iff dial_end_def setLastError_def intro: in_sync_same split: if_splits)
qed (use assms in \<open>auto simp: goto_def andThen_Inr_iff connect_begin_def after_write_def Let_def onDisconnect_def setState_def
    intro: in_sync_same split: if_splits prod.splits\<close>)

lemma in_sync_act:
  assumes "in_sync (sys_client s)" and "ws_act a s = Some (Inr s')" and "usual a (sys_client s)"
  shows "in_sync (sys_client s')"
proof (cases a)
  case (ALoop x)
  with assms show ?thesis by (auto intro: in_sync_loop)
next
  case (ARead n env r)
  with assms(2) obtain effs looping rm c where
    read: "readPump_step env r (sys_readers s ! n) (sys_client s) = Inr (effs, looping, rm, c)" and s': "sys_client s' = c"
    by (auto simp: andThen_Inr_iff split: if_splits)
  from read show ?thesis
    by (cases rule: readPump_step_cases)
      (use assms(1,3) ARead s' in \<open>auto simp: onDisconnect_def setState_def intro: in_sync_handle in_sync_same\<close>)
next
  case AStop
  with assms(2) obtain c where "Stop (sys_client s) = Inr c" and "sys_client s' = c"
    by (auto simp: andThen_Inr_iff with_client_def)
  with assms(1) show ?thesis by (auto elim!: Stop_cases intro: in_sync_same)
qed (use assms in \<open>auto simp: andThen_Inr_iff with_client_def simp del: usual.simps
    intro: in_sync_Send in_sync_add in_sync_remove\<close>)

lemma in_sync_run:
  assumes "in_sync (sys_client s)" and "ws_run as s = Some (Inr s')" and "usual_run as s"
  shows "in_sync (sys_client s')"
  using assms
proof (induction as arbitrary: s)
  case (Cons a as)
  then obtain s1 where act: "ws_act a s = Some (Inr s1)" and run: "ws_run as s1 = Some (Inr s')"
    by (auto split: option.splits sum.splits)
  with Cons.prems(3) have "usual a (sys_client s)" "usual_run as s1" by simp_all
  with Cons.IH [OF in_sync_act [OF Cons.prems(1) act] run] show ?case by blast
qed simp

section \<open>Examples\<close>

definition greeted_run :: "ws_action list" where
  "greeted_run = dialled @ [ARead 0 example_reads (ReadText ''introduction''), ARead 0 example_reads (ReadText ''greetings''),
     AAddChannel ''login'' 9, AAddChannel ''signup'' 9, ARemoveChannel ''login'' 1]"

lemma greeted_run_end:
  "\<exists>s. ws_run greeted_run example_start = Some (Inr s) \<and> usual_run greeted_run example_start \<and>
     greeted (sys_client s) \<and> fmdom' (ws_eventChannels (sys_client s)) = {''signup''}"
  by (simp add: greeted_run_def dialled_def example_start_def ws_init_def NewWSClient_def transitionState_def
      requireState_def setState_def goto_def connect_begin_def setLastError_def dial_begin_def dial_end_def
      readPump_step_def readMessage_def example_reads_def handleMessage_def decoded_def example_handlers_def
      onIntroduction_def onGreetings_def example_options_def call_back_def Let_def ws_send_def with_client_def
      addEventChannel_def removeEventChannel_def mlen_0_iff greeted_def msg_set_subscriptions_def msg_subscribe_def
      msg_unsubscribe_def range_order_def, auto)

section \<open>Properties\<close>

text \<open>C10. The server's list of subscriptions follows the registry of the client in every interleaving of the loop, the readers, the callers
  and \<open>Stop\<close>, over any number of connections, whatever the network does: once the server has greeted on the present connection,
  the messages sent on it leave the server with exactly the events that have a channel, also those that were added or
  removed before the greetings or on an earlier connection.\<close>

theorem subscriptions_in_sync:
  assumes "ws_run as (ws_init freshID options) = Some (Inr s)" and "usual_run as (ws_init freshID options)"
    and "greeted (sys_client s)"
  shows "server_subscriptions (sys_client s) = fmdom' (ws_eventChannels (sys_client s))"
proof -
  have "in_sync (sys_client (ws_init freshID options))"
    by (rule in_sync_new_channel) (simp add: ws_init_def NewWSClient_def)
  from in_sync_run [OF this assms(1,2)] assms(3) show ?thesis by (simp add: in_sync_def)
qed

theorem subscriptions_in_sync_witness:
  "\<exists>s. ws_run greeted_run (ws_init 1 example_options) = Some (Inr s) \<and>
     server_subscriptions (sys_client s) = {''signup''}"
proof -
  obtain s where s: "ws_run greeted_run (ws_init 1 example_options) = Some (Inr s)"
    "usual_run greeted_run (ws_init 1 example_options)" "greeted (sys_client s)"
    "fmdom' (ws_eventChannels (sys_client s)) = {''signup''}"
    using greeted_run_end unfolding example_start_def by blast
  from subscriptions_in_sync [OF s(1-3)] s(1,4) show ?thesis by auto
qed

end
