(* ===== verification/Validation_Tag.thy ===== *)
theory Validation_Tag
  imports Telephonist_Types
begin

text \<open>
  \<open>telephonist/validate.go\<close> and \<open>telephonist/init.go\<close>: the tag \<open>validate_self\<close> that the package registers with the third-party
  validator, and the struct field of \<open>telephonist/types.go\<close> that carries it. The validator itself is an argument of the REST client;
  what it hands to the function is \<open>Field().Interface()\<close>, a value with its dynamic type.
\<close>

section \<open>Definitions\<close>

text \<open>
  The values that matter: a trigger, a pointer to one (\<open>nil\<close> or not), and all others. The type assertion asks whether the dynamic
  type has the method \<open>Validate\<close>; that method is declared on \<open>*TaskTrigger\<close>, so a trigger by value does not have it.
\<close>

datatype field_value =
    FieldTrigger task_trigger
  | FieldPointer "task_trigger option"
  | FieldOther

fun ValidateSelf :: "field_value \<Rightarrow> goerror option outcome option" where
  "ValidateSelf (FieldPointer (Some t)) = Some (Inr (Trigger_Validate t))"
| "ValidateSelf (FieldPointer None) = Some (Inl nil_dereference)"
| "ValidateSelf _ = None"

definition validate_self :: "field_value \<Rightarrow> bool outcome" where
  "validate_self v =
     (case ValidateSelf v of
        Some validate \<Rightarrow> andThen validate (\<lambda>err. Inr (err = None))
      | None \<Rightarrow> Inr True)"

text \<open>The tags that \<open>init\<close> has registered.\<close>

definition initValidator :: "(string \<rightharpoonup> (field_value \<Rightarrow> bool outcome)) \<Rightarrow> string \<rightharpoonup> (field_value \<Rightarrow> bool outcome)" where
  "initValidator validators = validators(''validate_self'' \<mapsto> validate_self)"

section \<open>Lemmas\<close>

text \<open>
  The field \<open>Triggers\<close> of \<open>DefineTaskRequest\<close> is a slice of triggers by value, and \<open>dive\<close> goes through its elements: none of them is
  ever refused, whatever its name and body. By pointer, every \<open>cron\<close> and every \<open>event\<close> trigger would be.
\<close>

lemma validate_self_accepts_values: "validate_self (FieldTrigger t) = Inr True"
  by (simp add: validate_self_def)

lemma validate_self_pointer:
  "validate_self (FieldPointer (Some t)) =
     Inr (trigger_Name t = TRIGGER_FSNOTIFY \<and> json_string (trigger_Body t) \<noteq> None)"
  by (simp add: validate_self_def Trigger_Validate_def Unmarshal_def trigger_types split: option.splits)

lemma initValidator_registers: "initValidator validators ''validate_self'' = Some validate_self"
  by (simp add: initValidator_def)

end
