(* ===== verification/Console.thy ===== *)
theory Console
  imports Go_Strings
begin

text \<open>
  \<open>utils.go\<close> of the main package: sets of strings and the questions on the console. The console is a list of lines, each ended
  by a line feed; after them \<open>ReadString\<close> returns the empty text and \<open>io.EOF\<close>, again and again. Every question makes its
  own reader, as on a terminal, which gives one line at a time. What is printed is not modelled. A question may never
  return: \<open>None\<close>. \<open>strings.TrimSpace\<close> is taken on ASCII white space.
\<close>

section \<open>Definitions\<close>

type_synonym terminal = "string list"
type_synonym 'a dialog = "terminal \<Rightarrow> ('a \<times> terminal) outcome option"

definition answer :: "'a \<Rightarrow> 'a dialog" where
  "answer x inp = Some (Inr (x, inp))"

definition fails :: "crash \<Rightarrow> 'a dialog" where
  "fails c inp = Some (Inl c)"

definition ask :: "'a dialog \<Rightarrow> ('a \<Rightarrow> 'b dialog) \<Rightarrow> 'b dialog" where
  "ask m f inp =
     (case m inp of
        None \<Rightarrow> None
      | Some (Inl c) \<Rightarrow> Some (Inl c)
      | Some (Inr (x, inp1)) \<Rightarrow> f x inp1)"

text \<open>\<open>ReadString\<close>: the text with its line feed, and whether the input has ended.\<close>

fun read_string :: "terminal \<Rightarrow> string \<times> bool \<times> terminal" where
  "read_string [] = ([], True, [])"
| "read_string (l # ls) = (l @ [nl], False, ls)"

text \<open>\<open>text[:len(text)-1]\<close>: a panic on the empty text.\<close>

definition slice_bounds :: crash where
  "slice_bounds = Panic ''slice bounds out of range''"

definition chop :: "string \<Rightarrow> string outcome" where
  "chop text = (if text = [] then Inl slice_bounds else Inr (butlast text))"

text \<open>A line without its line feed.\<close>

definition read_chopped :: "string dialog" where
  "read_chopped inp =
     (case read_string inp of (text, eof, inp1) \<Rightarrow> Some (andThen (chop text) (\<lambda>t. Inr (t, inp1))))"

definition contains_item :: "'a list \<Rightarrow> 'a \<Rightarrow> bool" where
  "contains_item arr v = List.member arr v"

definition addToSet :: "'a list \<Rightarrow> 'a \<Rightarrow> 'a list" where
  "addToSet arr v = (if contains_item arr v then arr else arr @ [v])"

fun readYn_lines :: "string list \<Rightarrow> string list \<Rightarrow> terminal \<Rightarrow> (bool \<times> terminal) outcome" where
  "readYn_lines yes no [] = Inl slice_bounds"
| "readYn_lines yes no (text # ls) =
     (if text \<in> set no then Inr (False, ls)
      else if text \<in> set yes then Inr (True, ls)
      else readYn_lines yes no ls)"

text \<open>\<open>yes\<close> and \<open>no\<close> are the message texts, lists with commas.\<close>

definition readYn :: "string \<Rightarrow> string \<Rightarrow> bool dialog" where
  "readYn yes no inp =
     Some (readYn_lines (split_byte (CHR '','') yes) (split_byte (CHR '','') no) inp)"

definition trim_space :: "string \<Rightarrow> string" where
  "trim_space s = trim s [tab, nl, CHR 0x0B, CHR 0x0C, cr, CHR '' '']"

definition readString :: "string dialog" where
  "readString inp =
     (case read_string inp of
        (value, True, inp1) \<Rightarrow> Some (Inl (Panic ''EOF''))
      | (value, False, inp1) \<Rightarrow> Some (Inr (trim_space value, inp1)))"

partial_function (option) readStringWithCondition :: "(string \<Rightarrow> bool) \<Rightarrow> terminal \<Rightarrow> (string \<times> terminal) outcome option" where
  "readStringWithCondition condition inp =
     (let (value, eof, inp1) = read_string inp
      in if condition value then Some (Inr (trim_space value, inp1))
         else readStringWithCondition condition inp1)"

definition isNotEmptyString :: "string \<Rightarrow> bool" where
  "isNotEmptyString s \<longleftrightarrow> trim s [CHR '' '', tab, nl] \<noteq> []"

definition tags_of :: "string \<Rightarrow> string list" where
  "tags_of str =
     fold (\<lambda>part tags. let p = trim part [CHR '' '', tab] in if p \<noteq> [] then addToSet tags p else tags)
       (split_byte (CHR '','') str) []"

definition readTags :: "string list dialog" where
  "readTags = ask readString (\<lambda>str. answer (tags_of str))"

section \<open>Lemmas\<close>

lemma ask_simps [simp]:
  "ask (answer x) f = f x" "ask (fails c) f = fails c"
  by (simp_all add: ask_def answer_def fails_def fun_eq_iff)

lemma readString_simps [simp]:
  "readString [] = Some (Inl (Panic ''EOF''))"
  "readString (l # ls) = Some (Inr (trim_space (l @ [nl]), ls))"
  by (simp_all add: readString_def)

lemma read_chopped_simps [simp]:
  "read_chopped [] = Some (Inl slice_bounds)"
  "read_chopped (l # ls) = Some (Inr (l, ls))"
  by (simp_all add: read_chopped_def chop_def)

lemma addToSet_iff: "set (addToSet arr v) = insert v (set arr)" "distinct arr \<Longrightarrow> distinct (addToSet arr v)"
  by (auto simp: addToSet_def contains_item_def)

lemma readYn_lines_first:
  "set pre \<inter> (set yes \<union> set no) = {} \<Longrightarrow> readYn_lines yes no (pre @ ls) = readYn_lines yes no ls"
  by (induction pre) auto

text \<open>At the end of the input the condition is tried on the empty text for ever.\<close>

lemma readStringWithCondition_returns:
  assumes "readStringWithCondition condition inp = Some y"
  shows "inp = [] \<longrightarrow> condition []"
  by (rule readStringWithCondition.raw_induct [where P = "\<lambda>c i y. i = [] \<longrightarrow> c []", OF _ assms])
    (auto split: if_splits, blast)

lemma readStringWithCondition_end: "readStringWithCondition condition [] = (if condition [] then Some (Inr ([], [])) else None)"
proof (cases "condition []")
  case True
  then show ?thesis by (simp add: readStringWithCondition.simps trim_space_def trim_def trim_left_def trim_right_def)
next
  case False
  then show ?thesis using readStringWithCondition_returns [of condition "[]"] by (cases "readStringWithCondition condition []") auto
qed

lemma readStringWithCondition_line:
  "readStringWithCondition condition (l # ls) =
     (if condition (l @ [nl]) then Some (Inr (trim_space (l @ [nl]), ls)) else readStringWithCondition condition ls)"
  by (simp add: readStringWithCondition.simps)

lemma readStringWithCondition_first:
  "\<forall>x \<in> set pre. \<not> condition (x @ [nl]) \<Longrightarrow> readStringWithCondition condition (pre @ ls) = readStringWithCondition condition ls"
  by (induction pre) (simp_all add: readStringWithCondition_line)

definition clean_tags :: "string \<Rightarrow> string list" where
  "clean_tags str = filter (\<lambda>p. p \<noteq> []) (map (\<lambda>part. trim part [CHR '' '', tab]) (split_byte (CHR '','') str))"

lemma fold_addToSet_snoc: "fold (\<lambda>v tags. addToSet tags v) (vs @ [v]) acc = addToSet (fold (\<lambda>v tags. addToSet tags v) vs acc) v"
  by simp

lemma fold_addToSet: "fold (\<lambda>v tags. addToSet tags v) vs [] = rev (remdups (rev vs))"
proof (induction vs rule: rev_induct)
  case (snoc v vs)
  then show ?case by (simp add: addToSet_def contains_item_def)
qed simp

lemma tags_of_clean: "tags_of str = fold (\<lambda>v tags. addToSet tags v) (clean_tags str) []"
proof -
  have "fold (\<lambda>part tags. let p = trim part [CHR '' '', tab] in if p \<noteq> [] then addToSet tags p else tags) ps acc =
      fold (\<lambda>v tags. addToSet tags v) (filter (\<lambda>p. p \<noteq> []) (map (\<lambda>part. trim part [CHR '' '', tab]) ps)) acc" for ps acc
    by (induction ps arbitrary: acc) (simp_all add: Let_def)
  then show ?thesis by (simp add: tags_of_def clean_tags_def)
qed

section \<open>Properties\<close>

text \<open>The tags of an answer: its parts between commas without blanks around them, the empty ones left out, each once, in the
  order in which they first appear.\<close>

theorem readTags_answer:
  "readTags (line # rest) = Some (Inr (rev (remdups (rev (clean_tags (trim_space (line @ [nl]))))), rest))"
  by (simp add: readTags_def ask_def answer_def tags_of_clean fold_addToSet)

text \<open>C37. What the questions answer. \<open>readYn\<close> skips the lines that are no known answer and returns at the first that is one: false when it is one of
  the words for no (also when it is a word for yes as well), true otherwise, with the rest of the input left; when no line is an answer it panics at
  the end of the input. \<open>readStringWithCondition\<close> returns at the first line that satisfies its condition (with its line feed), without the blanks
  around it and with the rest of the input left; when no line does it returns at the end of the input if the empty text satisfies
  the condition, and never otherwise. Every line is ended by a line feed.\<close>

theorem questions_return:
  assumes "ys = split_byte (CHR '','') yes" and "ns = split_byte (CHR '','') no"
  shows "(\<forall>pre l rest. inp = pre @ l # rest \<and> set pre \<inter> (set ys \<union> set ns) = {} \<and> l \<in> set ys \<union> set ns \<longrightarrow>
      readYn yes no inp = Some (Inr (l \<notin> set ns, rest))) \<and>
    (set inp \<inter> (set ys \<union> set ns) = {} \<longrightarrow> readYn yes no inp = Some (Inl slice_bounds)) \<and>
    (\<forall>pre l rest. inp = pre @ l # rest \<and> (\<forall>x \<in> set pre. \<not> condition (x @ [nl])) \<and> condition (l @ [nl]) \<longrightarrow>
      readStringWithCondition condition inp = Some (Inr (trim_space (l @ [nl]), rest))) \<and>
    ((\<forall>x \<in> set inp. \<not> condition (x @ [nl])) \<longrightarrow>
      readStringWithCondition condition inp = (if condition [] then Some (Inr ([], [])) else None))"
proof (intro conjI)
  show "\<forall>pre l rest. inp = pre @ l # rest \<and> set pre \<inter> (set ys \<union> set ns) = {} \<and> l \<in> set ys \<union> set ns \<longrightarrow>
      readYn yes no inp = Some (Inr (l \<notin> set ns, rest))"
    by (auto simp: readYn_def assms readYn_lines_first)
  show "set inp \<inter> (set ys \<union> set ns) = {} \<longrightarrow> readYn yes no inp = Some (Inl slice_bounds)"
    using readYn_lines_first [of inp ys ns "[]"] by (simp add: readYn_def assms)
  show "\<forall>pre l rest. inp = pre @ l # rest \<and> (\<forall>x \<in> set pre. \<not> condition (x @ [nl])) \<and> condition (l @ [nl]) \<longrightarrow>
      readStringWithCondition condition inp = Some (Inr (trim_space (l @ [nl]), rest))"
    by (simp add: readStringWithCondition_first readStringWithCondition_line)
  show "(\<forall>x \<in> set inp. \<not> condition (x @ [nl])) \<longrightarrow>
      readStringWithCondition condition inp = (if condition [] then Some (Inr ([], [])) else None)"
    using readStringWithCondition_first [of inp condition "[]"] by (simp add: readStringWithCondition_end)
qed

theorem questions_return_witness:
  "readYn ''y,yes'' ''n,no'' [''maybe'', ''no'', ''yes''] = Some (Inr (False, [''yes''])) \<and>
    readStringWithCondition (\<lambda>s. s \<noteq> []) [] = None"
proof -
  have parts: "[''y'', ''yes''] = split_byte (CHR '','') ''y,yes''" "[''n'', ''no''] = split_byte (CHR '','') ''n,no''"
    by code_simp+
  from questions_return [OF parts, of "[''maybe'', ''no'', ''yes'']" "\<lambda>s. s \<noteq> []", THEN conjunct1, rule_format, of "[''maybe'']" "''no''" "[''yes'']"]
    questions_return [OF parts, of "[]" "\<lambda>s. s \<noteq> []"]
  show ?thesis by simp
qed

end
