(* ===== verification/Agent_App.thy ===== *)
theory Agent_App
  imports Agent_Runs Console
begin

text \<open>
  \<open>app.go\<close>: the configuration dialogue (\<open>init\<close>), the registration by code, the test of the configuration, and the steps of the main action
  up to the running agent. (The lock, the flags and the shutdown are in \<open>Command_Line\<close>.) Printed texts are not modelled.
  \<open>url.Parse\<close>, the JSON codec and the server are arguments; the server may answer every attempt to
  register differently.
\<close>

section \<open>Definitions\<close>

record app_config =
  ac_ApplicationKey :: string
  ac_TelephonistAddress :: string

record app_env =
  pe_codec :: "app_config codec"
  pe_io :: file_env
  pe_filepath :: string
  pe_url_Parse :: "string \<Rightarrow> goerror + url"
  pe_yes :: string
  pe_no :: string
  pe_register :: "nat \<Rightarrow> code_registration_completed gorequest"
  pe_probe :: "unit gorequest"

text \<open>\<open>CreateNewApp\<close>: the configuration before anything is loaded.\<close>

definition default_config :: app_config where
  "default_config = \<lparr>ac_ApplicationKey = [], ac_TelephonistAddress = ''https://localhost:5789''\<rparr>"

text \<open>The pattern \<open>[\d\w_]+\<close> is not anchored: one such character anywhere matches.\<close>

definition word_char :: "char \<Rightarrow> bool" where
  "word_char c \<longleftrightarrow>
     (let n = of_char c :: nat in 48 \<le> n \<and> n \<le> 57 \<or> 65 \<le> n \<and> n \<le> 90 \<or> 97 \<le> n \<and> n \<le> 122 \<or> c = CHR ''_'')"

definition isValidApplicationName :: "string \<Rightarrow> bool" where
  "isValidApplicationName s \<longleftrightarrow> s \<noteq> [] \<and> list_ex word_char s"

subsection \<open>Registration by code\<close>

text \<open>The state of the dialogues: the configuration in memory and the disk.\<close>

type_synonym app_state = "app_config \<times> disk"

text \<open>One round asks for a code and submits it; a success stores the key and ends the loop, whatever \<open>Write\<close> returns.\<close>

fun cr_loop ::
  "app_env \<Rightarrow> rest_client \<Rightarrow> create_application_request \<Rightarrow> nat \<Rightarrow> app_state \<Rightarrow> (goerror option \<times> app_state) dialog" where
  "cr_loop pe client app n (cfg, d) [] = Some (Inl (Panic ''EOF''))"
| "cr_loop pe client app n (cfg, d) (l # ls) =
     (case SubmitCodeRegistration (pe_register pe n) client (trim_space (l @ [nl])) (Some app) of
        Inl c \<Rightarrow> Some (Inl c)
      | Inr (response, Some err) \<Rightarrow> cr_loop pe client app (n + 1) (cfg, d) ls
      | Inr (response, None) \<Rightarrow>
          (let cfg1 = cfg\<lparr>ac_ApplicationKey := crc_Key response\<rparr>
           in case config_file_Write (pe_codec pe) (pe_io pe) (pe_filepath pe) cfg1 d of
                (err, d1) \<Rightarrow>
                  answer (map_option (\<lambda>e. ErrText (''failed to write config'' @ error_string e)) err, (cfg1, d1)) ls))"

definition startCRProcedure :: "app_env \<Rightarrow> app_state \<Rightarrow> (goerror option \<times> app_state) dialog" where
  "startCRProcedure pe s =
     (case pe_url_Parse pe (ac_TelephonistAddress (fst s)) of
        Inl err \<Rightarrow> answer (Some (ErrText (''invalid URL'' @ ac_TelephonistAddress (fst s))), s)
      | Inr u \<Rightarrow>
          ask (readStringWithCondition isValidApplicationName) (\<lambda>name.
            ask readString (\<lambda>displayName.
              ask readString (\<lambda>description.
                ask readTags (\<lambda>tags.
                  case NewClient [] (Some u) of
                    Inl err \<Rightarrow> answer (Some err, s)
                  | Inr client \<Rightarrow>
                      cr_loop pe client
                        \<lparr>car_Name = name, car_Description = description, car_DisplayName = displayName,
                         car_Tags = tags\<rparr> 0 s)))))"

subsection \<open>The configuration dialogue\<close>

text \<open>
  The first loop over the address: \<open>valid\<close> is its condition, and nothing in its body sets it. The result is the last
  text and what \<open>url.Parse\<close> made of it.
\<close>

fun url_loop :: "app_env \<Rightarrow> bool \<Rightarrow> string \<Rightarrow> (goerror + url) \<Rightarrow> terminal \<Rightarrow> ((string \<times> (goerror + url)) \<times> terminal) outcome" where
  "url_loop pe True text u inp = Inr ((text, u), inp)"
| "url_loop pe False text u [] = Inl slice_bounds"
| "url_loop pe False text u (l # ls) = url_loop pe False l (pe_url_Parse pe l) ls"

text \<open>The second loop: a blank line keeps the address, one that parses replaces it, any other is asked for again.\<close>

fun new_url_loop :: "app_env \<Rightarrow> string \<Rightarrow> terminal \<Rightarrow> (string \<times> terminal) outcome" where
  "new_url_loop pe addr [] = Inl slice_bounds"
| "new_url_loop pe addr (l # ls) =
     (if trim l [CHR '' '', nl, tab] = [] then Inr (addr, ls)
      else (case pe_url_Parse pe l of
              Inl err \<Rightarrow> new_url_loop pe addr ls
            | Inr u \<Rightarrow> Inr (l, ls)))"

text \<open>The loop over the key ignores the end of the input and then never ends.\<close>

partial_function (option) key_loop :: "terminal \<Rightarrow> (string \<times> terminal) outcome option" where
  "key_loop inp =
     (let (text, eof, inp1) = read_string inp; key = trim text [CHR '' '', nl, tab]
      in if length key \<noteq> 0 then Some (Inr (key, inp1)) else key_loop inp1)"

text \<open>The part of \<open>initAction\<close> that settles the address.\<close>

definition init_address :: "app_env \<Rightarrow> app_config \<Rightarrow> app_config dialog" where
  "init_address pe cfg =
     (if trim (ac_TelephonistAddress cfg) [CHR '' '', tab, nl] = [] then
        ask (\<lambda>inp. Some (url_loop pe False [] (Inl (ErrText [])) inp)) (\<lambda>(text, u).
          case NewClient [] (case u of Inl err \<Rightarrow> None | Inr v \<Rightarrow> Some v) of
            Inl err \<Rightarrow> fails (Panic ''invalid memory address or nil pointer dereference'')
          | Inr client \<Rightarrow>
              (case Probe (pe_probe pe) client of
                 Inl c \<Rightarrow> fails c
               | Inr None \<Rightarrow> answer (cfg\<lparr>ac_TelephonistAddress := text\<rparr>)
               | Inr (Some err) \<Rightarrow>
                   ask (readYn (pe_yes pe) (pe_no pe)) (\<lambda>ignore.
                     if ignore then answer (cfg\<lparr>ac_TelephonistAddress := text\<rparr>) else fails Exited)))
      else
        ask (\<lambda>inp. Some (new_url_loop pe (ac_TelephonistAddress cfg) inp)) (\<lambda>addr.
          answer (cfg\<lparr>ac_TelephonistAddress := addr\<rparr>)))"

definition init_key :: "app_env \<Rightarrow> app_state \<Rightarrow> app_state dialog" where
  "init_key pe s =
     (if trim (ac_ApplicationKey (fst s)) [CHR '' '', nl, tab] = [] then
        ask (readYn (pe_yes pe) (pe_no pe)) (\<lambda>wantCR.
          if wantCR then
            ask (startCRProcedure pe s) (\<lambda>(err, s1).
              case err of Some e \<Rightarrow> fails (Panic (error_string e)) | None \<Rightarrow> answer s1)
          else
            ask key_loop (\<lambda>key. answer ((fst s)\<lparr>ac_ApplicationKey := key\<rparr>, snd s)))
      else
        ask read_chopped (\<lambda>line.
          let text = trim line [CHR '' '', tab]
          in answer (if text \<noteq> [] then (fst s)\<lparr>ac_ApplicationKey := text\<rparr> else fst s, snd s)))"

text \<open>\<open>initAction\<close>: an error of the last \<open>Write\<close> is printed, the action returns nil.\<close>

definition initAction :: "app_env \<Rightarrow> app_state \<Rightarrow> app_state dialog" where
  "initAction pe s =
     (case LoadOrCreate (pe_codec pe) (pe_io pe) (pe_filepath pe) (snd s) (fst s) of
        (Some err, cfg, d) \<Rightarrow> fails Exited
      | (None, cfg, d) \<Rightarrow>
          ask (init_address pe cfg) (\<lambda>cfg1.
            ask (init_key pe (cfg1, d)) (\<lambda>s2.
              ask (readYn (pe_yes pe) (pe_no pe)) (\<lambda>okay.
                if okay
                then answer (fst s2, snd (config_file_Write (pe_codec pe) (pe_io pe) (pe_filepath pe) (fst s2) (snd s2)))
                else answer s2))))"

definition testAction :: "app_env \<Rightarrow> disk \<Rightarrow> goerror option" where
  "testAction pe d =
     fst (Load (pe_codec pe) (pe_io pe) (pe_filepath pe) d \<lparr>ac_ApplicationKey = [], ac_TelephonistAddress = []\<rparr>)"

subsection \<open>The main action\<close>

definition ErrApplicationKeyIsMissing :: goerror where
  "ErrApplicationKeyIsMissing = ErrText ''application key is missing''"

definition prepareConfig :: "app_config \<Rightarrow> goerror option \<times> app_config" where
  "prepareConfig cfg =
     (let cfg1 = cfg\<lparr>ac_ApplicationKey := trim (ac_ApplicationKey cfg) [CHR '' '', tab, nl]\<rparr>
      in if ac_ApplicationKey cfg1 = [] then (Some ErrApplicationKeyIsMissing, cfg1) else (None, cfg1))"

text \<open>
  \<open>createTelephonistClient\<close> compares the error interface of \<open>Probe\<close> with a typed nil pointer, which is never equal to it, and then
  asks whether the error is an \<open>UnexpectedStatusCode\<close>.
\<close>

definition authentication_failed :: goerror where
  "authentication_failed = ErrText ''authentication failed, make sure that API key is correct''"

definition createTelephonistClient ::
  "app_env \<Rightarrow> app_config \<Rightarrow> (goerror option \<times> rest_client option) outcome" where
  "createTelephonistClient pe cfg =
     (case pe_url_Parse pe (ac_TelephonistAddress cfg) of
        Inl err \<Rightarrow> Inr (Some (ErrText (''invalid URL format: '' @ error_string err)), None)
      | Inr u \<Rightarrow>
          if url_Scheme u \<noteq> [] \<and> url_Scheme u \<noteq> ''https'' \<and> url_Scheme u \<noteq> ''http''
          then Inr (Some (ErrText ''invalid URL schema, schema must be either http or https or empty''), None)
          else
            (case NewClient (ac_ApplicationKey cfg) (Some u) of
               Inl err \<Rightarrow> Inr (Some (ErrText (''failed to create a client: '' @ error_string err)), None)
             | Inr client \<Rightarrow>
                 andThen (Probe (pe_probe pe) client) (\<lambda>err.
                   case err of
                     Some (ErrStatus status text body) \<Rightarrow>
                       if status = 401 then Inr (Some authentication_failed, Some client)
                       else Inr (err, Some client)
                   | _ \<Rightarrow> Inr (err, Some client))))"

text \<open>
  The main action up to the started scheduler: the lock, the configuration, the client, the scheduler. \<open>createScheduler\<close> passes
  no database.
\<close>

definition createScheduler ::
  "start_env \<Rightarrow> string \<Rightarrow> rest_client option \<Rightarrow> disk \<Rightarrow> (('g, 'j, 'n) agent \<times> disk) outcome" where
  "createScheduler se configPath client d =
     (case client of
        None \<Rightarrow> Inl (Panic ''telephonistClient is not set'')
      | Some cl \<Rightarrow> Inr (NewApplicationScheduler se configPath (Some cl) False d))"

definition app_action ::
  "app_env \<Rightarrow> start_env \<Rightarrow> ('g, 'j, 'n) agent_env \<Rightarrow> 'g \<Rightarrow> goerror + 'n \<Rightarrow> goerror option \<Rightarrow> string \<Rightarrow> app_state
   \<Rightarrow> (goerror option \<times> ('g, 'j, 'n) agent option \<times> app_state) outcome" where
  "app_action pe se env g watcher lock configPath s =
     (if lock \<noteq> None then Inl Exited
      else
        (case LoadOrCreate (pe_codec pe) (pe_io pe) (pe_filepath pe) (snd s) (fst s) of
           (Some err, cfg, d) \<Rightarrow> Inl Exited
         | (None, cfg, d) \<Rightarrow>
             (case prepareConfig cfg of
                (Some err, cfg1) \<Rightarrow> Inr (Some (ErrText (''prepareConfig: '' @ error_string err)), None, (cfg1, d))
              | (None, cfg1) \<Rightarrow>
                  andThen (createTelephonistClient pe cfg1) (\<lambda>(err, client).
                    case err of
                      Some e \<Rightarrow> Inr (Some e, None, (cfg1, d))
                    | None \<Rightarrow>
                        andThen (createScheduler se configPath client d) (\<lambda>(agent, d1).
                          andThen (App_Start se env g watcher agent d1) (\<lambda>(err2, agent1, d2).
                            Inr (map_option (\<lambda>e. ErrText (''failed to start executor: '' @ error_string e)) err2,
                              Some agent1, (cfg1, d2))))))))"

section \<open>Lemmas\<close>

lemma url_loop_never_returns: "url_loop pe False t u inp = Inl slice_bounds"
  by (induction inp arbitrary: t u) auto

lemma check_reply_combined: "check_reply r = Inr (Some e) \<Longrightarrow> IsCombinedError e"
  by (auto simp: check_reply_def IsCombinedError_def ExtractCombined_def split: if_splits option.splits)

lemma Probe_combined: "Probe http c = Inr (Some e) \<Longrightarrow> IsCombinedError e"
  by (auto simp: Probe_def http_get_def Let_def andThen_Inr_iff dest: check_reply_combined)

lemma not_combined [simp]: "\<not> IsCombinedError (ErrText t)" "\<not> IsCombinedError (ErrStatus a b c)"
  by (simp_all add: IsCombinedError_def ExtractCombined_def)

text \<open>The main action up to the running agent, with the lock taken.\<close>

lemma app_action_runs:
  assumes "LoadOrCreate (pe_codec pe) (pe_io pe) (pe_filepath pe) (snd s) (fst s) = (None, cfg, d)"
    and "trim (ac_ApplicationKey cfg) [CHR '' '', tab, nl] = key" and "key \<noteq> []"
    and "createTelephonistClient pe (cfg\<lparr>ac_ApplicationKey := key\<rparr>) = Inr (None, Some cl)"
    and "NewApplicationScheduler se configPath (Some cl) False d = (e :: ('g, 'j, 'n) agent, d1)"
    and "no_io_errors (se_io se)" and "fmlookup d1 configPath = Some content"
    and "cd_Decode (se_codec se) content \<lparr>ec_Tasks = app_Tasks (ag_app e)\<rparr> = (None, \<lparr>ec_Tasks = tasks\<rparr>)"
    and "se_connection se (ag_InstanceID e) \<noteq> 0"
  shows "\<exists>e' c v f. app_action pe se (env :: ('g, 'j, 'n) agent_env) g (Inr n) None configPath s =
      Inr (None, Some e', (cfg\<lparr>ac_ApplicationKey := key\<rparr>, d1)) \<and>
    agent_running (ag_app e') c v f \<and> app_Tasks (ag_app e') = tasks \<and> \<not> app_hasDB (ag_app e')"
proof -
  have e: "app_taskScheduler (ag_app e) = None" "ag_client e = Some cl" "ag_configPath e = configPath"
    "\<not> app_hasDB (ag_app e)"
    using assms(5) by (auto simp: NewApplicationScheduler_def split: prod.splits)
  with assms(7) have "fmlookup d1 (ag_configPath e) = Some content" by simp
  from App_Start_runs [OF e(1,2) assms(6) this assms(8,9), of env g n] obtain e' c v f where
    "App_Start se env g (Inr n) e d1 = Inr (None, e', d1)" "app_Tasks (ag_app e') = tasks"
    "app_hasDB (ag_app e') = app_hasDB (ag_app e)" "agent_running (ag_app e') c v f" by blast
  moreover have "prepareConfig cfg = (None, cfg\<lparr>ac_ApplicationKey := key\<rparr>)"
    using assms(2,3) by (simp add: prepareConfig_def Let_def)
  ultimately show ?thesis
    using assms(1,4,5) e(4) by (auto simp: app_action_def createScheduler_def)
qed

section \<open>Examples\<close>

definition example_register :: "nat \<Rightarrow> code_registration_completed gorequest" where
  "example_register n = (\<lambda>rq. \<lparr>rp_response = Some \<lparr>rs_StatusCode = (if n = 0 then 401 else 201), rs_Status = ''s'', rs_Body = Inr []\<rparr>,
     rp_value = \<lparr>crc_Key = ''k1'', crc_ID = ''1''\<rparr>, rp_errs = []\<rparr>)"

definition example_probe :: "int \<Rightarrow> unit gorequest" where
  "example_probe status = (\<lambda>rq. \<lparr>rp_response = Some \<lparr>rs_StatusCode = status, rs_Status = ''s'', rs_Body = Inr []\<rparr>,
     rp_value = (), rp_errs = []\<rparr>)"

definition example_application :: create_application_request where
  "example_application = \<lparr>car_Name = ''a'', car_Description = [], car_DisplayName = [], car_Tags = []\<rparr>"

text \<open>A codec that only saves the address.\<close>

definition example_app_env :: "int \<Rightarrow> app_env" where
  "example_app_env status =
     \<lparr>pe_codec = \<lparr>cd_Encode = \<lambda>v. Inr (ac_TelephonistAddress v),
         cd_Decode = \<lambda>b v. (None, \<lparr>ac_ApplicationKey = ''key'', ac_TelephonistAddress = b\<rparr>)\<rparr>,
      pe_io = example_io, pe_filepath = ''client-config.json'',
      pe_url_Parse = \<lambda>t. Inr \<lparr>url_Scheme = ''https'', url_Host = t, url_Path = [], url_RawQuery = []\<rparr>,
      pe_yes = ''y,yes'', pe_no = ''n,no'', pe_register = example_register, pe_probe = example_probe status\<rparr>"

section \<open>Properties\<close>

text \<open>The dialogue cannot be finished when the stored address is blank: whatever is typed, valid addresses included, the
  question is repeated, until the end of the input is sliced.\<close>

theorem init_blank_address_never_returns:
  assumes "LoadOrCreate (pe_codec pe) (pe_io pe) (pe_filepath pe) (snd s) (fst s) = (None, cfg, d)"
    and "trim (ac_TelephonistAddress cfg) [CHR '' '', tab, nl] = []"
  shows "initAction pe s inp = Some (Inl slice_bounds)"
  using assms by (simp add: initAction_def init_address_def ask_def url_loop_never_returns)

theorem init_blank_address_never_returns_witness:
  "initAction (example_app_env 200) (default_config, fmupd ''client-config.json'' '' '' fmempty)
    [''https://server'', ''n'', ''key'', ''y''] = Some (Inl slice_bounds)"
proof (rule init_blank_address_never_returns)
  let ?cfg = "\<lparr>ac_ApplicationKey = ''key'', ac_TelephonistAddress = '' ''\<rparr>"
  show "LoadOrCreate (pe_codec (example_app_env 200)) (pe_io (example_app_env 200)) (pe_filepath (example_app_env 200))
      (snd (default_config, fmupd ''client-config.json'' '' '' fmempty))
      (fst (default_config, fmupd ''client-config.json'' '' '' fmempty)) =
    (None, ?cfg, fmupd ''client-config.json'' '' '' fmempty)"
    by (simp add: LoadOrCreate_def Load_def read_file_def example_app_env_def example_io_def IsNotExist_def)
  show "trim (ac_TelephonistAddress ?cfg) [CHR '' '', tab, nl] = []"
    by (simp add: trim_def trim_left_def trim_right_def)
qed

text \<open>C35. Registration by code: as long as the server refuses, the next line is tried; at the first code it accepts, the key is in
  the configuration and the file is written with it, and the dialogue goes on after that line. The result is the error of the write, in the
  message for it, with the key in memory, or none when the write succeeds; without errors of the file system the file then holds the encoding of
  the configuration with the key.\<close>

theorem registration_saves_key:
  assumes "\<forall>i < length refused. \<exists>r e. SubmitCodeRegistration (pe_register pe (n + i)) client
      (trim_space (refused ! i @ [nl])) (Some app) = Inr (r, Some e)"
    and "SubmitCodeRegistration (pe_register pe (n + length refused)) client (trim_space (code @ [nl])) (Some app) =
      Inr (response, None)"
    and "cfg1 = cfg\<lparr>ac_ApplicationKey := crc_Key response\<rparr>"
    and "config_file_Write (pe_codec pe) (pe_io pe) (pe_filepath pe) cfg1 d = (write_error, d1)"
  shows "cr_loop pe client app n (cfg, d) (refused @ code # rest) =
      Some (Inr ((map_option (\<lambda>e. ErrText (''failed to write config'' @ error_string e)) write_error, (cfg1, d1)), rest)) \<and>
    (no_io_errors (pe_io pe) \<and> cd_Encode (pe_codec pe) cfg1 = Inr b \<longrightarrow>
       write_error = None \<and> d1 = fmupd (pe_filepath pe) b d)"
proof
  show "cr_loop pe client app n (cfg, d) (refused @ code # rest) =
      Some (Inr ((map_option (\<lambda>e. ErrText (''failed to write config'' @ error_string e)) write_error, (cfg1, d1)), rest))"
    using assms(1,2)
  proof (induction refused arbitrary: n)
    case Nil
    with assms(3,4) show ?case by (simp add: answer_def Let_def)
  next
    case (Cons l ls)
    from Cons.prems(1) obtain r e where
      "SubmitCodeRegistration (pe_register pe n) client (trim_space (l @ [nl])) (Some app) = Inr (r, Some e)"
      by (auto dest: spec [of _ 0])
    moreover have "\<forall>i < length ls. \<exists>r e. SubmitCodeRegistration (pe_register pe (n + 1 + i)) client
        (trim_space (ls ! i @ [nl])) (Some app) = Inr (r, Some e)"
    proof (intro allI impI)
      fix i assume "i < length ls"
      then show "\<exists>r e. SubmitCodeRegistration (pe_register pe (n + 1 + i)) client
          (trim_space (ls ! i @ [nl])) (Some app) = Inr (r, Some e)"
        using Cons.prems(1) [rule_format, of "Suc i"] by simp
    qed
    ultimately show ?case using Cons.IH [of "n + 1"] Cons.prems(2) by simp
  qed
  show "no_io_errors (pe_io pe) \<and> cd_Encode (pe_codec pe) cfg1 = Inr b \<longrightarrow> write_error = None \<and> d1 = fmupd (pe_filepath pe) b d"
    using assms(4) config_file_Write_ok [of "pe_io pe" "pe_codec pe" cfg1 b "pe_filepath pe" d] by auto
qed

theorem registration_saves_key_witness:
  "cr_loop (example_app_env 200) example_rest example_application 0 (default_config, fmempty) [''bad'', ''good'', ''y''] =
      Some (Inr ((None, (default_config\<lparr>ac_ApplicationKey := ''k1''\<rparr>, fmupd ''client-config.json'' (ac_TelephonistAddress default_config) fmempty)),
        [''y'']))"
proof -
  let ?pe = "example_app_env 200"
  let ?r = "\<lparr>crc_Key = ''k1'', crc_ID = ''1''\<rparr>"
  have bad: "SubmitCodeRegistration (pe_register ?pe 0) example_rest t (Some example_application) = Inr (?r, Some ErrCodeIsInvalid)" for t
    by (simp add: SubmitCodeRegistration_def example_app_env_def example_register_def Let_def)
  have good: "SubmitCodeRegistration (pe_register ?pe 1) example_rest t (Some example_application) = Inr (?r, None)" for t
    by (simp add: SubmitCodeRegistration_def example_app_env_def example_register_def Let_def)
  let ?cfg = "default_config\<lparr>ac_ApplicationKey := ''k1''\<rparr>"
  have io: "no_io_errors (pe_io ?pe)" "cd_Encode (pe_codec ?pe) ?cfg = Inr (ac_TelephonistAddress default_config)"
    "pe_filepath ?pe = ''client-config.json''"
    using example_io_fine by (simp_all add: example_app_env_def)
  obtain err d1 where saved: "config_file_Write (pe_codec ?pe) (pe_io ?pe) (pe_filepath ?pe) ?cfg fmempty = (err, d1)" by fastforce
  from registration_saves_key [of "[''bad'']" ?pe 0 example_rest example_application "''good''" ?r ?cfg default_config, OF _ _ _ saved,
      of "[''y'']" "ac_TelephonistAddress default_config"] bad good io
  show ?thesis by simp
qed

text \<open>The message about a wrong key never appears: every error of \<open>Probe\<close> is a \<open>CombinedError\<close>, also for a status of 401, so the
  test for an \<open>UnexpectedStatusCode\<close> fails and the error is passed on as it is. A successful probe gives no error,
  although the comparison with the typed nil pointer succeeds.\<close>

theorem createTelephonistClient_errors:
  assumes "createTelephonistClient pe cfg = Inr (err, client)"
  shows "err \<noteq> Some authentication_failed \<and>
    (\<forall>c. client = Some c \<longrightarrow> Probe (pe_probe pe) c = Inr err \<and> cl_APIKey c = ac_ApplicationKey cfg) \<and>
    (client = None \<longrightarrow> err \<noteq> None)"
proof (cases "pe_url_Parse pe (ac_TelephonistAddress cfg)")
  case (Inl e)
  with assms show ?thesis by (auto simp: createTelephonistClient_def authentication_failed_def)
next
  case (Inr u)
  show ?thesis
  proof (cases "url_Scheme u \<in> {''http'', ''https''}")
    case True
    let ?c = "\<lparr>cl_APIKey = ac_ApplicationKey cfg, cl_URL = u, cl_userAgent = ''Telephonist Agent (Golang) '' @ ''0.1.1''\<rparr>"
    have new: "NewClient (ac_ApplicationKey cfg) (Some u) = Inr ?c" using True by (auto simp: NewClient_def)
    with assms Inr True obtain perr where probe: "Probe (pe_probe pe) ?c = Inr perr"
      by (auto simp: createTelephonistClient_def andThen_Inr_iff split: if_splits)
    have "perr = None \<or> (\<exists>es. perr = Some (ErrCombined es))"
    proof (cases perr)
      case (Some e)
      with probe Probe_combined have "IsCombinedError e" by blast
      with Some show ?thesis by (cases e) (auto simp: IsCombinedError_def ExtractCombined_def)
    qed simp
    with assms Inr True new probe show ?thesis
      by (auto simp: createTelephonistClient_def authentication_failed_def)
  next
    case False
    with assms Inr show ?thesis
      by (auto simp: createTelephonistClient_def authentication_failed_def NewClient_def split: if_splits)
  qed
qed

theorem createTelephonistClient_errors_witness:
  "createTelephonistClient (example_app_env 401) default_config =
      Inr (Some (ErrCombined [ErrStatus 401 ''s'' []]), Some \<lparr>cl_APIKey = [], cl_URL = \<lparr>url_Scheme = ''https'',
        url_Host = ''https://localhost:5789'', url_Path = [], url_RawQuery = []\<rparr>,
        cl_userAgent = ''Telephonist Agent (Golang) '' @ ''0.1.1''\<rparr>) \<and>
    Some (ErrCombined [ErrStatus 401 ''s'' []]) \<noteq> Some authentication_failed"
proof -
  have run: "createTelephonistClient (example_app_env 401) default_config =
      Inr (Some (ErrCombined [ErrStatus 401 ''s'' []]), Some \<lparr>cl_APIKey = [], cl_URL = \<lparr>url_Scheme = ''https'',
        url_Host = ''https://localhost:5789'', url_Path = [], url_RawQuery = []\<rparr>,
        cl_userAgent = ''Telephonist Agent (Golang) '' @ ''0.1.1''\<rparr>)"
    by (simp add: createTelephonistClient_def example_app_env_def default_config_def NewClient_def Probe_def http_get_def
        check_reply_def example_probe_def authorized_def Let_def)
  from createTelephonistClient_errors [OF run] run show ?thesis by blast
qed

end
