(* ===== verification/Status_Server.thy ===== *)
theory Status_Server
  imports Agent_Start
begin

text \<open>
  \<open>httpServer.go\<close>: the local status server. A server of \<open>net/http\<close> is a number; the goroutine of \<open>ListenAndServe\<close> listens from
  the call that starts it, unless the address is taken. The JSON encoder is an argument of \<open>ServeHTTP\<close>; the document is the
  data that it is given.
\<close>

section \<open>Definitions\<close>

record status_server =
  hs_isRunning :: bool
  hs_httpServer :: "nat option"
  hs_made :: nat
  hs_listening :: "nat list"

definition NewServer :: status_server where
  "NewServer = \<lparr>hs_isRunning = False, hs_httpServer = None, hs_made = 0, hs_listening = []\<rparr>"

definition Server_Start :: "bool \<Rightarrow> status_server \<Rightarrow> status_server" where
  "Server_Start address_free s =
     (if hs_isRunning s then s
      else s\<lparr>hs_isRunning := True, hs_httpServer := Some (hs_made s), hs_made := hs_made s + 1,
             hs_listening := (if address_free then [hs_made s] else []) @ hs_listening s\<rparr>)"

definition Server_Stop :: "status_server \<Rightarrow> status_server" where
  "Server_Stop s =
     (case hs_httpServer s of
        None \<Rightarrow> s
      | Some h \<Rightarrow> s\<lparr>hs_httpServer := None, hs_listening := filter (\<lambda>k. k \<noteq> h) (hs_listening s)\<rparr>)"

datatype server_call = CallStart bool | CallStop

fun run_call :: "server_call \<Rightarrow> status_server \<Rightarrow> status_server" where
  "run_call (CallStart address_free) s = Server_Start address_free s"
| "run_call CallStop s = Server_Stop s"

text \<open>The document. The last three fields of \<open>Client\<close> are the state of the WebSocket client.\<close>

datatype client_info =
    HasNoWSC
  | HasWSC (ci_ConnectionID: uuid) (ci_InstanceID: uuid) (ci_IsConnected: bool) (ci_IsStarted: bool)
      (ci_LastError: "string option")

record status_document =
  sd_Path :: string
  sd_Value :: "(uuid, defined_task) fmap"
  sd_Executor :: executor_info
  sd_TaskScheduler :: task_scheduler_info
  sd_Client :: client_info

record http_reply =
  hr_contentType :: string
  hr_status :: nat
  hr_body :: bytes

definition clientInfo :: "('g, 'j, 'n) agent \<Rightarrow> client_info" where
  "clientInfo e =
     (case ag_wsc e of
        None \<Rightarrow> HasNoWSC
      | Some w \<Rightarrow> HasWSC (ws_ConnectionID w) (ag_InstanceID e) (IsConnected w) (IsStarted w)
          (map_option error_string (GetLastError w)))"

definition ServeHTTP ::
  "(status_document \<Rightarrow> goerror + bytes) \<Rightarrow> ('g, 'j, 'n) agent_env \<Rightarrow> ('g, 'j, 'n) agent \<Rightarrow> http_reply outcome" where
  "ServeHTTP encode env e =
     (case app_taskScheduler (ag_app e) of
        None \<Rightarrow> Inl nil_dereference
      | Some ts \<Rightarrow>
          (case encode \<lparr>sd_Path = ag_configPath e, sd_Value = app_Tasks (ag_app e), sd_Executor = ShellExecutor_Explain,
              sd_TaskScheduler = TS_Explain (agent_ops env) ts, sd_Client = clientInfo e\<rparr> of
             Inl err \<Rightarrow> Inr \<lparr>hr_contentType = ''application/json'', hr_status = 500, hr_body = error_string err\<rparr>
           | Inr body \<Rightarrow> Inr \<lparr>hr_contentType = ''application/json'', hr_status = 200, hr_body = body\<rparr>))"

section \<open>Lemmas\<close>

abbreviation server_after :: "server_call list \<Rightarrow> status_server" where
  "server_after calls \<equiv> fold run_call calls NewServer"

text \<open>The server that \<open>Stop\<close> would close is the only one that can listen, and there is none before the first \<open>Start\<close>.\<close>

definition server_ok :: "status_server \<Rightarrow> bool" where
  "server_ok s \<longleftrightarrow>
     (hs_listening s = [] \<or> (\<exists>h. hs_httpServer s = Some h \<and> hs_listening s = [h])) \<and>
     (\<not> hs_isRunning s \<longrightarrow> hs_httpServer s = None)"

lemma run_call_ok: "server_ok s \<Longrightarrow> server_ok (run_call c s)"
  by (cases c) (auto simp: server_ok_def Server_Start_def Server_Stop_def split: option.splits)

lemma server_after_ok: "server_ok (server_after calls)"
  by (induction calls rule: rev_induct) (auto simp: run_call_ok, simp add: server_ok_def NewServer_def)

lemma server_isRunning: "hs_isRunning (server_after calls) \<longleftrightarrow> \<not> set calls \<subseteq> {CallStop}"
proof (induction calls rule: rev_induct)
  case (snoc c calls)
  then show ?case by (cases c) (auto simp: Server_Start_def Server_Stop_def split: option.splits)
qed (simp add: NewServer_def)

lemma server_listens:
  "hs_listening (server_after calls) \<noteq> [] \<longleftrightarrow>
     (\<exists>pre post. calls = pre @ CallStart True # post \<and> set pre \<subseteq> {CallStop} \<and> CallStop \<notin> set post)"
proof (induction calls rule: rev_induct)
  case Nil
  then show ?case by (simp add: NewServer_def)
next
  case (snoc c calls)
  show ?case
  proof (cases c)
    case CallStop
    have "hs_listening (server_after (calls @ [c])) = []"
      using server_after_ok [of calls] CallStop by (auto simp: server_ok_def Server_Stop_def split: option.splits)
    moreover have "\<not> (calls @ [c] = pre @ CallStart True # post \<and> CallStop \<notin> set post)" for pre post
      using CallStop by (cases post rule: rev_cases) auto
    ultimately show ?thesis by blast
  next
    case (CallStart free)
    show ?thesis
    proof (cases "set calls \<subseteq> {CallStop}")
      case True
      then have idle: "\<not> hs_isRunning (server_after calls)" by (simp add: server_isRunning)
      then have "hs_listening (server_after calls) = []" using server_after_ok [of calls] by (auto simp: server_ok_def)
      with idle have "hs_listening (server_after (calls @ [c])) \<noteq> [] \<longleftrightarrow> free" by (simp add: CallStart Server_Start_def)
      moreover have "calls @ [c] = pre @ CallStart True # post \<Longrightarrow> post = [] \<and> pre = calls \<and> free" for pre post
        using True CallStart by (cases post rule: rev_cases) auto
      ultimately show ?thesis using True CallStart by (metis append_Nil2 empty_iff empty_set)
    next
      case False
      then have "hs_listening (server_after (calls @ [c])) = hs_listening (server_after calls)"
        by (simp add: CallStart Server_Start_def server_isRunning)
      moreover have "(\<exists>pre post. calls @ [c] = pre @ CallStart True # post \<and> set pre \<subseteq> {CallStop} \<and> CallStop \<notin> set post) \<longleftrightarrow>
          (\<exists>pre post. calls = pre @ CallStart True # post \<and> set pre \<subseteq> {CallStop} \<and> CallStop \<notin> set post)" (is "?l = ?r")
      proof
        assume ?l
        then obtain pre post where p: "calls @ [c] = pre @ CallStart True # post" "set pre \<subseteq> {CallStop}" "CallStop \<notin> set post"
          by blast
        with False show ?r by (cases post rule: rev_cases) auto
      next
        assume ?r
        then show ?l using CallStart by fastforce
      qed
      ultimately show ?thesis using snoc.IH by simp
    qed
  qed
qed

section \<open>Properties\<close>

text \<open>C39. The status server runs at most once: whatever calls of \<open>Start\<close> and \<open>Stop\<close> are made, it listens exactly when the first
  \<open>Start\<close> found the address free and no \<open>Stop\<close> came after it. A later \<open>Start\<close> does nothing, since \<open>Stop\<close> does not reset
  \<open>isRunning\<close>.\<close>

theorem status_server_starts_once:
  "hs_listening (server_after calls) \<noteq> [] \<longleftrightarrow>
     (\<exists>pre post. calls = pre @ CallStart True # post \<and> set pre \<subseteq> {CallStop} \<and> CallStop \<notin> set post)"
  by (rule server_listens)

text \<open>The status of an agent that has just started: the page answers, with the error text and the status 500 when the document
  cannot be encoded, and names the configuration file, the tasks of that file, the instance and its connection, and a
  client that is neither started nor connected. Before \<open>Start\<close> the page panics, as the task scheduler is nil.\<close>

theorem status_after_start:
  assumes "app_taskScheduler (ag_app e) = None" and "ag_client e = Some cl"
    and "no_io_errors (se_io se)" and "fmlookup d (ag_configPath e) = Some content"
    and "cd_Decode (se_codec se) content \<lparr>ec_Tasks = app_Tasks (ag_app e)\<rparr> = (None, \<lparr>ec_Tasks = tasks\<rparr>)" and "se_connection se (ag_InstanceID e) \<noteq> 0"
  shows "ServeHTTP encode env e = Inl nil_dereference \<and>
    (\<exists>e' doc. App_Start se env g (Inr n) e d = Inr (None, e', d) \<and>
       sd_Value doc = tasks \<and> ci_ConnectionID (sd_Client doc) = se_connection se (ag_InstanceID e) \<and>
       sd_Client doc \<noteq> HasNoWSC \<and> \<not> ci_IsConnected (sd_Client doc) \<and> \<not> ci_IsStarted (sd_Client doc) \<and>
       ServeHTTP encode env e' =
         Inr (case encode doc of
           Inl err \<Rightarrow> \<lparr>hr_contentType = ''application/json'', hr_status = 500, hr_body = error_string err\<rparr>
         | Inr body \<Rightarrow> \<lparr>hr_contentType = ''application/json'', hr_status = 200, hr_body = body\<rparr>))"
proof -
  obtain e' ts w where start: "App_Start se env g (Inr n) e d = Inr (None, e', d)"
    and fields: "app_Tasks (ag_app e') = tasks" "ag_wsc e' = Some w"
      "ws_ConnectionID w = se_connection se (ag_InstanceID e)" "ws_state w = StateStopped"
      "app_taskScheduler (ag_app e') = Some ts"
    using App_Start_runs [OF assms, of env g n] by blast
  let ?doc = "\<lparr>sd_Path = ag_configPath e', sd_Value = app_Tasks (ag_app e'), sd_Executor = ShellExecutor_Explain,
      sd_TaskScheduler = TS_Explain (agent_ops env) ts, sd_Client = clientInfo e'\<rparr>"
  have "ServeHTTP encode env e = Inl nil_dereference" using assms(1) by (simp add: ServeHTTP_def)
  moreover have "ServeHTTP encode env e' = Inr (case encode ?doc of
      Inl err \<Rightarrow> \<lparr>hr_contentType = ''application/json'', hr_status = 500, hr_body = error_string err\<rparr>
    | Inr body \<Rightarrow> \<lparr>hr_contentType = ''application/json'', hr_status = 200, hr_body = body\<rparr>)"
    using fields by (simp add: ServeHTTP_def split: sum.splits)
  ultimately show ?thesis
    using start fields by (intro conjI exI [of _ e'] exI [of _ ?doc]) (simp_all add: clientInfo_def IsConnected_def IsStarted_def)
qed

theorem status_after_start_witness:
  "\<exists>e'. App_Start example_start_env example_agent_env [] (Inr []) example_agent (fmupd ''c'' ''[]'' fmempty) =
      Inr (None, e', fmupd ''c'' ''[]'' fmempty) \<and>
    ServeHTTP (\<lambda>doc. Inr (sd_Path doc)) example_agent_env example_agent = Inl nil_dereference"
proof -
  have "se_connection example_start_env (ag_InstanceID example_agent) \<noteq> 0"
    by (rule example_connection)
  moreover have "no_io_errors (se_io example_start_env)"
    using example_io_fine by (simp add: example_start_env_def)
  moreover have "cd_Decode (se_codec example_start_env) ''[]'' \<lparr>ec_Tasks = app_Tasks (ag_app example_agent)\<rparr> = (None, \<lparr>ec_Tasks = example_tasks\<rparr>)"
    by (simp add: example_start_env_def)
  ultimately show ?thesis
    using status_after_start [of example_agent example_rest example_start_env "fmupd ''c'' ''[]'' fmempty" "''[]''"
        example_tasks "\<lambda>doc. Inr (sd_Path doc)" example_agent_env "[]" "[]"]
    by auto
qed

end
