(* ===== verification/Service_Install.thy ===== *)
theory Service_Install
  imports Config_Files
begin

text \<open>
  \<open>linuxService.go\<close> and the action that installs the service: a sequence of calls of the system, each of which may fail. The answers of
  the system are an argument; the calls that were made are recorded. Messages in the user's language are given by
  their keys.
\<close>

section \<open>Definitions\<close>

datatype system_call =
    OsExecutable
  | ReadFile string
  | WriteFile string bytes nat  \<comment> \<open>path, contents, mode\<close>
  | Systemctl "string list"

record system =
  sys_result :: "system_call \<Rightarrow> goerror option"
  sys_executable :: string
  sys_contents :: "string \<Rightarrow> bytes"

definition installed_path :: string where
  "installed_path = ''/usr/local/bin/telephonist-agent''"

definition serviceFile :: string where
  "serviceFile = ''/etc/systemd/system/telephonist-agent.service''"

definition serviceFileContent :: string where
  "serviceFileContent =
     concat (map (\<lambda>line. nl # line)
       [''[Unit]'', ''Description=Telephonist agent'', ''After=network-online.target'', ''After=syslog.target'', [],
        ''[Service]'', ''ExecStart=/usr/local/bin/telephonist-agent'', ''RestartSec=20'', ''Restart=always'', [],
        ''[Install]'', ''WantedBy=multi-user.target'']) @ [nl]"

text \<open>\<open>isServiceFileExists\<close> on the error of \<open>os.Stat\<close>.\<close>

definition isServiceFileExists :: "goerror option \<Rightarrow> bool \<times> goerror option" where
  "isServiceFileExists err =
     (if IsNotExist err then (False, None) else if err \<noteq> None then (False, err) else (True, None))"

text \<open>One call: recorded, with its error wrapped by \<open>wrap\<close>.\<close>

definition call :: "system \<Rightarrow> system_call \<Rightarrow> (goerror \<Rightarrow> goerror) \<Rightarrow> system_call list \<Rightarrow> goerror option \<times> system_call list" where
  "call sys c wrap done_calls = (map_option wrap (sys_result sys c), done_calls @ [c])"

text \<open>The next step, when there was no error.\<close>

definition and_then ::
  "goerror option \<times> system_call list \<Rightarrow> (system_call list \<Rightarrow> goerror option \<times> system_call list)
   \<Rightarrow> goerror option \<times> system_call list" where
  "and_then r f = (case r of (Some err, cs) \<Rightarrow> (Some err, cs) | (None, cs) \<Rightarrow> f cs)"

text \<open>\<open>sys_contents\<close> is what \<open>ReadFile\<close> returns; 500 is the mode 0764, 420 the mode 0644.\<close>

definition moveExecutable :: "system \<Rightarrow> system_call list \<Rightarrow> goerror option \<times> system_call list" where
  "moveExecutable sys cs =
     and_then (call sys OsExecutable (ChainError ''Failed to get current executable path'') cs) (\<lambda>cs1.
       if sys_executable sys = installed_path then (Some (ErrText ''FileIsAlreadyInPlace''), cs1)
       else
         and_then (call sys (ReadFile (sys_executable sys)) (\<lambda>_. ErrText ''FailedToCopyExecutable'') cs1) (\<lambda>cs2.
           call sys (WriteFile installed_path (sys_contents sys (sys_executable sys)) 500) (\<lambda>_. ErrText ''FailedToCopyExecutable'') cs2))"

definition createServiceFile :: "system \<Rightarrow> system_call list \<Rightarrow> goerror option \<times> system_call list" where
  "createServiceFile sys cs =
     call sys (WriteFile serviceFile (trim serviceFileContent ('' '' @ [nl, tab])) 420)
       (ChainError (''failed to write to '' @ serviceFile)) cs"

definition reloadDaemon :: "system \<Rightarrow> system_call list \<Rightarrow> goerror option \<times> system_call list" where
  "reloadDaemon sys cs =
     and_then (call sys (Systemctl [''daemon-reload'']) (ChainError ''Failed to reload systemd'') cs)
       (call sys (Systemctl [''start'', ''telephonist-agent.service''])
         (ChainError ''Failed to start telephonist service through systemd''))"

definition stopService :: "system \<Rightarrow> system_call list \<Rightarrow> goerror option \<times> system_call list" where
  "stopService sys cs =
     call sys (Systemctl [''stop'', ''telephonist-agent.service'']) (ChainError ''Failed to stop service'') cs"

definition installServiceAction :: "bool \<Rightarrow> system \<Rightarrow> goerror option \<times> system_call list" where
  "installServiceAction restartFlag sys =
     and_then (if restartFlag then stopService sys [] else (None, [])) (\<lambda>cs.
       and_then (moveExecutable sys cs) (\<lambda>cs1.
         and_then (createServiceFile sys cs1) (\<lambda>cs2.
           if restartFlag then reloadDaemon sys cs2 else (None, cs2))))"

text \<open>The calls of an installation that succeeds.\<close>

definition install_calls :: "bool \<Rightarrow> system \<Rightarrow> system_call list" where
  "install_calls restartFlag sys =
     (if restartFlag then [Systemctl [''stop'', ''telephonist-agent.service'']] else []) @
     [OsExecutable, ReadFile (sys_executable sys),
      WriteFile installed_path (sys_contents sys (sys_executable sys)) 500,
      WriteFile serviceFile (trim serviceFileContent ('' '' @ [nl, tab])) 420] @
     (if restartFlag then [Systemctl [''daemon-reload''], Systemctl [''start'', ''telephonist-agent.service'']] else [])"

text \<open>A call that the installation goes on from; the path of an executable that is in place already ends it. The error that a call ends it with.\<close>

definition goes_on :: "system \<Rightarrow> system_call \<Rightarrow> bool" where
  "goes_on sys c \<longleftrightarrow> sys_result sys c = None \<and> \<not> (c = OsExecutable \<and> sys_executable sys = installed_path)"

fun install_error :: "system_call \<Rightarrow> goerror option \<Rightarrow> goerror" where
  "install_error c None = ErrText ''FileIsAlreadyInPlace''"
| "install_error OsExecutable (Some e) = ChainError ''Failed to get current executable path'' e"
| "install_error (ReadFile p) (Some e) = ErrText ''FailedToCopyExecutable''"
| "install_error (WriteFile p b m) (Some e) =
     (if p = serviceFile then ChainError (''failed to write to '' @ serviceFile) e else ErrText ''FailedToCopyExecutable'')"
| "install_error (Systemctl args) (Some e) =
     ChainError (if hd args = ''stop'' then ''Failed to stop service''
       else if hd args = ''start'' then ''Failed to start telephonist service through systemd'' else ''Failed to reload systemd'') e"

section \<open>Lemmas\<close>

text \<open>\<open>Trim\<close> takes off the line breaks around the text: systemd gets a file without an empty first line and without a
  line break at its end. The program it starts is the one \<open>moveExecutable\<close> installs.\<close>

lemma service_file_trimmed:
  "serviceFileContent = [nl] @ trim serviceFileContent ('' '' @ [nl, tab]) @ [nl]"
  by (simp add: serviceFileContent_def trim_def trim_left_def trim_right_def nl_def tab_def)

lemma service_starts_installed:
  "\<exists>before after. trim serviceFileContent ('' '' @ [nl, tab]) =
     before @ ([nl] @ ''ExecStart='' @ installed_path @ [nl]) @ after"
proof -
  let ?text = "\<lambda>lines. concat (map (\<lambda>line. nl # line) lines)"
  let ?before = "''[Unit]'' @ ?text [''Description=Telephonist agent'', ''After=network-online.target'',
      ''After=syslog.target'', [], ''[Service]'']"
  let ?after = "''RestartSec=20'' @ ?text [''Restart=always'', [], ''[Install]'', ''WantedBy=multi-user.target'']"
  let ?all = "?before @ ([nl] @ ''ExecStart='' @ installed_path @ [nl]) @ ?after"
  have "serviceFileContent = [nl] @ ?all @ [nl]"
    by (simp add: serviceFileContent_def installed_path_def)
  from trans [OF service_file_trimmed [symmetric] this] have "trim serviceFileContent ('' '' @ [nl, tab]) = ?all"
    by (simp only: same_append_eq append_same_eq)
  then show ?thesis by (intro exI)
qed

text \<open>The calls of a list up to and with the first that does not go on.\<close>

definition calls_made :: "system \<Rightarrow> system_call list \<Rightarrow> system_call list" where
  "calls_made sys cs = takeWhile (goes_on sys) cs @ take 1 (dropWhile (goes_on sys) cs)"

lemma calls_made_simps [simp]:
  "calls_made sys [] = []" "calls_made sys (c # cs) = c # (if goes_on sys c then calls_made sys cs else [])"
  by (simp_all add: calls_made_def)

lemma paths_differ [simp]: "installed_path \<noteq> serviceFile" "serviceFile \<noteq> installed_path"
  by (simp_all add: installed_path_def serviceFile_def)

text \<open>A part of the sequence, after the calls that were made before it; parts compose as the code composes them.\<close>

fun made :: "system \<Rightarrow> system_call list \<Rightarrow> system_call list \<Rightarrow> goerror option \<times> system_call list" where
  "made sys before [] = (None, before)"
| "made sys before (c # cs) =
     (if goes_on sys c then made sys (before @ [c]) cs else (Some (install_error c (sys_result sys c)), before @ [c]))"

lemma made_append: "made sys before (cs @ ds) = and_then (made sys before cs) (\<lambda>before1. made sys before1 ds)"
  by (induction cs arbitrary: before) (simp_all add: and_then_def)

lemma made_eq: "made sys before cs = ((case dropWhile (goes_on sys) cs of [] \<Rightarrow> None | c # _ \<Rightarrow> Some (install_error c (sys_result sys c))),
    before @ calls_made sys cs)"
  by (induction cs arbitrary: before) simp_all

lemma one_call:
  assumes "c \<noteq> OsExecutable" and "\<And>e. wrap e = install_error c (Some e)"
  shows "call sys c wrap before = made sys before [c]"
  using assms by (cases "sys_result sys c") (simp_all add: call_def goes_on_def)

lemma stopService_made: "stopService sys cs = made sys cs [Systemctl [''stop'', ''telephonist-agent.service'']]"
  unfolding stopService_def by (rule one_call) simp_all

lemma createServiceFile_made: "createServiceFile sys cs = made sys cs [WriteFile serviceFile (trim serviceFileContent ('' '' @ [nl, tab])) 420]"
  unfolding createServiceFile_def by (rule one_call) simp_all

lemma moveExecutable_made: "moveExecutable sys cs = made sys cs [OsExecutable, ReadFile (sys_executable sys),
    WriteFile installed_path (sys_contents sys (sys_executable sys)) 500]"
  by (cases "sys_result sys OsExecutable") (auto simp: moveExecutable_def and_then_def call_def goes_on_def split: option.split)

lemma reloadDaemon_made: "reloadDaemon sys cs = made sys cs [Systemctl [''daemon-reload''], Systemctl [''start'', ''telephonist-agent.service'']]"
  by (auto simp: reloadDaemon_def and_then_def call_def goes_on_def split: option.split)

lemma installServiceAction_made: "installServiceAction restartFlag sys = made sys [] (install_calls restartFlag sys)"
  by (simp add: installServiceAction_def install_calls_def stopService_made createServiceFile_made moveExecutable_made
      reloadDaemon_made made_append [symmetric] flip: append.simps(2))
    (simp add: and_then_def)

section \<open>Properties\<close>

text \<open>C40. The installation makes its calls in one order and stops at the first that fails, or at the path of the executable when that is in place
  already: the calls made are those of the whole sequence up to this one and no other, and the error is that of this call; there is no
  error exactly when all calls succeed. From the installed executable it always fails, after the service was stopped, and does not start
  it again.\<close>

theorem install_stops_at_error:
  assumes "installServiceAction restartFlag sys = (err, cs)"
  shows "cs = takeWhile (goes_on sys) (install_calls restartFlag sys) @ take 1 (dropWhile (goes_on sys) (install_calls restartFlag sys)) \<and>
    err = (case dropWhile (goes_on sys) (install_calls restartFlag sys) of
        [] \<Rightarrow> None
      | c # _ \<Rightarrow> Some (install_error c (sys_result sys c))) \<and>
    (sys_executable sys = installed_path \<longrightarrow> err \<noteq> None \<and>
       Systemctl [''start'', ''telephonist-agent.service''] \<notin> set cs)"
proof -
  from assms have err: "err = (case dropWhile (goes_on sys) (install_calls restartFlag sys) of
      [] \<Rightarrow> None | c # _ \<Rightarrow> Some (install_error c (sys_result sys c)))"
    and cs: "cs = calls_made sys (install_calls restartFlag sys)" by (simp_all add: installServiceAction_made made_eq)
  have "dropWhile (goes_on sys) (install_calls restartFlag sys) \<noteq> [] \<and>
      Systemctl [''start'', ''telephonist-agent.service''] \<notin> set cs" if "sys_executable sys = installed_path"
    using that by (cases restartFlag) (simp_all add: cs install_calls_def goes_on_def)
  with err have "sys_executable sys = installed_path \<longrightarrow> err \<noteq> None \<and> Systemctl [''start'', ''telephonist-agent.service''] \<notin> set cs"
    by (auto split: list.split)
  with err cs show ?thesis unfolding calls_made_def by blast
qed

theorem install_stops_at_error_witness:
  "installServiceAction True \<lparr>sys_result = \<lambda>_. None, sys_executable = installed_path, sys_contents = \<lambda>_. []\<rparr> =
      (Some (ErrText ''FileIsAlreadyInPlace''), [Systemctl [''stop'', ''telephonist-agent.service''], OsExecutable]) \<and>
    installServiceAction True \<lparr>sys_result = \<lambda>c. if c = Systemctl [''daemon-reload''] then Some (ErrText ''failed'') else None,
        sys_executable = ''/a'', sys_contents = \<lambda>_. []\<rparr> =
      (Some (ChainError ''Failed to reload systemd'' (ErrText ''failed'')),
       [Systemctl [''stop'', ''telephonist-agent.service''], OsExecutable, ReadFile ''/a'', WriteFile installed_path [] 500,
        WriteFile serviceFile (trim serviceFileContent ('' '' @ [nl, tab])) 420, Systemctl [''daemon-reload'']])"
proof -
  let ?sys = "\<lparr>sys_result = \<lambda>_. None, sys_executable = installed_path, sys_contents = \<lambda>_. []\<rparr>"
  let ?failing = "\<lparr>sys_result = \<lambda>c. if c = Systemctl [''daemon-reload''] then Some (ErrText ''failed'') else None,
    sys_executable = ''/a'', sys_contents = \<lambda>_. []\<rparr>"
  obtain err cs err2 cs2 where run: "installServiceAction True ?sys = (err, cs)" and run2: "installServiceAction True ?failing = (err2, cs2)"
    by fastforce
  have "''/a'' \<noteq> installed_path" by (simp add: installed_path_def)
  with install_stops_at_error [OF run] install_stops_at_error [OF run2] run run2 show ?thesis
    by (simp add: install_calls_def goes_on_def)
qed

end
