(* ===== verification/Command_Line.thy ===== *)
theory Command_Line
  imports Agent_App Status_Server Service_Install
begin

text \<open>
  The rest of \<open>app.go\<close>, and \<open>main.go\<close>: the flags and commands, \<open>before\<close> and \<open>after\<close>, the lock of the configuration folder, and the main
  action from the lock to its shutdown. The command line library is not modelled: it parses the flags and calls the functions
  of this theory. The library of the lock is an argument (\<open>fslock\<close>), as is what the operating system does with the locks
  of a process that ends. \<open>site\<close> is a machine on which any number of processes run the agent.
\<close>

section \<open>Definitions\<close>

subsection \<open>Flags and commands\<close>

record cli_flags =
  fl_restart :: bool
  fl_secure :: bool
  fl_root_path :: string
  fl_config :: string
  fl_agent_config :: string
  fl_verbose :: bool

definition default_flags :: cli_flags where
  "default_flags = \<lparr>fl_restart = False, fl_secure = False, fl_root_path = ''/etc/telephonist-agent'', fl_config = [],
     fl_agent_config = [], fl_verbose = False\<rparr>"

datatype app_command = CmdAction | CmdTest | CmdRefetch | CmdInit | CmdInstall

definition app_commands :: "(string list \<times> app_command) list" where
  "app_commands = [([''test''], CmdTest), ([''refetch-config''], CmdRefetch), ([''init''], CmdInit),
     ([''service'', ''install''], CmdInstall), ([], CmdAction)]"

text \<open>The lock object is the path it was made for; the configuration file is its path.\<close>

record app =
  ap_fsLock :: "string option"
  ap_appConfigFile :: string
  ap_appConfig :: app_config
  ap_configFolderPath :: string

definition CreateNewApp :: app where
  "CreateNewApp = \<lparr>ap_fsLock = None, ap_appConfigFile = [], ap_appConfig = default_config, ap_configFolderPath = []\<rparr>"

definition filenameHelper :: "app \<Rightarrow> string \<Rightarrow> string" where
  "filenameHelper a filename = path_Join [ap_configFolderPath a, filename]"

text \<open>\<open>mkdir\<close> is the result of \<open>MkdirAll\<close>. The flag for the file of the agent is read nowhere.\<close>

definition before :: "goerror option \<Rightarrow> cli_flags \<Rightarrow> app \<Rightarrow> app outcome" where
  "before mkdir fl a =
     (if mkdir \<noteq> None then Inl Exited
      else
        (let a1 = a\<lparr>ap_configFolderPath := fl_root_path fl\<rparr>;
             configPath = (if fl_config fl = [] then filenameHelper a1 ''client-config.json'' else fl_config fl)
         in Inr (a1\<lparr>ap_appConfigFile := configPath\<rparr>)))"

definition refetchConfigAction :: "app \<Rightarrow> goerror option \<times> app" where
  "refetchConfigAction a = (None, a)"

subsection \<open>The lock\<close>

text \<open>Operations of the process with a number on a lock file. \<open>lk_holder\<close> says who has the lock.\<close>

record 'l fslock =
  lk_LockWithTimeout :: "nat \<Rightarrow> string \<Rightarrow> 'l \<Rightarrow> goerror option \<times> 'l"
  lk_Unlock :: "nat \<Rightarrow> string \<Rightarrow> 'l \<Rightarrow> goerror option \<times> 'l"
  lk_Exit :: "nat \<Rightarrow> 'l \<Rightarrow> 'l"
  lk_holder :: "'l \<Rightarrow> string \<Rightarrow> nat option"

text \<open>The object is stored before the lock is taken: after a refused lock it is there as well.\<close>

definition lockFile :: "'l fslock \<Rightarrow> nat \<Rightarrow> app \<Rightarrow> 'l \<Rightarrow> goerror option \<times> app \<times> 'l" where
  "lockFile lk p a l =
     (case ap_fsLock a of
        Some path \<Rightarrow> (None, a, l)
      | None \<Rightarrow>
          (let lockFilepath = filenameHelper a ''client.lock''
           in case lk_LockWithTimeout lk p lockFilepath l of
                (err, l1) \<Rightarrow>
                  (map_option (\<lambda>e. ErrText (''failed to acquire the lock '' @ lockFilepath @ '': '' @ error_string e @
                     '', make sure you only run one instance of the agent at a time and then try again'')) err,
                   a\<lparr>ap_fsLock := Some lockFilepath\<rparr>, l1)))"

definition after :: "'l fslock \<Rightarrow> nat \<Rightarrow> app \<Rightarrow> 'l \<Rightarrow> goerror option \<times> 'l" where
  "after lk p a l = (case ap_fsLock a of None \<Rightarrow> (None, l) | Some path \<Rightarrow> lk_Unlock lk p path l)"

subsection \<open>The main action\<close>

text \<open>
  Up to the wait for the interrupt: the agent and its status server when all went well. \<open>address_free\<close> says whether the server finds its
  address free.
\<close>

definition action_start ::
  "'l fslock \<Rightarrow> nat \<Rightarrow> app_env \<Rightarrow> start_env \<Rightarrow> ('g, 'j, 'n) agent_env \<Rightarrow> 'g \<Rightarrow> goerror + 'n \<Rightarrow> bool \<Rightarrow> app \<Rightarrow> disk \<Rightarrow> 'l
   \<Rightarrow> (goerror option \<times> (('g, 'j, 'n) agent \<times> status_server) option \<times> app \<times> disk \<times> 'l) outcome" where
  "action_start lk p pe se env g watcher address_free a d l =
     (case lockFile lk p a l of
        (lock, a1, l1) \<Rightarrow>
          andThen (app_action (pe\<lparr>pe_filepath := ap_appConfigFile a1\<rparr>) se env g watcher lock
              (filenameHelper a1 ''executor-config.json'') (ap_appConfig a1, d)) (\<lambda>(err, agent, cfg, d1).
            Inr (err,
              (if err = None then map_option (\<lambda>e. (e, Server_Start address_free NewServer)) agent else None),
              a1\<lparr>ap_appConfig := cfg\<rparr>, d1, l1)))"

text \<open>After the interrupt, on the agent, its client and the server as they are then.\<close>

definition action_interrupt ::
  "('c, ws_client) triggers_ops \<Rightarrow> status_server \<Rightarrow> 'c app_scheduler \<times> ws_client
   \<Rightarrow> (status_server \<times> 'c app_scheduler \<times> ws_client) outcome" where
  "action_interrupt ops server aw = andThen (App_Stop ops aw) (\<lambda>aw1. Inr (Server_Stop server, aw1))"

text \<open>\<open>main\<close>: \<open>run\<close> is what the command line library returns.\<close>

definition main_function :: "(app \<Rightarrow> goerror option) \<Rightarrow> unit outcome" where
  "main_function run = (case run CreateNewApp of Some err \<Rightarrow> Inl (Panic (error_string err)) | None \<Rightarrow> Inr ())"

subsection \<open>Several processes\<close>

datatype phase = Prepared | Acting | Ended

record 'l site =
  si_processes :: "(nat, app \<times> phase) fmap"
  si_locks :: 'l

text \<open>
  A process prepares itself, and gets into the main action with the lock or exits without; the action ends with \<open>after\<close>, or the
  process ends at any time.
\<close>

inductive site_step :: "'l fslock \<Rightarrow> 'l site \<Rightarrow> 'l site \<Rightarrow> bool" for lk where
  prepare: "fmlookup (si_processes s) p = None \<Longrightarrow> before None fl CreateNewApp = Inr a \<Longrightarrow>
    site_step lk s (s\<lparr>si_processes := fmupd p (a, Prepared) (si_processes s)\<rparr>)"
| acts: "fmlookup (si_processes s) p = Some (a, Prepared) \<Longrightarrow> lockFile lk p a (si_locks s) = (None, a1, l1) \<Longrightarrow>
    site_step lk s \<lparr>si_processes = fmupd p (a1, Acting) (si_processes s), si_locks = l1\<rparr>"
| refused: "fmlookup (si_processes s) p = Some (a, Prepared) \<Longrightarrow> lockFile lk p a (si_locks s) = (Some err, a1, l1) \<Longrightarrow>
    site_step lk s \<lparr>si_processes = fmupd p (a1, Ended) (si_processes s), si_locks = lk_Exit lk p l1\<rparr>"
| finishes: "fmlookup (si_processes s) p = Some (a, Acting) \<Longrightarrow> after lk p a (si_locks s) = (err, l1) \<Longrightarrow>
    site_step lk s \<lparr>si_processes = fmupd p (a, Ended) (si_processes s), si_locks = lk_Exit lk p l1\<rparr>"
| dies: "fmlookup (si_processes s) p = Some (a, ph) \<Longrightarrow>
    site_step lk s \<lparr>si_processes = fmupd p (a, Ended) (si_processes s), si_locks = lk_Exit lk p (si_locks s)\<rparr>"

inductive site_reaches :: "'l fslock \<Rightarrow> 'l site \<Rightarrow> 'l site \<Rightarrow> bool" for lk s where
  nothing: "site_reaches lk s s"
| step: "site_reaches lk s t \<Longrightarrow> site_step lk t u \<Longrightarrow> site_reaches lk s u"

section \<open>Lemmas\<close>

text \<open>
  What the library and the system document: a lock is given to one holder, who was not there before; a refusal changes nothing;
  unlocking and the end of a process only give back what the process held.
\<close>

definition fslock_docs :: "'l fslock \<Rightarrow> bool" where
  "fslock_docs lk \<longleftrightarrow>
     (\<forall>p path l l'. lk_LockWithTimeout lk p path l = (None, l') \<longrightarrow>
        lk_holder lk l path = None \<and> lk_holder lk l' = (lk_holder lk l)(path := Some p)) \<and>
     (\<forall>p path l l' err. lk_LockWithTimeout lk p path l = (Some err, l') \<longrightarrow> lk_holder lk l' = lk_holder lk l) \<and>
     (\<forall>p path l l' err x q. lk_Unlock lk p path l = (err, l') \<longrightarrow> q \<noteq> p \<longrightarrow>
        (lk_holder lk l' x = Some q \<longleftrightarrow> lk_holder lk l x = Some q)) \<and>
     (\<forall>p l x q. q \<noteq> p \<longrightarrow> (lk_holder lk (lk_Exit lk p l) x = Some q \<longleftrightarrow> lk_holder lk l x = Some q))"

text \<open>A process in the main action holds the lock of its folder.\<close>

definition site_ok :: "'l fslock \<Rightarrow> 'l site \<Rightarrow> bool" where
  "site_ok lk s \<longleftrightarrow>
     (\<forall>p a ph. fmlookup (si_processes s) p = Some (a, ph) \<longrightarrow>
        (ph = Prepared \<longrightarrow> ap_fsLock a = None) \<and>
        (ph = Acting \<longrightarrow> lk_holder lk (si_locks s) (filenameHelper a ''client.lock'') = Some p))"

lemma fslock_docsD:
  assumes "fslock_docs lk"
  shows "lk_LockWithTimeout lk p path l = (None, l') \<Longrightarrow>
      lk_holder lk l path = None \<and> lk_holder lk l' = (lk_holder lk l)(path := Some p)"
    and "lk_LockWithTimeout lk p path l = (Some err, l') \<Longrightarrow> lk_holder lk l' = lk_holder lk l"
    and "lk_Unlock lk p path l = (err', l') \<Longrightarrow> q \<noteq> p \<Longrightarrow> lk_holder lk l' x = Some q \<longleftrightarrow> lk_holder lk l x = Some q"
    and "q \<noteq> p \<Longrightarrow> lk_holder lk (lk_Exit lk p l) x = Some q \<longleftrightarrow> lk_holder lk l x = Some q"
  using assms unfolding fslock_docs_def by blast+

lemma site_ok_acting:
  "site_ok lk s \<Longrightarrow> fmlookup (si_processes s) p = Some (a, Acting) \<Longrightarrow>
    lk_holder lk (si_locks s) (filenameHelper a ''client.lock'') = Some p"
  by (simp add: site_ok_def)

lemma before_no_lock: "before mkdir fl CreateNewApp = Inr a \<Longrightarrow> ap_fsLock a = None"
  by (auto simp: before_def CreateNewApp_def Let_def split: if_splits)

lemma lockFile_first:
  assumes "ap_fsLock a = None" and "lockFile lk p a l = (err, a1, l1)"
  shows "filenameHelper a1 = filenameHelper a"
    and "\<exists>err'. lk_LockWithTimeout lk p (filenameHelper a ''client.lock'') l = (err', l1) \<and> (err' = None \<longleftrightarrow> err = None)"
  using assms by (auto simp: lockFile_def filenameHelper_def Let_def fun_eq_iff split: prod.splits)

lemma site_ok_step:
  assumes "fslock_docs lk" and "site_step lk s t" and "site_ok lk s"
  shows "site_ok lk t"
  using assms(2,3)
proof (cases rule: site_step.cases)
  case (prepare p fl a)
  with assms(3) show ?thesis by (auto simp: site_ok_def before_no_lock)
next
  case (acts p a a1 l1)
  then have "ap_fsLock a = None" using assms(3) by (auto simp: site_ok_def)
  from lockFile_first [OF this acts(3)] have
    same: "filenameHelper a1 = filenameHelper a" and "lk_LockWithTimeout lk p (filenameHelper a ''client.lock'') (si_locks s) = (None, l1)"
    by auto
  then have "lk_holder lk (si_locks s) (filenameHelper a ''client.lock'') = None"
    "lk_holder lk l1 = (lk_holder lk (si_locks s))(filenameHelper a ''client.lock'' := Some p)"
    using fslock_docsD(1) [OF assms(1)] by blast+
  moreover from this(1) have "filenameHelper b ''client.lock'' \<noteq> filenameHelper a ''client.lock''"
    if "fmlookup (si_processes s) q = Some (b, Acting)" for q b using assms(3) that by (force simp: site_ok_def)
  ultimately show ?thesis using acts(1) same assms(3) by (auto simp: site_ok_def)
next
  case (refused p a err a1 l1)
  then have "ap_fsLock a = None" using assms(3) by (auto simp: site_ok_def)
  from lockFile_first(2) [OF this refused(3)] obtain err' where
    "lk_LockWithTimeout lk p (filenameHelper a ''client.lock'') (si_locks s) = (Some err', l1)" by auto
  then have "lk_holder lk l1 = lk_holder lk (si_locks s)" by (rule fslock_docsD(2) [OF assms(1)])
  with refused(1) assms(3) show ?thesis by (auto simp: site_ok_def fslock_docsD(4) [OF assms(1)])
next
  case (finishes p a err l1)
  have "lk_holder lk l1 x = Some q \<longleftrightarrow> lk_holder lk (si_locks s) x = Some q" if "q \<noteq> p" for q x
    using finishes(3) that by (auto simp: after_def fslock_docsD(3) [OF assms(1)] split: option.splits)
  with finishes(1) assms(3) show ?thesis by (auto simp: site_ok_def fslock_docsD(4) [OF assms(1)])
next
  case (dies p a ph)
  with assms(3) show ?thesis by (auto simp: site_ok_def fslock_docsD(4) [OF assms(1)])
qed

lemma site_ok_reaches:
  assumes "site_reaches lk s t" and "fslock_docs lk" and "site_ok lk s"
  shows "site_ok lk t"
  using assms(1) by (induction rule: site_reaches.induct) (auto simp: assms(3) intro: site_ok_step [OF assms(2)])

text \<open>Without the lock the process exits before it reads anything.\<close>

lemma action_start_refused:
  assumes "ap_fsLock a = None" and "lk_LockWithTimeout lk p (filenameHelper a ''client.lock'') l = (Some err, l1)"
  shows "action_start lk p pe se env g watcher free a d l = Inl Exited"
  using assms by (simp add: action_start_def lockFile_def Let_def app_action_def)

lemma app_action_env:
  "createTelephonistClient (pe\<lparr>pe_filepath := path\<rparr>) cfg = createTelephonistClient pe cfg"
  by (auto simp: createTelephonistClient_def split: sum.split)

section \<open>Examples\<close>

definition table_lock :: "(string, nat) fmap fslock" where
  "table_lock =
     \<lparr>lk_LockWithTimeout = \<lambda>p path l.
        if fmlookup l path = None then (None, fmupd path p l) else (Some (ErrText ''fslock: lock timeout exceeded''), l),
      lk_Unlock = \<lambda>p path l. (None, if fmlookup l path = Some p then fmdrop path l else l),
      lk_Exit = \<lambda>p l. fmfilter (\<lambda>x. fmlookup l x \<noteq> Some p) l,
      lk_holder = fmlookup\<rparr>"

lemma table_lock_docs: "fslock_docs table_lock"
  by (auto simp: fslock_docs_def table_lock_def split: if_splits)

text \<open>The agent with the flags it has by default.\<close>

definition default_app :: app where
  "default_app = \<lparr>ap_fsLock = None, ap_appConfigFile = ''/etc/telephonist-agent/client-config.json'', ap_appConfig = default_config,
     ap_configFolderPath = ''/etc/telephonist-agent''\<rparr>"

lemma before_default: "before None default_flags CreateNewApp = Inr default_app"
  by (simp add: before_def default_flags_def CreateNewApp_def default_app_def filenameHelper_def path_Join_def path_Clean_def
      has_prefix_def Let_def)

lemma default_app_files:
  "filenameHelper default_app ''executor-config.json'' = ''/etc/telephonist-agent/executor-config.json''"
  "filenameHelper default_app ''client.lock'' = ''/etc/telephonist-agent/client.lock''"
  by (simp_all add: default_app_def filenameHelper_def path_Join_def path_Clean_def has_prefix_def Let_def)

section \<open>Properties\<close>

text \<open>C33. One agent per folder: with a lock as its library documents it, whatever processes start, are refused, end or die, and in which
  order, two processes in the main action with the same configuration folder are the same process, and it holds the lock.\<close>

theorem single_instance:
  assumes "fslock_docs lk" and "site_reaches lk \<lparr>si_processes = fmempty, si_locks = l\<rparr> s"
    and "fmlookup (si_processes s) p = Some (a, Acting)" and "fmlookup (si_processes s) q = Some (b, Acting)"
    and "filenameHelper a ''client.lock'' = filenameHelper b ''client.lock''"
  shows "p = q \<and> lk_holder lk (si_locks s) (filenameHelper a ''client.lock'') = Some p"
proof -
  have "site_ok lk \<lparr>si_processes = fmempty, si_locks = l\<rparr>" by (simp add: site_ok_def)
  then have "site_ok lk s" by (rule site_ok_reaches [OF assms(2,1)])
  from site_ok_acting [OF this assms(3)] site_ok_acting [OF this assms(4)] assms(5) show ?thesis by simp
qed

theorem single_instance_witness:
  "\<exists>s a. site_reaches table_lock \<lparr>si_processes = fmempty, si_locks = fmempty\<rparr> s \<and>
    fmlookup (si_processes s) 1 = Some (a, Acting) \<and> fmlookup (si_locks s) ''/etc/telephonist-agent/client.lock'' = Some 1"
proof -
  let ?s0 = "\<lparr>si_processes = fmempty, si_locks = fmempty\<rparr> :: (string, nat) fmap site"
  let ?s1 = "?s0\<lparr>si_processes := fmupd 1 (default_app, Prepared) fmempty\<rparr>"
  let ?path = "''/etc/telephonist-agent/client.lock''"
  let ?a = "default_app\<lparr>ap_fsLock := Some ?path\<rparr>"
  let ?s2 = "\<lparr>si_processes = fmupd 1 (?a, Acting) (si_processes ?s1), si_locks = fmupd ?path 1 fmempty\<rparr>"
  have one: "site_step table_lock ?s0 ?s1" using site_step.prepare [OF _ before_default, of ?s0 1 table_lock] by simp
  have lock: "lockFile table_lock 1 default_app fmempty = (None, ?a, fmupd ?path 1 fmempty)"
    using default_app_files(2) by (simp add: lockFile_def table_lock_def Let_def default_app_def)
  have "site_step table_lock ?s1 ?s2" using site_step.acts [of ?s1 1 default_app table_lock ?a "fmupd ?path 1 fmempty"] lock by simp
  with one have reach: "site_reaches table_lock ?s0 ?s2" by (meson site_reaches.intros)
  have path: "filenameHelper ?a ''client.lock'' = ?path" using default_app_files(2) by (simp add: filenameHelper_def)
  have "lk_holder table_lock (si_locks ?s2) ?path = Some 1"
    using single_instance [OF table_lock_docs reach, of 1 ?a 1 ?a] path by simp
  then show ?thesis using reach by (intro exI [of _ ?s2] exI [of _ ?a]) (simp add: table_lock_def)
qed

text \<open>C34. The main action, from the flags to the running agent: when the folder can be made, its lock is free, the file of the client and that of
  the tasks can be read and decoded, the key is not blank, the client accepts the address and the server answers the probe, the watcher of
  \<open>fsnotify\<close> can be made, no operation of the scheduler on a file fails and the connection identifier is not nil, the action takes the lock and starts an
  agent whose schedulers run, with the tasks of the file in its folder and without a database. The status server listens exactly when its
  address is free, which for a second agent on another folder it is not: the agent runs without one and no error says so.\<close>

theorem main_action_starts:
  assumes "before None fl CreateNewApp = Inr a" and "lk_LockWithTimeout lk p (filenameHelper a ''client.lock'') l = (None, l1)"
    and "LoadOrCreate (pe_codec pe) (pe_io pe) (ap_appConfigFile a) d0 default_config = (None, cfg, d)"
    and "trim (ac_ApplicationKey cfg) [CHR '' '', tab, nl] = key" and "key \<noteq> []"
    and "createTelephonistClient pe (cfg\<lparr>ac_ApplicationKey := key\<rparr>) = Inr (None, Some cl)"
    and "NewApplicationScheduler se (filenameHelper a ''executor-config.json'') (Some cl) False d = (e :: ('g, 'j, 'n) agent, d1)"
    and "no_io_errors (se_io se)" and "fmlookup d1 (filenameHelper a ''executor-config.json'') = Some content"
    and "cd_Decode (se_codec se) content \<lparr>ec_Tasks = app_Tasks (ag_app e)\<rparr> = (None, \<lparr>ec_Tasks = tasks\<rparr>)"
    and "se_connection se (ag_InstanceID e) \<noteq> 0"
  shows "\<exists>e' server a' c v f. action_start lk p pe se (env :: ('g, 'j, 'n) agent_env) g (Inr n) address_free a d0 l =
      Inr (None, Some (e', server), a', d1, l1) \<and>
    ap_fsLock a' = Some (filenameHelper a ''client.lock'') \<and> ap_appConfig a' = cfg\<lparr>ac_ApplicationKey := key\<rparr> \<and>
    agent_running (ag_app e') c v f \<and> app_Tasks (ag_app e') = tasks \<and> \<not> app_hasDB (ag_app e') \<and>
    (hs_listening server \<noteq> [] \<longleftrightarrow> address_free)"
proof -
  let ?pe = "pe\<lparr>pe_filepath := ap_appConfigFile a\<rparr>"
  have a: "ap_fsLock a = None" "ap_appConfig a = default_config"
    using assms(1) by (auto simp: before_def CreateNewApp_def Let_def split: if_splits)
  have "LoadOrCreate (pe_codec ?pe) (pe_io ?pe) (pe_filepath ?pe) (snd (default_config, d0)) (fst (default_config, d0)) = (None, cfg, d)"
    "createTelephonistClient ?pe (cfg\<lparr>ac_ApplicationKey := key\<rparr>) = Inr (None, Some cl)"
    using assms(3,6) by (simp_all add: app_action_env)
  from app_action_runs [OF this(1) assms(4,5) this(2) assms(7-11), of env g n] obtain e' c v f where
    "app_action ?pe se env g (Inr n) None (filenameHelper a ''executor-config.json'') (default_config, d0) =
      Inr (None, Some e', (cfg\<lparr>ac_ApplicationKey := key\<rparr>, d1))"
    and run: "agent_running (ag_app e') c v f" "app_Tasks (ag_app e') = tasks" "\<not> app_hasDB (ag_app e')" by blast
  then have "action_start lk p pe se env g (Inr n) address_free a d0 l = Inr (None, Some (e', Server_Start address_free NewServer),
      a\<lparr>ap_fsLock := Some (filenameHelper a ''client.lock''), ap_appConfig := cfg\<lparr>ac_ApplicationKey := key\<rparr>\<rparr>, d1, l1)"
    using a assms(2) by (simp add: action_start_def lockFile_def Let_def filenameHelper_def)
  with run show ?thesis by (fastforce simp: Server_Start_def NewServer_def)
qed

theorem main_action_starts_witness:
  "\<exists>e' server a' d1 l1. action_start table_lock 1 (example_app_env 200) example_start_env example_agent_env [] (Inr []) True default_app
      (fmupd ''/etc/telephonist-agent/executor-config.json'' ''[]''
        (fmupd ''/etc/telephonist-agent/client-config.json'' ''https://s'' fmempty)) fmempty =
      Inr (None, Some (e', server), a', d1, l1) \<and>
    app_Tasks (ag_app e') = example_tasks \<and> ac_ApplicationKey (ap_appConfig a') = ''key''"
proof -
  let ?c = "''/etc/telephonist-agent/executor-config.json''" and ?k = "''/etc/telephonist-agent/client-config.json''"
  let ?d = "fmupd ?c ''[]'' (fmupd ?k ''https://s'' fmempty)"
  let ?cfg = "\<lparr>ac_ApplicationKey = ''key'', ac_TelephonistAddress = ''https://s''\<rparr>"
  let ?cl = "\<lparr>cl_APIKey = ''key'', cl_URL = \<lparr>url_Scheme = ''https'', url_Host = ''https://s'', url_Path = [], url_RawQuery = []\<rparr>,
    cl_userAgent = ''Telephonist Agent (Golang) '' @ ''0.1.1''\<rparr>"
  let ?pe = "example_app_env 200"
  obtain e :: "(nat list, nat, string list) agent" and d1 where
    new: "NewApplicationScheduler example_start_env (filenameHelper default_app ''executor-config.json'') (Some ?cl) False ?d = (e, d1)"
    by fastforce
  have "instance_id_path ?c = ''/etc/telephonist-agent/.telephonist-instance-id''"
    by (simp add: instance_id_path_def path_Join_def path_Dir_def path_Clean_def has_prefix_def Let_def)
  then have d1: "fmlookup d1 (filenameHelper default_app ''executor-config.json'') = Some ''[]''" and i: "ag_InstanceID e = 7"
    using new
    by (auto simp: default_app_files NewApplicationScheduler_def getOrSetInstanceID_def Let_def example_start_env_def read_file_def
        example_io_def example_uuids_def split: sum.splits if_splits option.splits)
  have conn: "se_connection example_start_env (ag_InstanceID e) \<noteq> 0" by (simp add: i example_start_env_def)
  have load: "LoadOrCreate (pe_codec ?pe) (pe_io ?pe) (ap_appConfigFile default_app) ?d default_config = (None, ?cfg, ?d)"
    by (simp add: LoadOrCreate_def Load_def read_file_def example_app_env_def example_io_def IsNotExist_def default_app_def)
  have key: "trim (ac_ApplicationKey ?cfg) [CHR '' '', tab, nl] = ''key''"
    by (simp add: trim_def trim_left_def trim_right_def tab_def nl_def)
  have client: "createTelephonistClient ?pe (?cfg\<lparr>ac_ApplicationKey := ''key''\<rparr>) = Inr (None, Some ?cl)"
    by (simp add: createTelephonistClient_def example_app_env_def NewClient_def Probe_def http_get_def
        check_reply_def example_probe_def authorized_def Let_def)
  have io: "no_io_errors (se_io example_start_env)" using example_io_fine by (simp add: example_start_env_def)
  have codec: "cd_Decode (se_codec example_start_env) ''[]'' \<lparr>ec_Tasks = app_Tasks (ag_app e)\<rparr> = (None, \<lparr>ec_Tasks = example_tasks\<rparr>)"
    by (simp add: example_start_env_def)
  have lock: "lk_LockWithTimeout table_lock 1 (filenameHelper default_app ''client.lock'') fmempty =
      (None, fmupd (filenameHelper default_app ''client.lock'') 1 fmempty)" by (simp add: table_lock_def)
  from main_action_starts [OF before_default lock load key _ client new io d1 codec conn, of example_agent_env "[]" "[]" True]
  show ?thesis by fastforce
qed

end
