(* ===== verification/Locales.thy ===== *)
theory Locales
  imports Go_Strings
begin

text \<open>
  \<open>locales/main.go\<close>: the choice of the language. The two message files are bytes, their decoder is an argument. The pattern of
  \<open>normalizeLang\<close> is written out: the longest text before a dash or an underscore such that the rest has no line feed after
  its first dot. \<open>to_upper\<close> maps ASCII letters; no other letter has an upper case form among those of \<open>EN\<close> and \<open>RU\<close>.
\<close>

section \<open>Definitions\<close>

definition upper_char :: "char \<Rightarrow> char" where
  "upper_char c = (let n = of_char c :: nat in if 97 \<le> n \<and> n \<le> 122 then char_of (n - 32) else c)"

definition to_upper :: "string \<Rightarrow> string" where
  "to_upper s = map upper_char s"

text \<open>A position at which the separator of the pattern can match, and the first group for the last such position.\<close>

definition separator_at :: "string \<Rightarrow> nat \<Rightarrow> bool" where
  "separator_at s i \<longleftrightarrow>
     s ! i \<in> {CHR ''-'', CHR ''_''} \<and> nl \<notin> set (take i s) \<and>
     nl \<notin> set (drop 1 (dropWhile (\<lambda>c. c \<noteq> CHR ''.'') (drop (i + 1) s)))"

definition normalizeLang :: "string \<Rightarrow> string" where
  "normalizeLang language =
     (let separators = filter (separator_at language) [0..<length language]
      in if separators \<noteq> [] then take (last separators) language else to_upper language)"

definition langMap :: "bytes \<Rightarrow> bytes \<Rightarrow> string \<Rightarrow> bytes option" where
  "langMap en ru language = (if language = ''EN'' then Some en else if language = ''RU'' then Some ru else None)"

definition getMessages :: "(bytes \<Rightarrow> string + 'm) \<Rightarrow> bytes \<Rightarrow> bytes \<Rightarrow> string \<Rightarrow> 'm outcome" where
  "getMessages unmarshal en ru language =
     (let src = (case langMap en ru (normalizeLang language) of Some b \<Rightarrow> b | None \<Rightarrow> en)
      in case unmarshal src of Inl err \<Rightarrow> Inl (Panic err) | Inr messages \<Rightarrow> Inr messages)"

text \<open>\<open>LookupEnv\<close> of the variable \<open>LANG\<close>, which the code asks for twice.\<close>

definition detectLanguage :: "string option \<Rightarrow> string" where
  "detectLanguage LANG =
     (case LANG of Some lang \<Rightarrow> lang | None \<Rightarrow> (case LANG of Some lang \<Rightarrow> lang | None \<Rightarrow> ''EN''))"

text \<open>The new value of the variable \<open>M\<close>, set when the package is loaded.\<close>

definition SetLanguage :: "(bytes \<Rightarrow> string + 'm) \<Rightarrow> bytes \<Rightarrow> bytes \<Rightarrow> string \<Rightarrow> 'm outcome" where
  "SetLanguage unmarshal en ru language = getMessages unmarshal en ru language"

definition init_locale :: "(bytes \<Rightarrow> string + 'm) \<Rightarrow> bytes \<Rightarrow> bytes \<Rightarrow> string option \<Rightarrow> 'm outcome" where
  "init_locale unmarshal en ru LANG = SetLanguage unmarshal en ru (detectLanguage LANG)"

section \<open>Lemmas\<close>

lemma upper_ru [simp]: "map upper_char ''ru'' = ''RU''" "map upper_char ''EN'' = ''EN''"
  by code_simp+

lemma normalizeLang_prefix:
  assumes "c \<in> set language" and "c \<in> {CHR ''-'', CHR ''_''}" and "nl \<notin> set language"
  shows "\<exists>i < length language. normalizeLang language = take i language"
proof -
  obtain i where i: "i < length language" "language ! i = c" using assms(1) by (auto simp: in_set_conv_nth)
  have "separator_at language i" using i assms(2,3)
    by (auto simp: separator_at_def dest: in_set_takeD in_set_dropD set_dropWhileD)
  then have "i \<in> set (filter (separator_at language) [0..<length language])" using i(1) by simp
  then have ne: "filter (separator_at language) [0..<length language] \<noteq> []" by fastforce
  then have "last (filter (separator_at language) [0..<length language]) < length language"
    using last_in_set [OF ne] by simp
  with ne show ?thesis by (auto simp: normalizeLang_def Let_def)
qed

section \<open>Properties\<close>

text \<open>A locale never chooses Russian: a name with a language and a region (\<open>ru_RU\<close>, \<open>ru_RU.UTF-8\<close>) is cut at its last dash or
  underscore and not put into upper case, so unless it starts with a capital letter the messages are the English
  ones. The bare name of the language does work.\<close>

theorem locale_is_english:
  assumes "c \<in> set language" and "c \<in> {CHR ''-'', CHR ''_''}" and "nl \<notin> set language"
    and "hd language \<noteq> CHR ''R''"
  shows "init_locale unmarshal en ru (Some language) = init_locale unmarshal en ru None \<and>
    getMessages unmarshal en ru ''ru'' = (case unmarshal ru of Inl err \<Rightarrow> Inl (Panic err) | Inr m \<Rightarrow> Inr m)"
proof -
  obtain i where i: "i < length language" "normalizeLang language = take i language"
    using normalizeLang_prefix [OF assms(1-3)] by blast
  have "take i language \<noteq> ''RU''" using assms(4) i(1) by (cases language; cases i) auto
  moreover have "normalizeLang ''EN'' = ''EN''" "normalizeLang ''ru'' = ''RU''"
    by (simp_all add: normalizeLang_def separator_at_def to_upper_def Let_def upt_rec upper_ru [simplified])
  ultimately show ?thesis using i(2) by (auto simp: init_locale_def SetLanguage_def detectLanguage_def getMessages_def langMap_def Let_def)
qed

theorem locale_is_english_witness:
  "init_locale Inr ''english'' ''russian'' (Some ''ru_RU.UTF-8'') = Inr ''english'' \<and>
    getMessages Inr ''english'' ''russian'' ''ru'' = Inr ''russian''"
proof -
  have "init_locale Inr ''english'' ''russian'' None = Inr ''english''"
    by (simp add: init_locale_def SetLanguage_def detectLanguage_def getMessages_def langMap_def normalizeLang_def separator_at_def to_upper_def upt_rec Let_def upper_ru [simplified])
  with locale_is_english [of "CHR ''_''" "''ru_RU.UTF-8''" Inr "''english''" "''russian''"] show ?thesis
    by (simp add: nl_def)
qed

end
