(* ===== verification/Os_Info.thy ===== *)
theory Os_Info
  imports Errors
begin

text \<open>
  \<open>telephonist/os.go\<close>: the description of the operating system in the client's first message (\<open>env_osInfo\<close> of the model
  of the WebSocket client). The kernel fills arrays of signed bytes, here words of 8 bits; the result of the system call \<open>uname\<close> is an argument.
\<close>

section \<open>Definitions\<close>

fun int8ToStr :: "8 word list \<Rightarrow> string" where
  "int8ToStr [] = []"
| "int8ToStr (v # arr) = (if v = 0 then [] else char_of (unat v) # int8ToStr arr)"

record utsname =
  Sysname :: "8 word list"
  Release :: "8 word list"
  Version :: "8 word list"

definition getOsInfo :: "goerror + utsname \<Rightarrow> string \<times> goerror option" where
  "getOsInfo uname =
     (case uname of
        Inl err \<Rightarrow> ([], Some err)
      | Inr u \<Rightarrow> (int8ToStr (Sysname u) @ '' '' @ int8ToStr (Release u) @ '' '' @ int8ToStr (Version u), None))"

section \<open>Lemmas\<close>

text \<open>A text as the kernel writes it: its bytes, a zero byte, and whatever is left in the array.\<close>

definition c_string :: "string \<Rightarrow> 8 word list \<Rightarrow> 8 word list" where
  "c_string s rest = map (\<lambda>c. of_nat (of_char c)) s @ 0 # rest"

lemma unat_byte [simp]: "unat (of_nat (of_char c) :: 8 word) = of_char c"
proof -
  have "(of_char c :: nat) < 256" using nat_of_char_less_256 [of c] .
  then show ?thesis by (simp add: unat_of_nat take_bit_eq_mod)
qed

lemma byte_zero: "(of_nat (of_char c) :: 8 word) = 0 \<longleftrightarrow> c = CHR 0x00"
proof -
  have "(of_nat (of_char c) :: 8 word) = 0 \<longleftrightarrow> (of_char c :: nat) = 0"
    using unat_byte [of c] by (metis unat_eq_zero)
  also have "\<dots> \<longleftrightarrow> c = CHR 0x00" using of_char_eq_iff [of c "CHR 0x00", where 'a = nat] by simp
  finally show ?thesis .
qed

lemma int8ToStr_c_string: "CHR 0x00 \<notin> set s \<Longrightarrow> int8ToStr (c_string s rest) = s"
  by (induction s) (auto simp: c_string_def byte_zero)

section \<open>Properties\<close>

text \<open>The description of the operating system is read back from the arrays of \<open>uname\<close> exactly as the kernel wrote it: name,
  release and version, each up to its first zero byte, whatever follows that byte; bytes above 127, negative as \<open>int8\<close>, are kept.\<close>

theorem os_info_roundtrip:
  assumes "CHR 0x00 \<notin> set name" and "CHR 0x00 \<notin> set release" and "CHR 0x00 \<notin> set version"
  shows "getOsInfo (Inr \<lparr>Sysname = c_string name r1, Release = c_string release r2, Version = c_string version r3\<rparr>) =
    (name @ '' '' @ release @ '' '' @ version, None)"
  using assms by (simp add: getOsInfo_def int8ToStr_c_string)

theorem os_info_roundtrip_witness:
  "getOsInfo (Inr \<lparr>Sysname = c_string ''Linux'' [7], Release = c_string ''6.1'' [], Version = c_string ''#1'' [0, 3]\<rparr>) =
    (''Linux 6.1 #1'', None)"
  using os_info_roundtrip [of "''Linux''" "''6.1''" "''#1''" "[7]" "[]" "[0, 3]"] by simp

end
