(* ===== verification/Spec2Isabelle.thy ===== *)
theory Spec2Isabelle
  imports Agent_Jobs Agent_Outcome Agent_Restart Task_Logs WS_Subscriptions Validation_Tag Command_Line Locales Os_Info
begin

text \<open>
  A model of TelephonistAgent, an agent in Go that keeps a connection to a Telephonist server, receives
  tasks from it, runs them when their triggers fire, and reports their output.

  \<^bold>\<open>The program.\<close> The main action (\<open>app.go\<close>) loads the configuration, makes the REST client (\<open>telephonist/client.go\<close>), and starts the
  application scheduler (\<open>scheduler.go\<close>). That one loads its tasks from a file, starts the WebSocket client
  (\<open>telephonist/wsclient.go\<close>) in a goroutine, and builds a task scheduler (\<open>taskscheduler/task_scheduler.go\<close>) on a composite of three
  trigger schedulers (\<open>taskscheduler/trigger_scheduler.go\<close>): times (gocron), events of the server (through an event queue of the
  WebSocket client, \<open>telephonist/events.go\<close>) and changes of files (fsnotify). The WebSocket client decodes what the server sends and
  calls back with new lists of tasks; the application scheduler schedules them. When a trigger fires, its callback runs up through the
  task scheduler to the application scheduler, which asks the server for a sequence, runs the task with the shell
  executor (\<open>taskexecutor/executor.go\<close>), sends the output that the output buffer (\<open>taskexecutor/output.go\<close>) gathers as logs through
  the WebSocket client, and reports the end.

  \<^bold>\<open>Theories.\<close>
  \<^item> \<open>Prelude\<close>: words, Go maps and channels, the outcome of running Go code (a value, a panic, a fatal exit, or
    blocking for ever), the loop over a slice. \<open>Go_Strings\<close>, \<open>Go_Net\<close>, \<open>Json_Text\<close>: what the program uses of \<open>strings\<close>, \<open>path\<close>,
    \<open>net/url\<close> and \<open>encoding/json\<close>. \<open>Errors\<close>: the concrete error types and their texts.
  \<^item> \<open>Telephonist_Types\<close>: triggers, tasks, log records, the 64-bit FNV hash behind \<open>GetID\<close>. \<open>Validation_Tag\<close>: the tag that the package
    registers with the validator.
  \<^item> \<open>Script_Utils\<close>, \<open>Output_Buffer\<close>, \<open>Output_Writers\<close>, \<open>Shell_Executor\<close>: the execution of one task. \<open>Output_Writers\<close> is \<open>Write\<close> as the two
    goroutines of \<open>Execute\<close> run it without a lock, one access to the buffer per step, next to \<open>flushLoop\<close>.
  \<^item> \<open>Channel_Registry\<close> (locale), \<open>WS_Client\<close>, \<open>Event_Queue\<close>, \<open>WS_Lifecycle\<close>, \<open>WS_Subscriptions\<close>, \<open>Os_Info\<close>: the WebSocket client. \<open>ws_client\<close> is the struct
    \<open>WSClient\<close>; \<open>WS_Lifecycle\<close> adds the goroutines \<open>runLoop\<close>, \<open>readPump\<close>, \<open>writePump\<close> and their interleaving,
    \<open>WS_Subscriptions\<close> what the server is told in all of them.
  \<^item> \<open>Triggers_Scheduler\<close> (locale), \<open>Cron_Triggers\<close>, \<open>FS_Triggers\<close>, \<open>Event_Triggers\<close>, \<open>Composite_Triggers\<close>, \<open>Agent_Triggers\<close>: the
    interface \<open>TriggersScheduler\<close>, its four implementations, and the composite the agent builds. Every implementation is
    an interpretation of the locale, the composite over any children that satisfy it.
  \<^item> \<open>Task_Scheduler\<close> (generic, in the locale), \<open>Agent_Tasks\<close>: the task scheduler on any trigger scheduler, and on the agent's own.
  \<^item> \<open>Rest_Client\<close>, \<open>Config_Files\<close>, \<open>Sequence_DB\<close>: the requests to the server, the files (\<open>config.go\<close>, part of \<open>scheduler.go\<close>), the database
    (\<open>db\<close>).
  \<^item> \<open>App_Scheduler\<close>, \<open>Agent_Start\<close>, \<open>Agent_Runs\<close>: \<open>scheduler.go\<close>: updates from the server and runs of tasks; construction,
    start and stop; runs against the REST client.
  \<^item> \<open>Agent_Plan\<close>, \<open>Agent_Children\<close>, \<open>Agent_Schedules\<close>, \<open>Agent_Updates\<close>, \<open>Agent_Messages\<close>, \<open>Agent_Sessions\<close>, \<open>Agent_Fires\<close>, \<open>Agent_Flow\<close>,
    \<open>Agent_Jobs\<close>: the agent as a whole. The first is its specification, a plan computed from the messages of the server; the others show
    that the task scheduler, the composite and its children, the event queue and the client carry it out: what the children hold
    (\<open>agent_carries\<close>), what the task scheduler holds (\<open>flow_state\<close>), a new version of a task (the loops of \<open>Schedule\<close>), a message, a
    connection that is lost and made again, and the way from an event of the server, a job of \<open>gocron\<close> or a change of a file to the runs.
    \<open>Agent_Connected\<close> (locale), \<open>Agent_Outcome\<close>: messages leave the connection up, and a run that an event starts is executed to its end.
  \<^item> \<open>Task_Logs\<close>: the output of tasks from the output buffer to the connection, among everything else the client sends.
    \<open>Agent_Restart\<close>: the files of the agent over a restart.
  \<^item> \<open>Console\<close>, \<open>Agent_App\<close>, \<open>Status_Server\<close>, \<open>Service_Install\<close>, \<open>Command_Line\<close>, \<open>Locales\<close>: \<open>utils.go\<close>, the dialogues and the main action of
    \<open>app.go\<close>, \<open>httpServer.go\<close>, \<open>linuxService.go\<close>, the flags, the lock and the life of the process (\<open>app.go\<close>, \<open>main.go\<close>),
    \<open>locales/main.go\<close>.

  Definitions carry the names of the source, with a prefix where two components share one (\<open>TS_Schedule\<close>,
  \<open>FS_Schedule\<close>), and fields carry the prefix of their struct.

  \<^bold>\<open>What the lemmas show.\<close> Invariants of each component and of the running client in every interleaving (\<open>sys_ok\<close>, the invariants of the
  schedulers), and that every operation keeps them; the effect of the operations on every branch: what is scheduled and
  subscribed, what is delivered and written in which order, the environment and standard input of a task, the requests and their
  errors; round trips (configuration files, query strings, identifiers, scheduling and unscheduling). Of the output of a task: in every
  interleaving of the writes only a part of it, in order, reaches the log, and all that was read from the pipes when the writes do not overlap; when they
  do, output can be lost and the process can crash. Across the components, for a server that keeps to the rules of \<open>life_ok\<close> (triggers of
  known types that can be decoded, no trigger shared by two tasks, in a task twice or brought back, no task twice in a list, an introduction
  and greetings at the start of every later connection, which is lost only between two handlers, fewer than \<open>2^32\<close> triggers): after any such messages on
  any number of connections an agent has asked for exactly the events of its plan, and an event, a job of \<open>gocron\<close> and a change of a
  file run exactly the tasks of the plan, each once; the script of such a task runs with the event in its environment and its output goes to the
  connection. What happens outside the rules is shown too: a shared trigger only runs the task registered last (\<open>TS_shared_trigger_lost\<close>), one that
  comes back crashes the process (\<open>TS_readd_panics\<close>). On a connection that holds, what the output buffer of a task hands over reaches the
  server, and it is never reordered on any; the next agent on the same folder has the last configuration and identity; which questions and loops return and with
  what; and, where the code does not do what it means to, a theorem that says what it does (panics on nil maps, channels and connections, lost
  registrations, shutdowns that never return).

  \<^bold>\<open>Arguments and hypotheses.\<close> Code outside the repository is an argument: gocron, fsnotify, gorequest, the WebSocket connection, bbolt, the file lock, JSON
  codecs of structs, the clock, the operating system. What gocron, fsnotify, bbolt, the lock and pipes promise is a
  named predicate (\<open>gocron_docs\<close>, \<open>watcher_docs\<close>, \<open>bolt_docs\<close>, \<open>fslock_docs\<close>, \<open>pipe_docs\<close>) with an instance that satisfies it. The watches of fsnotify belong to the
  files that paths name (\<open>node\<close>), not to the paths. The run of a command (\<open>os_run\<close>) is the list of the steps that its goroutines take, with
  what they read from the pipes; \<open>os_output\<close> is what the command wrote, of which they may read only the beginning, as \<open>cmd.Run\<close> closes the pipes when the process has
  ended. That the goroutines come to their end is a hypothesis (\<open>copies_end\<close>), and so is that their writes do not overlap (\<open>copies_serially\<close>), where a result
  needs it. The order in which \<open>range\<close> visits a map is an argument of every loop over a map.

  \<^bold>\<open>Bounds and termination.\<close> No function uses fuel. Loops over slices and over the lines of a terminal are structural
  recursion; the loops that may never end (\<open>readStringWithCondition\<close>, \<open>key_loop\<close>) are partial functions with the value \<open>None\<close> for not
  returning; the endless loops of goroutines are one step per round. Identifiers of triggers are 64-bit and those of event channels 32-bit words that wrap;
  counters that are Go's \<open>int\<close> are integers, as they stay below the number of calls. A pipe has a capacity, which is an argument.

  \<^bold>\<open>Not modelled.\<close> The library that parses the command line (its result is a record of flags), printed texts, logging, the generated structs of message
  texts, a wrapper of \<open>json.Unmarshal\<close>, types that nothing uses, and tests. A list of tasks holds tasks: the element \<open>null\<close>, which
  the decoder makes a nil pointer, is not a value of the model, neither among tasks nor among the triggers of one. Data races on fields without a lock (the program has
  some, for instance on \<open>state\<close> of the client): a step of a goroutine is atomic, a round of \<open>readPump\<close> and \<open>writePump\<close> with their handlers and \<open>onDisconnect\<close>
  included; only \<open>Write\<close> of the output buffer is taken apart. The panic of the WebSocket library on writes at the same time (that on too many reads of a failed
  connection is a result of a read). A last line of the terminal without a line feed. Files that are moved or replaced while they are watched. The
  lengths of time-outs and pauses.
\<close>

end
